(* ===== verification/Prelude.thy ===== *)
theory Prelude
  imports Main "HOL-Library.Word" "HOL-Library.Char_ord"
begin

text \<open>
  Shared vocabulary of the development: the machine types of the C code, C strings, the
  bounded digit arithmetic that several parsers rely on, and the rule collections the
  component theories fill.

  The platform modelled is a 64-bit little-endian one: \<^verbatim>\<open>size_t\<close> is 64 bits wide and a
  pointer takes 8 bytes.

  A C string is the list of the bytes in front of its terminator, read with \<open>peek\<close>: reading
  at the end of the list yields the terminating null character, exactly as dereferencing a
  pointer to the terminator does. Advancing the pointer is \<open>tl\<close>. The models never advance
  past the terminator because the code does not.
\<close>

unbundle bit_operations_syntax

type_synonym byte = "8 word"
type_synonym u32 = "32 word"
type_synonym u64 = "64 word"
type_synonym size_t = "64 word"

named_theorems cstr_simps \<open>evaluation of the C string primitives\<close>
named_theorems ascii_simps \<open>facts on the US-ASCII character functions\<close>
named_theorems word_conv \<open>from word operations to arithmetic on natural numbers\<close>

section \<open>C strings\<close>

abbreviation NUL :: char where
  "NUL \<equiv> CHR 0x00"

abbreviation TAB :: char where
  "TAB \<equiv> CHR 0x09"

abbreviation CR :: char where
  "CR \<equiv> CHR 0x0D"

abbreviation LF :: char where
  "LF \<equiv> CHR 0x0A"

definition peek :: "string \<Rightarrow> char" where
  "peek s = (case s of [] \<Rightarrow> NUL | c # _ \<Rightarrow> c)"

definition c_string :: "string \<Rightarrow> bool" where
  "c_string s \<longleftrightarrow> NUL \<notin> set s"

text \<open>\<^verbatim>\<open>strlen\<close> and the string a pointer to these bytes denotes.\<close>

definition strlen :: "string \<Rightarrow> nat" where
  "strlen s = length (takeWhile (\<lambda>c. c \<noteq> NUL) s)"

text \<open>
  \<^verbatim>\<open>strchr\<close>: the index of the first occurrence of \<open>c\<close> in front of the terminator.
\<close>

fun strchr :: "string \<Rightarrow> char \<Rightarrow> nat option" where
  "strchr [] c = None"
| "strchr (x # xs) c =
     (if x = c then Some 0 else if x = NUL then None else map_option Suc (strchr xs c))"

lemma peek_Nil [simp, cstr_simps]: "peek [] = NUL"
  by (simp add: peek_def)

lemma peek_Cons [simp, cstr_simps]: "peek (c # s) = c"
  by (simp add: peek_def)

lemma peek_not_NUL: "peek s \<noteq> NUL \<Longrightarrow> s \<noteq> [] \<and> s = peek s # tl s"
  by (cases s) auto

lemma peek_dropWhile: "peek (dropWhile P s) \<noteq> NUL \<Longrightarrow> \<not> P (peek (dropWhile P s))"
  by (induction s) auto

lemma c_string_Nil [simp]: "c_string []"
  by (simp add: c_string_def)

lemma c_string_Cons [simp]: "c_string (c # s) \<longleftrightarrow> c \<noteq> NUL \<and> c_string s"
  by (auto simp: c_string_def)

lemma c_string_append [simp]: "c_string (s @ t) \<longleftrightarrow> c_string s \<and> c_string t"
  by (auto simp: c_string_def)

lemma c_string_tl: "c_string s \<Longrightarrow> c_string (tl s)"
  by (cases s) auto

lemma c_string_dropWhile: "c_string s \<Longrightarrow> c_string (dropWhile P s)"
  by (auto simp: c_string_def dest: set_dropWhileD)

lemma c_string_peek: "c_string s \<Longrightarrow> peek s = NUL \<longleftrightarrow> s = []"
  by (cases s) auto

lemma strlen_c_string [simp]: "c_string s \<Longrightarrow> strlen s = length s"
proof -
  assume "c_string s"
  then have "takeWhile (\<lambda>c. c \<noteq> NUL) s = s"
    by (auto simp: c_string_def takeWhile_eq_all_conv)
  then show ?thesis
    by (simp only: strlen_def)
qed

lemma strchr_None: "c_string s \<Longrightarrow> strchr s c = None \<longleftrightarrow> c \<notin> set s"
  by (induction s) auto

lemma strchr_Some:
  assumes "strchr s c = Some i"
  shows "i < length s \<and> s ! i = c \<and> c \<notin> set (take i s)"
  using assms by (induction s arbitrary: i) (auto split: if_splits simp: less_Suc_eq_0_disj)

lemma strchr_split:
  assumes "strchr s c = Some i"
  shows "s = take i s @ c # drop (Suc i) s"
  using strchr_Some [OF assms] by (metis id_take_nth_drop)

lemma strchr_append:
  "c \<notin> set s \<Longrightarrow> c_string s \<Longrightarrow> strchr (s @ c # t) c = Some (length s)"
  by (induction s) auto

lemma dropWhile_length_le [simp]: "length (dropWhile P s) \<le> length s"
  by (induction s) auto

section \<open>Bytes and characters\<close>

definition byte_of_char :: "char \<Rightarrow> byte" where
  "byte_of_char c = word_of_nat (of_char c)"

definition char_of_byte :: "byte \<Rightarrow> char" where
  "char_of_byte b = char_of (unat b)"

lemma char_of_byte_of_char [simp]: "char_of_byte (byte_of_char c) = c"
  by (simp add: char_of_byte_def byte_of_char_def unat_of_nat)

lemma byte_of_char_of_byte [simp]: "byte_of_char (char_of_byte b) = b"
proof -
  have "unat b < 256"
    using unsigned_less [of b, where ?'a = nat] by simp
  then show ?thesis
    by (simp add: char_of_byte_def byte_of_char_def)
qed

section \<open>Bounded digit accumulation\<close>

text \<open>
  Every number parser of the library guards \<^verbatim>\<open>res * base + digit\<close> by comparing \<^verbatim>\<open>res\<close> with
  \<open>M div base\<close> and the digit with \<open>M mod base\<close>. The guard rejects exactly the values
  above \<open>M\<close>.
\<close>

lemma digit_guard_iff:
  fixes M res b d :: nat
  assumes "0 < b" and "d < b"
  shows "(res > M div b \<or> (res = M div b \<and> d > M mod b)) \<longleftrightarrow> res * b + d > M"
proof -
  have M: "M = M div b * b + M mod b" and m: "M mod b < b"
    using assms by simp_all
  consider (less) "res < M div b" | (eq) "res = M div b" | (gt) "res > M div b"
    by linarith
  then show ?thesis
  proof cases
    case less
    then have "Suc res * b \<le> M div b * b" by (intro mult_le_mono1) simp
    also have "\<dots> \<le> M" by (rule div_times_less_eq_dividend)
    finally have "res * b + b \<le> M" by simp
    with less assms show ?thesis by simp
  next
    case eq
    with M show ?thesis by (metis add_less_cancel_left less_irrefl)
  next
    case gt
    then have "Suc (M div b) * b \<le> res * b" by (intro mult_le_mono1) simp
    moreover have "M < Suc (M div b) * b" using M m by (metis add.commute add_less_cancel_left mult_Suc)
    ultimately have "M < res * b" by linarith
    with gt show ?thesis by simp
  qed
qed

lemma unat_mult_add_word:
  fixes r :: "'a::len word"
  assumes "unat r * b + d < 2 ^ LENGTH('a)" and "b < 2 ^ LENGTH('a)"
  shows "unat (r * word_of_nat b + word_of_nat d) = unat r * b + d"
proof -
  have "r * word_of_nat b + word_of_nat d = word_of_nat (unat r * b + d)"
    by simp
  then show ?thesis
    using assms(1) by (simp only: unat_of_nat mod_less)
qed

lemma digit_guard_word:
  fixes r M :: "'a::len word"
  assumes "0 < b" and "d < b" and "b < 2 ^ LENGTH('a)"
  shows "(r > M div word_of_nat b \<or> (r = M div word_of_nat b \<and> word_of_nat d > M mod word_of_nat b))
         \<longleftrightarrow> unat r * b + d > unat M"
proof -
  have b: "unat (word_of_nat b :: 'a word) = b" and d: "unat (word_of_nat d :: 'a word) = d"
    using assms by (simp_all add: unat_of_nat)
  have eq: "r = M div word_of_nat b \<longleftrightarrow> unat r = unat M div b"
    by (metis b unat_div word_unat_eq_iff)
  show ?thesis
    by (simp add: word_less_nat_alt unat_div unat_mod b d eq digit_guard_iff [OF assms(1,2)])
qed

section \<open>Digit systems\<close>

text \<open>
  What the number parsers share: a digit function on characters, negative outside the digits,
  below the base on them, and negative on the terminator. The value of a digit string is
  accumulated from the left; it never decreases, so a prefix that is too large cannot be
  repaired by further digits.
\<close>

definition acc_value :: "nat \<Rightarrow> (char \<Rightarrow> int) \<Rightarrow> nat \<Rightarrow> string \<Rightarrow> nat" where
  "acc_value b dval a ds = foldl (\<lambda>a c. a * b + nat (dval c)) a ds"

text \<open>
  The reference parser: the longest digit prefix, its value if it is at most \<open>M\<close>. The first
  component is the number of characters consumed, 0 on failure.
\<close>

definition parse_digits :: "nat \<Rightarrow> (char \<Rightarrow> int) \<Rightarrow> nat \<Rightarrow> string \<Rightarrow> nat \<times> nat option" where
  "parse_digits b dval M s =
     (let ds = takeWhile (\<lambda>c. 0 \<le> dval c) s; v = acc_value b dval 0 ds in
      if ds = [] \<or> M < v then (0, None) else (length ds, Some v))"

text \<open>The same with \<open>n\<close> digits already consumed and the value \<open>a\<close> accumulated.\<close>

definition parse_from :: "nat \<Rightarrow> (char \<Rightarrow> int) \<Rightarrow> nat \<Rightarrow> nat \<Rightarrow> nat \<Rightarrow> string \<Rightarrow> nat \<times> nat option" where
  "parse_from b dval M n a s =
     (let ds = takeWhile (\<lambda>c. 0 \<le> dval c) s; v = acc_value b dval a ds in
      if n + length ds = 0 \<or> M < v then (0, None) else (n + length ds, Some v))"

lemma acc_value_Nil [simp]: "acc_value b dval a [] = a"
  by (simp add: acc_value_def)

lemma acc_value_Cons [simp]:
  "acc_value b dval a (c # ds) = acc_value b dval (a * b + nat (dval c)) ds"
  by (simp add: acc_value_def)

lemma acc_value_append: "acc_value b dval a (ds @ es) = acc_value b dval (acc_value b dval a ds) es"
  by (simp add: acc_value_def)

lemma parse_digits_from: "parse_digits b dval M s = parse_from b dval M 0 0 s"
  by (simp add: parse_digits_def parse_from_def Let_def)

locale digit_system =
  fixes b :: nat and dval :: "char \<Rightarrow> int"
  assumes b_pos: "0 < b"
    and dval_less: "dval c < int b"
    and dval_NUL: "dval NUL < 0"
begin

lemma acc_value_ge: "a \<le> acc_value b dval a ds"
proof (induction ds arbitrary: a)
  case (Cons c ds)
  have "a \<le> a * b + nat (dval c)"
    using b_pos by (metis mult_le_mono2 nat_mult_1_right Suc_leI One_nat_def trans_le_add1)
  also have "\<dots> \<le> acc_value b dval a (c # ds)"
    using Cons.IH by simp
  finally show ?case .
qed simp

lemma acc_value_less: "acc_value b dval a ds < (a + 1) * b ^ length ds"
proof (induction ds arbitrary: a)
  case (Cons c ds)
  have d: "nat (dval c) < b"
    using dval_less [of c] b_pos by simp
  have "acc_value b dval a (c # ds) < (a * b + nat (dval c) + 1) * b ^ length ds"
    using Cons.IH by simp
  also have "\<dots> \<le> ((a + 1) * b) * b ^ length ds"
    using d by (intro mult_le_mono1) (simp add: algebra_simps)
  finally show ?case by (simp add: algebra_simps)
qed simp

lemma parse_from_stop: "dval (peek s) < 0 \<Longrightarrow>
    parse_from b dval M n a s = (if n = 0 \<or> M < a then (0, None) else (n, Some a))"
  by (cases s) (auto simp: parse_from_def)

lemma parse_from_step: "0 \<le> dval c \<Longrightarrow>
    parse_from b dval M n a (c # s) =
      (if M < a * b + nat (dval c) then (0, None)
       else parse_from b dval M (n + 1) (a * b + nat (dval c)) s)"
  using acc_value_ge [of "a * b + nat (dval c)" "takeWhile (\<lambda>c. 0 \<le> dval c) s"]
  by (auto simp: parse_from_def Let_def)

end

section \<open>Bounded memory\<close>

text \<open>Memory of a fixed size; an access outside of it is \<open>None\<close>.\<close>

definition rd_at :: "string \<Rightarrow> nat \<Rightarrow> char option" where
  "rd_at mem i = (if i < length mem then Some (mem ! i) else None)"

definition wr_at :: "string \<Rightarrow> nat \<Rightarrow> char \<Rightarrow> string option" where
  "wr_at mem i c = (if i < length mem then Some (mem[i := c]) else None)"

text \<open>\<^verbatim>\<open>memcpy (&mem[at], src, length)\<close> and reading \<open>n\<close> bytes at \<open>at\<close>\<close>

definition blit :: "string \<Rightarrow> nat \<Rightarrow> string \<Rightarrow> string option" where
  "blit mem at src = (if at + length src \<le> length mem
     then Some (take at mem @ src @ drop (at + length src) mem) else None)"

definition slice :: "string \<Rightarrow> nat \<Rightarrow> nat \<Rightarrow> string option" where
  "slice mem at n = (if at + n \<le> length mem then Some (take n (drop at mem)) else None)"

lemma blit_total: "at + length src \<le> length mem \<Longrightarrow> \<exists>m. blit mem at src = Some m \<and> length m = length mem"
  by (auto simp: blit_def)

end
