(* ===== verification/Mhd_Str.thy ===== *)
theory Mhd_Str
  imports Prelude
begin

text \<open>
  The locale-independent string functions of \<^verbatim>\<open>libmicrohttpd/src/microhttpd/mhd_str.c\<close>: the
  US-ASCII character functions, caseless comparison, the token search used on header values,
  and the number parsers in both build variants (one function per case, and the generic
  \<open>MHD_str_to_uvalue_n\<close> of the small-code build).

  Isabelle names cannot end in an underscore, so a function \<^verbatim>\<open>MHD_f_\<close> of the source is \<open>MHD_f\<close> here.

  A parser returns the pair of its \<^verbatim>\<open>size_t\<close> result and the value stored through
  \<^verbatim>\<open>out_val\<close>, \<open>None\<close> when nothing is stored. The pointer \<^verbatim>\<open>str\<close> is a \<open>string option\<close>
  (\<open>None\<close> for \<^verbatim>\<open>NULL\<close>), and \<open>has_out\<close> says that \<^verbatim>\<open>out_val\<close> is not \<^verbatim>\<open>NULL\<close>.
\<close>

section \<open>US-ASCII characters\<close>

definition isasciiupper :: "char \<Rightarrow> bool" where
  "isasciiupper c \<longleftrightarrow> CHR ''A'' \<le> c \<and> c \<le> CHR ''Z''"

definition isasciidigit :: "char \<Rightarrow> bool" where
  "isasciidigit c \<longleftrightarrow> CHR ''0'' \<le> c \<and> c \<le> CHR ''9''"

definition toasciilower :: "char \<Rightarrow> char" where
  "toasciilower c = (if isasciiupper c then char_of (of_char c - of_char CHR ''A'' + of_char CHR ''a'' :: nat) else c)"

definition todigitvalue :: "char \<Rightarrow> int" where
  "todigitvalue c = (if isasciidigit c then int (of_char c) - int (of_char CHR ''0'') else - 1)"

definition toxdigitvalue :: "char \<Rightarrow> int" where
  "toxdigitvalue c =
     (if isasciidigit c then int (of_char c) - int (of_char CHR ''0'')
      else if CHR ''A'' \<le> c \<and> c \<le> CHR ''F'' then int (of_char c) - int (of_char CHR ''A'') + 10
      else if CHR ''a'' \<le> c \<and> c \<le> CHR ''f'' then int (of_char c) - int (of_char CHR ''a'') + 10
      else - 1)"

section \<open>Caseless comparison\<close>

fun MHD_str_equal_caseless :: "string \<Rightarrow> string \<Rightarrow> bool" where
  "MHD_str_equal_caseless [] str2 = (peek str2 = NUL)"
| "MHD_str_equal_caseless (c1 # str1) str2 =
     (if c1 = NUL then peek str2 = NUL
      else let c2 = peek str2 in
        if c1 \<noteq> c2 \<and> toasciilower c1 \<noteq> toasciilower c2 then False
        else MHD_str_equal_caseless str1 (tl str2))"

fun MHD_str_equal_caseless_n :: "string \<Rightarrow> string \<Rightarrow> nat \<Rightarrow> bool" where
  "MHD_str_equal_caseless_n str1 str2 0 = True"
| "MHD_str_equal_caseless_n str1 str2 (Suc maxlen) =
     (let c1 = peek str1; c2 = peek str2 in
      if c2 = NUL then c1 = NUL
      else if c1 \<noteq> c2 \<and> toasciilower c1 \<noteq> toasciilower c2 then False
      else MHD_str_equal_caseless_n (tl str1) (tl str2) maxlen)"

section \<open>Token search\<close>

text \<open>
  The inner loop of \<open>MHD_str_has_token_caseless\<close> leaves in three ways: the function returns
  \<open>false\<close> at the end of the string, it returns \<open>true\<close>, or the loop is left with the string
  pointer advanced.
\<close>

datatype token_match = MatchEnd | MatchFound | MatchBreak string

definition is_ws :: "char \<Rightarrow> bool" where
  "is_ws c \<longleftrightarrow> c = CHR '' '' \<or> c = TAB"

fun match_token :: "string \<Rightarrow> string \<Rightarrow> nat \<Rightarrow> nat \<Rightarrow> token_match" where
  "match_token [] token token_len i = MatchEnd"
| "match_token (sc # str) token token_len i =
     (let tc = peek (drop i token) in
      if sc = NUL then MatchEnd
      else if sc \<noteq> tc \<and> toasciilower sc \<noteq> toasciilower tc then MatchBreak str
      else if token_len \<le> i + 1 then
        (let str' = dropWhile is_ws str in
         if peek str' = NUL \<or> peek str' = CHR '','' then MatchFound else MatchBreak str')
      else match_token str token token_len (i + 1))"

lemma match_token_shorter:
  "match_token str token token_len i = MatchBreak str' \<Longrightarrow> length str' < length str"
  by (induction str token token_len i rule: match_token.induct)
    (auto simp: Let_def le_imp_less_Suc split: if_splits)

function has_token_loop :: "string \<Rightarrow> string \<Rightarrow> nat \<Rightarrow> bool" where
  "has_token_loop str token token_len =
     (if peek str = NUL then False
      else case match_token (dropWhile (\<lambda>c. is_ws c \<or> c = CHR '','') str) token token_len 0 of
        MatchEnd \<Rightarrow> False
      | MatchFound \<Rightarrow> True
      | MatchBreak str' \<Rightarrow>
          has_token_loop (dropWhile (\<lambda>c. c \<noteq> NUL \<and> c \<noteq> CHR '','') str') token token_len)"
  by pat_completeness auto
termination
proof (relation "measure (\<lambda>(str, token, token_len). length str)", goal_cases)
  case 1
  show ?case by simp
next
  case (2 str token token_len str')
  let ?s = "dropWhile (\<lambda>c. is_ws c \<or> c = CHR '','') str"
  have "length str' < length ?s"
    using 2(2) by (rule match_token_shorter)
  moreover have "length ?s \<le> length str" by simp
  moreover have "length (dropWhile (\<lambda>c. c \<noteq> NUL \<and> c \<noteq> CHR '','') str') \<le> length str'" by simp
  ultimately show ?case by (simp del: dropWhile_length_le)
qed

declare has_token_loop.simps [simp del]

definition MHD_str_has_token_caseless :: "string \<Rightarrow> string \<Rightarrow> nat \<Rightarrow> bool" where
  "MHD_str_has_token_caseless str token token_len =
     (if token_len = 0 then False else has_token_loop str token token_len)"

section \<open>Number parsers\<close>

definition UINT64_MAX :: u64 where
  "UINT64_MAX = 0xFFFFFFFFFFFFFFFF"

definition UINT32_MAX :: u32 where
  "UINT32_MAX = 0xFFFFFFFF"

definition SIZE_MAX :: nat where
  "SIZE_MAX = 2 ^ 64 - 1"

text \<open>The \<^verbatim>\<open>do ... while\<close> loop of \<open>MHD_str_to_uint64\<close>; \<open>n\<close> counts the digits read.\<close>

fun str_to_uint64_loop :: "string \<Rightarrow> nat \<Rightarrow> u64 \<Rightarrow> nat \<times> u64 option" where
  "str_to_uint64_loop [] n res = (0, None)"
| "str_to_uint64_loop (c # str) n res =
     (let digit = word_of_int (int (of_char c) - int (of_char CHR ''0'')) :: u64 in
      if res > UINT64_MAX div 10 \<or> (res = UINT64_MAX div 10 \<and> digit > UINT64_MAX mod 10)
      then (0, None)
      else let res' = res * 10 + digit in
        if isasciidigit (peek str) then str_to_uint64_loop str (n + 1) res'
        else (n + 1, Some res'))"

definition MHD_str_to_uint64 :: "string option \<Rightarrow> bool \<Rightarrow> nat \<times> u64 option" where
  "MHD_str_to_uint64 str has_out =
     (case str of
        None \<Rightarrow> (0, None)
      | Some s \<Rightarrow>
          if \<not> has_out \<or> \<not> isasciidigit (peek s) then (0, None)
          else str_to_uint64_loop s 0 0)"

fun str_to_uint64_n_loop :: "string \<Rightarrow> nat \<Rightarrow> nat \<Rightarrow> u64 \<Rightarrow> nat \<times> u64 option" where
  "str_to_uint64_n_loop [] maxlen i res = (0, None)"
| "str_to_uint64_n_loop (c # str) maxlen i res =
     (let digit = word_of_int (int (of_char c) - int (of_char CHR ''0'')) :: u64 in
      if res > UINT64_MAX div 10 \<or> (res = UINT64_MAX div 10 \<and> digit > UINT64_MAX mod 10)
      then (0, None)
      else let res' = res * 10 + digit in
        if i + 1 < maxlen \<and> isasciidigit (peek str)
        then str_to_uint64_n_loop str maxlen (i + 1) res'
        else (i + 1, Some res'))"

definition MHD_str_to_uint64_n :: "string option \<Rightarrow> nat \<Rightarrow> bool \<Rightarrow> nat \<times> u64 option" where
  "MHD_str_to_uint64_n str maxlen has_out =
     (case str of
        None \<Rightarrow> (0, None)
      | Some s \<Rightarrow>
          if maxlen = 0 \<or> \<not> has_out \<or> \<not> isasciidigit (peek s) then (0, None)
          else str_to_uint64_n_loop s maxlen 0 0)"

fun strx_to_uint32_loop :: "string \<Rightarrow> nat \<Rightarrow> u32 \<Rightarrow> nat \<times> u32 option" where
  "strx_to_uint32_loop str n res =
     (let digit = toxdigitvalue (peek str) in
      if digit < 0 then (n, if n > 0 then Some res else None)
      else if res < UINT32_MAX div 16
           \<or> (res = UINT32_MAX div 16 \<and> word_of_int digit \<le> UINT32_MAX mod 16)
      then (case str of [] \<Rightarrow> (0, None)
            | _ # str' \<Rightarrow> strx_to_uint32_loop str' (n + 1) (res * 16 + word_of_int digit))
      else (0, None))"

definition MHD_strx_to_uint32 :: "string option \<Rightarrow> bool \<Rightarrow> nat \<times> u32 option" where
  "MHD_strx_to_uint32 str has_out =
     (case str of None \<Rightarrow> (0, None)
      | Some s \<Rightarrow> if \<not> has_out then (0, None) else strx_to_uint32_loop s 0 0)"

fun strx_to_uint32_n_loop :: "string \<Rightarrow> nat \<Rightarrow> nat \<Rightarrow> u32 \<Rightarrow> nat \<times> u32 option" where
  "strx_to_uint32_n_loop str maxlen i res =
     (if i < maxlen \<and> toxdigitvalue (peek str) \<ge> 0 then
        (let digit = toxdigitvalue (peek str) in
         if res > UINT32_MAX div 16
            \<or> (res = UINT32_MAX div 16 \<and> word_of_int digit > UINT32_MAX mod 16)
         then (0, None)
         else (case str of [] \<Rightarrow> (0, None)
               | _ # str' \<Rightarrow> strx_to_uint32_n_loop str' maxlen (i + 1) (res * 16 + word_of_int digit)))
      else (i, if i > 0 then Some res else None))"

definition MHD_strx_to_uint32_n :: "string option \<Rightarrow> nat \<Rightarrow> bool \<Rightarrow> nat \<times> u32 option" where
  "MHD_strx_to_uint32_n str maxlen has_out =
     (case str of None \<Rightarrow> (0, None)
      | Some s \<Rightarrow> if \<not> has_out then (0, None) else strx_to_uint32_n_loop s maxlen 0 0)"

fun strx_to_uint64_loop :: "string \<Rightarrow> nat \<Rightarrow> u64 \<Rightarrow> nat \<times> u64 option" where
  "strx_to_uint64_loop str n res =
     (let digit = toxdigitvalue (peek str) in
      if digit < 0 then (n, if n > 0 then Some res else None)
      else if res < UINT64_MAX div 16
           \<or> (res = UINT64_MAX div 16 \<and> word_of_int digit \<le> UINT64_MAX mod 16)
      then (case str of [] \<Rightarrow> (0, None)
            | _ # str' \<Rightarrow> strx_to_uint64_loop str' (n + 1) (res * 16 + word_of_int digit))
      else (0, None))"

definition MHD_strx_to_uint64 :: "string option \<Rightarrow> bool \<Rightarrow> nat \<times> u64 option" where
  "MHD_strx_to_uint64 str has_out =
     (case str of None \<Rightarrow> (0, None)
      | Some s \<Rightarrow> if \<not> has_out then (0, None) else strx_to_uint64_loop s 0 0)"

fun strx_to_uint64_n_loop :: "string \<Rightarrow> nat \<Rightarrow> nat \<Rightarrow> u64 \<Rightarrow> nat \<times> u64 option" where
  "strx_to_uint64_n_loop str maxlen i res =
     (if i < maxlen \<and> toxdigitvalue (peek str) \<ge> 0 then
        (let digit = toxdigitvalue (peek str) in
         if res > UINT64_MAX div 16
            \<or> (res = UINT64_MAX div 16 \<and> word_of_int digit > UINT64_MAX mod 16)
         then (0, None)
         else (case str of [] \<Rightarrow> (0, None)
               | _ # str' \<Rightarrow> strx_to_uint64_n_loop str' maxlen (i + 1) (res * 16 + word_of_int digit)))
      else (i, if i > 0 then Some res else None))"

definition MHD_strx_to_uint64_n :: "string option \<Rightarrow> nat \<Rightarrow> bool \<Rightarrow> nat \<times> u64 option" where
  "MHD_strx_to_uint64_n str maxlen has_out =
     (case str of None \<Rightarrow> (0, None)
      | Some s \<Rightarrow> if \<not> has_out then (0, None) else strx_to_uint64_n_loop s maxlen 0 0)"

text \<open>
  The generic function of the small-code build. Its result is stored as a 64-bit value or,
  truncated, as a 32-bit one, according to \<open>val_size\<close>.
\<close>

datatype uvalue = U64 u64 | U32 u32

fun str_to_uvalue_n_loop ::
  "(char \<Rightarrow> int) \<Rightarrow> string \<Rightarrow> nat \<Rightarrow> u64 \<Rightarrow> u64 \<Rightarrow> u64 \<Rightarrow> nat \<Rightarrow> u64 \<Rightarrow> (nat \<times> u64) option" where
  "str_to_uvalue_n_loop dfunc str maxlen max_v_div_b max_v_mod_b base i res =
     (if maxlen > i \<and> 0 \<le> dfunc (peek str) then
        (let digit = dfunc (peek str) in
         if max_v_div_b < res \<or> (max_v_div_b = res \<and> max_v_mod_b < word_of_int digit)
         then None
         else (case str of [] \<Rightarrow> None
               | _ # str' \<Rightarrow>
                   str_to_uvalue_n_loop dfunc str' maxlen max_v_div_b max_v_mod_b base
                     (i + 1) (res * base + word_of_int digit)))
      else Some (i, res))"

definition MHD_str_to_uvalue_n ::
  "string option \<Rightarrow> nat \<Rightarrow> bool \<Rightarrow> nat \<Rightarrow> u64 \<Rightarrow> int \<Rightarrow> nat \<times> uvalue option" where
  "MHD_str_to_uvalue_n str maxlen has_out val_size max_val base =
     (let b = word_of_int base :: u64;
          max_v_div_b = max_val div b;
          max_v_mod_b = max_val mod b;
          dfunc = (if base = 16 then toxdigitvalue else todigitvalue) in
      case str of None \<Rightarrow> (0, None)
      | Some s \<Rightarrow>
          if \<not> has_out \<or> (base \<noteq> 16 \<and> base \<noteq> 10) then (0, None)
          else (case str_to_uvalue_n_loop dfunc s maxlen max_v_div_b max_v_mod_b b 0 0 of
                  None \<Rightarrow> (0, None)
                | Some (i, res) \<Rightarrow>
                    if i > 0 then
                      (if val_size = 8 then (i, Some (U64 res))
                       else if val_size = 4 then (i, Some (U32 (ucast res)))
                       else (0, None))
                    else (i, None)))"

declare strx_to_uint32_loop.simps [simp del] strx_to_uint32_n_loop.simps [simp del]
  strx_to_uint64_loop.simps [simp del] strx_to_uint64_n_loop.simps [simp del]
  str_to_uvalue_n_loop.simps [simp del]

section \<open>Facts on characters\<close>

lemma isasciiupper_code: "isasciiupper c \<longleftrightarrow> 65 \<le> (of_char c :: nat) \<and> (of_char c :: nat) \<le> 90"
  by (simp add: isasciiupper_def less_eq_char_def)

lemma isasciidigit_code [ascii_simps]:
  "isasciidigit c \<longleftrightarrow> 48 \<le> (of_char c :: nat) \<and> (of_char c :: nat) \<le> 57"
  by (simp add: isasciidigit_def less_eq_char_def)

lemma of_char_toasciilower:
  "(of_char (toasciilower c) :: nat) = (if isasciiupper c then of_char c + 32 else of_char c)"
  by (auto simp: toasciilower_def isasciiupper_code)

lemma toasciilower_NUL [simp]: "toasciilower c = NUL \<longleftrightarrow> c = NUL"
proof -
  have "toasciilower c = NUL \<longleftrightarrow> (of_char (toasciilower c) :: nat) = of_char NUL"
    by (simp only: of_char_eq_iff)
  also have "\<dots> \<longleftrightarrow> (of_char c :: nat) = of_char NUL"
    by (simp add: of_char_toasciilower isasciiupper_code)
  finally show ?thesis by (simp only: of_char_eq_iff)
qed

lemma NUL_toasciilower [simp]: "toasciilower NUL = NUL" "NUL = toasciilower c \<longleftrightarrow> c = NUL"
  using toasciilower_NUL [of NUL] toasciilower_NUL [of c] by (simp, metis)

lemma toasciilower_idem [simp]: "toasciilower (toasciilower c) = toasciilower c"
proof -
  have "\<not> isasciiupper (toasciilower c)"
    by (auto simp: isasciiupper_code of_char_toasciilower)
  then show ?thesis by (simp add: toasciilower_def [of "toasciilower c"])
qed

lemma toasciilower_id: "\<not> isasciiupper c \<Longrightarrow> toasciilower c = c"
  by (simp add: toasciilower_def)

lemma toasciilower_eq_nonletter:
  assumes "\<not> isasciiupper d" and "(of_char d :: nat) < 97"
  shows "toasciilower c = d \<longleftrightarrow> c = d"
proof
  assume eq: "toasciilower c = d"
  have "\<not> isasciiupper c"
    using of_char_toasciilower [of c] assms(2) by (auto simp: eq isasciiupper_code)
  with eq show "c = d" by (simp add: toasciilower_id)
qed (simp add: toasciilower_id assms(1))

lemma toasciilower_sep [simp]:
  "toasciilower c = CHR '','' \<longleftrightarrow> c = CHR '',''" "toasciilower c = CHR '' '' \<longleftrightarrow> c = CHR '' ''"
  "toasciilower c = TAB \<longleftrightarrow> c = TAB"
  by (rule toasciilower_eq_nonletter; simp add: isasciiupper_code)+

lemma todigitvalue_nonneg [simp]: "0 \<le> todigitvalue c \<longleftrightarrow> isasciidigit c"
  by (auto simp: todigitvalue_def isasciidigit_code)

lemma todigitvalue_less: "todigitvalue c < 10"
  by (auto simp: todigitvalue_def isasciidigit_code)

lemma toxdigitvalue_less: "toxdigitvalue c < 16"
  by (auto simp: toxdigitvalue_def isasciidigit_code less_eq_char_def)

lemma digit_NUL [simp]: "todigitvalue NUL = - 1" "toxdigitvalue NUL = - 1" "\<not> isasciidigit NUL"
  by (simp_all add: todigitvalue_def toxdigitvalue_def isasciidigit_code less_eq_char_def)

interpretation dec: digit_system 10 todigitvalue
  by unfold_locales (simp_all add: todigitvalue_less)

interpretation hex: digit_system 16 toxdigitvalue
  by unfold_locales (simp_all add: toxdigitvalue_less)

section \<open>Caseless comparison\<close>

lemma caseless_char: "(c1 \<noteq> c2 \<and> toasciilower c1 \<noteq> toasciilower c2) \<longleftrightarrow> toasciilower c1 \<noteq> toasciilower c2"
  by auto

lemma equal_caseless_iff:
  "c_string s \<Longrightarrow> c_string t \<Longrightarrow>
   MHD_str_equal_caseless s t \<longleftrightarrow> map toasciilower s = map toasciilower t"
proof (induction s arbitrary: t)
  case Nil
  then show ?case by (cases t) auto
next
  case (Cons c s)
  show ?case
  proof (cases t)
    case Nil
    with Cons.prems show ?thesis by (simp add: Let_def)
  next
    case (Cons d t')
    with Cons.IH [of t'] Cons.prems show ?thesis by (auto simp: Let_def)
  qed
qed

lemma equal_caseless_n_iff:
  "c_string s \<Longrightarrow> c_string t \<Longrightarrow>
   MHD_str_equal_caseless_n s t n \<longleftrightarrow> map toasciilower (take n s) = map toasciilower (take n t)"
proof (induction n arbitrary: s t)
  case (Suc n)
  show ?case
  proof (cases t)
    case Nil
    with Suc.prems show ?thesis by (cases s) (auto simp: Let_def)
  next
    case (Cons d t')
    with Suc show ?thesis
      by (cases s) (auto simp: Let_def)
  qed
qed simp

section \<open>The parsers against the reference\<close>

definition store :: "(nat \<Rightarrow> 'a) \<Rightarrow> nat \<times> nat option \<Rightarrow> nat \<times> 'a option" where
  "store w r = map_prod id (map_option w) r"

lemma store_simps [simp]: "store w (n, None) = (n, None)" "store w (n, Some v) = (n, Some (w v))"
  by (simp_all add: store_def)

lemma unat_UINT_MAX [simp]: "unat UINT32_MAX = 2 ^ 32 - 1" "unat UINT64_MAX = 2 ^ 64 - 1"
  by (simp_all add: UINT32_MAX_def UINT64_MAX_def)

lemma hex_guard_u32:
  assumes "0 \<le> toxdigitvalue c"
  shows "(res > UINT32_MAX div 16 \<or> (res = UINT32_MAX div 16 \<and> word_of_int (toxdigitvalue c) > UINT32_MAX mod 16))
    \<longleftrightarrow> 2 ^ 32 - 1 < unat res * 16 + nat (toxdigitvalue c)"
  using digit_guard_word [where b = 16 and d = "nat (toxdigitvalue c)" and r = res and M = UINT32_MAX]
    toxdigitvalue_less [of c] assms
  by simp

lemma hex_guard_u64:
  assumes "0 \<le> toxdigitvalue c"
  shows "(res > UINT64_MAX div 16 \<or> (res = UINT64_MAX div 16 \<and> word_of_int (toxdigitvalue c) > UINT64_MAX mod 16))
    \<longleftrightarrow> 2 ^ 64 - 1 < unat res * 16 + nat (toxdigitvalue c)"
  using digit_guard_word [where b = 16 and d = "nat (toxdigitvalue c)" and r = res and M = UINT64_MAX]
    toxdigitvalue_less [of c] assms
  by simp

lemma dec_guard_u64:
  assumes "0 \<le> todigitvalue c"
  shows "(res > UINT64_MAX div 10 \<or> (res = UINT64_MAX div 10 \<and> word_of_int (todigitvalue c) > UINT64_MAX mod 10))
    \<longleftrightarrow> 2 ^ 64 - 1 < unat res * 10 + nat (todigitvalue c)"
  using digit_guard_word [where b = 10 and d = "nat (todigitvalue c)" and r = res and M = UINT64_MAX]
    todigitvalue_less [of c] assms
  by (simp del: todigitvalue_nonneg)

lemma digit_step_word:
  fixes res :: "'a::len word"
  assumes "0 \<le> d" and "\<not> M < unat res * b + nat d" and "M < 2 ^ LENGTH('a)"
  shows "unat (res * word_of_nat b + word_of_int d) = unat res * b + nat d"
proof -
  have "res * word_of_nat b + word_of_int d = word_of_nat (unat res * b + nat d)"
    using assms(1) by simp
  then show ?thesis using assms(2,3) by (simp only: unat_of_nat) simp
qed

lemma guard_flip:
  fixes r :: "'a::linorder" and d :: "'b::linorder"
  shows "(r < X \<or> (r = X \<and> d \<le> Y)) \<longleftrightarrow> \<not> (r > X \<or> (r = X \<and> d > Y))"
  by auto

text \<open>
  The contract of a digit loop: it stops at the first non-digit or after \<open>maxlen\<close> digits, and a
  digit is either refused because the value would exceed \<open>M\<close> or accumulated. Any loop with this
  contract computes the reference parser.
\<close>

definition limited :: "nat option \<Rightarrow> nat \<Rightarrow> string \<Rightarrow> string" where
  "limited maxlen n s = (case maxlen of None \<Rightarrow> s | Some m \<Rightarrow> take (m - n) s)"

locale digit_loop = digit_system b dval for b :: nat and dval +
  fixes loop :: "string \<Rightarrow> nat \<Rightarrow> 'a::len word \<Rightarrow> nat \<times> 'a word option"
    and M :: nat and maxlen :: "nat option"
  assumes M_fits: "M < 2 ^ LENGTH('a)"
    and stop: "dval (peek s) < 0 \<or> (\<exists>m. maxlen = Some m \<and> m \<le> n) \<Longrightarrow>
      loop s n res = (n, if n > 0 then Some res else None)"
    and digit: "0 \<le> dval c \<Longrightarrow> \<forall>m. maxlen = Some m \<longrightarrow> n < m \<Longrightarrow> unat res \<le> M \<Longrightarrow>
      loop (c # s) n res =
        (if M < unat res * b + nat (dval c) then (0, None)
         else loop s (n + 1) (res * word_of_nat b + word_of_int (dval c)))"
begin

lemma loop_stop:
  assumes "dval (peek s) < 0 \<or> (\<exists>m. maxlen = Some m \<and> m \<le> n)" and "unat res \<le> M"
  shows "loop s n res = store word_of_nat (parse_from b dval M n (unat res) (limited maxlen n s))"
proof -
  have "dval (peek (limited maxlen n s)) < 0"
    using assms(1) dval_NUL by (cases s) (auto simp: limited_def take_Cons' split: option.splits)
  with assms show ?thesis
    by (simp add: stop parse_from_stop)
qed

theorem loop_parses:
  "unat res \<le> M \<Longrightarrow> loop s n res = store word_of_nat (parse_from b dval M n (unat res) (limited maxlen n s))"
proof (induction s arbitrary: n res)
  case Nil
  then show ?case using dval_NUL by (intro loop_stop) simp_all
next
  case (Cons c s)
  show ?case
  proof (cases "dval c < 0 \<or> (\<exists>m. maxlen = Some m \<and> m \<le> n)")
    case True
    with Cons.prems show ?thesis by (intro loop_stop) simp_all
  next
    case False
    then have pos: "0 \<le> dval c" and more: "\<forall>m. maxlen = Some m \<longrightarrow> n < m" by auto
    have lim: "limited maxlen n (c # s) = c # limited maxlen (n + 1) s"
      using more by (auto simp: limited_def take_Cons' split: option.splits)
    show ?thesis
      using digit_step_word [OF pos, of M res b] M_fits
      by (simp add: digit [OF pos more Cons.prems] Cons.IH lim parse_from_step pos)
  qed
qed

end

interpretation x32: digit_loop 16 toxdigitvalue strx_to_uint32_loop "2 ^ 32 - 1" None
proof (unfold_locales, goal_cases)
  case (3 c n res s)
  then show ?case
    by (simp only: strx_to_uint32_loop.simps [of "c # s"] guard_flip peek_Cons Let_def hex_guard_u32) simp
qed (simp_all add: strx_to_uint32_loop.simps)

interpretation x64: digit_loop 16 toxdigitvalue strx_to_uint64_loop "2 ^ 64 - 1" None
proof (unfold_locales, goal_cases)
  case (3 c n res s)
  then show ?case
    by (simp only: strx_to_uint64_loop.simps [of "c # s"] guard_flip peek_Cons Let_def hex_guard_u64) simp
qed (simp_all add: strx_to_uint64_loop.simps)

interpretation x32n: digit_loop 16 toxdigitvalue "\<lambda>s. strx_to_uint32_n_loop s maxlen" "2 ^ 32 - 1" "Some maxlen"
  for maxlen
proof (unfold_locales, goal_cases)
  case (3 c n res s)
  then show ?case
    by (simp only: strx_to_uint32_n_loop.simps [of "c # s"] peek_Cons Let_def hex_guard_u32) simp
qed (auto simp add: strx_to_uint32_n_loop.simps)

interpretation x64n: digit_loop 16 toxdigitvalue "\<lambda>s. strx_to_uint64_n_loop s maxlen" "2 ^ 64 - 1" "Some maxlen"
  for maxlen
proof (unfold_locales, goal_cases)
  case (3 c n res s)
  then show ?case
    by (simp only: strx_to_uint64_n_loop.simps [of "c # s"] peek_Cons Let_def hex_guard_u64) simp
qed (auto simp add: strx_to_uint64_n_loop.simps)

text \<open>
  The decimal parsers test the digit after the step (\<^verbatim>\<open>do ... while\<close>); with the test of the
  entry condition in front they are digit loops too.
\<close>

definition dec64 :: "string \<Rightarrow> nat \<Rightarrow> u64 \<Rightarrow> nat \<times> u64 option" where
  "dec64 s n res = (if isasciidigit (peek s) then str_to_uint64_loop s n res
                    else (n, if n > 0 then Some res else None))"

definition dec64n :: "nat \<Rightarrow> string \<Rightarrow> nat \<Rightarrow> u64 \<Rightarrow> nat \<times> u64 option" where
  "dec64n maxlen s n res =
     (if n < maxlen \<and> isasciidigit (peek s) then str_to_uint64_n_loop s maxlen n res
      else (n, if n > 0 then Some res else None))"

lemma todigitvalue_eq: "isasciidigit c \<Longrightarrow> todigitvalue c = int (of_char c) - int (of_char CHR ''0'')"
  by (simp add: todigitvalue_def)

lemma todigitvalue_neg [simp]: "todigitvalue c < 0 \<longleftrightarrow> \<not> isasciidigit c"
  using todigitvalue_nonneg [of c] by linarith

interpretation d64: digit_loop 10 todigitvalue dec64 "2 ^ 64 - 1" None
proof (unfold_locales, goal_cases)
  case (3 c n res s)
  then have c: "isasciidigit c" by simp
  show ?case
    using 3(1)
    by (simp only: dec64_def peek_Cons c if_True str_to_uint64_loop.simps Let_def
        todigitvalue_eq [OF c, symmetric] dec_guard_u64) (simp add: dec64_def)
qed (simp_all add: dec64_def)

interpretation d64n: digit_loop 10 todigitvalue "dec64n maxlen" "2 ^ 64 - 1" "Some maxlen" for maxlen
proof (unfold_locales, goal_cases)
  case (3 c n res s)
  then have c: "isasciidigit c" and n: "n < maxlen" by simp_all
  show ?case
    using 3(1)
    by (simp only: dec64n_def peek_Cons c n simp_thms if_True str_to_uint64_n_loop.simps Let_def
        todigitvalue_eq [OF c, symmetric] dec_guard_u64) (simp add: dec64n_def)
qed (auto simp add: dec64n_def)

text \<open>The generic loop of the small-code build, in its 64-bit and its 32-bit use.\<close>

definition uvalue_n :: "(char \<Rightarrow> int) \<Rightarrow> u64 \<Rightarrow> u64 \<Rightarrow> nat \<Rightarrow> string \<Rightarrow> nat \<Rightarrow> u64 \<Rightarrow> nat \<times> u64 option" where
  "uvalue_n dfunc max_val base maxlen s n res =
     (case str_to_uvalue_n_loop dfunc s maxlen (max_val div base) (max_val mod base) base n res of
        None \<Rightarrow> (0, None) | Some (i, r) \<Rightarrow> (i, if i > 0 then Some r else None))"

lemma uvalue_n_digit:
  fixes max_val res :: u64
  assumes "0 \<le> dval c" and "dval c < int b" and "0 < b" and "b < 2 ^ 64" and "n < maxlen"
  shows "uvalue_n dval max_val (word_of_nat b) maxlen (c # s) n res =
    (if unat max_val < unat res * b + nat (dval c) then (0, None)
     else uvalue_n dval max_val (word_of_nat b) maxlen s (n + 1) (res * word_of_nat b + word_of_int (dval c)))"
proof -
  have "(max_val div word_of_nat b < res \<or>
         (max_val div word_of_nat b = res \<and> max_val mod word_of_nat b < word_of_int (dval c)))
        \<longleftrightarrow> unat max_val < unat res * b + nat (dval c)"
    using digit_guard_word [where b = b and d = "nat (dval c)" and r = res and M = max_val] assms
    by (simp add: nat_less_iff eq_commute [of res])
  then show ?thesis
    using assms(1,5) by (simp add: uvalue_n_def str_to_uvalue_n_loop.simps [of _ "c # s"] Let_def)
qed

lemma uvalue_n_stop:
  "dval (peek s) < 0 \<or> maxlen \<le> n \<Longrightarrow>
   uvalue_n dval max_val base maxlen s n res = (n, if n > 0 then Some res else None)"
  by (auto simp: uvalue_n_def str_to_uvalue_n_loop.simps [of _ s])

lemma unat_u64_bound: "unat (x :: u64) < 18446744073709551616"
  using unsigned_less [of x, where ?'a = nat] by simp

interpretation ux: digit_loop 16 toxdigitvalue "uvalue_n toxdigitvalue max_val 16 maxlen" "unat max_val" "Some maxlen"
  for max_val maxlen
proof (unfold_locales, goal_cases)
  case (3 c n res s)
  then show ?case
    using uvalue_n_digit [of toxdigitvalue c 16 n maxlen max_val s res] toxdigitvalue_less [of c] by simp
qed (auto simp: uvalue_n_stop unat_u64_bound)

interpretation ud: digit_loop 10 todigitvalue "uvalue_n todigitvalue max_val 10 maxlen" "unat max_val" "Some maxlen"
  for max_val maxlen
proof (unfold_locales, goal_cases)
  case (3 c n res s)
  then show ?case
    using uvalue_n_digit [of todigitvalue c 10 n maxlen max_val s res] todigitvalue_less [of c] by simp
qed (auto simp: uvalue_n_stop unat_u64_bound)

subsection \<open>The parsers compute the reference\<close>

lemmas parse_defs = MHD_str_to_uint64_def MHD_str_to_uint64_n_def MHD_strx_to_uint32_def
  MHD_strx_to_uint32_n_def MHD_strx_to_uint64_def MHD_strx_to_uint64_n_def

lemma str_to_uint64_ref:
  "MHD_str_to_uint64 (Some s) True = store word_of_nat (parse_digits 10 todigitvalue (2 ^ 64 - 1) s)"
proof -
  have "MHD_str_to_uint64 (Some s) True = dec64 s 0 0"
    by (simp add: parse_defs dec64_def)
  then show ?thesis
    by (simp add: d64.loop_parses parse_digits_from limited_def)
qed

lemma str_to_uint64_n_ref:
  "MHD_str_to_uint64_n (Some s) maxlen True =
   store word_of_nat (parse_digits 10 todigitvalue (2 ^ 64 - 1) (take maxlen s))"
proof -
  have "MHD_str_to_uint64_n (Some s) maxlen True = dec64n maxlen s 0 0"
    by (simp add: parse_defs dec64n_def)
  then show ?thesis
    by (simp add: d64n.loop_parses parse_digits_from limited_def)
qed

lemma strx_ref:
  "MHD_strx_to_uint32 (Some s) True = store word_of_nat (parse_digits 16 toxdigitvalue (2 ^ 32 - 1) s)"
  "MHD_strx_to_uint32_n (Some s) maxlen True =
     store word_of_nat (parse_digits 16 toxdigitvalue (2 ^ 32 - 1) (take maxlen s))"
  "MHD_strx_to_uint64 (Some s) True = store word_of_nat (parse_digits 16 toxdigitvalue (2 ^ 64 - 1) s)"
  "MHD_strx_to_uint64_n (Some s) maxlen True =
     store word_of_nat (parse_digits 16 toxdigitvalue (2 ^ 64 - 1) (take maxlen s))"
  by (simp_all add: parse_defs x32.loop_parses x64.loop_parses x32n.loop_parses x64n.loop_parses
      parse_digits_from limited_def)

section \<open>Properties\<close>

text \<open>
  The decimal parser returns the length of the longest digit prefix and stores its value
  exactly when that prefix is nonempty and the value fits in 64 bits; otherwise it returns 0 and
  stores nothing.
\<close>

lemma str_to_uint64_correct:
  "MHD_str_to_uint64 (Some s) True =
     (let ds = takeWhile isasciidigit s; v = acc_value 10 todigitvalue 0 ds in
      if ds = [] \<or> v \<ge> 2 ^ 64 then (0, None) else (length ds, Some (word_of_nat v)))"
  by (simp add: str_to_uint64_ref parse_digits_def Let_def not_less)

text \<open>Parsing what the decimal conversion of \<^verbatim>\<open>printf\<close> writes.\<close>

fun decimal :: "nat \<Rightarrow> string" where
  "decimal n = (if n < 10 then [char_of (48 + n)] else decimal (n div 10) @ [char_of (48 + n mod 10)])"

declare decimal.simps [simp del]

lemma digit_char: "d < 10 \<Longrightarrow> isasciidigit (char_of (48 + d :: nat)) \<and> nat (todigitvalue (char_of (48 + d :: nat))) = d"
  by (simp add: isasciidigit_code todigitvalue_def)

lemma decimal_digits: "decimal n \<noteq> [] \<and> (\<forall>c \<in> set (decimal n). isasciidigit c)"
proof (induction n rule: decimal.induct)
  case (1 n)
  then show ?case
    using digit_char [of n] digit_char [of "n mod 10"] by (auto simp: decimal.simps [of n])
qed

lemma decimal_value: "acc_value 10 todigitvalue 0 (decimal n) = n"
proof (induction n rule: decimal.induct)
  case (1 n)
  show ?case
  proof (cases "n < 10")
    case True
    then show ?thesis using digit_char [of n] by (simp add: decimal.simps [of n])
  next
    case False
    then have "acc_value 10 todigitvalue 0 (decimal n) =
        acc_value 10 todigitvalue (acc_value 10 todigitvalue 0 (decimal (n div 10))) [char_of (48 + n mod 10)]"
      by (simp add: decimal.simps [of n] acc_value_append)
    also have "\<dots> = n div 10 * 10 + n mod 10" using 1 False digit_char [of "n mod 10"] by simp
    finally show ?thesis by simp
  qed
qed

text \<open>
  Round trip: the decimal digits of a number below \<open>2 ^ 64\<close>, followed by anything that is not a
  digit, are read back as that number.
\<close>

lemma decimal_roundtrip:
  assumes "n < 2 ^ 64" and "\<not> isasciidigit (peek rest)"
  shows "MHD_str_to_uint64 (Some (decimal n @ rest)) True = (length (decimal n), Some (word_of_nat n))"
proof -
  have "takeWhile isasciidigit (decimal n @ rest) = decimal n"
    using decimal_digits [of n] assms(2) by (cases rest) (auto simp: takeWhile_append)
  then show ?thesis
    using assms(1) decimal_digits [of n]
    by (simp add: str_to_uint64_ref parse_digits_def decimal_value)
qed

lemma uvalue_unfold:
  "MHD_str_to_uvalue_n (Some s) maxlen True 8 max_val 16 =
     map_prod id (map_option U64) (uvalue_n toxdigitvalue max_val 16 maxlen s 0 0)"
  "MHD_str_to_uvalue_n (Some s) maxlen True 8 max_val 10 =
     map_prod id (map_option U64) (uvalue_n todigitvalue max_val 10 maxlen s 0 0)"
  "MHD_str_to_uvalue_n (Some s) maxlen True 4 max_val 16 =
     map_prod id (map_option (U32 \<circ> ucast)) (uvalue_n toxdigitvalue max_val 16 maxlen s 0 0)"
  by (simp_all add: MHD_str_to_uvalue_n_def uvalue_n_def Let_def split: option.split prod.split)

lemmas uvalue_ref = uvalue_unfold ux.loop_parses [of 0, simplified] ud.loop_parses [of 0, simplified]
  limited_def parse_digits_from

lemma store_U32: "map_prod id (map_option (U32 \<circ> ucast)) (store (word_of_nat :: nat \<Rightarrow> u64) r)
  = map_prod id (map_option U32) (store word_of_nat r)"
proof -
  have "(ucast (word_of_nat v :: u64) :: u32) = word_of_nat v" for v
    by (simp add: unsigned_of_nat word_of_nat_eq_iff)
  then show ?thesis
    by (cases r) (simp add: store_def option.map_comp comp_def)
qed

text \<open>
  C30. The small-code build, in which every parser is a macro over the generic function, returns and
  stores the same as the default build, for strings shorter than the address space.
\<close>

theorem small_code_agrees:
  assumes "length s \<le> SIZE_MAX"
  shows "MHD_str_to_uvalue_n (Some s) SIZE_MAX True 8 UINT64_MAX 10 =
           map_prod id (map_option U64) (MHD_str_to_uint64 (Some s) True)
    \<and> MHD_str_to_uvalue_n (Some s) maxlen True 8 UINT64_MAX 10 =
        map_prod id (map_option U64) (MHD_str_to_uint64_n (Some s) maxlen True)
    \<and> MHD_str_to_uvalue_n (Some s) SIZE_MAX True 8 UINT64_MAX 16 =
        map_prod id (map_option U64) (MHD_strx_to_uint64 (Some s) True)
    \<and> MHD_str_to_uvalue_n (Some s) maxlen True 8 UINT64_MAX 16 =
        map_prod id (map_option U64) (MHD_strx_to_uint64_n (Some s) maxlen True)
    \<and> MHD_str_to_uvalue_n (Some s) SIZE_MAX True 4 (ucast UINT32_MAX) 16 =
        map_prod id (map_option U32) (MHD_strx_to_uint32 (Some s) True)
    \<and> MHD_str_to_uvalue_n (Some s) maxlen True 4 (ucast UINT32_MAX) 16 =
        map_prod id (map_option U32) (MHD_strx_to_uint32_n (Some s) maxlen True)"
proof -
  have s: "take SIZE_MAX s = s" using assms by simp
  have M: "unat (ucast UINT32_MAX :: u64) = 2 ^ 32 - 1" by (simp add: UINT32_MAX_def)
  show ?thesis
    by (simp add: uvalue_ref strx_ref str_to_uint64_ref str_to_uint64_n_ref s M store_U32)
qed


theorem small_code_agrees_witness:
  "MHD_str_to_uvalue_n (Some ''1fF;'') 3 True 4 (ucast UINT32_MAX) 16 =
     map_prod id (map_option U32) (MHD_strx_to_uint32_n (Some ''1fF;'') 3 True)"
  using small_code_agrees [of "''1fF;''" 3] by (simp add: SIZE_MAX_def)

text \<open>
  Caseless comparison of two C strings is equality of their lower-case forms.
\<close>

lemma str_equal_caseless_correct:
  assumes "c_string s" and "c_string t"
  shows "(MHD_str_equal_caseless s t \<longleftrightarrow> map toasciilower s = map toasciilower t)
    \<and> (MHD_str_equal_caseless_n s t n \<longleftrightarrow> map toasciilower (take n s) = map toasciilower (take n t))"
  using equal_caseless_iff [OF assms] equal_caseless_n_iff [OF assms] by blast

end
