(* ===== verification/Mhd_Token.thy ===== *)
theory Mhd_Token
  imports Mhd_Str
begin

text \<open>
  The token search \<open>MHD_str_has_token_caseless\<close> of \<^verbatim>\<open>mhd_str.c\<close> against the documented meaning: some
  element of the comma-separated list, trimmed of spaces and tabs, equals the token up to case.
  The search is sound; it is complete unless an element in front of a comma is a proper prefix of
  the token, where it skips the element that follows.
\<close>

section \<open>The token search against its specification\<close>

fun split_commas :: "string \<Rightarrow> string list" where
  "split_commas [] = [[]]"
| "split_commas (c # s) =
     (if c = CHR '','' then [] # split_commas s
      else (c # hd (split_commas s)) # tl (split_commas s))"

definition trim :: "string \<Rightarrow> string" where
  "trim s = rev (dropWhile is_ws (rev (dropWhile is_ws s)))"

definition has_token :: "string \<Rightarrow> string \<Rightarrow> bool" where
  "has_token str token \<longleftrightarrow>
     (\<exists>e \<in> set (split_commas str). map toasciilower (trim e) = map toasciilower token)"

definition valid_token :: "string \<Rightarrow> bool" where
  "valid_token t \<longleftrightarrow> t \<noteq> [] \<and> c_string t \<and> CHR '','' \<notin> set t \<and> \<not> is_ws (last t)"

lemma split_commas_not_Nil [simp]: "split_commas s \<noteq> []"
  by (cases s) auto

lemma split_commas_no_comma: "CHR '','' \<notin> set s \<Longrightarrow> split_commas s = [s]"
  by (induction s) auto

lemma split_commas_append:
  "split_commas (p @ CHR '','' # s) = split_commas p @ split_commas s"
  by (induction p) (auto simp: hd_append tl_append split: list.split)

lemma trim_Nil [simp]: "trim [] = []"
  by (simp add: trim_def)

lemma trim_ws_Cons: "is_ws c \<Longrightarrow> trim (c # s) = trim s"
  by (auto simp: trim_def)

lemma has_token_comma: "token \<noteq> [] \<Longrightarrow> has_token (CHR '','' # s) token = has_token s token"
  by (simp add: has_token_def)

lemma has_token_ws: "is_ws c \<Longrightarrow> has_token (c # s) token = has_token s token"
  by (cases "split_commas s") (auto simp: has_token_def trim_ws_Cons is_ws_def)

lemma has_token_skip:
  "token \<noteq> [] \<Longrightarrow> has_token (dropWhile (\<lambda>c. is_ws c \<or> c = CHR '','') s) token = has_token s token"
  by (induction s) (auto simp: has_token_comma has_token_ws)

lemma is_ws_sep [simp]: "\<not> is_ws CHR '',''" "\<not> is_ws NUL"
  by (simp_all add: is_ws_def)

lemma lower_set_sep: "map toasciilower e = map toasciilower u \<Longrightarrow> CHR '','' \<in> set e \<longleftrightarrow> CHR '','' \<in> set u"
  by (metis (no_types, lifting) image_iff list.set_map toasciilower_sep(1))

lemma is_ws_toasciilower [simp]: "is_ws (toasciilower c) \<longleftrightarrow> is_ws c"
  by (simp add: is_ws_def)

subsection \<open>The inner loop\<close>

text \<open>What the three exits of the inner loop say about the string read, \<open>u\<close> the rest of the token.\<close>

lemma match_found:
  assumes "match_token s t (length t) i = MatchFound" and "i < length t" and "c_string s"
  shows "\<exists>e w r. s = e @ w @ r \<and> map toasciilower e = map toasciilower (drop i t)
           \<and> (\<forall>x \<in> set w. is_ws x) \<and> (r = [] \<or> (\<exists>r'. r = CHR '','' # r'))"
  using assms
proof (induction s arbitrary: i)
  case (Cons c s)
  have u: "drop i t = t ! i # drop (Suc i) t" using Cons.prems(2) by (simp add: Cons_nth_drop_Suc)
  from Cons.prems have c: "toasciilower c = toasciilower (t ! i)"
    by (auto simp: Let_def u split: if_splits)
  show ?case
  proof (cases "length t \<le> i + 1")
    case True
    let ?w = "takeWhile is_ws s" and ?r = "dropWhile is_ws s"
    have "peek ?r = NUL \<or> peek ?r = CHR '',''"
      using Cons.prems c True by (auto simp: Let_def u split: if_splits)
    then have "?r = [] \<or> (\<exists>r'. ?r = CHR '','' # r')"
      using Cons.prems(3) c_string_dropWhile [of s is_ws] by (cases ?r) auto
    moreover have "c # s = [c] @ ?w @ ?r" by simp
    moreover have "map toasciilower [c] = map toasciilower (drop i t)"
      using True c by (simp add: u)
    moreover have "\<forall>x \<in> set ?w. is_ws x" by (auto dest: set_takeWhileD)
    ultimately show ?thesis by blast
  next
    case False
    then have "match_token s t (length t) (i + 1) = MatchFound"
      using Cons.prems c by (auto simp: Let_def u split: if_splits)
    with False Cons.IH [of "i + 1"] Cons.prems(3)
    obtain e w r where "s = e @ w @ r" "map toasciilower e = map toasciilower (drop (Suc i) t)"
      "\<forall>x \<in> set w. is_ws x" "r = [] \<or> (\<exists>r'. r = CHR '','' # r')" by auto
    then show ?thesis using c u by (intro exI [of _ "c # e"] exI [of _ w] exI [of _ r]) simp
  qed
qed simp

lemma match_end:
  assumes "match_token s t (length t) i = MatchEnd" and "i < length t" and "c_string s"
  shows "length s < length (drop i t) \<and> map toasciilower s = map toasciilower (take (length s) (drop i t))"
  using assms
proof (induction s arbitrary: i)
  case (Cons c s)
  have u: "drop i t = t ! i # drop (Suc i) t" using Cons.prems(2) by (simp add: Cons_nth_drop_Suc)
  from Cons.prems have c: "toasciilower c = toasciilower (t ! i)" and i: "i + 1 < length t"
    and m: "match_token s t (length t) (i + 1) = MatchEnd"
    by (auto simp: Let_def u split: if_splits)
  then show ?case using Cons.IH [OF m i] Cons.prems(3) by (simp add: u)
qed simp

definition mismatch_in :: "string \<Rightarrow> string \<Rightarrow> string \<Rightarrow> bool" where
  "mismatch_in u s s' \<longleftrightarrow>
     (\<exists>e x. s = e @ x # s' \<and> length e < length u
        \<and> map toasciilower e = map toasciilower (take (length e) u)
        \<and> toasciilower x \<noteq> toasciilower (u ! length e))"

definition extra_after :: "string \<Rightarrow> string \<Rightarrow> string \<Rightarrow> bool" where
  "extra_after u s s' \<longleftrightarrow>
     (\<exists>e w x r. s = e @ w @ s' \<and> map toasciilower e = map toasciilower u
        \<and> s' = x # r \<and> \<not> is_ws x \<and> x \<noteq> CHR '','' \<and> (\<forall>y \<in> set w. is_ws y))"

lemma mismatch_in_Cons:
  "mismatch_in u s s' \<Longrightarrow> toasciilower c = toasciilower d \<Longrightarrow> mismatch_in (d # u) (c # s) s'"
  unfolding mismatch_in_def by (elim exE, rule_tac x = "c # e" in exI) auto

lemma extra_after_Cons:
  "extra_after u s s' \<Longrightarrow> toasciilower c = toasciilower d \<Longrightarrow> extra_after (d # u) (c # s) s'"
  unfolding extra_after_def by (elim exE, rule_tac x = "c # e" in exI) auto

lemma match_break:
  assumes "match_token s t (length t) i = MatchBreak s'" and "i < length t" and "c_string s"
  shows "mismatch_in (drop i t) s s' \<or> extra_after (drop i t) s s'"
  using assms
proof (induction s arbitrary: i)
  case (Cons c s)
  have u: "drop i t = t ! i # drop (Suc i) t" using Cons.prems(2) by (simp add: Cons_nth_drop_Suc)
  consider (mis) "toasciilower c \<noteq> toasciilower (t ! i)"
    | (last) "toasciilower c = toasciilower (t ! i)" "length t \<le> i + 1"
    | (more) "toasciilower c = toasciilower (t ! i)" "i + 1 < length t" by linarith
  then show ?case
  proof cases
    case mis
    then have "s' = s" using Cons.prems by (auto simp: Let_def u split: if_splits)
    with mis show ?thesis
      by (intro disjI1) (auto simp: mismatch_in_def u intro!: exI [of _ "[]"])
  next
    case last
    have s': "s' = dropWhile is_ws s" and p: "peek s' \<noteq> NUL" "peek s' \<noteq> CHR '',''"
      using Cons.prems last by (auto simp: Let_def u split: if_splits)
    then have "\<not> is_ws (peek s')" using peek_dropWhile [of is_ws s] by simp
    moreover have "c # s = [c] @ takeWhile is_ws s @ s'" using s' by simp
    moreover have "map toasciilower [c] = map toasciilower (drop i t)"
      using last by (simp add: u)
    moreover have "\<forall>y \<in> set (takeWhile is_ws s). is_ws y" by (auto dest: set_takeWhileD)
    moreover have "s' = peek s' # tl s'" using peek_not_NUL [OF p(1)] by simp
    ultimately show ?thesis using p(2) unfolding extra_after_def by blast
  next
    case more
    then have "match_token s t (length t) (i + 1) = MatchBreak s'"
      using Cons.prems by (auto simp: Let_def u split: if_splits)
    from Cons.IH [OF this] more(2) Cons.prems(3)
    have "mismatch_in (drop (Suc i) t) s s' \<or> extra_after (drop (Suc i) t) s s'" by simp
    then show ?thesis
      using more(1) by (auto simp: u intro: mismatch_in_Cons extra_after_Cons)
  qed
qed simp

subsection \<open>One element of the list\<close>

lemma dropWhile_ws_all: "\<forall>y \<in> set w. is_ws y \<Longrightarrow> dropWhile is_ws (w @ s) = dropWhile is_ws s"
  by (induction w) auto

lemma trim_id:
  assumes "e \<noteq> []" and "\<not> is_ws (hd e)" and "\<not> is_ws (last e)" and "\<forall>y \<in> set w. is_ws y"
  shows "trim (e @ w) = e"
proof -
  have "dropWhile is_ws (e @ w) = e @ w" using assms(1,2) by (cases e) auto
  moreover have "dropWhile is_ws (rev w @ rev e) = rev e"
    using assms dropWhile_ws_all [of "rev w" "rev e"]
    by (cases e rule: rev_cases) auto
  ultimately show ?thesis by (simp add: trim_def)
qed

lemma lower_last_ws:
  assumes "map toasciilower e = map toasciilower t" and "t \<noteq> []" and "\<not> is_ws (last t)"
  shows "\<not> is_ws (last e)"
proof -
  have "e \<noteq> []" using assms by auto
  then have "toasciilower (last e) = toasciilower (last t)"
    using assms(1,2) by (metis last_map)
  with assms(3) show ?thesis by (metis is_ws_toasciilower)
qed

lemma trim_prefix:
  assumes "s \<noteq> []" and "\<not> is_ws (hd s)"
  shows "\<exists>w. s = trim s @ w \<and> (\<forall>y \<in> set w. is_ws y)"
proof -
  have "dropWhile is_ws s = s" using assms by (cases s) auto
  then have "trim s = rev (dropWhile is_ws (rev s))" by (simp only: trim_def)
  moreover have "rev (takeWhile is_ws (rev s) @ dropWhile is_ws (rev s)) = s"
    by (simp only: takeWhile_dropWhile_id rev_rev_ident)
  ultimately have "s = trim s @ rev (takeWhile is_ws (rev s))" by (simp only: rev_append)
  moreover have "\<forall>y \<in> set (rev (takeWhile is_ws (rev s))). is_ws y"
    by (auto dest: set_takeWhileD)
  ultimately show ?thesis by blast
qed

lemma has_token_append_comma:
  "has_token (p @ CHR '','' # s) token \<longleftrightarrow> has_token p token \<or> has_token s token"
  by (auto simp: has_token_def split_commas_append)

lemma has_token_single:
  "CHR '','' \<notin> set e \<Longrightarrow> has_token e token \<longleftrightarrow> map toasciilower (trim e) = map toasciilower token"
  by (simp add: has_token_def split_commas_no_comma)

lemma has_token_Nil: "token \<noteq> [] \<Longrightarrow> \<not> has_token [] token"
  by (simp add: has_token_single)

text \<open>The search resumes at a comma or at the end.\<close>

lemma rest_at_comma:
  assumes "c_string s"
  obtains "dropWhile (\<lambda>c. c \<noteq> NUL \<and> c \<noteq> CHR '','') s = []"
    "CHR '','' \<notin> set s"
  | e r where "dropWhile (\<lambda>c. c \<noteq> NUL \<and> c \<noteq> CHR '','') s = CHR '','' # r"
    "s = e @ CHR '','' # r" "CHR '','' \<notin> set e"
proof -
  let ?P = "\<lambda>c. c \<noteq> NUL \<and> c \<noteq> CHR '',''"
  show thesis
  proof (cases "dropWhile ?P s")
    case Nil
    then have "\<forall>x \<in> set s. ?P x" by (simp only: dropWhile_eq_Nil_conv)
    then show thesis using that(1) Nil by blast
  next
    case (Cons c r)
    have "\<not> ?P c" using hd_dropWhile [of ?P s] unfolding Cons by simp
    moreover have "c \<in> set s" using set_dropWhileD [of c ?P s] unfolding Cons by simp
    ultimately have c: "c = CHR '',''" using assms by (auto simp: c_string_def)
    have "takeWhile ?P s @ c # r = s"
      using takeWhile_dropWhile_id [of ?P s] unfolding Cons .
    then have "s = takeWhile ?P s @ CHR '','' # r" unfolding c by (rule sym)
    moreover have "CHR '','' \<notin> set (takeWhile ?P s)" by (auto dest: set_takeWhileD)
    ultimately show thesis using that(2) Cons c by blast
  qed
qed

text \<open>
  An element that is a nonempty proper prefix of the token, and directly followed by a comma,
  makes the inner loop consume that comma.
\<close>

definition partial_match :: "string \<Rightarrow> string \<Rightarrow> bool" where
  "partial_match token e \<longleftrightarrow>
     (let e' = dropWhile is_ws e in
      e' \<noteq> [] \<and> length e' < length token
      \<and> map toasciilower e' = map toasciilower (take (length e') token))"

definition no_partial :: "string \<Rightarrow> string \<Rightarrow> bool" where
  "no_partial token str \<longleftrightarrow> (\<forall>e \<in> set (butlast (split_commas str)). \<not> partial_match token e)"

lemma partial_match_Nil [simp]: "\<not> partial_match token []"
  by (auto simp: partial_match_def)

lemma no_partial_comma: "no_partial token (p @ CHR '','' # s) \<Longrightarrow> no_partial token s"
  by (auto simp: no_partial_def split_commas_append butlast_append)

lemma no_partial_ws:
  assumes "is_ws c"
  shows "no_partial token (c # s) \<longleftrightarrow> no_partial token s"
proof -
  have c: "c \<noteq> CHR '',''" using assms by auto
  obtain x xs where "split_commas s = x # xs" by (cases "split_commas s") auto
  then show ?thesis
    using assms c by (auto simp: no_partial_def partial_match_def)
qed

lemma no_partial_skip:
  "no_partial token s \<Longrightarrow> no_partial token (dropWhile (\<lambda>c. is_ws c \<or> c = CHR '','') s)"
proof (induction s)
  case (Cons c s)
  then show ?case
    using no_partial_comma [of token "[]" s] by (auto simp: no_partial_ws)
qed simp

subsection \<open>Soundness and completeness of the search\<close>

lemma skip_start:
  assumes "s = dropWhile (\<lambda>c. is_ws c \<or> c = CHR '','') str" and "s \<noteq> []"
  shows "\<not> is_ws (hd s) \<and> hd s \<noteq> CHR '',''"
  using assms hd_dropWhile [of "\<lambda>c. is_ws c \<or> c = CHR '',''" str] by auto

lemma found_has_token:
  assumes "match_token s t (length t) 0 = MatchFound" and "valid_token t" and "c_string s"
    and "\<not> is_ws (hd s)"
  shows "has_token s t"
proof -
  obtain e w r where s: "s = e @ w @ r" and e: "map toasciilower e = map toasciilower t"
    and w: "\<forall>x \<in> set w. is_ws x" and r: "r = [] \<or> (\<exists>r'. r = CHR '','' # r')"
    using match_found [OF assms(1)] assms by (auto simp: valid_token_def)
  have "e \<noteq> []" using e assms(2) by (auto simp: valid_token_def)
  moreover from this have "\<not> is_ws (hd e)" using assms(4) s by (cases e) auto
  moreover have "\<not> is_ws (last e)" using lower_last_ws [OF e] assms(2) by (simp add: valid_token_def)
  ultimately have "trim (e @ w) = e" using w by (rule trim_id)
  moreover have "CHR '','' \<notin> set (e @ w)"
    using lower_set_sep [OF e] assms(2) w by (auto simp: valid_token_def)
  ultimately have ew: "has_token (e @ w) t" using e by (metis has_token_single)
  from r show ?thesis
  proof
    assume "r = []"
    with ew show ?thesis by (simp add: s)
  next
    assume "\<exists>r'. r = CHR '','' # r'"
    then obtain r' where "r = CHR '','' # r'" ..
    with ew show ?thesis using has_token_append_comma [of "e @ w" r' t] by (simp add: s)
  qed
qed

lemma break_suffix:
  assumes "match_token s t (length t) 0 = MatchBreak s'" and "valid_token t" and "c_string s"
  shows "\<exists>p. s = p @ s'"
proof -
  have "mismatch_in t s s' \<or> extra_after t s s'"
    using match_break [OF assms(1)] assms by (auto simp: valid_token_def)
  then show ?thesis unfolding mismatch_in_def extra_after_def by (metis append.assoc append_Cons append_Nil)
qed

lemma resumed_has_token:
  assumes "t \<noteq> []" and "has_token (dropWhile (\<lambda>c. c \<noteq> NUL \<and> c \<noteq> CHR '','') s') t"
    and "s = p @ s'" and "c_string s"
  shows "has_token s t"
proof (rule rest_at_comma [of s'])
  show "c_string s'" using assms(3,4) by simp
next
  assume "dropWhile (\<lambda>c. c \<noteq> NUL \<and> c \<noteq> CHR '','') s' = []"
  with assms(1,2) show ?thesis by (simp add: has_token_Nil)
next
  fix e r assume "dropWhile (\<lambda>c. c \<noteq> NUL \<and> c \<noteq> CHR '','') s' = CHR '','' # r" and s': "s' = e @ CHR '','' # r"
  with assms(1,2) have "has_token r t" by (simp add: has_token_comma)
  then have "has_token ((p @ e) @ CHR '','' # r) t"
    using has_token_append_comma [of "p @ e" r t] by blast
  then show ?thesis by (simp add: assms(3) s')
qed

lemma has_token_loop_sound:
  "has_token_loop str t (length t) \<Longrightarrow> valid_token t \<Longrightarrow> c_string str \<Longrightarrow> has_token str t"
proof (induction str t "length t" rule: has_token_loop.induct)
  case (1 str t)
  let ?s = "dropWhile (\<lambda>c. is_ws c \<or> c = CHR '','') str"
  have t: "t \<noteq> []" using 1(3) by (simp add: valid_token_def)
  have cs: "c_string ?s" using 1(4) by (rule c_string_dropWhile)
  have str: "peek str \<noteq> NUL" using 1(2) by (auto simp: has_token_loop.simps [of str])
  have "has_token ?s t"
  proof (cases "match_token ?s t (length t) 0")
    case MatchEnd
    then show ?thesis using 1(2) str by (simp add: has_token_loop.simps [of str])
  next
    case MatchFound
    then have "?s \<noteq> []" by (metis match_token.simps(1) token_match.distinct(1))
    then show ?thesis
      using found_has_token [OF MatchFound 1(3) cs] skip_start [OF refl] by blast
  next
    case (MatchBreak s')
    obtain p where p: "?s = p @ s'" using break_suffix [OF MatchBreak 1(3) cs] by blast
    have "has_token (dropWhile (\<lambda>c. c \<noteq> NUL \<and> c \<noteq> CHR '','') s') t"
      using 1(1) [OF str MatchBreak] 1(2,3) cs MatchBreak str p
      by (simp add: has_token_loop.simps [of str] c_string_dropWhile)
    then show ?thesis by (intro resumed_has_token [OF t _ p cs])
  qed
  then show ?case by (simp only: has_token_skip [OF t])
qed


lemma partial_excluded:
  assumes "mismatch_in t s s'" and "no_partial t s" and "valid_token t" and "s \<noteq> []"
    and "\<not> is_ws (hd s)" and "hd s \<noteq> CHR '',''"
  obtains e x where "s = e @ x # s'" "length e < length t" "CHR '','' \<notin> set e" "x \<noteq> CHR '',''"
    "toasciilower x \<noteq> toasciilower (t ! length e)"
proof -
  obtain e x where s: "s = e @ x # s'" and len: "length e < length t"
    and low: "map toasciilower e = map toasciilower (take (length e) t)"
    and x: "toasciilower x \<noteq> toasciilower (t ! length e)"
    using assms(1) unfolding mismatch_in_def by blast
  have e: "CHR '','' \<notin> set e"
    using lower_set_sep [OF low] assms(3) set_take_subset [of "length e" t]
    by (auto simp: valid_token_def)
  have "x \<noteq> CHR '',''"
  proof
    assume xc: "x = CHR '',''"
    then have ne: "e \<noteq> []" using s assms(6) by auto
    then have "\<not> is_ws (hd e)" using s assms(5) by auto
    then have "dropWhile is_ws e = e" using ne by (cases e) auto
    then have "partial_match t e" using ne len low by (auto simp: partial_match_def)
    moreover have "e \<in> set (butlast (split_commas s))"
      using split_commas_append [of e s'] e by (simp add: s xc split_commas_no_comma butlast_append)
    ultimately show False using assms(2) by (auto simp: no_partial_def)
  qed
  with that s len e x show thesis by blast
qed

lemma trim_mismatch:
  assumes "\<not> is_ws (hd (e @ x # q))" and "length e < length t"
    and "toasciilower x \<noteq> toasciilower (t ! length e)"
  shows "map toasciilower (trim (e @ x # q)) \<noteq> map toasciilower t"
proof
  let ?E = "e @ x # q"
  assume eq: "map toasciilower (trim ?E) = map toasciilower t"
  obtain w where w: "?E = trim ?E @ w" using trim_prefix [of ?E] assms(1) by auto
  have "length (trim ?E) = length t" using arg_cong [OF eq, of length] by simp
  then have "trim ?E ! length e = ?E ! length e"
    using assms(2) by (subst (2) w) (simp add: nth_append)
  then have "toasciilower x = toasciilower (t ! length e)"
    using arg_cong [OF eq, of "\<lambda>l. l ! length e"] assms(2) \<open>length (trim ?E) = length t\<close> by simp
  with assms(3) show False by simp
qed

lemma trim_extra:
  assumes "\<not> is_ws (hd (e @ w @ x # q))" and "map toasciilower e = map toasciilower t" and "\<not> is_ws x"
  shows "map toasciilower (trim (e @ w @ x # q)) \<noteq> map toasciilower t"
proof
  let ?E = "e @ w @ x # q"
  assume eq: "map toasciilower (trim ?E) = map toasciilower t"
  obtain v where v: "?E = trim ?E @ v" "\<forall>y \<in> set v. is_ws y" using trim_prefix [of ?E] assms(1) by auto
  have "length (trim ?E) = length e"
    using arg_cong [OF eq, of length] arg_cong [OF assms(2), of length] by simp
  then have "v = w @ x # q" using v(1) by (metis append_eq_append_conv)
  with v(2) assms(3) show False by simp
qed

lemma break_first:
  assumes "match_token s t (length t) 0 = MatchBreak s'" and t: "valid_token t" and cs: "c_string s"
    and np: "no_partial t s" and ne: "s \<noteq> []" and ws: "\<not> is_ws (hd s)" and cm: "hd s \<noteq> CHR '',''"
    and q: "s' = q @ r" "r = [] \<or> hd r = CHR '',''"
  shows "\<exists>p. s = p @ s' \<and> CHR '','' \<notin> set p \<and> map toasciilower (trim (p @ q)) \<noteq> map toasciilower t"
proof -
  have "mismatch_in t s s' \<or> extra_after t s s'"
    using match_break [OF assms(1)] t cs by (auto simp: valid_token_def)
  then show ?thesis
  proof
    assume mis: "mismatch_in t s s'"
    obtain e x where s: "s = e @ x # s'" and m: "length e < length t" "CHR '','' \<notin> set e" "x \<noteq> CHR '',''"
      "toasciilower x \<noteq> toasciilower (t ! length e)"
      by (rule partial_excluded [OF mis np t ne ws cm])
    have "\<not> is_ws (hd (e @ x # q))" using ws by (cases e) (simp_all add: s)
    then have "map toasciilower (trim (e @ x # q)) \<noteq> map toasciilower t"
      using m by (intro trim_mismatch)
    then show ?thesis using s m by (intro exI [of _ "e @ [x]"]) simp
  next
    assume "extra_after t s s'"
    then obtain e w x z where s: "s = e @ w @ s'" and e: "map toasciilower e = map toasciilower t"
      and s': "s' = x # z" and x: "\<not> is_ws x" "x \<noteq> CHR '',''" and w: "\<forall>y \<in> set w. is_ws y"
      unfolding extra_after_def by blast
    have "q \<noteq> []" using q s' x by auto
    then obtain q' where q': "q = x # q'" using q s' by (cases q) auto
    have e0: "e \<noteq> []" using e t by (auto simp: valid_token_def)
    then have "\<not> is_ws (hd (e @ w @ x # q'))" using ws by (simp add: s)
    then have "map toasciilower (trim (e @ w @ x # q')) \<noteq> map toasciilower t"
      using e x(1) by (intro trim_extra)
    moreover have "CHR '','' \<notin> set (e @ w)"
      using lower_set_sep [OF e] t w by (auto simp: valid_token_def)
    ultimately show ?thesis using s q' by (intro exI [of _ "e @ w"]) simp
  qed
qed

lemma break_keeps_token:
  assumes "match_token s t (length t) 0 = MatchBreak s'" and t: "valid_token t" and cs: "c_string s"
    and np: "no_partial t s" and "s \<noteq> []" and ws: "\<not> is_ws (hd s)" and "hd s \<noteq> CHR '',''" and tok: "has_token s t"
  shows "has_token (dropWhile (\<lambda>c. c \<noteq> NUL \<and> c \<noteq> CHR '','') s') t
    \<and> no_partial t (dropWhile (\<lambda>c. c \<noteq> NUL \<and> c \<noteq> CHR '','') s')"
proof (rule rest_at_comma [of s'])
  show "c_string s'" using break_suffix [OF assms(1) t cs] cs by auto
next
  assume c: "CHR '','' \<notin> set s'"
  obtain p where "s = p @ s'" "CHR '','' \<notin> set p" "map toasciilower (trim (p @ s')) \<noteq> map toasciilower t"
    using break_first [OF assms(1-7), of s' "[]"] by auto
  with c tok show ?thesis by (simp add: has_token_single)
next
  fix e r
  assume d: "dropWhile (\<lambda>c. c \<noteq> NUL \<and> c \<noteq> CHR '','') s' = CHR '','' # r"
    and s': "s' = e @ CHR '','' # r" and e: "CHR '','' \<notin> set e"
  obtain p where p: "s = p @ s'" "CHR '','' \<notin> set p" "map toasciilower (trim (p @ e)) \<noteq> map toasciilower t"
    using break_first [OF assms(1-7) s'] by auto
  have s: "s = (p @ e) @ CHR '','' # r" by (simp add: p(1) s')
  have "has_token r t"
    using tok p e has_token_append_comma [of "p @ e" r t] has_token_single [of "p @ e" t] by (simp add: s)
  moreover have "no_partial t r" using np unfolding s by (rule no_partial_comma)
  moreover have "t \<noteq> []" using t by (simp add: valid_token_def)
  ultimately show ?thesis
    unfolding d by (simp add: has_token_comma no_partial_def)
qed

lemma end_no_token:
  assumes "match_token s t (length t) 0 = MatchEnd" and t: "valid_token t" and cs: "c_string s"
  shows "\<not> has_token s t"
proof -
  have len: "length s < length t" and low: "map toasciilower s = map toasciilower (take (length s) t)"
    using match_end [OF assms(1)] t cs by (auto simp: valid_token_def)
  have "CHR '','' \<notin> set s"
    using lower_set_sep [OF low] t set_take_subset [of "length s" t] by (auto simp: valid_token_def)
  moreover have "length (trim s) \<le> length s"
    using dropWhile_length_le [of is_ws "rev (dropWhile is_ws s)"] dropWhile_length_le [of is_ws s]
    by (simp add: trim_def del: dropWhile_length_le)
  ultimately show ?thesis
    using len by (auto simp: has_token_single dest!: arg_cong [of _ _ length])
qed

lemma has_token_loop_complete:
  "has_token str t \<Longrightarrow> no_partial t str \<Longrightarrow> valid_token t \<Longrightarrow> c_string str \<Longrightarrow>
   has_token_loop str t (length t)"
proof (induction str t "length t" rule: has_token_loop.induct)
  case (1 str t)
  let ?s = "dropWhile (\<lambda>c. is_ws c \<or> c = CHR '','') str"
  have t: "t \<noteq> []" using 1(4) by (simp add: valid_token_def)
  have cs: "c_string ?s" using 1(5) by (rule c_string_dropWhile)
  have tok: "has_token ?s t" using 1(2) has_token_skip [OF t, of str] by simp
  have np: "no_partial t ?s" using 1(3) by (rule no_partial_skip)
  have str: "peek str \<noteq> NUL" using 1(2,5) t c_string_peek [of str] has_token_Nil by auto
  have ne: "?s \<noteq> []" using tok has_token_Nil [OF t] by metis
  show ?case
  proof (cases "match_token ?s t (length t) 0")
    case MatchEnd
    then show ?thesis using end_no_token [OF MatchEnd 1(4) cs] tok by simp
  next
    case MatchFound
    then show ?thesis using str by (simp add: has_token_loop.simps [of str])
  next
    case (MatchBreak s')
    have cs': "c_string s'" using break_suffix [OF MatchBreak 1(4) cs] cs by auto
    show ?thesis
      using 1(1) [OF str MatchBreak] break_keeps_token [OF MatchBreak 1(4) cs np ne _ _ tok]
        skip_start [OF refl ne] 1(4) str MatchBreak cs'
      by (simp add: has_token_loop.simps [of str] c_string_dropWhile)
  qed
qed

section \<open>Properties\<close>

text \<open>
  C28. The token search is sound: it reports a token only if some comma-separated element of the
  header value, trimmed of blanks, is that token up to case.
\<close>

theorem has_token_caseless_sound:
  assumes "MHD_str_has_token_caseless str token (length token)"
    and "valid_token token" and "c_string str"
  shows "has_token str token"
  using assms has_token_loop_sound by (simp add: MHD_str_has_token_caseless_def split: if_splits)

theorem has_token_caseless_sound_witness:
  "has_token ''keep-alive, Upgrade'' ''upgrade''"
  by (rule has_token_caseless_sound) code_simp+

text \<open>
  C29. The token search is complete as long as no element in front of a comma is a nonempty proper
  prefix of the token.
\<close>

theorem has_token_caseless_complete:
  assumes "has_token str token" and "no_partial token str"
    and "valid_token token" and "c_string str"
  shows "MHD_str_has_token_caseless str token (length token)"
  using assms has_token_loop_complete by (simp add: MHD_str_has_token_caseless_def valid_token_def)

theorem has_token_caseless_complete_witness:
  "MHD_str_has_token_caseless ''foo , CLOSE ,bar'' ''close'' (length ''close'')"
  by (rule has_token_caseless_complete) code_simp+


end
