(* ===== verification/Memory_Pool.thy ===== *)
theory Memory_Pool
  imports Prelude
begin

text \<open>
  The connection memory pool, \<^verbatim>\<open>libmicrohttpd/src/microhttpd/memorypool.c\<close>: a bump allocator that
  hands out blocks from both ends of one memory area. The model keeps the bytes of the area, so that
  the effects of \<^verbatim>\<open>memmove\<close> and \<^verbatim>\<open>memset\<close> are visible, and \<^verbatim>\<open>size_t\<close> values at their width, because the
  guards of the code are about wrap-around.

  The lemmas show the invariant of the pool, that blocks a client holds never overlap each other or
  the free area in any reachable state, what a reallocation preserves, and two places where
  \<open>MHD_pool_reset\<close> does less than its description promises. The contract other components use is
  the locale \<open>block_allocator\<close>.
\<close>

section \<open>The pool\<close>

text \<open>\<^verbatim>\<open>ALIGN_SIZE\<close> is \<^verbatim>\<open>2 * sizeof(void*)\<close>.\<close>

definition ALIGN_SIZE :: size_t where
  "ALIGN_SIZE = 2 * 8"

definition ROUND_TO_ALIGN :: "size_t \<Rightarrow> size_t" where
  "ROUND_TO_ALIGN n = (n + (ALIGN_SIZE - 1)) AND (NOT (ALIGN_SIZE - 1))"

record MemoryPool =
  memory :: "byte list"
  psize :: size_t
  pos :: size_t
  pend :: size_t
  is_mmap :: bool

text \<open>
  A pointer into the pool is the offset of the byte it points to, \<^verbatim>\<open>NULL\<close> is \<open>None\<close>.
\<close>

type_synonym ptr = "size_t option"

definition memset :: "byte list \<Rightarrow> nat \<Rightarrow> byte \<Rightarrow> nat \<Rightarrow> byte list" where
  "memset mem off b n = take off mem @ replicate n b @ drop (off + n) mem"

definition memmove :: "byte list \<Rightarrow> nat \<Rightarrow> nat \<Rightarrow> nat \<Rightarrow> byte list" where
  "memmove mem dst src n = take dst mem @ take n (drop src mem) @ drop (dst + n) mem"

text \<open>
  What the system calls return is a parameter: whether the pool structure could be allocated, the
  memory \<^verbatim>\<open>mmap\<close> gives for large pools and the memory \<^verbatim>\<open>malloc\<close> gives, \<open>None\<close> on failure.
\<close>

definition MHD_pool_create :: "bool \<Rightarrow> byte list option \<Rightarrow> byte list option \<Rightarrow> size_t \<Rightarrow> MemoryPool option" where
  "MHD_pool_create struct_ok mmap_mem malloc_mem max_size =
     (if \<not> struct_ok then None
      else let mapped = (if max_size \<le> 32 * 1024 then None else mmap_mem) in
        case mapped of
          Some m \<Rightarrow> Some \<lparr>memory = m, psize = max_size, pos = 0, pend = max_size, is_mmap = True\<rparr>
        | None \<Rightarrow>
            (case malloc_mem of
               None \<Rightarrow> None
             | Some m \<Rightarrow> Some \<lparr>memory = m, psize = max_size, pos = 0, pend = max_size, is_mmap = False\<rparr>))"

datatype release = FreeMemory | UnmapMemory size_t | FreePool

definition MHD_pool_destroy :: "MemoryPool option \<Rightarrow> release list" where
  "MHD_pool_destroy pool =
     (case pool of None \<Rightarrow> []
      | Some p \<Rightarrow> [if \<not> is_mmap p then FreeMemory else UnmapMemory (psize p), FreePool])"

definition MHD_pool_get_free :: "MemoryPool \<Rightarrow> size_t" where
  "MHD_pool_get_free pool = pend pool - pos pool"

definition MHD_pool_allocate :: "MemoryPool \<Rightarrow> size_t \<Rightarrow> bool \<Rightarrow> ptr \<times> MemoryPool" where
  "MHD_pool_allocate pool sz from_end =
     (let asize = ROUND_TO_ALIGN sz in
      if asize = 0 \<and> sz \<noteq> 0 then (None, pool)
      else if pos pool + asize > pend pool \<or> pos pool + asize < pos pool then (None, pool)
      else if from_end then (Some (pend pool - asize), pool\<lparr>pend := pend pool - asize\<rparr>)
      else (Some (pos pool), pool\<lparr>pos := pos pool + asize\<rparr>))"

definition MHD_pool_reallocate :: "MemoryPool \<Rightarrow> ptr \<Rightarrow> size_t \<Rightarrow> size_t \<Rightarrow> ptr \<times> MemoryPool" where
  "MHD_pool_reallocate pool old old_size new_size =
     (let asize = ROUND_TO_ALIGN new_size in
      if asize = 0 \<and> new_size \<noteq> 0 then (None, pool)
      else if pend pool < old_size \<or> pend pool < asize then (None, pool)
      else if pos pool \<ge> old_size \<and> Some (pos pool - old_size) = old then
        (if pos pool + asize - old_size \<le> pend pool then
           (let pos' = pos pool + (asize - old_size);
                mem' = (if asize < old_size
                        then memset (memory pool) (unat pos') 0 (unat (old_size - asize))
                        else memory pool) in
            (old, pool\<lparr>pos := pos', memory := mem'\<rparr>))
         else (None, pool))
      else if asize \<le> old_size then (old, pool)
      else if pos pool + asize \<ge> pos pool \<and> pos pool + asize \<le> pend pool then
        (let mem' = (case old of
                       Some o' \<Rightarrow> if old_size \<noteq> 0
                                 then memmove (memory pool) (unat (pos pool)) (unat o') (unat old_size)
                                 else memory pool
                     | None \<Rightarrow> memory pool) in
         (Some (pos pool), pool\<lparr>memory := mem', pos := pos pool + asize\<rparr>))
      else (None, pool))"

definition MHD_pool_reset :: "MemoryPool \<Rightarrow> ptr \<Rightarrow> size_t \<Rightarrow> size_t \<Rightarrow> ptr \<times> MemoryPool" where
  "MHD_pool_reset pool keep copy_bytes new_size =
     (let (keep', mem1) =
        (case keep of
           Some k \<Rightarrow>
             if k \<noteq> 0 then
               (Some 0, if copy_bytes \<noteq> 0 then memmove (memory pool) 0 (unat k) (unat copy_bytes)
                        else memory pool)
             else (keep, memory pool)
         | None \<Rightarrow> (None, memory pool));
          mem2 = (if psize pool > copy_bytes
                  then memset mem1 (unat copy_bytes) 0 (unat (psize pool - copy_bytes)) else mem1);
          pos' = (if keep' \<noteq> None then ROUND_TO_ALIGN new_size else pos pool) in
      (keep', pool\<lparr>memory := mem2, pend := psize pool, pos := pos'\<rparr>))"

section \<open>Alignment\<close>

lemma mask_align: "(x :: size_t) AND - 16 = push_bit 4 (drop_bit 4 x)"
proof -
  have m: "(- 16 :: size_t) = NOT (mask 4)" by (simp add: mask_eq_exp_minus_1)
  show ?thesis
    unfolding m by (rule bit_word_eqI) (auto simp: bit_simps not_less)
qed

lemma unat_mask_align: "unat ((x :: size_t) AND - 16) = unat x div 16 * 16"
proof -
  have lt: "unat x div 16 * 16 < 2 ^ 64"
    using unsigned_less [of x, where ?'a = nat] div_times_less_eq_dividend [of "unat x" 16] by simp
  have "(x :: size_t) AND - 16 = word_of_nat (unat x div 16 * 16)"
    by (simp add: mask_align push_bit_eq_mult drop_bit_eq_div word_arith_nat_div)
  then show ?thesis using lt by (simp only: unat_of_nat) simp
qed

lemma unat_ROUND_TO_ALIGN:
  "unat n + 15 < 2 ^ 64 \<Longrightarrow> unat (ROUND_TO_ALIGN n) = (unat n + 15) div 16 * 16"
  by (simp add: ROUND_TO_ALIGN_def ALIGN_SIZE_def unat_mask_align unat_word_ariths)

lemma ROUND_TO_ALIGN_wraps: "2 ^ 64 \<le> unat n + 15 \<Longrightarrow> ROUND_TO_ALIGN n = 0"
proof -
  assume *: "2 ^ 64 \<le> unat n + 15"
  have "unat n < 2 ^ 64" using unsigned_less [of n, where ?'a = nat] by simp
  with * have "(unat n + 15) mod 2 ^ 64 < 16" by (simp add: mod_if) linarith
  then have "unat (n + 15) < 16" by (simp add: unat_word_ariths)
  then have "unat (ROUND_TO_ALIGN n) = 0"
    by (simp add: ROUND_TO_ALIGN_def ALIGN_SIZE_def unat_mask_align)
  then show ?thesis using word_unat_eq_iff [of "ROUND_TO_ALIGN n" 0] by simp
qed

text \<open>The rounded size covers the request unless the request is too close to the maximum.\<close>

lemma ROUND_TO_ALIGN_cases:
  assumes "\<not> (ROUND_TO_ALIGN n = 0 \<and> n \<noteq> 0)"
  shows "unat n \<le> unat (ROUND_TO_ALIGN n) \<and> 16 dvd unat (ROUND_TO_ALIGN n)
    \<and> unat (ROUND_TO_ALIGN n) < unat n + 16"
proof (cases "unat n + 15 < 2 ^ 64")
  case True
  have "unat n \<le> (unat n + 15) div 16 * 16 \<and> (unat n + 15) div 16 * 16 < unat n + 16" by presburger
  with True show ?thesis by (simp only: unat_ROUND_TO_ALIGN) simp
next
  case False
  with assms ROUND_TO_ALIGN_wraps [of n] show ?thesis by simp
qed

section \<open>The invariant\<close>

text \<open>
  Objects are smaller than half the address space, so offsets inside the pool do not wrap when
  two of them are added.
\<close>

definition pool_inv :: "MemoryPool \<Rightarrow> bool" where
  "pool_inv p \<longleftrightarrow> length (memory p) = unat (psize p) \<and> unat (psize p) < 2 ^ 63
     \<and> pos p \<le> pend p \<and> pend p \<le> psize p \<and> 16 dvd unat (pos p)"

definition in_free :: "MemoryPool \<Rightarrow> nat \<Rightarrow> bool" where
  "in_free p a \<longleftrightarrow> unat (pos p) \<le> a \<and> a < unat (pend p)"

lemma pool_invD:
  assumes "pool_inv p"
  shows "length (memory p) = unat (psize p)" "unat (psize p) < 2 ^ 63" "unat (pos p) \<le> unat (pend p)"
    "unat (pend p) \<le> unat (psize p)" "16 dvd unat (pos p)"
  using assms by (auto simp: pool_inv_def word_le_nat_alt)

lemma size_t_add:
  "unat (a :: size_t) + unat b < 2 ^ 64 \<Longrightarrow> unat (a + b) = unat a + unat b"
  by (simp add: unat_word_ariths)

lemma size_t_sub: "unat (b :: size_t) \<le> unat a \<Longrightarrow> unat (a - b) = unat a - unat b"
  by (simp add: unat_sub word_le_nat_alt)

lemma size_t_wrap:
  "\<not> a + b < (a :: size_t) \<Longrightarrow> unat (a + b) = unat a + unat b"
  by (metis add.commute not_less unat_plus_simple)

lemma allocate_fits:
  assumes "pool_inv p" and "MHD_pool_allocate p sz fe = (Some off, p')"
  shows "unat sz \<le> unat (ROUND_TO_ALIGN sz) \<and> 16 dvd unat (ROUND_TO_ALIGN sz)
     \<and> unat (pos p) + unat (ROUND_TO_ALIGN sz) \<le> unat (pend p)"
proof -
  from assms(2) have g: "\<not> (ROUND_TO_ALIGN sz = 0 \<and> sz \<noteq> 0)"
    "\<not> pos p + ROUND_TO_ALIGN sz > pend p" "\<not> pos p + ROUND_TO_ALIGN sz < pos p"
    by (auto simp: MHD_pool_allocate_def Let_def split: if_splits)
  then show ?thesis
    using ROUND_TO_ALIGN_cases [OF g(1)] size_t_wrap [OF g(3)] by (simp add: word_less_nat_alt)
qed

lemma allocate_split:
  "MHD_pool_allocate p sz fe = (None, p') \<Longrightarrow> p' = p"
  "MHD_pool_allocate p sz True = (Some off, p') \<Longrightarrow>
     off = pend p - ROUND_TO_ALIGN sz \<and> p' = p\<lparr>pend := pend p - ROUND_TO_ALIGN sz\<rparr>"
  "MHD_pool_allocate p sz False = (Some off, p') \<Longrightarrow>
     off = pos p \<and> p' = p\<lparr>pos := pos p + ROUND_TO_ALIGN sz\<rparr>"
  by (auto simp: MHD_pool_allocate_def Let_def split: if_splits)

lemma allocate_block:
  assumes inv: "pool_inv p" and al: "MHD_pool_allocate p sz fe = (Some off, p')"
  shows "pool_inv p' \<and> memory p' = memory p \<and> psize p' = psize p
     \<and> unat (pos p) \<le> unat off \<and> unat off + unat sz \<le> unat (pend p)
     \<and> (if fe then unat (pend p') \<le> unat off else unat off + unat sz \<le> unat (pos p'))
     \<and> unat (pos p) \<le> unat (pos p') \<and> unat (pend p') \<le> unat (pend p)
     \<and> (\<not> fe \<longrightarrow> 16 dvd unat off)"
proof -
  let ?a = "ROUND_TO_ALIGN sz"
  note b = pool_invD [OF inv] and f = allocate_fits [OF inv al]
  show ?thesis
  proof (cases fe)
    case True
    then have r: "off = pend p - ?a" "p' = p\<lparr>pend := pend p - ?a\<rparr>"
      using allocate_split(2) al by auto
    have "unat (pend p - ?a) = unat (pend p) - unat ?a" using f by (intro size_t_sub) linarith
    with r b f True show ?thesis by (auto simp: pool_inv_def word_le_nat_alt)
  next
    case False
    then have r: "off = pos p" "p' = p\<lparr>pos := pos p + ?a\<rparr>"
      using allocate_split(3) al by auto
    have "unat (pos p + ?a) = unat (pos p) + unat ?a" using f b by (intro size_t_add) simp
    with r b f False show ?thesis by (auto simp: pool_inv_def word_le_nat_alt)
  qed
qed

section \<open>Memory contents\<close>

lemma length_memset [simp]: "off + n \<le> length mem \<Longrightarrow> length (memset mem off b n) = length mem"
  by (simp add: memset_def)

lemma nth_memset:
  "off + n \<le> length mem \<Longrightarrow> a < length mem \<Longrightarrow>
   memset mem off b n ! a = (if off \<le> a \<and> a < off + n then b else mem ! a)"
  by (auto simp: memset_def nth_append)

lemma length_memmove [simp]:
  "dst + n \<le> length mem \<Longrightarrow> src + n \<le> length mem \<Longrightarrow> length (memmove mem dst src n) = length mem"
  by (simp add: memmove_def)

lemma nth_memmove:
  "dst + n \<le> length mem \<Longrightarrow> src + n \<le> length mem \<Longrightarrow> a < length mem \<Longrightarrow>
   memmove mem dst src n ! a = (if dst \<le> a \<and> a < dst + n then mem ! (src + (a - dst)) else mem ! a)"
  by (auto simp: memmove_def nth_append)

section \<open>Reallocation\<close>

text \<open>A block the pool handed out lies in front of or behind the free area.\<close>

definition allocated :: "MemoryPool \<Rightarrow> nat \<Rightarrow> nat \<Rightarrow> bool" where
  "allocated p off n \<longleftrightarrow> n = 0 \<or> (off + n \<le> unat (pos p) \<and> 16 dvd off)
     \<or> (unat (pend p) \<le> off \<and> off + n \<le> unat (psize p))"

abbreviation owns :: "MemoryPool \<Rightarrow> ptr \<Rightarrow> size_t \<Rightarrow> bool" where
  "owns p old osz \<equiv> (case old of None \<Rightarrow> osz = 0 | Some o' \<Rightarrow> allocated p (unat o') (unat osz))"

lemma reallocate_cases:
  assumes "MHD_pool_reallocate p old osz nsz = (Some r, p')"
  obtains (in_place) "old = Some r" "osz \<le> pos p" "r = pos p - osz"
      "pos p + ROUND_TO_ALIGN nsz - osz \<le> pend p" "ROUND_TO_ALIGN nsz \<le> pend p"
      "p' = p\<lparr>pos := pos p + (ROUND_TO_ALIGN nsz - osz),
              memory := (if ROUND_TO_ALIGN nsz < osz
                then memset (memory p) (unat (pos p + (ROUND_TO_ALIGN nsz - osz))) 0 (unat (osz - ROUND_TO_ALIGN nsz))
                else memory p)\<rparr>"
  | (keep) "old = Some r" "ROUND_TO_ALIGN nsz \<le> osz" "p' = p"
  | (move) "r = pos p" "\<not> pos p + ROUND_TO_ALIGN nsz < pos p" "pos p + ROUND_TO_ALIGN nsz \<le> pend p"
      "\<not> ROUND_TO_ALIGN nsz \<le> osz"
      "p' = p\<lparr>memory := (case old of Some o' \<Rightarrow> if osz \<noteq> 0
                 then memmove (memory p) (unat (pos p)) (unat o') (unat osz) else memory p
               | None \<Rightarrow> memory p), pos := pos p + ROUND_TO_ALIGN nsz\<rparr>"
proof -
  let ?last = "pos p \<ge> osz \<and> Some (pos p - osz) = old"
  have ok: "\<not> (ROUND_TO_ALIGN nsz = 0 \<and> nsz \<noteq> 0)" "\<not> (pend p < osz \<or> pend p < ROUND_TO_ALIGN nsz)"
    using assms by (auto simp: MHD_pool_reallocate_def Let_def split: if_splits)
  show thesis
  proof (cases ?last)
    case True
    then have "pos p + ROUND_TO_ALIGN nsz - osz \<le> pend p"
      using assms ok by (simp add: MHD_pool_reallocate_def Let_def del: diff_diff_add split: if_split_asm)
    with True show thesis
      using assms ok by (intro in_place) (simp_all add: MHD_pool_reallocate_def Let_def not_less)
  next
    case False
    note rest = assms [unfolded MHD_pool_reallocate_def Let_def if_not_P [OF ok(1)] if_not_P [OF ok(2)] if_not_P [OF False]]
    show thesis
    proof (cases "ROUND_TO_ALIGN nsz \<le> osz")
      case True
      with rest show thesis by (intro keep) simp_all
    next
      case False
      then have fits: "pos p + ROUND_TO_ALIGN nsz \<ge> pos p \<and> pos p + ROUND_TO_ALIGN nsz \<le> pend p"
        using rest by (simp split: if_split_asm)
      with rest False show thesis by (intro move) (auto simp: not_less)
    qed
  qed
qed

lemma reallocate_not_wrapped:
  "MHD_pool_reallocate p old osz nsz = (Some r, p') \<Longrightarrow>
   unat nsz \<le> unat (ROUND_TO_ALIGN nsz) \<and> 16 dvd unat (ROUND_TO_ALIGN nsz)"
  using ROUND_TO_ALIGN_cases [of nsz]
  by (auto simp: MHD_pool_reallocate_def Let_def split: if_splits)

lemma in_place_pos:
  assumes "pool_inv p" and "osz \<le> pos p" and "asize \<le> pend p" and "pos p + asize - osz \<le> pend p"
  shows "unat (pos p + (asize - osz)) = unat (pos p) + unat asize - unat osz
       \<and> unat (pos p) + unat asize - unat osz \<le> unat (pend p)"
proof -
  note b = pool_invD [OF assms(1)]
  have a: "unat (pos p + asize) = unat (pos p) + unat asize"
    using b assms(3) by (intro size_t_add) (simp add: word_le_nat_alt)
  have "unat (pos p + asize - osz) = unat (pos p) + unat asize - unat osz"
    using assms(2) a by (subst size_t_sub) (simp_all add: word_le_nat_alt)
  moreover have eq: "pos p + (asize - osz) = pos p + asize - osz" by (rule add_diff_eq)
  ultimately show ?thesis using assms(4) unfolding eq by (simp add: word_le_nat_alt)
qed

lemma in_place_facts:
  assumes inv: "pool_inv p" and "osz \<le> pos p" "r = pos p - osz"
      "pos p + asize - osz \<le> pend p" "asize \<le> pend p" and a: "16 dvd unat asize"
    and old: "allocated p (unat r) (unat osz)"
  shows "unat r + unat osz = unat (pos p)" "16 dvd unat r"
    "unat (pos p + (asize - osz)) = unat r + unat asize" "unat r + unat asize \<le> unat (pend p)"
proof -
  note b = pool_invD [OF inv] and q = in_place_pos [OF inv assms(2,5,4), unfolded word_le_nat_alt]
  show r: "unat r + unat osz = unat (pos p)"
    using assms(2,3) by (simp add: size_t_sub word_le_nat_alt)
  have "unat osz = 0 \<or> 16 dvd unat r"
    using old r b by (auto simp: allocated_def)
  then show "16 dvd unat r" using r b(5) by auto
  show "unat (pos p + (asize - osz)) = unat r + unat asize" using q r by simp
  then show "unat r + unat asize \<le> unat (pend p)" using q by simp
qed

lemma move_facts:
  assumes inv: "pool_inv p" and "\<not> pos p + asize < pos p" "pos p + asize \<le> pend p"
  shows "unat (pos p + asize) = unat (pos p) + unat asize" "unat (pos p) + unat asize \<le> unat (pend p)"
  using size_t_wrap [OF assms(2)] assms(3) by (simp_all add: word_le_nat_alt)

lemma owns_bound: "pool_inv p \<Longrightarrow> allocated p off n \<Longrightarrow> n = 0 \<or> off + n \<le> length (memory p)"
  using pool_invD [of p] by (auto simp: allocated_def)

lemma owns_bound_nonzero:
  "pool_inv p \<Longrightarrow> allocated p (unat x) (unat osz) \<Longrightarrow> osz \<noteq> 0 \<Longrightarrow> unat x + unat osz \<le> length (memory p)"
  using owns_bound [of p "unat x" "unat osz"] word_unat_eq_iff [of osz 0] by auto

lemma move_memory:
  assumes inv: "pool_inv p" and old: "owns p old osz"
    and "\<not> pos p + asize < pos p" "pos p + asize \<le> pend p" and big: "\<not> asize \<le> osz"
    and m: "m = (case old of Some o' \<Rightarrow> if osz \<noteq> 0
                 then memmove (memory p) (unat (pos p)) (unat o') (unat osz) else memory p
               | None \<Rightarrow> memory p)"
  shows "length m = length (memory p) \<and> (\<forall>a < length (memory p). \<not> in_free p a \<longrightarrow> m ! a = memory p ! a)"
proof (cases "old = None \<or> osz = 0")
  case True
  then show ?thesis by (auto simp: m split: option.split)
next
  case False
  then obtain x where x: "old = Some x" "osz \<noteq> 0" by auto
  note b = pool_invD [OF inv] and f = move_facts [OF inv assms(3,4)]
  have src: "unat x + unat osz \<le> length (memory p)"
    using owns_bound_nonzero [OF inv _ x(2)] old x(1) by simp
  have dst: "unat (pos p) + unat osz \<le> unat (pend p)" "unat (pend p) \<le> length (memory p)"
    using f b big by (simp_all add: word_le_nat_alt)
  show ?thesis
    using src dst by (simp add: m x nth_memmove in_free_def)
qed

lemma reallocate_inv:
  assumes inv: "pool_inv p" and re: "MHD_pool_reallocate p old osz nsz = (Some r, p')" and old: "owns p old osz"
  shows "pool_inv p' \<and> psize p' = psize p \<and> pend p' = pend p"
proof -
  note b = pool_invD [OF inv] and n = reallocate_not_wrapped [OF re]
  show ?thesis
    using re
  proof (cases rule: reallocate_cases)
    case in_place
    then have "allocated p (unat r) (unat osz)" using old by simp
    note f = in_place_facts [OF inv in_place(2,3,4,5) _ this]
    let ?a = "ROUND_TO_ALIGN nsz"
    have l: "?a < osz \<Longrightarrow> unat (pos p + (?a - osz)) + unat (osz - ?a) \<le> length (memory p)"
      using f n b by (simp add: size_t_sub word_less_nat_alt)
    show ?thesis
      using f n b l in_place(6) by (auto simp: pool_inv_def word_le_nat_alt)
  next
    case keep
    then show ?thesis using inv by simp
  next
    case move
    note f = move_facts [OF inv move(2,3)]
    have "length (memory p') = length (memory p)"
      using move_memory [OF inv old move(2,3,4) refl] move(5) by simp
    then show ?thesis
      using move(5) f n b by (auto simp: pool_inv_def word_le_nat_alt)
  qed
qed

lemma reallocate_place:
  assumes inv: "pool_inv p" and re: "MHD_pool_reallocate p old osz nsz = (Some r, p')" and old: "owns p old osz"
  shows "(\<forall>a. unat r \<le> a \<and> a < unat r + unat nsz \<longrightarrow>
            in_free p a \<or> old = Some r \<and> a < unat r + unat osz)
    \<and> (\<forall>a. in_free p' a \<longrightarrow> in_free p a \<or> old = Some r \<and> unat r \<le> a \<and> a < unat r + unat osz)
    \<and> (\<forall>a. unat r \<le> a \<and> a < unat r + unat nsz \<longrightarrow> \<not> in_free p' a)
    \<and> allocated p' (unat r) (unat nsz)"
proof -
  note b = pool_invD [OF inv] and n = reallocate_not_wrapped [OF re]
  show ?thesis
    using re
  proof (cases rule: reallocate_cases)
    case in_place
    then have "allocated p (unat r) (unat osz)" using old by simp
    note f = in_place_facts [OF inv in_place(2,3,4,5) _ this]
    show ?thesis
      using f n b in_place(1,6) by (auto simp: in_free_def allocated_def)
  next
    case keep
    then have "unat nsz \<le> unat osz" using n by (simp add: word_le_nat_alt)
    then show ?thesis
      using keep old b by (auto simp: in_free_def allocated_def)
  next
    case move
    note f = move_facts [OF inv move(2,3)]
    show ?thesis
      using f n b move(1,5) by (auto simp: in_free_def allocated_def)
  qed
qed

lemma reallocate_frame:
  assumes inv: "pool_inv p" and re: "MHD_pool_reallocate p old osz nsz = (Some r, p')" and old: "owns p old osz"
    and a: "a < length (memory p)" "\<not> in_free p a"
    and out: "\<not> (old = Some r \<and> unat r + unat nsz \<le> a \<and> a < unat r + unat osz)"
  shows "memory p' ! a = memory p ! a"
proof -
  note b = pool_invD [OF inv] and n = reallocate_not_wrapped [OF re]
  show ?thesis
    using re
  proof (cases rule: reallocate_cases)
    case in_place
    then have "allocated p (unat r) (unat osz)" using old by simp
    note f = in_place_facts [OF inv in_place(2,3,4,5) _ this]
    let ?a = "ROUND_TO_ALIGN nsz"
    have l: "?a < osz \<Longrightarrow> unat (osz - ?a) = unat osz - unat ?a \<and> unat ?a < unat osz"
      by (simp add: size_t_sub word_less_nat_alt)
    show ?thesis
      using f n b l in_place(1,6) a out by (auto simp: nth_memset)
  next
    case keep
    then show ?thesis by simp
  next
    case move
    show ?thesis
      using move_memory [OF inv old move(2,3,4) refl] move(5) a by simp
  qed
qed

lemma reallocate_contents:
  assumes inv: "pool_inv p" and re: "MHD_pool_reallocate p (Some o') osz nsz = (Some r, p')"
    and old: "allocated p (unat o') (unat osz)" and i: "i < unat osz" "i < unat nsz"
  shows "memory p' ! (unat r + i) = memory p ! (unat o' + i)"
proof -
  note b = pool_invD [OF inv] and n = reallocate_not_wrapped [OF re]
  have o: "unat o' + i < length (memory p)" "\<not> in_free p (unat o' + i)"
    using owns_bound [OF inv old] i(1) old b by (auto simp: allocated_def in_free_def)
  show ?thesis
    using re
  proof (cases rule: reallocate_cases)
    case in_place
    then show ?thesis using reallocate_frame [OF inv re _ o] old i by simp
  next
    case keep
    then show ?thesis by simp
  next
    case move
    note f = move_facts [OF inv move(2,3)]
    have "osz \<noteq> 0" using i(1) by auto
    then show ?thesis
      using move(1,4,5) f b owns_bound [OF inv old] i by (simp add: word_le_nat_alt nth_memmove)
  qed
qed

section \<open>The allocator contract\<close>

type_synonym block = "nat \<times> nat"

fun bytes :: "block \<Rightarrow> nat set" where
  "bytes (a, n) = {a..<a + n}"

declare bytes.simps [simp del]

text \<open>
  What clients rely on: a successful allocation returns a block out of the free area and takes it
  away from the free area; a failed one changes nothing. Then the blocks of any sequence of
  allocations are pairwise disjoint and lie in the area that was free at the start.
\<close>

fun alloc_seq :: "('p \<Rightarrow> size_t \<Rightarrow> bool \<Rightarrow> ptr \<times> 'p) \<Rightarrow> 'p \<Rightarrow> (size_t \<times> bool) list \<Rightarrow> (nat \<times> nat) list \<times> 'p" where
  "alloc_seq alloc p [] = ([], p)"
| "alloc_seq alloc p ((n, fe) # rs) =
     (case alloc p n fe of
        (None, p') \<Rightarrow> alloc_seq alloc p' rs
      | (Some off, p') \<Rightarrow> (case alloc_seq alloc p' rs of (bs, p'') \<Rightarrow> ((unat off, unat n) # bs, p'')))"

locale block_allocator =
  fixes alloc :: "'p \<Rightarrow> size_t \<Rightarrow> bool \<Rightarrow> ptr \<times> 'p"
    and free_area :: "'p \<Rightarrow> nat set" and invar :: "'p \<Rightarrow> bool"
  assumes alloc_invar: "invar p \<Longrightarrow> alloc p n fe = (r, p') \<Longrightarrow> invar p'"
    and alloc_fail: "alloc p n fe = (None, p') \<Longrightarrow> p' = p"
    and alloc_takes: "invar p \<Longrightarrow> alloc p n fe = (Some off, p') \<Longrightarrow>
      bytes (unat off, unat n) \<subseteq> free_area p - free_area p'"
    and alloc_shrinks: "invar p \<Longrightarrow> alloc p n fe = (r, p') \<Longrightarrow> free_area p' \<subseteq> free_area p"
begin

lemma alloc_seq_disjoint:
  "invar p \<Longrightarrow> alloc_seq alloc p rs = (bs, p') \<Longrightarrow>
   invar p' \<and> free_area p' \<subseteq> free_area p
   \<and> (\<forall>x \<in> set bs. bytes x \<subseteq> free_area p - free_area p')
   \<and> sorted_wrt (\<lambda>x y. bytes x \<inter> bytes y = {}) bs"
proof (induction rs arbitrary: p p' bs)
  case (Cons r rs)
  obtain n fe where r: "r = (n, fe)" by (cases r)
  obtain o' q where al: "alloc p n fe = (o', q)" by (cases "alloc p n fe")
  obtain cs q' where seq: "alloc_seq alloc q rs = (cs, q')" by (cases "alloc_seq alloc q rs")
  have q: "invar q" "free_area q \<subseteq> free_area p"
    using Cons.prems(1) al alloc_invar alloc_shrinks by blast+
  note IH = Cons.IH [OF q(1) seq]
  show ?case
  proof (cases o')
    case None
    then have "bs = cs" "p' = q'" using Cons.prems al seq r by auto
    then show ?thesis using IH q by blast
  next
    case (Some off)
    have t: "bytes (unat off, unat n) \<subseteq> free_area p - free_area q"
      using alloc_takes [OF Cons.prems(1)] al Some by blast
    have bs: "bs = (unat off, unat n) # cs" "p' = q'"
      using Cons.prems(2) al seq Some r by auto
    have "bytes (unat off, unat n) \<inter> bytes x = {}" if "x \<in> set cs" for x
      using t IH that by blast
    moreover have "bytes x \<subseteq> free_area p - free_area q'" if "x \<in> set cs" for x
      using q IH that by blast
    moreover have "bytes (unat off, unat n) \<subseteq> free_area p - free_area q'"
      using t q IH by blast
    ultimately show ?thesis using IH q by (simp add: bs) blast
  qed
qed auto

end

interpretation pool: block_allocator MHD_pool_allocate "\<lambda>p. {a. in_free p a}" pool_inv
proof (unfold_locales, goal_cases)
  case (1 p n fe r p')
  then show ?case using allocate_block [of p n fe] allocate_split(1) by (cases r) auto
next
  case (2 p n fe p')
  then show ?case by (rule allocate_split(1))
next
  case (3 p n fe off p')
  then show ?case using allocate_block [OF 3] by (auto simp: in_free_def bytes.simps split: if_splits)
next
  case (4 p n fe r p')
  then show ?case
    using allocate_block [of p n fe] allocate_split(1) by (cases r) (auto simp: in_free_def)
qed

section \<open>Reachable pools\<close>

text \<open>
  A client holds blocks, recorded by their offset and the size it asked for. Every operation of
  the pool is a step; \<open>reset\<close> keeps at most one block. A reallocation names a block the client
  holds, or no block.
\<close>

inductive pool_step :: "MemoryPool \<times> block list \<Rightarrow> MemoryPool \<times> block list \<Rightarrow> bool" where
  allocate: "MHD_pool_allocate p sz fe = (Some off, p') \<Longrightarrow>
     pool_step (p, L) (p', (unat off, unat sz) # L)"
| allocate_fails: "MHD_pool_allocate p sz fe = (None, p') \<Longrightarrow> pool_step (p, L) (p', L)"
| reallocate: "MHD_pool_reallocate p (Some o') osz nsz = (Some r, p') \<Longrightarrow>
     pool_step (p, L @ (unat o', unat osz) # M) (p', L @ (unat r, unat nsz) # M)"
| reallocate_new: "MHD_pool_reallocate p None 0 nsz = (Some r, p') \<Longrightarrow>
     pool_step (p, L) (p', (unat r, unat nsz) # L)"
| reallocate_fails: "MHD_pool_reallocate p old osz nsz = (None, p') \<Longrightarrow> pool_step (p, L) (p', L)"
| reset: "MHD_pool_reset p (Some k) cb nsz = (Some k', p') \<Longrightarrow> (unat k, n) \<in> set L \<Longrightarrow>
     unat cb \<le> n \<Longrightarrow> cb \<le> nsz \<Longrightarrow> unat nsz + 15 < 2 ^ 64 \<Longrightarrow> ROUND_TO_ALIGN nsz \<le> psize p \<Longrightarrow>
     pool_step (p, L) (p', [(unat k', unat nsz)])"
| reset_all: "MHD_pool_reset p None cb nsz = (None, p') \<Longrightarrow> cb \<le> psize p \<Longrightarrow> pool_step (p, L) (p', [])"

inductive pool_reachable :: "MemoryPool \<times> block list \<Rightarrow> bool" where
  create: "MHD_pool_create struct_ok mmap_mem malloc_mem max_size = Some p \<Longrightarrow>
     length (memory p) = unat max_size \<Longrightarrow> unat max_size < 2 ^ 63 \<Longrightarrow> pool_reachable (p, [])"
| step: "pool_reachable s \<Longrightarrow> pool_step s t \<Longrightarrow> pool_reachable t"

definition blocks_ok :: "MemoryPool \<Rightarrow> block list \<Rightarrow> bool" where
  "blocks_ok p L \<longleftrightarrow> (\<forall>x \<in> set L. allocated p (fst x) (snd x)) \<and> sorted_wrt (\<lambda>x y. bytes x \<inter> bytes y = {}) L"

lemma blocks_okD: "blocks_ok p L \<Longrightarrow> (a, n) \<in> set L \<Longrightarrow> allocated p a n"
  by (force simp: blocks_ok_def)

lemma allocated_bytes:
  "pool_inv p \<Longrightarrow> allocated p a n \<Longrightarrow> bytes (a, n) \<subseteq> {0..<length (memory p)} - {b. in_free p b}"
  using pool_invD [of p] by (auto simp: allocated_def in_free_def bytes.simps)

lemma reallocate_fails_same: "MHD_pool_reallocate p old osz nsz = (None, p') \<Longrightarrow> p' = p"
  by (auto simp: MHD_pool_reallocate_def Let_def split: if_splits)

lemma allocate_blocks:
  assumes inv: "pool_inv p" and ok: "blocks_ok p L" and al: "MHD_pool_allocate p sz fe = (Some off, p')"
  shows "blocks_ok p' ((unat off, unat sz) # L)"
proof -
  note f = allocate_block [OF inv al]
  have keep: "allocated p' a n" if "allocated p a n" for a n
    using that f by (auto simp: allocated_def)
  have new: "allocated p' (unat off) (unat sz)"
    using f pool_invD [OF inv] by (cases fe) (auto simp: allocated_def)
  have "bytes (unat off, unat sz) \<subseteq> {a. in_free p a}" using f by (auto simp: in_free_def bytes.simps)
  then have "bytes (unat off, unat sz) \<inter> bytes x = {}" if "x \<in> set L" for x
    using ok that allocated_bytes [OF inv, of "fst x" "snd x"] by (auto simp: blocks_ok_def)
  then show ?thesis
    using ok keep new by (auto simp: blocks_ok_def)
qed

text \<open>
  Both kinds of successful reallocation, with and without an old block, in one statement: the other
  blocks \<open>L\<close> stay as they are.
\<close>

lemma reallocate_others:
  assumes inv: "pool_inv p" and re: "MHD_pool_reallocate p old osz nsz = (Some r, p')" and own: "owns p old osz"
    and x: "allocated p a n" and dis: "\<And>o'. old = Some o' \<Longrightarrow> bytes (unat o', unat osz) \<inter> bytes (a, n) = {}"
  shows "allocated p' a n \<and> bytes (unat r, unat nsz) \<inter> bytes (a, n) = {}"
proof
  note pl = reallocate_place [OF inv re own] and i = reallocate_inv [OF inv re own]
  have x1: "bytes (a, n) \<subseteq> {0..<length (memory p)} - {b. in_free p b}" using allocated_bytes [OF inv x] .
  show "bytes (unat r, unat nsz) \<inter> bytes (a, n) = {}"
  proof (intro equals0I, elim IntE)
    fix y assume y: "y \<in> bytes (unat r, unat nsz)" "y \<in> bytes (a, n)"
    with pl x1 have "old = Some r \<and> y \<in> bytes (unat r, unat osz)"
      by (auto simp: bytes.simps)
    with dis y(2) show False by blast
  qed
  show "allocated p' a n"
    using re
  proof (cases rule: reallocate_cases)
    case in_place
    then have al: "allocated p (unat r) (unat osz)" using own by simp
    note f = in_place_facts [OF inv in_place(2,3,4,5) _ al]
    have n: "16 dvd unat (ROUND_TO_ALIGN nsz)" using reallocate_not_wrapped [OF re] by simp
    have p': "unat (pos p') = unat r + unat (ROUND_TO_ALIGN nsz)" "pend p' = pend p" "psize p' = psize p"
      using f(3) n in_place(6) by simp_all
    show ?thesis
    proof (cases "n = 0 \<or> unat (pend p) \<le> a")
      case True
      then show ?thesis using x p' pool_invD [OF inv] by (auto simp: allocated_def)
    next
      case False
      then have front: "a + n \<le> unat (pos p)" "16 dvd a" using x by (auto simp: allocated_def)
      have "a + n \<le> unat r"
      proof (rule ccontr)
        assume "\<not> a + n \<le> unat r"
        with front f(1) n False have "a + n - 1 \<in> bytes (unat r, unat osz) \<inter> bytes (a, n)"
          by (auto simp: bytes.simps)
        with dis in_place(1) show False by auto
      qed
      then show ?thesis using front p' by (simp add: allocated_def)
    qed
  next
    case keep
    then show ?thesis using x by simp
  next
    case move
    then show ?thesis using x move_facts [OF inv move(2,3)] by (auto simp: allocated_def)
  qed
qed

lemma reallocate_blocks:
  assumes inv: "pool_inv p" and ok: "blocks_ok p (L @ (unat o', unat osz) # M)"
    and re: "MHD_pool_reallocate p (Some o') osz nsz = (Some r, p')"
  shows "blocks_ok p' (L @ (unat r, unat nsz) # M)"
proof -
  have own: "owns p (Some o') osz" using ok by (auto simp: blocks_ok_def)
  have d: "bytes (unat o', unat osz) \<inter> bytes x = {}" if "x \<in> set L \<union> set M" for x
    using ok that by (auto simp: blocks_ok_def sorted_wrt_append)
  have others: "allocated p' a n \<and> bytes (unat r, unat nsz) \<inter> bytes (a, n) = {}"
    if "(a, n) \<in> set L \<union> set M" for a n
    using reallocate_others [OF inv re own, of a n] d [OF that] blocks_okD [OF ok, of a n] that by auto
  have new: "allocated p' (unat r) (unat nsz)" using reallocate_place [OF inv re own] by simp
  have new_dis: "bytes (unat r, unat nsz) \<inter> bytes x = {}" if "x \<in> set L \<union> set M" for x
    using others [of "fst x" "snd x"] that by simp
  have all: "\<forall>x \<in> set (L @ (unat r, unat nsz) # M). allocated p' (fst x) (snd x)"
    using others new by auto
  have "sorted_wrt (\<lambda>x y. bytes x \<inter> bytes y = {}) (L @ (unat r, unat nsz) # M)"
    using new_dis ok by (simp add: blocks_ok_def sorted_wrt_append Int_commute)
  with all show ?thesis by (simp only: blocks_ok_def)
qed

lemma reallocate_new_blocks:
  assumes inv: "pool_inv p" and ok: "blocks_ok p L"
    and re: "MHD_pool_reallocate p None 0 nsz = (Some r, p')"
  shows "blocks_ok p' ((unat r, unat nsz) # L)"
proof -
  have own: "owns p None 0" by simp
  have others: "allocated p' a n \<and> bytes (unat r, unat nsz) \<inter> bytes (a, n) = {}"
    if "(a, n) \<in> set L" for a n
    using reallocate_others [OF inv re own, of a n] blocks_okD [OF ok that] by simp
  have new: "allocated p' (unat r) (unat nsz)" using reallocate_place [OF inv re own] by simp
  have "bytes (unat r, unat nsz) \<inter> bytes x = {}" if "x \<in> set L" for x
    using others [of "fst x" "snd x"] that by simp
  then show ?thesis using others new ok by (auto simp: blocks_ok_def)
qed

section \<open>Reset\<close>

lemma reset_keeps:
  assumes inv: "pool_inv p" and re: "MHD_pool_reset p (Some k) cb nsz = (r, p')"
    and src: "cb = 0 \<or> unat k + unat cb \<le> length (memory p)" and "unat nsz + 15 < 2 ^ 64" "ROUND_TO_ALIGN nsz \<le> psize p"
  shows "r = Some 0 \<and> pool_inv p' \<and> psize p' = psize p \<and> pend p' = psize p
     \<and> unat nsz \<le> unat (pos p')
     \<and> (\<forall>i < length (memory p). memory p' ! i = (if i < unat cb then memory p ! (unat k + i) else 0))"
proof -
  note b = pool_invD [OF inv]
  have n: "unat nsz \<le> unat (ROUND_TO_ALIGN nsz)" "16 dvd unat (ROUND_TO_ALIGN nsz)"
    unfolding unat_ROUND_TO_ALIGN [OF assms(4)] by presburger+
  let ?m = "if k \<noteq> 0 \<and> cb \<noteq> 0 then memmove (memory p) 0 (unat k) (unat cb) else memory p"
  have m: "length ?m = length (memory p)" "\<forall>i < unat cb. ?m ! i = memory p ! (unat k + i)"
    using src by (auto simp: nth_memmove)
  have cb: "unat cb \<le> length ?m" using src m by auto
  have d: "psize p > cb \<Longrightarrow> unat (psize p - cb) = length ?m - unat cb"
    using m b by (simp add: size_t_sub word_less_nat_alt)
  have p': "r = Some 0" "p' = p\<lparr>memory := (if psize p > cb then memset ?m (unat cb) 0 (unat (psize p - cb)) else ?m),
      pend := psize p, pos := ROUND_TO_ALIGN nsz\<rparr>"
    using re by (auto simp: MHD_pool_reset_def Let_def split: if_splits)
  have mem: "memory p' = take (unat cb) ?m @ replicate (length ?m - unat cb) 0"
    using d cb m b by (auto simp: p' memset_def word_less_nat_alt)
  then have len: "length (memory p') = length (memory p)" using cb m by simp
  have "memory p' ! i = (if i < unat cb then memory p ! (unat k + i) else 0)" if "i < length (memory p)" for i
    unfolding mem using m cb that by (simp add: nth_append)
  moreover have "pool_inv p'"
    using b n len assms(5) by (simp add: pool_inv_def p')
  ultimately show ?thesis using n p' by simp
qed

lemma reset_all_inv:
  assumes inv: "pool_inv p" and re: "MHD_pool_reset p None cb nsz = (None, p')" and "cb \<le> psize p"
  shows "pool_inv p'"
proof -
  note b = pool_invD [OF inv]
  have "psize p > cb \<Longrightarrow> unat (psize p - cb) = length (memory p) - unat cb"
    using b by (simp add: size_t_sub word_less_nat_alt)
  then show ?thesis
    using re b assms(3) by (auto simp: MHD_pool_reset_def Let_def pool_inv_def word_le_nat_alt memset_def)
qed

lemma pool_step_inv:
  "pool_step s t \<Longrightarrow> pool_inv (fst s) \<Longrightarrow> blocks_ok (fst s) (snd s) \<Longrightarrow> pool_inv (fst t) \<and> blocks_ok (fst t) (snd t)"
proof (induction rule: pool_step.induct)
  case (allocate p sz fe off p' L)
  then show ?case using allocate_block [of p] allocate_blocks [of p] by simp
next
  case (allocate_fails p sz fe p' L)
  then show ?case using allocate_split(1) by fastforce
next
  case (reallocate p o' osz nsz r p' L M)
  then have "owns p (Some o') osz" using blocks_okD [of p _ "unat o'"] by simp
  with reallocate show ?case using reallocate_inv [of p] reallocate_blocks [of p] by simp
next
  case (reallocate_new p nsz r p' L)
  then show ?case using reallocate_inv [of p None 0] reallocate_new_blocks [of p] by simp
next
  case (reallocate_fails p old osz nsz p' L)
  then show ?case using reallocate_fails_same by fastforce
next
  case (reset p k cb nsz k' p' n L)
  then have "allocated p (unat k) n" using blocks_okD by auto
  then have "cb = 0 \<or> unat k + unat cb \<le> length (memory p)"
    using owns_bound [of p "unat k" n] reset word_unat_eq_iff [of cb 0] by auto
  then show ?case
    using reset reset_keeps [of p k cb nsz "Some k'" p'] by (auto simp: blocks_ok_def allocated_def)
next
  case (reset_all p cb nsz p' L)
  then show ?case using reset_all_inv [of p] by (simp add: blocks_ok_def)
qed

lemma reachable_inv: "pool_reachable s \<Longrightarrow> pool_inv (fst s) \<and> blocks_ok (fst s) (snd s)"
proof (induction rule: pool_reachable.induct)
  case (create struct_ok mmap_mem malloc_mem max_size p)
  then have "psize p = max_size \<and> pos p = 0 \<and> pend p = max_size"
    by (auto simp: MHD_pool_create_def Let_def split: if_splits option.splits)
  with create show ?case by (simp add: pool_inv_def blocks_ok_def)
next
  case (step s t)
  then show ?case using pool_step_inv by blast
qed

section \<open>Properties\<close>

text \<open>
  C9. In every state a client can reach through the operations of the pool, the blocks it holds lie
  inside the pool memory and outside the free area, and no two of them share a byte.
\<close>

theorem pool_blocks_disjoint:
  assumes "pool_reachable (p, L)"
  shows "(\<forall>x \<in> set L. bytes x \<subseteq> {0..<length (memory p)} - {a. in_free p a})
    \<and> sorted_wrt (\<lambda>x y. bytes x \<inter> bytes y = {}) L"
proof -
  have "pool_inv p" and ok: "blocks_ok p L" using reachable_inv [OF assms] by simp_all
  then have "bytes x \<subseteq> {0..<length (memory p)} - {a. in_free p a}" if "x \<in> set L" for x
    using allocated_bytes [of p "fst x" "snd x"] that by (auto simp: blocks_ok_def)
  then show ?thesis using ok by (auto simp: blocks_ok_def)
qed

definition example_pool :: MemoryPool where
  "example_pool = \<lparr>memory = replicate 64 7, psize = 64, pos = 0, pend = 64, is_mmap = False\<rparr>"

lemma pool_example_reachable:
  "pool_reachable (snd (MHD_pool_allocate example_pool 20 False), [(0, 20)])"
proof -
  have "MHD_pool_create True None (Some (replicate 64 7)) 64 = Some example_pool"
    by (simp add: MHD_pool_create_def example_pool_def)
  then have "pool_reachable (example_pool, [])"
    by (rule create) (simp_all add: example_pool_def)
  moreover have "MHD_pool_allocate example_pool 20 False = (Some 0, example_pool\<lparr>pos := 32\<rparr>)"
    by code_simp
  ultimately show ?thesis using pool_reachable.step [OF _ allocate] by fastforce
qed

theorem pool_blocks_disjoint_witness:
  "bytes (0, 20) \<subseteq> {0..<length (memory (snd (MHD_pool_allocate example_pool 20 False)))}
     - {a. in_free (snd (MHD_pool_allocate example_pool 20 False)) a}"
  using pool_blocks_disjoint [OF pool_example_reachable] by simp

text \<open>
  C25. A successful allocation returns a block of the requested size out of the free area, keeps the
  invariant, does not touch the memory, and, at the front, returns an aligned block; a failed one
  changes nothing.
\<close>

theorem pool_allocate_correct:
  assumes "pool_inv p" and "MHD_pool_allocate p sz from_end = (r, p')"
  shows "pool_inv p' \<and> memory p' = memory p
    \<and> (case r of None \<Rightarrow> p' = p
       | Some off \<Rightarrow> bytes (unat off, unat sz) \<subseteq> {a. in_free p a} - {a. in_free p' a}
                     \<and> (from_end \<or> 16 dvd unat off))"
  using assms allocate_block [of p sz from_end _ p'] allocate_split(1) [of p sz from_end p']
  by (auto simp: in_free_def bytes.simps split: option.split if_splits)

theorem pool_allocate_correct_witness:
  "case MHD_pool_allocate example_pool 20 True of (r, p') \<Rightarrow> pool_inv p' \<and> r = Some 32"
  using pool_allocate_correct [of example_pool 20 True "Some 32" "example_pool\<lparr>pend := 32\<rparr>"]
  by (simp add: pool_inv_def example_pool_def MHD_pool_allocate_def ROUND_TO_ALIGN_def ALIGN_SIZE_def)

text \<open>
  C24. A reallocation that succeeds keeps the invariant, returns a block whose common prefix has the
  contents of the old block, and leaves every allocated byte outside the old block as it was.
\<close>

theorem pool_reallocate_correct:
  assumes "pool_inv p" and "MHD_pool_reallocate p (Some o') osz nsz = (Some r, p')"
    and "allocated p (unat o') (unat osz)"
  shows "pool_inv p' \<and> allocated p' (unat r) (unat nsz)
    \<and> (\<forall>i. i < unat osz \<and> i < unat nsz \<longrightarrow> memory p' ! (unat r + i) = memory p ! (unat o' + i))
    \<and> (\<forall>a < length (memory p). a \<notin> bytes (unat o', unat osz) \<and> \<not> in_free p a \<longrightarrow> memory p' ! a = memory p ! a)"
proof -
  have own: "owns p (Some o') osz" using assms(3) by simp
  have "memory p' ! a = memory p ! a"
    if "a < length (memory p)" "a \<notin> bytes (unat o', unat osz)" "\<not> in_free p a" for a
    using that by (intro reallocate_frame [OF assms(1,2) own]) (auto simp: bytes.simps)
  then show ?thesis
    using reallocate_inv [OF assms(1,2) own] reallocate_place [OF assms(1,2) own]
      reallocate_contents [OF assms] by blast
qed

theorem pool_reallocate_correct_witness:
  "pool_inv (snd (MHD_pool_reallocate (example_pool\<lparr>pos := 32\<rparr>) (Some 0) 32 40))"
proof -
  have re: "MHD_pool_reallocate (example_pool\<lparr>pos := 32\<rparr>) (Some 0) 32 40 = (Some 0, example_pool\<lparr>pos := 48\<rparr>)"
    by code_simp
  have "pool_inv (example_pool\<lparr>pos := 32\<rparr>)" by (simp add: pool_inv_def example_pool_def)
  moreover have "allocated (example_pool\<lparr>pos := 32\<rparr>) (unat (0 :: size_t)) (unat (32 :: size_t))" by code_simp
  ultimately show ?thesis using pool_reallocate_correct [OF _ re] by (simp only: re snd_conv)
qed

text \<open>
  C26. Resetting with a kept block moves it to the start of the pool, zeroes everything behind the
  kept bytes and makes the rest of the pool free again, provided the rounded new size fits.
\<close>

theorem pool_reset_correct:
  assumes "pool_inv p" and "MHD_pool_reset p (Some k) cb nsz = (r, p')"
    and "cb = 0 \<or> unat k + unat cb \<le> length (memory p)"
    and "unat nsz + 15 < 2 ^ 64" and "ROUND_TO_ALIGN nsz \<le> psize p"
  shows "r = Some 0 \<and> pool_inv p' \<and> pend p' = psize p \<and> unat nsz \<le> unat (pos p')
    \<and> (\<forall>i < length (memory p). memory p' ! i = (if i < unat cb then memory p ! (unat k + i) else 0))"
  using reset_keeps [OF assms] by simp

theorem pool_reset_correct_witness:
  "fst (MHD_pool_reset (example_pool\<lparr>pos := 32\<rparr>) (Some 16) 4 32) = Some 0"
proof -
  have "pool_inv (example_pool\<lparr>pos := 32\<rparr>)" and "ROUND_TO_ALIGN 32 \<le> psize (example_pool\<lparr>pos := 32\<rparr>)"
    by (simp_all add: pool_inv_def example_pool_def ROUND_TO_ALIGN_def ALIGN_SIZE_def)
  then show ?thesis
    using pool_reset_correct [of "example_pool\<lparr>pos := 32\<rparr>" 16 4 32] by (simp add: prod_eq_iff example_pool_def)
qed

text \<open>
  Resetting without a kept block does not make the front of the pool available again: the
  position of the first free byte stays where it was, so all front allocations are still charged.
\<close>

lemma pool_reset_null_keeps_pos:
  "fst (MHD_pool_reset p None cb nsz) = None \<and> pos (snd (MHD_pool_reset p None cb nsz)) = pos p"
  by (simp add: MHD_pool_reset_def Let_def)

text \<open>
  C39. The new size passed to a reset is rounded up without comparing the result with the pool size:
  a pool of 24 bytes that is reset to 24 bytes has its first free byte behind its end, and the free
  space reported is almost the whole address space.
\<close>

theorem pool_reset_overruns:
  "\<exists>p p'. pool_inv p \<and> MHD_pool_reset p (Some 0) 0 (psize p) = (Some 0, p')
     \<and> pos p' > pend p' \<and> MHD_pool_get_free p' = - 8"
proof (intro exI conjI)
  let ?p = "\<lparr>memory = replicate 24 0, psize = 24, pos = 0, pend = 24, is_mmap = False\<rparr> :: MemoryPool"
  show "pool_inv ?p" by (simp add: pool_inv_def)
  show "MHD_pool_reset ?p (Some 0) 0 (psize ?p) = (Some 0, ?p\<lparr>pos := 32\<rparr>)" by code_simp
  show "pos (?p\<lparr>pos := 32\<rparr>) > pend (?p\<lparr>pos := 32\<rparr>)" by simp
  show "MHD_pool_get_free (?p\<lparr>pos := 32\<rparr>) = - 8" by code_simp
qed

end
