(* ===== verification/Tsearch.thy ===== *)
theory Tsearch
  imports Prelude
begin

text \<open>
  The binary search tree of \<^verbatim>\<open>libmicrohttpd/src/microhttpd/tsearch.c\<close> (Knuth's Algorithm T), generic in the
  comparison function. A tree is a \<open>node\<close>, \<open>Null\<close> the \<^verbatim>\<open>NULL\<close> link. A pointer to a node, the result of
  \<^verbatim>\<open>tsearch\<close> and \<^verbatim>\<open>tfind\<close>, is represented by the key stored in that node, which is all its callers read.

  The contract of the comparison function is the locale \<open>comparison\<close>: it orders the keys of its domain
  like a linear order. Under it the tree is a finite map from order positions to keys.
\<close>

datatype 'k node = Null | Node (nkey: 'k) (llink: "'k node") (rlink: "'k node")

type_synonym 'k compar = "'k \<Rightarrow> 'k \<Rightarrow> int"

section \<open>Find or insert\<close>

text \<open>The argument \<open>mem\<close> says whether \<^verbatim>\<open>malloc\<close> can serve a new node.\<close>

fun tsearch_at :: "bool \<Rightarrow> 'k \<Rightarrow> 'k compar \<Rightarrow> 'k node \<Rightarrow> 'k option \<times> 'k node" where
  "tsearch_at mem vkey compar Null =
     (if mem then (Some vkey, Node vkey Null Null) else (None, Null))"
| "tsearch_at mem vkey compar (Node k l r) =
     (let c = compar vkey k in
      if c = 0 then (Some k, Node k l r)
      else if c < 0 then (case tsearch_at mem vkey compar l of (q, l') \<Rightarrow> (q, Node k l' r))
      else (case tsearch_at mem vkey compar r of (q, r') \<Rightarrow> (q, Node k l r')))"

definition tsearch :: "bool \<Rightarrow> 'k \<Rightarrow> 'k node option \<Rightarrow> 'k compar \<Rightarrow> 'k option \<times> 'k node option" where
  "tsearch mem vkey rootp compar =
     (case rootp of None \<Rightarrow> (None, None)
      | Some t \<Rightarrow> (case tsearch_at mem vkey compar t of (q, t') \<Rightarrow> (q, Some t')))"

fun tfind_at :: "'k \<Rightarrow> 'k compar \<Rightarrow> 'k node \<Rightarrow> 'k option" where
  "tfind_at vkey compar Null = None"
| "tfind_at vkey compar (Node k l r) =
     (let c = compar vkey k in
      if c = 0 then Some k else if c < 0 then tfind_at vkey compar l else tfind_at vkey compar r)"

definition tfind :: "'k \<Rightarrow> 'k node option \<Rightarrow> 'k compar \<Rightarrow> 'k option" where
  "tfind vkey rootp compar = (case rootp of None \<Rightarrow> None | Some t \<Rightarrow> tfind_at vkey compar t)"

section \<open>Delete\<close>

text \<open>
  Step D3 of the deletion: from a node whose left link is not null, walk down the left links to the
  last node, unlink it and return its key.
\<close>

fun unlink_leftmost :: "'k node \<Rightarrow> ('k \<times> 'k node) option" where
  "unlink_leftmost (Node k (Node qk Null qr) r) = Some (qk, Node k qr r)"
| "unlink_leftmost (Node k (Node qk ql qr) r) =
     (case unlink_leftmost (Node qk ql qr) of
        Some (m, l') \<Rightarrow> Some (m, Node k l' r) | None \<Rightarrow> None)"
| "unlink_leftmost _ = None"

text \<open>The subtree that replaces the deleted node (steps D1 to D4).\<close>

definition remove_root :: "'k node \<Rightarrow> 'k node" where
  "remove_root t =
     (case t of Null \<Rightarrow> Null
      | Node k q r \<Rightarrow>
          if q = Null then r
          else (case r of
                  Null \<Rightarrow> q
                | Node rk rl rr \<Rightarrow>
                    if rl = Null then Node rk q rr
                    else (case unlink_leftmost r of
                            Some (m, r') \<Rightarrow> Node m q r' | None \<Rightarrow> q)))"

text \<open>
  The descent. The first component is what the code returns: the key of the node from which the
  descent took its last step, the root itself if the root is deleted.
\<close>

fun tdelete_at :: "'k \<Rightarrow> 'k compar \<Rightarrow> 'k \<Rightarrow> 'k node \<Rightarrow> 'k option \<times> 'k node" where
  "tdelete_at vkey compar p Null = (None, Null)"
| "tdelete_at vkey compar p (Node k l r) =
     (let c = compar vkey k in
      if c = 0 then (Some p, remove_root (Node k l r))
      else if c < 0 then (case tdelete_at vkey compar k l of (q, l') \<Rightarrow> (q, Node k l' r))
      else (case tdelete_at vkey compar k r of (q, r') \<Rightarrow> (q, Node k l r')))"

definition tdelete :: "'k \<Rightarrow> 'k node option \<Rightarrow> 'k compar \<Rightarrow> 'k option \<times> 'k node option" where
  "tdelete vkey rootp compar =
     (case rootp of None \<Rightarrow> (None, None)
      | Some t \<Rightarrow>
          (case t of Null \<Rightarrow> (None, Some Null)
           | Node k _ _ \<Rightarrow> (case tdelete_at vkey compar k t of (q, t') \<Rightarrow> (q, Some t'))))"

text \<open>A caller that holds the result of a search may change the key in place.\<close>

fun modify_at :: "('k \<Rightarrow> 'k) \<Rightarrow> 'k \<Rightarrow> 'k compar \<Rightarrow> 'k node \<Rightarrow> 'k node" where
  "modify_at f vkey compar Null = Null"
| "modify_at f vkey compar (Node k l r) =
     (let c = compar vkey k in
      if c = 0 then Node (f k) l r
      else if c < 0 then Node k (modify_at f vkey compar l) r
      else Node k l (modify_at f vkey compar r))"

section \<open>Comparison contract\<close>

fun keys :: "'k node \<Rightarrow> 'k set" where
  "keys Null = {}"
| "keys (Node k l r) = insert k (keys l \<union> keys r)"

fun search_tree :: "('k \<Rightarrow> 'o::linorder) \<Rightarrow> 'k node \<Rightarrow> bool" where
  "search_tree rank Null = True"
| "search_tree rank (Node k l r) =
     (search_tree rank l \<and> search_tree rank r
      \<and> (\<forall>x \<in> keys l. rank x < rank k) \<and> (\<forall>x \<in> keys r. rank k < rank x))"

lemma finite_keys [simp]: "finite (keys t)"
  by (induction t) auto

lemma rank_unique:
  "search_tree rank t \<Longrightarrow> a \<in> keys t \<Longrightarrow> b \<in> keys t \<Longrightarrow> rank a = rank b \<Longrightarrow> a = b"
proof (induction t)
  case (Node k l r)
  then have "\<forall>x \<in> keys l. rank x < rank k" "\<forall>x \<in> keys r. rank k < rank x" by auto
  then show ?case using Node by simp (metis less_asym less_irrefl)
qed simp

lemma unlink_leftmost_Some:
  assumes "unlink_leftmost t = Some (m, t')" and "search_tree rank t"
  shows "keys t = insert m (keys t') \<and> m \<notin> keys t' \<and> search_tree rank t' \<and> (\<forall>x \<in> keys t'. rank m < rank x)"
  using assms
proof (induction t arbitrary: m t' rule: unlink_leftmost.induct)
  case (1 k qk qr r)
  then show ?case by auto (metis less_irrefl less_trans)+
next
  case (2 k qk v va vb qr r)
  from 2(2) obtain l' where l': "unlink_leftmost (Node qk (Node v va vb) qr) = Some (m, l')" "t' = Node k l' r"
    by (auto split: option.splits)
  have IH: "keys (Node qk (Node v va vb) qr) = insert m (keys l') \<and> m \<notin> keys l' \<and> search_tree rank l'
      \<and> (\<forall>x \<in> keys l'. rank m < rank x)"
    using 2(1) [OF l'(1)] 2(3) by simp
  have st: "\<forall>x \<in> keys (Node qk (Node v va vb) qr). rank x < rank k"
    "search_tree rank r" "\<forall>x \<in> keys r. rank k < rank x"
    using 2(3) by auto
  have mk: "m \<in> keys (Node qk (Node v va vb) qr)" using IH by blast
  have m: "rank m < rank k" using bspec [OF st(1) mk] .
  have sub: "\<forall>x \<in> keys l'. rank x < rank k" using st(1) IH by blast
  have r: "\<forall>x \<in> keys r. rank m < rank x" using st(3) m by (blast intro: less_trans)
  then have nr: "m \<notin> keys r" by blast
  have "keys (Node k (Node qk (Node v va vb) qr) r) = insert m (keys (Node k l' r))"
    using IH by (metis (no_types, lifting) Un_insert_left insert_commute keys.simps(2))
  then show ?case
    unfolding l'(2) using IH st(2,3) m sub r nr by auto
qed auto

lemma unlink_leftmost_total: "llink t \<noteq> Null \<Longrightarrow> t \<noteq> Null \<Longrightarrow> unlink_leftmost t \<noteq> None"
  by (induction t rule: unlink_leftmost.induct) (auto split: option.splits)

lemma remove_root_keys:
  assumes "search_tree rank (Node k l r)"
  shows "keys (remove_root (Node k l r)) = keys l \<union> keys r \<and> search_tree rank (remove_root (Node k l r))"
proof (cases "l = Null \<or> r = Null \<or> llink r = Null")
  case True
  then show ?thesis
    using assms by (auto simp: remove_root_def split: node.splits) (metis less_trans)+
next
  case False
  then obtain m r' where m: "unlink_leftmost r = Some (m, r')"
    using unlink_leftmost_total [of r] by auto
  note u = unlink_leftmost_Some [OF m, of rank]
  have eq: "remove_root (Node k l r) = Node m l r'"
    using False m by (auto simp: remove_root_def split: node.splits)
  have r: "keys r = insert m (keys r')" "search_tree rank r'" "\<forall>x \<in> keys r'. rank m < rank x"
    using u assms by auto
  have "\<forall>x \<in> keys l. rank x < rank m"
    using assms r(1) by (auto intro: less_trans)
  then show ?thesis
    unfolding eq using assms r by auto
qed

lemma tsearch_at_keys:
  shows "tfind_at v compar t = None \<Longrightarrow> tsearch_at False v compar t = (None, t)"
    and "tfind_at v compar t = Some k \<Longrightarrow> tsearch_at mem v compar t = (Some k, t)"
    and "tfind_at v compar t = None \<Longrightarrow> fst (tsearch_at True v compar t) = Some v"
    and "tfind_at v compar t = None \<Longrightarrow> keys (snd (tsearch_at True v compar t)) = insert v (keys t)"
  by (induction t) (auto simp: Let_def split_beta split: if_splits)

locale comparison =
  fixes compar :: "'k compar" and rank :: "'k \<Rightarrow> 'o::linorder" and dom_ok :: "'k \<Rightarrow> bool"
  assumes compar_less: "dom_ok a \<Longrightarrow> dom_ok b \<Longrightarrow> compar a b < 0 \<longleftrightarrow> rank a < rank b"
    and compar_eq: "dom_ok a \<Longrightarrow> dom_ok b \<Longrightarrow> compar a b = 0 \<longleftrightarrow> rank a = rank b"
begin

lemma tfind_at_iff:
  assumes "dom_ok v" "\<forall>x \<in> keys t. dom_ok x" "search_tree rank t"
  shows "tfind_at v compar t = Some k \<longleftrightarrow> k \<in> keys t \<and> rank k = rank v"
  using assms
proof (induction t)
  case (Node a l r)
  then have c: "compar v a < 0 \<longleftrightarrow> rank v < rank a" "compar v a = 0 \<longleftrightarrow> rank v = rank a"
    by (simp_all add: compar_less compar_eq)
  consider "rank v = rank a" | "rank v < rank a" | "rank a < rank v" by fastforce
  then show ?case
    using Node c by cases (auto simp: Let_def)
qed simp

lemma tfind_at_None:
  "dom_ok v \<Longrightarrow> \<forall>x \<in> keys t. dom_ok x \<Longrightarrow> search_tree rank t \<Longrightarrow>
   tfind_at v compar t = None \<longleftrightarrow> (\<forall>k \<in> keys t. rank k \<noteq> rank v)"
  using tfind_at_iff [of v t] by (metis not_None_eq)

lemma compar_cases:
  assumes "dom_ok v" "dom_ok a"
  obtains (eq) "compar v a = 0" "rank v = rank a"
  | (less) "compar v a \<noteq> 0" "compar v a < 0" "rank v < rank a"
  | (greater) "compar v a \<noteq> 0" "\<not> compar v a < 0" "rank a < rank v"
  using compar_less [OF assms] compar_eq [OF assms] by (metis linorder_less_linear)

lemma tsearch_at_tree:
  assumes "dom_ok v" "\<forall>x \<in> keys t. dom_ok x" "search_tree rank t" "tfind_at v compar t = None"
  shows "search_tree rank (snd (tsearch_at True v compar t))"
  using assms
proof (induction t)
  case (Node a l r)
  have dl: "\<forall>x \<in> keys l. dom_ok x" "search_tree rank l" and dr: "\<forall>x \<in> keys r. dom_ok x" "search_tree rank r"
    and a: "dom_ok a" using Node.prems by auto
  show ?case
    using Node.prems(1) a
  proof (cases rule: compar_cases)
    case eq
    then show ?thesis using Node.prems(4) by simp
  next
    case less
    then have "tfind_at v compar l = None" using Node.prems(4) by (simp add: Let_def)
    then show ?thesis
      using Node.IH(1) [OF Node.prems(1) dl] tsearch_at_keys(4) [of v compar l] less Node.prems(3)
      by (simp add: Let_def split_beta)
  next
    case greater
    then have "tfind_at v compar r = None" using Node.prems(4) by (simp add: Let_def)
    then show ?thesis
      using Node.IH(2) [OF Node.prems(1) dr] tsearch_at_keys(4) [of v compar r] greater Node.prems(3)
      by (simp add: Let_def split_beta)
  qed
qed simp

lemma tdelete_at_correct:
  assumes "dom_ok v" "\<forall>x \<in> keys t. dom_ok x" "search_tree rank t"
  shows "search_tree rank (snd (tdelete_at v compar p t))
    \<and> keys (snd (tdelete_at v compar p t)) = {k \<in> keys t. rank k \<noteq> rank v}
    \<and> (fst (tdelete_at v compar p t) = None \<longleftrightarrow> tfind_at v compar t = None)"
  using assms
proof (induction t arbitrary: p)
  case (Node a l r)
  have dl: "\<forall>x \<in> keys l. dom_ok x" "search_tree rank l" and dr: "\<forall>x \<in> keys r. dom_ok x" "search_tree rank r"
    and a: "dom_ok a" using Node.prems by auto
  have lt: "\<forall>x \<in> keys l. rank x < rank a" and gt: "\<forall>x \<in> keys r. rank a < rank x" using Node.prems by auto
  show ?case
    using Node.prems(1) a
  proof (cases rule: compar_cases)
    case eq
    have "keys l \<union> keys r = {k \<in> keys (Node a l r). rank k \<noteq> rank v}"
      using lt gt eq(2) by auto
    then show ?thesis using eq remove_root_keys [OF Node.prems(3)] by (simp del: keys.simps)
  next
    case less
    then have "keys r = {k \<in> keys r. rank k \<noteq> rank v}" using gt by fastforce
    then show ?thesis
      using Node.IH(1) [OF Node.prems(1) dl, of a] less Node.prems(3)
      by (auto simp: Let_def split: prod.splits)
  next
    case greater
    then have "keys l = {k \<in> keys l. rank k \<noteq> rank v}" using lt by fastforce
    then show ?thesis
      using Node.IH(2) [OF Node.prems(1) dr, of a] greater Node.prems(3)
      by (auto simp: Let_def split: prod.splits)
  qed
qed auto

lemma tdelete_correct:
  assumes "dom_ok v" "\<forall>x \<in> keys t. dom_ok x" "search_tree rank t"
  shows "\<exists>q t'. tdelete v (Some t) compar = (q, Some t') \<and> search_tree rank t'
    \<and> keys t' = {k \<in> keys t. rank k \<noteq> rank v} \<and> (q = None \<longleftrightarrow> tfind_at v compar t = None)"
proof (cases t)
  case (Node k l r)
  then show ?thesis
    using tdelete_at_correct [OF assms, of k]
    by (cases "tdelete_at v compar k t") (simp add: tdelete_def)
qed (simp add: tdelete_def)

lemma modify_at_correct:
  assumes "dom_ok v" "\<forall>x \<in> keys t. dom_ok x" "search_tree rank t" and f: "\<And>k. rank (f k) = rank k"
  shows "keys (modify_at f v compar t) = (\<lambda>k. if rank k = rank v then f k else k) ` keys t
    \<and> search_tree rank (modify_at f v compar t)"
  using assms(1-3)
proof (induction t)
  case (Node a l r)
  then have c: "compar v a < 0 \<longleftrightarrow> rank v < rank a" "compar v a = 0 \<longleftrightarrow> rank v = rank a"
    by (simp_all add: compar_less compar_eq)
  consider "rank v = rank a" | "rank v < rank a" | "rank a < rank v" by fastforce
  then show ?case
    using Node c f by cases (auto simp: Let_def image_iff)
qed simp

lemma modify_at_keys:
  assumes "\<forall>x \<in> keys t. dom_ok x" "search_tree rank t" "v \<in> keys t" and f: "\<And>k. rank (f k) = rank k"
  shows "keys (modify_at f v compar t) = insert (f v) (keys t - {v})"
    and "search_tree rank (modify_at f v compar t)"
proof -
  have v: "dom_ok v" using assms(1,3) by blast
  have "(if rank k = rank v then f k else k) = (if k = v then f k else k)" if "k \<in> keys t" for k
    using rank_unique [OF assms(2) that assms(3)] by auto
  then have "(\<lambda>k. if rank k = rank v then f k else k) ` keys t = (\<lambda>k. if k = v then f k else k) ` keys t"
    by (intro image_cong) auto
  also have "\<dots> = insert (f v) (keys t - {v})" using assms(3) by (auto simp: image_iff)
  finally show "keys (modify_at f v compar t) = insert (f v) (keys t - {v})"
    using modify_at_correct [OF v assms(1,2) f] by simp
  show "search_tree rank (modify_at f v compar t)"
    using modify_at_correct [OF v assms(1,2) f] by blast
qed

end

end
