(* ===== verification/Ip_Limit.thy ===== *)
theory Ip_Limit
  imports Tsearch "HOL-Library.List_Lexorder" "HOL-Library.Multiset"
begin

text \<open>
  The limit on concurrent connections from one address, \<^verbatim>\<open>daemon.c\<close> (\<^verbatim>\<open>MHD_ip_limit_add\<close>,
  \<^verbatim>\<open>MHD_ip_limit_del\<close> and their helpers), on top of the search tree of \<open>Tsearch\<close>.

  A socket address is the list of its bytes in memory and its declared length. The struct
  \<^verbatim>\<open>MHD_IPCount\<close> is compared by \<^verbatim>\<open>memcmp\<close> up to its counter, so its two first fields are laid out as bytes.
  The tree holds pointers to such structs; a struct reached through a search result is changed in place.
  Daemons live in a store because a worker delegates to its master. Both panics of the removal are
  values of \<open>ip_panic\<close>.
\<close>

section \<open>Keys\<close>

record MHD_IPCount =
  family :: u32
  addr :: "byte list"
  count :: u32

definition AF_INET :: u32 where "AF_INET = 2"
definition AF_INET6 :: u32 where "AF_INET6 = 10"

definition sizeof_sockaddr_in :: nat where "sizeof_sockaddr_in = 16"
definition sizeof_sockaddr_in6 :: nat where "sizeof_sockaddr_in6 = 28"

text \<open>The bytes of a 32-bit integer on a little-endian machine.\<close>

definition le_bytes32 :: "u32 \<Rightarrow> byte list" where
  "le_bytes32 w = [ucast w, ucast (drop_bit 8 w), ucast (drop_bit 16 w), ucast (drop_bit 24 w)]"

text \<open>The first \<^verbatim>\<open>offsetof (struct MHD_IPCount, count)\<close> bytes of the struct.\<close>

definition key_bytes :: "MHD_IPCount \<Rightarrow> byte list" where
  "key_bytes k = le_bytes32 (family k) @ addr k"

fun memcmp :: "byte list \<Rightarrow> byte list \<Rightarrow> nat \<Rightarrow> int" where
  "memcmp (a # as) (b # bs) (Suc n) =
     (if a = b then memcmp as bs n else if a < b then -1 else 1)"
| "memcmp _ _ _ = 0"

definition MHD_ip_addr_compare :: "MHD_IPCount \<Rightarrow> MHD_IPCount \<Rightarrow> int" where
  "MHD_ip_addr_compare a1 a2 = memcmp (key_bytes a1) (key_bytes a2) 20"

text \<open>
  \<^verbatim>\<open>sin_addr\<close> are the 4 bytes at offset 4 of \<^verbatim>\<open>struct sockaddr_in\<close>, \<^verbatim>\<open>sin6_addr\<close> the 16 bytes at offset 8 of
  \<^verbatim>\<open>struct sockaddr_in6\<close>. The key is zeroed before it is filled.
\<close>

definition MHD_ip_addr_to_key :: "byte list \<Rightarrow> nat \<Rightarrow> MHD_IPCount option" where
  "MHD_ip_addr_to_key sa addrlen =
     (if sizeof_sockaddr_in = addrlen
      then Some \<lparr>family = AF_INET, addr = take 4 (drop 4 sa) @ replicate 12 0, count = 0\<rparr>
      else if sizeof_sockaddr_in6 = addrlen
      then Some \<lparr>family = AF_INET6, addr = take 16 (drop 8 sa), count = 0\<rparr>
      else None)"

section \<open>Daemons\<close>

record ip_daemon =
  master :: "nat option"
  per_ip_connection_limit :: u32
  per_ip_connection_count :: "MHD_IPCount node"

type_synonym daemons = "nat \<Rightarrow> ip_daemon"

partial_function (option) MHD_get_master :: "daemons \<Rightarrow> nat \<Rightarrow> nat option" where
  "MHD_get_master ds d =
     (case master (ds d) of None \<Rightarrow> Some d | Some d' \<Rightarrow> MHD_get_master ds d')"

datatype ip_panic = Address_not_found | Counter_of_zero

text \<open>
  The operation on the daemon that holds the counters. The flags say whether the key and the tree
  node can be allocated. A fresh key is never the key of an existing node; the counter to test and
  increment is that of the node the search returns.
\<close>

definition ip_limit_add :: "bool \<Rightarrow> bool \<Rightarrow> ip_daemon \<Rightarrow> byte list \<Rightarrow> nat \<Rightarrow> bool \<times> ip_daemon" where
  "ip_limit_add key_mem node_mem d sa addrlen =
     (if per_ip_connection_limit d = 0 then (True, d)
      else if \<not> key_mem then (False, d)
      else (case MHD_ip_addr_to_key sa addrlen of
              None \<Rightarrow> (True, d)
            | Some key \<Rightarrow>
                (case tsearch node_mem key (Some (per_ip_connection_count d)) MHD_ip_addr_compare of
                   (Some k, Some t) \<Rightarrow>
                     if count k < per_ip_connection_limit d
                     then (True, d\<lparr>per_ip_connection_count :=
                                     modify_at (count_update (\<lambda>c. c + 1)) k MHD_ip_addr_compare t\<rparr>)
                     else (False, d\<lparr>per_ip_connection_count := t\<rparr>)
                 | (_, _) \<Rightarrow> (False, d))))"

definition ip_limit_del :: "ip_daemon \<Rightarrow> byte list \<Rightarrow> nat \<Rightarrow> ip_panic + ip_daemon" where
  "ip_limit_del d sa addrlen =
     (if per_ip_connection_limit d = 0 then Inr d
      else (case MHD_ip_addr_to_key sa addrlen of
              None \<Rightarrow> Inr d
            | Some search_key \<Rightarrow>
                (case tfind search_key (Some (per_ip_connection_count d)) MHD_ip_addr_compare of
                   None \<Rightarrow> Inl Address_not_found
                 | Some found \<Rightarrow>
                     if count found = 0 then Inl Counter_of_zero
                     else let t = modify_at (count_update (\<lambda>c. c - 1)) found MHD_ip_addr_compare
                                    (per_ip_connection_count d)
                          in if count found - 1 = 0
                             then (case tdelete found (Some t) MHD_ip_addr_compare of
                                     (_, Some t') \<Rightarrow> Inr (d\<lparr>per_ip_connection_count := t'\<rparr>)
                                   | (_, None) \<Rightarrow> Inr d)
                             else Inr (d\<lparr>per_ip_connection_count := t\<rparr>))))"

definition MHD_ip_limit_add ::
  "bool \<Rightarrow> bool \<Rightarrow> daemons \<Rightarrow> nat \<Rightarrow> byte list \<Rightarrow> nat \<Rightarrow> (bool \<times> daemons) option" where
  "MHD_ip_limit_add key_mem node_mem ds d sa addrlen =
     (case MHD_get_master ds d of None \<Rightarrow> None
      | Some md \<Rightarrow> (case ip_limit_add key_mem node_mem (ds md) sa addrlen of
                      (res, dm) \<Rightarrow> Some (res, ds(md := dm))))"

definition MHD_ip_limit_del :: "daemons \<Rightarrow> nat \<Rightarrow> byte list \<Rightarrow> nat \<Rightarrow> (ip_panic + daemons) option" where
  "MHD_ip_limit_del ds d sa addrlen =
     (case MHD_get_master ds d of None \<Rightarrow> None
      | Some md \<Rightarrow> Some (map_sum id (\<lambda>dm. ds(md := dm)) (ip_limit_del (ds md) sa addrlen)))"

section \<open>The comparison is a linear order of the keys\<close>

definition wf_key :: "MHD_IPCount \<Rightarrow> bool" where
  "wf_key k \<longleftrightarrow> length (addr k) = 16"

lemma memcmp_lex:
  "length as = n \<Longrightarrow> length bs = n \<Longrightarrow>
   (memcmp as bs n < 0 \<longleftrightarrow> as < bs) \<and> (memcmp as bs n = 0 \<longleftrightarrow> as = bs)"
  by (induction as bs n rule: memcmp.induct) auto

lemma length_key_bytes: "wf_key k \<Longrightarrow> length (key_bytes k) = 20"
  by (simp add: wf_key_def key_bytes_def le_bytes32_def)

interpretation ipc: comparison MHD_ip_addr_compare key_bytes wf_key
proof
  show "MHD_ip_addr_compare a b < 0 \<longleftrightarrow> key_bytes a < key_bytes b" if "wf_key a" "wf_key b" for a b
    using memcmp_lex [OF length_key_bytes length_key_bytes] that by (simp add: MHD_ip_addr_compare_def)
  show "MHD_ip_addr_compare a b = 0 \<longleftrightarrow> key_bytes a = key_bytes b" if "wf_key a" "wf_key b" for a b
    using memcmp_lex [OF length_key_bytes length_key_bytes] that by (simp add: MHD_ip_addr_compare_def)
qed

lemma key_bytes_count [simp]:
  "key_bytes (count_update f k) = key_bytes k" "wf_key (count_update f k) = wf_key k"
  by (simp_all add: key_bytes_def wf_key_def)

section \<open>The abstract counters\<close>

text \<open>What the tree stands for: the number of connections of each key.\<close>

definition tree_count :: "MHD_IPCount node \<Rightarrow> byte list \<Rightarrow> nat" where
  "tree_count t b = (\<Sum>k \<in> keys t. if key_bytes k = b then unat (count k) else 0)"

definition ip_inv :: "ip_daemon \<Rightarrow> bool" where
  "ip_inv d \<longleftrightarrow> search_tree key_bytes (per_ip_connection_count d)
     \<and> (\<forall>k \<in> keys (per_ip_connection_count d). wf_key k)
     \<and> (\<forall>k \<in> keys (per_ip_connection_count d). 0 < count k \<and> count k \<le> per_ip_connection_limit d)"

lemma tree_count_absent:
  "\<forall>k \<in> keys t. key_bytes k \<noteq> b \<Longrightarrow> tree_count t b = 0"
  by (simp add: tree_count_def)

lemma tree_count_present:
  assumes "search_tree key_bytes t" "k \<in> keys t" "key_bytes k = b"
  shows "tree_count t b = unat (count k)"
proof -
  have "tree_count t b = (\<Sum>k' \<in> keys t. if k' = k then unat (count k') else 0)"
    unfolding tree_count_def
    by (rule sum.cong) (use rank_unique [OF assms(1)] assms(2,3) in auto)
  then show ?thesis using assms(2) by (simp add: sum.delta)
qed

lemma tree_count_insert:
  assumes "keys t' = insert v (keys t)" "\<forall>k \<in> keys t. key_bytes k \<noteq> key_bytes v"
  shows "tree_count t' b = (if b = key_bytes v then unat (count v) else tree_count t b)"
proof -
  have v: "v \<notin> keys t" using assms(2) by blast
  have "tree_count t' b = (if key_bytes v = b then unat (count v) else 0) + tree_count t b"
    unfolding tree_count_def assms(1) using v by simp
  then show ?thesis using tree_count_absent [OF assms(2)] by auto
qed

lemma tree_count_modify:
  assumes "search_tree key_bytes t" "\<forall>x \<in> keys t. wf_key x" "v \<in> keys t"
    and "\<And>k. key_bytes (f k) = key_bytes k"
  shows "tree_count (modify_at f v MHD_ip_addr_compare t) b =
         (if b = key_bytes v then unat (count (f v)) else tree_count t b)"
proof -
  let ?t = "modify_at f v MHD_ip_addr_compare t"
  note ks = ipc.modify_at_keys [OF assms(2,1,3,4)]
  show ?thesis
  proof (cases "\<exists>k \<in> keys t. key_bytes k = b")
    case True
    then obtain k where k: "k \<in> keys t" "key_bytes k = b" by blast
    let ?k = "if k = v then f k else k"
    have "?k \<in> keys ?t" "key_bytes ?k = b" using k ks(1) assms(4) by auto
    then have "tree_count ?t b = unat (count ?k)" using ks(2) by (blast intro: tree_count_present)
    moreover have "tree_count t b = unat (count k)" by (rule tree_count_present [OF assms(1) k])
    ultimately show ?thesis using rank_unique [OF assms(1) k(1) assms(3)] k(2) by auto
  next
    case False
    then have "\<forall>k \<in> keys ?t. key_bytes k \<noteq> b" using ks(1) assms(3,4) by auto
    then show ?thesis using False assms(3) tree_count_absent by auto
  qed
qed

lemma tree_count_delete:
  assumes "keys t' = {k \<in> keys t. key_bytes k \<noteq> key_bytes v}"
  shows "tree_count t' b = (if b = key_bytes v then 0 else tree_count t b)"
proof (cases "b = key_bytes v")
  case True
  then show ?thesis using assms by (simp add: tree_count_absent)
next
  case False
  then show ?thesis unfolding tree_count_def assms
    by (simp, intro sum.mono_neutral_left) auto
qed

section \<open>Refinement\<close>

lemma ip_addr_to_key:
  assumes "MHD_ip_addr_to_key sa addrlen = Some k" "addrlen \<le> length sa"
  shows "wf_key k" "count k = 0"
  using assms
  by (auto simp: MHD_ip_addr_to_key_def wf_key_def sizeof_sockaddr_in_def sizeof_sockaddr_in6_def
      split: if_splits)

lemma tsearch_ok:
  assumes "search_tree key_bytes t" "\<forall>k \<in> keys t. wf_key k" "wf_key key"
  shows "(\<exists>k \<in> keys t. key_bytes k = key_bytes key \<and>
            tsearch mem key (Some t) MHD_ip_addr_compare = (Some k, Some t))
       \<or> ((\<forall>k \<in> keys t. key_bytes k \<noteq> key_bytes key) \<and>
            (if mem then \<exists>t'. tsearch mem key (Some t) MHD_ip_addr_compare = (Some key, Some t')
                              \<and> keys t' = insert key (keys t) \<and> search_tree key_bytes t'
             else tsearch mem key (Some t) MHD_ip_addr_compare = (None, Some t)))"
proof (cases "tfind_at key MHD_ip_addr_compare t")
  case None
  have "\<forall>k \<in> keys t. key_bytes k \<noteq> key_bytes key"
    using ipc.tfind_at_None [OF assms(3,2,1)] None by blast
  then show ?thesis
    using tsearch_at_keys(1,3,4) [OF None] ipc.tsearch_at_tree [OF assms(3,2,1) None]
    by (cases mem) (auto simp: tsearch_def split: prod.splits)
next
  case (Some k)
  then have "k \<in> keys t \<and> key_bytes k = key_bytes key"
    using ipc.tfind_at_iff [OF assms(3,2,1)] by blast
  then show ?thesis using tsearch_at_keys(2) [OF Some, of mem] by (auto simp: tsearch_def)
qed

lemma unat_inc: "x < y \<Longrightarrow> unat (x + 1 :: u32) = Suc (unat x)"
  using unsigned_less [of y, where ?'a = nat] by (simp add: unat_word_ariths word_less_nat_alt)

lemma unat_dec: "x \<noteq> 0 \<Longrightarrow> unat (x - 1 :: u32) = unat x - 1"
  by (metis unat_gt_0 unat_minus_one)

lemma modify_inv:
  assumes "search_tree key_bytes t" "\<forall>x \<in> keys t. wf_key x" "v \<in> keys t"
    and "\<forall>x \<in> keys t. x \<noteq> v \<longrightarrow> 0 < count x \<and> count x \<le> lim"
    and "0 < g (count v)" "g (count v) \<le> lim"
  shows "search_tree key_bytes (modify_at (count_update g) v MHD_ip_addr_compare t)"
    and "\<forall>x \<in> keys (modify_at (count_update g) v MHD_ip_addr_compare t).
           wf_key x \<and> 0 < count x \<and> count x \<le> lim"
  using ipc.modify_at_keys [OF assms(2,1,3), of "count_update g"] assms(2-6) by auto

text \<open>An increment of a key of the tree, old or just inserted.\<close>

lemma increment_ok:
  assumes "search_tree key_bytes t" "\<forall>x \<in> keys t. wf_key x" "k \<in> keys t"
    and "count k < per_ip_connection_limit d"
    and "\<forall>x \<in> keys t. x \<noteq> k \<longrightarrow> 0 < count x \<and> count x \<le> per_ip_connection_limit d"
  shows "ip_inv (d\<lparr>per_ip_connection_count :=
           modify_at (count_update (\<lambda>c. c + 1)) k MHD_ip_addr_compare t\<rparr>)"
    and "tree_count (modify_at (count_update (\<lambda>c. c + 1)) k MHD_ip_addr_compare t) =
         (tree_count t)(key_bytes k := Suc (unat (count k)))"
proof -
  have "0 < count k + 1" "count k + 1 \<le> per_ip_connection_limit d"
    using unat_inc [OF assms(4)] assms(4) by (simp_all add: word_less_nat_alt word_le_nat_alt)
  from modify_inv [OF assms(1,2,3,5), of "\<lambda>c. c + 1", OF this]
  show "ip_inv (d\<lparr>per_ip_connection_count :=
           modify_at (count_update (\<lambda>c. c + 1)) k MHD_ip_addr_compare t\<rparr>)"
    by (simp add: ip_inv_def)
  show "tree_count (modify_at (count_update (\<lambda>c. c + 1)) k MHD_ip_addr_compare t) =
         (tree_count t)(key_bytes k := Suc (unat (count k)))"
    using tree_count_modify [OF assms(1-3), of "count_update (\<lambda>c. c + 1)"] unat_inc [OF assms(4)]
    by auto
qed

definition counts :: "ip_daemon \<Rightarrow> byte list \<Rightarrow> nat" where
  "counts d = tree_count (per_ip_connection_count d)"

lemma ip_limit_add_refines:
  assumes "ip_inv d" "per_ip_connection_limit d \<noteq> 0" "MHD_ip_addr_to_key sa addrlen = Some key"
    and "addrlen \<le> length sa" "ip_limit_add km nm d sa addrlen = (res, d')"
  shows "ip_inv d' \<and> per_ip_connection_limit d' = per_ip_connection_limit d \<and> master d' = master d \<and>
    (if res then counts d (key_bytes key) < unat (per_ip_connection_limit d)
                 \<and> counts d' = (counts d)(key_bytes key := Suc (counts d (key_bytes key)))
     else d' = d \<and> (counts d (key_bytes key) = unat (per_ip_connection_limit d) \<or> \<not> km \<or> \<not> nm))"
proof (cases km)
  case True
  let ?t = "per_ip_connection_count d" and ?lim = "per_ip_connection_limit d"
  have st: "search_tree key_bytes ?t" and wf: "\<forall>x \<in> keys ?t. wf_key x"
    and bd: "\<forall>x \<in> keys ?t. 0 < count x \<and> count x \<le> ?lim"
    using assms(1) by (auto simp: ip_inv_def)
  note key = ip_addr_to_key [OF assms(3,4)]
  from tsearch_ok [OF st wf key(1), of nm] show ?thesis
  proof (elim disjE bexE conjE)
    fix k assume k: "k \<in> keys ?t" "key_bytes k = key_bytes key"
      "tsearch nm key (Some ?t) MHD_ip_addr_compare = (Some k, Some ?t)"
    have c: "counts d (key_bytes key) = unat (count k)"
      unfolding counts_def by (rule tree_count_present [OF st k(1,2)])
    have "?lim = count k" if "\<not> count k < ?lim" using that bd k(1) by fastforce
    then show ?thesis
      using increment_ok [OF st wf k(1), of d] bd assms True k c
      by (auto simp: ip_limit_add_def counts_def word_less_nat_alt split: if_splits)
  next
    assume abs: "\<forall>k \<in> keys ?t. key_bytes k \<noteq> key_bytes key"
      and res: "if nm then \<exists>t'. tsearch nm key (Some ?t) MHD_ip_addr_compare = (Some key, Some t')
              \<and> keys t' = insert key (keys ?t) \<and> search_tree key_bytes t'
           else tsearch nm key (Some ?t) MHD_ip_addr_compare = (None, Some ?t)"
    have c: "counts d (key_bytes key) = 0" unfolding counts_def by (rule tree_count_absent [OF abs])
    show ?thesis
    proof (cases nm)
      case False
      then show ?thesis using res assms True by (simp add: ip_limit_add_def)
    next
      case nm: True
      then obtain t' where t': "tsearch nm key (Some ?t) MHD_ip_addr_compare = (Some key, Some t')"
        "keys t' = insert key (keys ?t)" "search_tree key_bytes t'" using res by auto
      have lim: "count key < ?lim" using key(2) assms(2) by (simp add: word_gt_0)
      have "tree_count t' = (tree_count ?t)(key_bytes key := 0)"
        using tree_count_insert [OF t'(2) abs] key(2) by auto
      then show ?thesis
        using increment_ok [OF t'(3) _ _ lim] t'(2) wf bd key t'(1) assms True lim c
        by (auto simp: ip_limit_add_def counts_def word_less_nat_alt split: if_splits)
    qed
  qed
next
  case False
  then show ?thesis using assms by (simp add: ip_limit_add_def)
qed

lemma ip_limit_del_refines:
  assumes "ip_inv d" "per_ip_connection_limit d \<noteq> 0" "MHD_ip_addr_to_key sa addrlen = Some key"
    and "addrlen \<le> length sa"
  shows "if counts d (key_bytes key) = 0 then ip_limit_del d sa addrlen = Inl Address_not_found
         else \<exists>d'. ip_limit_del d sa addrlen = Inr d' \<and> ip_inv d' \<and> master d' = master d
                \<and> per_ip_connection_limit d' = per_ip_connection_limit d
                \<and> counts d' = (counts d)(key_bytes key := counts d (key_bytes key) - 1)"
proof -
  let ?t = "per_ip_connection_count d" and ?lim = "per_ip_connection_limit d"
  have st: "search_tree key_bytes ?t" and wf: "\<forall>x \<in> keys ?t. wf_key x"
    and bd: "\<forall>x \<in> keys ?t. 0 < count x \<and> count x \<le> ?lim"
    using assms(1) by (auto simp: ip_inv_def)
  note key = ip_addr_to_key [OF assms(3,4)]
  show ?thesis
  proof (cases "tfind_at key MHD_ip_addr_compare ?t")
    case None
    then have "counts d (key_bytes key) = 0"
      unfolding counts_def using ipc.tfind_at_None [OF key(1) wf st] by (simp add: tree_count_absent)
    then show ?thesis using None assms by (simp add: ip_limit_del_def tfind_def)
  next
    case (Some k)
    then have k: "k \<in> keys ?t" "key_bytes k = key_bytes key"
      using ipc.tfind_at_iff [OF key(1) wf st] by blast+
    have c: "counts d (key_bytes key) = unat (count k)"
      unfolding counts_def by (rule tree_count_present [OF st k])
    have nz: "count k \<noteq> 0" using bd k(1) by force
    let ?f = "count_update (\<lambda>c. c - 1) :: MHD_IPCount \<Rightarrow> MHD_IPCount"
    let ?m = "modify_at ?f k MHD_ip_addr_compare ?t"
    note md = ipc.modify_at_keys [OF wf st k(1), of ?f, simplified]
    have tm: "tree_count ?m b = (if b = key_bytes k then unat (count k - 1) else tree_count ?t b)" for b
      using tree_count_modify [OF st wf k(1), of ?f] by simp
    have wm: "\<forall>x \<in> keys ?m. wf_key x" using md(1) wf k(1) by auto
    have wk: "wf_key k" using wf k(1) by blast
    show ?thesis
    proof (cases "count k - 1 = 0")
      case True
      obtain q t' where q: "tdelete k (Some ?m) MHD_ip_addr_compare = (q, Some t')"
        "search_tree key_bytes t'" "keys t' = {x \<in> keys ?m. key_bytes x \<noteq> key_bytes k}"
        using ipc.tdelete_correct [OF wk wm md(2)] by blast
      have "tree_count t' = (tree_count ?t)(key_bytes key := 0)"
        using tree_count_delete [OF q(3)] tm k(2) by auto
      moreover have "ip_limit_del d sa addrlen = Inr (d\<lparr>per_ip_connection_count := t'\<rparr>)"
        using assms(2,3) Some nz True q(1) by (simp add: ip_limit_del_def tfind_def Let_def)
      moreover have "unat (count k) = 1" using unat_dec [OF nz] True nz
        by (metis diff_eq_eq right_minus_eq unat_1 add.commute add_0)
      ultimately show ?thesis
        using c q(2,3) md(1) wf bd by (auto simp: ip_inv_def counts_def)
    next
      case False
      have "ip_limit_del d sa addrlen = Inr (d\<lparr>per_ip_connection_count := ?m\<rparr>)"
        using assms(2,3) Some nz False by (simp add: ip_limit_del_def tfind_def Let_def)
      moreover have "tree_count ?m = (tree_count ?t)(key_bytes key := unat (count k) - 1)"
        using tm k(2) unat_dec [OF nz] by auto
      moreover have "0 < count k - 1" "count k - 1 \<le> ?lim"
        using False bd k(1) unat_dec [OF nz] by (auto simp: word_gt_0 word_le_nat_alt)
      ultimately show ?thesis
        using c md wm bd k(1) nz by (auto simp: ip_inv_def counts_def unat_eq_zero)
    qed
  qed
qed

section \<open>Runs of the daemon\<close>

text \<open>
  The connections that were accepted and not yet closed are a multiset of socket addresses; every
  daemon of a run has the master \<open>md\<close>.
\<close>

definition sa_key :: "byte list \<Rightarrow> byte list option" where
  "sa_key sa = map_option key_bytes (MHD_ip_addr_to_key sa (length sa))"

definition open_from :: "byte list \<Rightarrow> byte list multiset \<Rightarrow> nat" where
  "open_from b M = size (filter_mset (\<lambda>sa. sa_key sa = Some b) M)"

inductive ip_reachable :: "nat \<Rightarrow> u32 \<Rightarrow> daemons \<Rightarrow> byte list multiset \<Rightarrow> bool" for md lim where
  start: "per_ip_connection_count (ds md) = Null \<Longrightarrow> per_ip_connection_limit (ds md) = lim \<Longrightarrow>
          ip_reachable md lim ds {#}"
| accept: "ip_reachable md lim ds M \<Longrightarrow> MHD_get_master ds d = Some md \<Longrightarrow>
           MHD_ip_limit_add km nm ds d sa (length sa) = Some (True, ds') \<Longrightarrow>
           ip_reachable md lim ds' (add_mset sa M)"
| reject: "ip_reachable md lim ds M \<Longrightarrow> MHD_get_master ds d = Some md \<Longrightarrow>
           MHD_ip_limit_add km nm ds d sa (length sa) = Some (False, ds') \<Longrightarrow>
           ip_reachable md lim ds' M"
| close: "ip_reachable md lim ds M \<Longrightarrow> MHD_get_master ds d = Some md \<Longrightarrow> sa \<in># M \<Longrightarrow>
          MHD_ip_limit_del ds d sa (length sa) = Some (Inr ds') \<Longrightarrow>
          ip_reachable md lim ds' (M - {#sa#})"

definition run_inv :: "u32 \<Rightarrow> ip_daemon \<Rightarrow> byte list multiset \<Rightarrow> bool" where
  "run_inv lim d M \<longleftrightarrow> ip_inv d \<and> per_ip_connection_limit d = lim
     \<and> (lim \<noteq> 0 \<longrightarrow> (\<forall>b. counts d b = open_from b M))"

lemma open_from_simps [simp]:
  "open_from b {#} = 0"
  "open_from b (add_mset sa M) = (if sa_key sa = Some b then Suc (open_from b M) else open_from b M)"
  by (simp_all add: open_from_def)

lemma counts_le_limit:
  assumes "ip_inv d"
  shows "counts d b \<le> unat (per_ip_connection_limit d)"
proof (cases "\<exists>k \<in> keys (per_ip_connection_count d). key_bytes k = b")
  case True
  then obtain k where "k \<in> keys (per_ip_connection_count d)" "key_bytes k = b" by blast
  then show ?thesis
    using tree_count_present [of "per_ip_connection_count d" k b] assms
    by (auto simp: counts_def ip_inv_def word_le_nat_alt)
qed (simp add: counts_def tree_count_absent)

lemma run_inv_add:
  assumes "run_inv lim d M" "ip_limit_add km nm d sa (length sa) = (res, d')"
  shows "run_inv lim d' (if res then add_mset sa M else M)"
proof (cases "lim = 0 \<or> MHD_ip_addr_to_key sa (length sa) = None")
  case True
  then show ?thesis using assms
    by (auto simp: run_inv_def ip_limit_add_def sa_key_def split: if_splits)
next
  case False
  then obtain key where key: "MHD_ip_addr_to_key sa (length sa) = Some key" by blast
  show ?thesis
    using ip_limit_add_refines [OF _ _ key _ assms(2)] assms(1) key False
    by (auto simp: run_inv_def sa_key_def split: if_splits)
qed

lemma run_inv_del:
  assumes "run_inv lim d M" "sa \<in># M"
  shows "\<exists>d'. ip_limit_del d sa (length sa) = Inr d' \<and> run_inv lim d' (M - {#sa#})"
proof -
  obtain N where M: "M = add_mset sa N" using assms(2) by (metis insert_DiffM)
  show ?thesis
  proof (cases "lim = 0 \<or> MHD_ip_addr_to_key sa (length sa) = None")
    case True
    then show ?thesis using assms(1) unfolding M
      by (auto simp: run_inv_def ip_limit_del_def sa_key_def)
  next
    case False
    then obtain key where key: "MHD_ip_addr_to_key sa (length sa) = Some key" by blast
    show ?thesis
      using ip_limit_del_refines [of d, OF _ _ key] assms(1) key False unfolding M
      by (auto simp: run_inv_def sa_key_def)
  qed
qed

lemma ip_reachable_inv: "ip_reachable md lim ds M \<Longrightarrow> run_inv lim (ds md) M"
proof (induction rule: ip_reachable.induct)
  case (start ds)
  then show ?case by (simp add: run_inv_def ip_inv_def counts_def tree_count_absent)
next
  case (accept ds M d km nm sa ds')
  then show ?case using run_inv_add [OF accept.IH, of km nm sa True]
    by (auto simp: MHD_ip_limit_add_def split: prod.splits)
next
  case (reject ds M d km nm sa ds')
  then show ?case using run_inv_add [OF reject.IH, of km nm sa False]
    by (auto simp: MHD_ip_limit_add_def split: prod.splits)
next
  case (close ds M d sa ds')
  then show ?case using run_inv_del [OF close.IH close.hyps(3)]
    by (auto simp: MHD_ip_limit_del_def)
qed

text \<open>
  C13. In every state a run can reach, with a limit of at least one connection for each address, the open connections of any
  address are as many as the counter stored for it and never more than the limit.
\<close>
theorem ip_limit_enforced:
  assumes "ip_reachable md lim ds M" "lim \<noteq> 0"
  shows "open_from b M \<le> unat lim \<and> open_from b M = counts (ds md) b"
  using ip_reachable_inv [OF assms(1)] counts_le_limit [of "ds md" b] assms(2)
  by (simp add: run_inv_def)

text \<open>
  Closing an open connection never panics, neither because its address is not in the tree nor because its counter
  is zero, whatever connections were accepted, refused and closed before.
\<close>
lemma ip_limit_del_never_panics:
  assumes "ip_reachable md lim ds M" "MHD_get_master ds d = Some md" "sa \<in># M"
  shows "\<exists>ds'. MHD_ip_limit_del ds d sa (length sa) = Some (Inr ds')"
  using run_inv_del [OF ip_reachable_inv [OF assms(1)] assms(3)] assms(2)
  by (auto simp: MHD_ip_limit_del_def)

definition example_sa :: "byte list" where
  "example_sa = [2, 0, 31, 144, 127, 0, 0, 1, 0, 0, 0, 0, 0, 0, 0, 0]"

definition example_daemons :: daemons where
  "example_daemons i =
     \<lparr>master = (if i = 0 then None else Some 0), per_ip_connection_limit = 1, per_ip_connection_count = Null\<rparr>"

definition example_accepted :: daemons where
  "example_accepted = example_daemons(0 := \<lparr>master = None, per_ip_connection_limit = 1,
     per_ip_connection_count =
       Node \<lparr>family = 2, addr = [127, 0, 0, 1, 0, 0, 0, 0, 0, 0, 0, 0, 0, 0, 0, 0], count = 1\<rparr> Null Null\<rparr>)"

lemma example_master: "MHD_get_master example_daemons 2 = Some 0" "MHD_get_master example_accepted 2 = Some 0"
  by (simp_all add: MHD_get_master.simps example_daemons_def example_accepted_def)

lemma example_accept: "MHD_ip_limit_add True True example_daemons 2 example_sa 16 = Some (True, example_accepted)"
  unfolding MHD_ip_limit_add_def example_master option.case
  by (auto simp: ip_limit_add_def example_daemons_def example_accepted_def example_sa_def
      MHD_ip_addr_to_key_def sizeof_sockaddr_in_def AF_INET_def tsearch_def MHD_ip_addr_compare_def
      key_bytes_def le_bytes32_def numeral_eq_Suc fun_eq_iff)

lemma ip_example_reachable: "ip_reachable 0 1 example_accepted {#example_sa#}"
proof -
  have "ip_reachable 0 1 example_daemons {#}"
    by (rule ip_reachable.start) (simp_all add: example_daemons_def)
  moreover have "length example_sa = 16" by (simp add: example_sa_def)
  ultimately show ?thesis
    using ip_reachable.accept [OF _ example_master(1), where sa = example_sa and km = True and nm = True]
      example_accept by simp
qed

theorem ip_limit_enforced_witness: "\<forall>b. open_from b {#example_sa#} \<le> 1"
proof
  show "open_from b {#example_sa#} \<le> 1" for b
    using ip_limit_enforced [OF ip_example_reachable, of b] by (simp del: open_from_simps)
qed

end
