(* ===== verification/Base64.thy ===== *)
theory Base64
  imports Prelude
begin

text \<open>
  The decoder of \<^verbatim>\<open>libmicrohttpd/src/microhttpd/base64.c\<close>. Digits are 8-bit words: \<^verbatim>\<open>char\<close> is signed, but
  every digit is stored back into a \<^verbatim>\<open>char\<close>, so that only its low 8 bits matter. The digit table has
  the 255 initialisers of the source; an index behind its end is the error \<open>Table_overread\<close>.
  The result is the list of the bytes written in front of the terminator.
\<close>

datatype base64_error = Wrong_length | Out_of_memory | Table_overread

definition base64_digits :: "byte list" where
  "base64_digits =
   [ 0, 0, 0, 0, 0, 0, 0, 0, 0, 0, 0, 0, 0, 0,
     0, 0, 0, 0, 0, 0, 0, 0, 0, 0, 0, 0, 0, 0, 0, 0, 0, 0, 0, 0, 0, 0, 0, 0,
     0, 0, 0, 0, 0, 62, 0, 0, 0, 63, 52, 53, 54, 55, 56, 57, 58, 59, 60, 61,
     0, 0, 0, -1, 0, 0, 0, 0, 1, 2, 3, 4, 5, 6, 7, 8, 9, 10, 11, 12, 13,
     14, 15, 16, 17, 18, 19, 20, 21, 22, 23, 24, 25, 0, 0, 0, 0, 0, 0, 26,
     27, 28, 29, 30, 31, 32, 33, 34, 35, 36, 37, 38, 39, 40, 41, 42, 43, 44,
     45, 46, 47, 48, 49, 50, 51, 0, 0, 0, 0, 0, 0, 0, 0, 0, 0, 0, 0, 0, 0,
     0, 0, 0, 0, 0, 0, 0, 0, 0, 0, 0, 0, 0, 0, 0, 0, 0, 0, 0, 0, 0, 0, 0, 0,
     0, 0, 0, 0, 0, 0, 0, 0, 0, 0, 0, 0, 0, 0, 0, 0, 0, 0, 0, 0, 0, 0, 0, 0,
     0, 0, 0, 0, 0, 0, 0, 0, 0, 0, 0, 0, 0, 0, 0, 0, 0, 0, 0, 0, 0, 0, 0, 0,
     0, 0, 0, 0, 0, 0, 0, 0, 0, 0, 0, 0, 0, 0, 0, 0, 0, 0, 0, 0, 0, 0, 0, 0,
     0, 0, 0, 0, 0, 0, 0, 0, 0, 0, 0, 0, 0, 0, 0, 0, 0, 0, 0, 0, 0, 0 ]"

definition digit_of :: "char \<Rightarrow> byte option" where
  "digit_of ch = (let i = of_char ch :: nat in
     if i < length base64_digits then Some (base64_digits ! i) else None)"

text \<open>The three bytes of a group of four digits.\<close>

definition out1 :: "byte \<Rightarrow> byte \<Rightarrow> byte" where
  "out1 a b = push_bit 2 a OR drop_bit 4 (b AND 0x30)"

definition out2 :: "byte \<Rightarrow> byte \<Rightarrow> byte" where
  "out2 b c = push_bit 4 (b AND 0x0f) OR drop_bit 2 (c AND 0x3c)"

definition out3 :: "byte \<Rightarrow> byte \<Rightarrow> byte" where
  "out3 c d = push_bit 6 (c AND 0x03) OR d"

fun decode_loop :: "string \<Rightarrow> (base64_error, string) sum" where
  "decode_loop (ch1 # ch2 # ch3 # ch4 # src) =
     (case (digit_of ch1, digit_of ch2, digit_of ch3, digit_of ch4) of
        (Some a, Some b, Some c, Some d) \<Rightarrow>
          let o1 = char_of_byte (out1 a b) in
          if c = -1 then Inr [o1]
          else let o2 = char_of_byte (out2 b c) in
               if d = -1 then Inr [o1, o2]
               else let o3 = char_of_byte (out3 c d) in
                    map_sum id (\<lambda>rest. o1 # o2 # o3 # rest) (decode_loop src)
      | _ \<Rightarrow> Inl Table_overread)"
| "decode_loop _ = Inr []"

definition BASE64Decode :: "bool \<Rightarrow> string \<Rightarrow> (base64_error, string) sum" where
  "BASE64Decode mem src =
     (let in_len = strlen src in
      if in_len mod 4 \<noteq> 0 then Inl Wrong_length
      else if \<not> mem then Inl Out_of_memory
      else decode_loop (takeWhile (\<lambda>c. c \<noteq> NUL) src))"

section \<open>Encoding\<close>

text \<open>The alphabet and the encoding of RFC 4648, as the specification of the decoder.\<close>

definition alphabet :: string where
  "alphabet = ''ABCDEFGHIJKLMNOPQRSTUVWXYZabcdefghijklmnopqrstuvwxyz0123456789+/''"

definition low6 :: "byte \<Rightarrow> byte" where
  "low6 b = b AND 0x3f"

definition enc_digit :: "byte \<Rightarrow> char" where
  "enc_digit b = alphabet ! unat (low6 b)"

definition sextet1 :: "byte \<Rightarrow> byte" where
  "sextet1 a = drop_bit 2 a"

definition sextet2 :: "byte \<Rightarrow> byte \<Rightarrow> byte" where
  "sextet2 a b = push_bit 4 (a AND 3) OR drop_bit 4 b"

definition sextet3 :: "byte \<Rightarrow> byte \<Rightarrow> byte" where
  "sextet3 b c = push_bit 2 (b AND 0x0f) OR drop_bit 6 c"

fun base64_encode :: "string \<Rightarrow> string" where
  "base64_encode [] = []"
| "base64_encode [x] =
     (let a = byte_of_char x in
      [enc_digit (sextet1 a), enc_digit (sextet2 a 0), CHR ''='', CHR ''=''])"
| "base64_encode [x, y] =
     (let a = byte_of_char x; b = byte_of_char y in
      [enc_digit (sextet1 a), enc_digit (sextet2 a b), enc_digit (sextet3 b 0), CHR ''=''])"
| "base64_encode (x # y # z # rest) =
     (let a = byte_of_char x; b = byte_of_char y; c = byte_of_char z in
      enc_digit (sextet1 a) # enc_digit (sextet2 a b) # enc_digit (sextet3 b c) # enc_digit c
      # base64_encode rest)"

lemma length_base64_digits: "length base64_digits = 255"
  by (simp add: base64_digits_def)

lemma alphabet_digits: "map (\<lambda>ch. base64_digits ! of_char ch) alphabet = map word_of_nat [0..<64]"
  by code_simp

lemma alphabet_chars: "\<forall>ch \<in> set alphabet. of_char ch < (255 :: nat) \<and> ch \<noteq> NUL"
  by code_simp

lemma digit_alphabet_all:
  assumes "i < 64"
  shows "digit_of (alphabet ! i) = Some (word_of_nat i)" "alphabet ! i \<noteq> NUL"
proof -
  have len: "length alphabet = 64" by (simp add: alphabet_def)
  then have in_set: "alphabet ! i \<in> set alphabet" using assms by simp
  have "base64_digits ! of_char (alphabet ! i) = word_of_nat i"
    using arg_cong [OF alphabet_digits, of "\<lambda>xs. xs ! i"] len assms by simp
  then show "digit_of (alphabet ! i) = Some (word_of_nat i)" "alphabet ! i \<noteq> NUL"
    using alphabet_chars in_set by (auto simp: digit_of_def length_base64_digits)
qed

lemma digit_pad: "digit_of CHR ''='' = Some (-1)"
  by code_simp

lemma low6_less: "unat (low6 b) < 64"
proof -
  have "low6 b \<le> 0x3f" unfolding low6_def by (rule word_and_le1)
  then show ?thesis by (simp add: word_le_nat_alt)
qed

lemma digit_enc [simp]: "digit_of (enc_digit b) = Some (low6 b)" "enc_digit b \<noteq> NUL"
  using digit_alphabet_all [OF low6_less [of b]] by (simp_all add: enc_digit_def)

lemma low6_not_minus1 [simp]: "low6 b \<noteq> -1"
proof
  assume "low6 b = -1"
  moreover have "unat (-1 :: byte) = 255" by code_simp
  ultimately show False using low6_less [of b] by (simp only:)
qed

lemma byte_eqI:
  fixes x y :: byte
  assumes "bit x 0 = bit y 0" "bit x 1 = bit y 1" "bit x 2 = bit y 2" "bit x 3 = bit y 3"
    "bit x 4 = bit y 4" "bit x 5 = bit y 5" "bit x 6 = bit y 6" "bit x 7 = bit y 7"
  shows "x = y"
proof (rule bit_word_eqI)
  fix n assume "n < LENGTH(8)"
  then have "n = 0 \<or> n = 1 \<or> n = 2 \<or> n = 3 \<or> n = 4 \<or> n = 5 \<or> n = 6 \<or> n = 7" by auto
  then show "bit x n = bit y n" using assms by auto
qed

lemma c_string_encode: "c_string (base64_encode s)"
  by (induction s rule: base64_encode.induct) (auto simp: Let_def)

lemma length_encode: "length (base64_encode s) mod 4 = 0"
  by (induction s rule: base64_encode.induct) (auto simp: Let_def)

lemmas base64_bits = out1_def out2_def out3_def low6_def sextet1_def sextet2_def sextet3_def

lemma decode_bits [simp]:
  shows "out1 (low6 (sextet1 a)) (low6 (sextet2 a b)) = a"
    and "out2 (low6 (sextet2 a b)) (low6 (sextet3 b c)) = b"
    and "out3 (low6 (sextet3 b c)) (low6 c) = c"
  unfolding base64_bits by (rule byte_eqI; simp add: bit_simps)+

lemma decode_encode: "decode_loop (base64_encode s) = Inr s"
  by (induction s rule: base64_encode.induct)
    (simp_all add: Let_def digit_pad)

text \<open>The decoder inverts the encoding.\<close>

lemma base64_roundtrip: "BASE64Decode True (base64_encode s) = Inr s"
proof -
  have "takeWhile (\<lambda>c. c \<noteq> NUL) (base64_encode s) = base64_encode s"
    using c_string_encode by (auto simp: c_string_def takeWhile_eq_all_conv)
  then show ?thesis
    by (simp only: BASE64Decode_def Let_def strlen_def length_encode decode_encode) simp
qed

lemma decode_loop_length: "decode_loop src = Inr out \<Longrightarrow> length out \<le> length src div 4 * 3"
proof (induction src arbitrary: out rule: decode_loop.induct)
  case (1 ch1 ch2 ch3 ch4 src)
  have "length (ch1 # ch2 # ch3 # ch4 # src) div 4 = Suc (length src div 4)" by simp
  with 1 show ?case
    by (cases "decode_loop src") (auto simp: Let_def split: option.splits if_splits)
qed auto


lemma decode_loop_error:
  "decode_loop src = Inl e \<Longrightarrow> e = Table_overread \<and> (\<exists>ch \<in> set src. digit_of ch = None)"
  by (induction src rule: decode_loop.induct)
    (auto simp: Let_def split: option.splits if_splits sum.splits simp: map_sum_def)

lemma digit_of_None: "digit_of ch = None \<Longrightarrow> ch = CHR 0xFF"
proof -
  assume "digit_of ch = None"
  then have "\<not> of_char ch < (255 :: nat)" by (auto simp: digit_of_def length_base64_digits Let_def)
  moreover have "of_char ch < (256 :: nat)" by simp
  ultimately have "of_char ch = (255 :: nat)" by linarith
  also have "\<dots> = of_char CHR 0xFF" by simp
  finally show ?thesis by (simp only: of_char_eq_iff)
qed

lemma decode_loop_defined: "CHR 0xFF \<notin> set src \<Longrightarrow> \<exists>out. decode_loop src = Inr out"
  using decode_loop_error [of src] digit_of_None by (cases "decode_loop src") auto

text \<open>
  C32. The decoder never writes more than it allocated: the decoded bytes and their terminator fit in
  \<^verbatim>\<open>in_len / 4 * 3 + 1\<close> bytes. It returns a result for every string whose length is a multiple of four
  and which does not contain the byte 255, and refuses any other length.
\<close>
theorem base64_bounds:
  "(BASE64Decode mem src = Inr out \<longrightarrow> length out + 1 \<le> strlen src div 4 * 3 + 1)
   \<and> (strlen src mod 4 \<noteq> 0 \<longleftrightarrow> BASE64Decode mem src = Inl Wrong_length)
   \<and> (strlen src mod 4 = 0 \<and> CHR 0xFF \<notin> set src \<longrightarrow> (\<exists>out. BASE64Decode True src = Inr out))"
proof -
  let ?s = "takeWhile (\<lambda>c. c \<noteq> NUL) src"
  have ff: "CHR 0xFF \<notin> set src \<Longrightarrow> CHR 0xFF \<notin> set ?s" by (auto dest: set_takeWhileD)
  show ?thesis
    using decode_loop_length [of ?s out] decode_loop_defined [of ?s] ff decode_loop_error [of ?s]
    by (auto simp: BASE64Decode_def Let_def strlen_def)
qed

theorem base64_bounds_witness:
  "BASE64Decode True ''QWxhZGRpbg=='' = Inr ''Aladdin'' \<and> length ''Aladdin'' + 1 \<le> strlen ''QWxhZGRpbg=='' div 4 * 3 + 1"
proof
  show d: "BASE64Decode True ''QWxhZGRpbg=='' = Inr ''Aladdin''" by code_simp
  show "length ''Aladdin'' + 1 \<le> strlen ''QWxhZGRpbg=='' div 4 * 3 + 1"
    using base64_bounds [of True "''QWxhZGRpbg==''" "''Aladdin''"] d by blast
qed


end
