(* ===== verification/Conn_Values.thy ===== *)
theory Conn_Values
  imports Mhd_Token Memory_Pool
begin

text \<open>
  The values of a request (\<^verbatim>\<open>connection.c\<close>): headers, cookies, arguments and footers in one list, each with its kind.
  The linked list with its tail pointer is a list; a null connection is \<open>None\<close>. An element of the list
  takes memory from the pool of the connection.
\<close>

definition MHD_HEADER_KIND :: u32 where "MHD_HEADER_KIND = 1"
definition MHD_COOKIE_KIND :: u32 where "MHD_COOKIE_KIND = 2"
definition MHD_POSTDATA_KIND :: u32 where "MHD_POSTDATA_KIND = 4"
definition MHD_GET_ARGUMENT_KIND :: u32 where "MHD_GET_ARGUMENT_KIND = 8"
definition MHD_FOOTER_KIND :: u32 where "MHD_FOOTER_KIND = 16"

record MHD_HTTP_Header =
  hname :: "string option"
  hvalue :: "string option"
  hkind :: u32

record conn_values =
  pool :: MemoryPool
  headers_received :: "MHD_HTTP_Header list"

text \<open>Three pointers and the kind, padded to the alignment of a pointer.\<close>

definition sizeof_MHD_HTTP_Header :: size_t where
  "sizeof_MHD_HTTP_Header = 32"

type_synonym 'c key_value_iterator = "'c \<Rightarrow> u32 \<Rightarrow> string option \<Rightarrow> string option \<Rightarrow> bool \<times> 'c"

fun get_values_loop :: "MHD_HTTP_Header list \<Rightarrow> u32 \<Rightarrow> 'c key_value_iterator option \<Rightarrow> 'c \<Rightarrow> int \<Rightarrow> int \<times> 'c" where
  "get_values_loop [] kind iterator cls ret = (ret, cls)"
| "get_values_loop (entry # rest) kind iterator cls ret =
     (if hkind entry AND kind \<noteq> 0
      then (case iterator of
              None \<Rightarrow> get_values_loop rest kind iterator cls (ret + 1)
            | Some it \<Rightarrow>
                (case it cls (hkind entry) (hname entry) (hvalue entry) of
                   (True, cls') \<Rightarrow> get_values_loop rest kind iterator cls' (ret + 1)
                 | (False, cls') \<Rightarrow> (ret + 1, cls')))
      else get_values_loop rest kind iterator cls ret)"

definition MHD_get_connection_values ::
  "'b conn_values_scheme option \<Rightarrow> u32 \<Rightarrow> 'c key_value_iterator option \<Rightarrow> 'c \<Rightarrow> int \<times> 'c" where
  "MHD_get_connection_values connection kind iterator cls =
     (case connection of None \<Rightarrow> (-1, cls)
      | Some c \<Rightarrow> get_values_loop (headers_received c) kind iterator cls 0)"

definition MHD_set_connection_value ::
  "'b conn_values_scheme \<Rightarrow> u32 \<Rightarrow> string option \<Rightarrow> string option \<Rightarrow> bool \<times> 'b conn_values_scheme" where
  "MHD_set_connection_value connection kind key val =
     (case MHD_pool_allocate (pool connection) sizeof_MHD_HTTP_Header True of
        (None, p) \<Rightarrow> (False, connection\<lparr>pool := p\<rparr>)
      | (Some _, p) \<Rightarrow>
          (True, connection\<lparr>pool := p, headers_received :=
             headers_received connection @ [\<lparr>hname = key, hvalue = val, hkind = kind\<rparr>]\<rparr>))"

text \<open>
  The same key pointer is the same string, so that the comparison of the pointers matters only for a key and a
  header that are both null.
\<close>

definition same_key :: "string option \<Rightarrow> string option \<Rightarrow> bool" where
  "same_key key hdr =
     (case (key, hdr) of
        (None, None) \<Rightarrow> True
      | (Some k, Some h) \<Rightarrow> MHD_str_equal_caseless k h
      | _ \<Rightarrow> False)"

fun lookup_loop :: "MHD_HTTP_Header list \<Rightarrow> u32 \<Rightarrow> string option \<Rightarrow> string option" where
  "lookup_loop [] kind key = None"
| "lookup_loop (entry # rest) kind key =
     (if hkind entry AND kind \<noteq> 0 \<and> same_key key (hname entry) then hvalue entry
      else lookup_loop rest kind key)"

definition MHD_lookup_connection_value ::
  "'b conn_values_scheme option \<Rightarrow> u32 \<Rightarrow> string option \<Rightarrow> string option" where
  "MHD_lookup_connection_value connection kind key =
     (case connection of None \<Rightarrow> None | Some c \<Rightarrow> lookup_loop (headers_received c) kind key)"

text \<open>
  A header name is never null in a list of headers, and its value neither; the code reads both without a test.
\<close>

fun lookup_token_loop :: "MHD_HTTP_Header list \<Rightarrow> string \<Rightarrow> string \<Rightarrow> nat \<Rightarrow> bool" where
  "lookup_token_loop [] hdr token token_len = False"
| "lookup_token_loop (entry # rest) hdr token token_len =
     (if hkind entry AND MHD_HEADER_KIND \<noteq> 0
         \<and> (case hname entry of None \<Rightarrow> False | Some h \<Rightarrow> MHD_str_equal_caseless hdr h)
         \<and> (case hvalue entry of None \<Rightarrow> False | Some v \<Rightarrow> MHD_str_has_token_caseless v token token_len)
      then True else lookup_token_loop rest hdr token token_len)"

definition MHD_lookup_header_token_ci ::
  "'b conn_values_scheme option \<Rightarrow> string option \<Rightarrow> string option \<Rightarrow> nat \<Rightarrow> bool" where
  "MHD_lookup_header_token_ci connection hdr token token_len =
     (case (connection, hdr, token) of
        (Some c, Some h, Some t) \<Rightarrow>
          if peek h = NUL \<or> peek t = NUL then False
          else lookup_token_loop (headers_received c) h t token_len
      | _ \<Rightarrow> False)"

section \<open>Lookup after insertion\<close>

lemma lookup_append:
  "lookup_loop (xs @ ys) kind key =
     (if \<exists>x \<in> set xs. hkind x AND kind \<noteq> 0 \<and> same_key key (hname x)
      then lookup_loop xs kind key else lookup_loop ys kind key)"
  by (induction xs) auto

lemma lookup_loop_Some:
  "lookup_loop xs kind key = Some v \<Longrightarrow>
   \<exists>x \<in> set xs. hkind x AND kind \<noteq> 0 \<and> same_key key (hname x) \<and> hvalue x = Some v"
  by (induction xs) (auto split: if_splits)

text \<open>
  C31. A value that was set is found again under its key in any case, unless an older element of the list already
  answers the lookup; lookups of other kinds and keys are not changed. A failed set changes nothing.
\<close>
theorem set_lookup_connection_value:
  assumes "MHD_set_connection_value c kind (Some key) (Some val) = (res, c')" "c_string key" "c_string key'"
  shows "MHD_lookup_connection_value (Some c') kind' (Some key') =
    (if res \<and> kind AND kind' \<noteq> 0 \<and> map toasciilower key' = map toasciilower key
        \<and> (\<forall>x \<in> set (headers_received c). \<not> (hkind x AND kind' \<noteq> 0 \<and> same_key (Some key') (hname x)))
     then Some val else MHD_lookup_connection_value (Some c) kind' (Some key'))"
proof -
  have eq: "same_key (Some key') (Some key) \<longleftrightarrow> map toasciilower key' = map toasciilower key"
    using equal_caseless_iff [OF assms(3,2)] by (simp add: same_key_def)
  have none: "\<forall>x \<in> set xs. \<not> (hkind x AND kind' \<noteq> 0 \<and> same_key (Some key') (hname x)) \<Longrightarrow>
      lookup_loop xs kind' (Some key') = None" for xs
    by (induction xs) auto
  show ?thesis
    using assms(1) none [of "headers_received c"]
    by (auto simp: MHD_set_connection_value_def MHD_lookup_connection_value_def lookup_append eq
        split: prod.splits option.splits)
qed

definition example_conn :: conn_values where
  "example_conn = \<lparr>pool = example_pool, headers_received = [\<lparr>hname = Some ''Host'', hvalue = Some ''a'', hkind = 1\<rparr>]\<rparr>"

theorem set_lookup_connection_value_witness:
  "MHD_lookup_connection_value
     (Some (snd (MHD_set_connection_value example_conn 1 (Some ''X-Key'') (Some ''v'')))) 1 (Some ''x-key'') = Some ''v''"
proof -
  have a: "fst (MHD_set_connection_value example_conn 1 (Some ''X-Key'') (Some ''v''))" by code_simp
  have b: "MHD_str_equal_caseless ''x-key'' ''Host'' = False" by code_simp
  have c: "map toasciilower ''x-key'' = map toasciilower ''X-Key''" by code_simp
  show ?thesis
    using set_lookup_connection_value [of example_conn 1 "''X-Key''" "''v''" "fst (MHD_set_connection_value example_conn 1 (Some ''X-Key'') (Some ''v''))"
        "snd (MHD_set_connection_value example_conn 1 (Some ''X-Key'') (Some ''v''))" "''x-key''" 1] a b c
    by (simp add: c_string_def example_conn_def same_key_def del: list.map)
qed

end
