(* ===== verification/Basic_Auth.thy ===== *)
theory Basic_Auth
  imports Base64 Conn_Values
begin

text \<open>
  HTTP basic authentication, \<^verbatim>\<open>libmicrohttpd/src/microhttpd/basicauth.c\<close>: the credentials of a request. The flags say which
  of the three allocations succeed: the decoded text, the copy for the user and the copy for the password.
  The last argument is whether the caller asked for the password.
\<close>

definition MHD_HTTP_HEADER_AUTHORIZATION :: string where
  "MHD_HTTP_HEADER_AUTHORIZATION = ''Authorization''"

definition BASIC_BASE :: string where
  "BASIC_BASE = ''Basic ''"

text \<open>\<^verbatim>\<open>strncmp (s, t, n) == 0\<close>\<close>

fun strncmp_eq :: "string \<Rightarrow> string \<Rightarrow> nat \<Rightarrow> bool" where
  "strncmp_eq s t 0 = True"
| "strncmp_eq s t (Suc n) =
     (if peek s \<noteq> peek t then False else if peek s = NUL then True else strncmp_eq (tl s) (tl t) n)"

definition string_at :: "string \<Rightarrow> string" where
  "string_at s = takeWhile (\<lambda>c. c \<noteq> NUL) s"

definition MHD_basic_auth_get_username_password ::
  "bool \<Rightarrow> bool \<Rightarrow> bool \<Rightarrow> 'b conn_values_scheme \<Rightarrow> bool \<Rightarrow> string option \<times> string option" where
  "MHD_basic_auth_get_username_password decode_mem user_mem password_mem connection want_password =
     (case MHD_lookup_connection_value (Some connection) MHD_HEADER_KIND (Some MHD_HTTP_HEADER_AUTHORIZATION) of
        None \<Rightarrow> (None, None)
      | Some header \<Rightarrow>
          if \<not> strncmp_eq header BASIC_BASE 6 then (None, None)
          else (case BASE64Decode decode_mem (drop 6 header) of
                  Inl _ \<Rightarrow> (None, None)
                | Inr decode \<Rightarrow>
                    (case strchr decode CHR '':'' of
                       None \<Rightarrow> (None, None)
                     | Some separator \<Rightarrow>
                         if \<not> user_mem then (None, None)
                         else let user = take separator (string_at decode) in
                           if want_password
                           then if password_mem then (Some user, Some (string_at (drop (separator + 1) decode)))
                                else (None, None)
                           else (Some user, None))))"

lemma strncmp_prefix: "NUL \<notin> set t \<Longrightarrow> strncmp_eq (t @ s) t (length t)"
  by (induction t) auto

lemma string_at_id: "c_string s \<Longrightarrow> string_at s = s"
  by (auto simp: string_at_def c_string_def takeWhile_eq_all_conv)

text \<open>
  C27. The credentials of a header that encodes \<open>user:password\<close> are returned unchanged, for any user without a colon and any
  password, colons included, of characters other than the null character.
\<close>
theorem basic_auth_roundtrip:
  assumes "MHD_lookup_connection_value (Some c) MHD_HEADER_KIND (Some MHD_HTTP_HEADER_AUTHORIZATION) =
      Some (BASIC_BASE @ base64_encode (user @ CHR '':'' # password))"
    and "c_string user" "c_string password" "CHR '':'' \<notin> set user"
  shows "MHD_basic_auth_get_username_password True True True c True = (Some user, Some password)"
proof -
  have 6: "length BASIC_BASE = 6" by (simp add: BASIC_BASE_def)
  have "NUL \<notin> set BASIC_BASE" by (simp add: BASIC_BASE_def)
  then have "strncmp_eq (BASIC_BASE @ s) BASIC_BASE 6" for s
    using strncmp_prefix [of BASIC_BASE s] unfolding 6 by blast
  moreover have "drop 6 (BASIC_BASE @ s) = s" for s using 6 by simp
  moreover have "strchr (user @ CHR '':'' # password) CHR '':'' = Some (length user)"
    by (rule strchr_append [OF assms(4,2)])
  moreover have "c_string (user @ CHR '':'' # password)" using assms(2,3) by simp
  ultimately show ?thesis
    using assms(1,3) by (simp add: MHD_basic_auth_get_username_password_def base64_roundtrip string_at_id)
qed

definition example_auth :: conn_values where
  "example_auth = \<lparr>pool = example_pool,
     headers_received = [\<lparr>hname = Some ''authorization'', hvalue = Some ''Basic YTpiOmM='', hkind = 1\<rparr>]\<rparr>"

theorem basic_auth_roundtrip_witness:
  "MHD_basic_auth_get_username_password True True True example_auth True = (Some ''a'', Some ''b:c'')"
proof -
  have e: "BASIC_BASE @ base64_encode (''a'' @ CHR '':'' # ''b:c'') = ''Basic YTpiOmM=''" by code_simp
  have l: "MHD_lookup_connection_value (Some example_auth) MHD_HEADER_KIND (Some MHD_HTTP_HEADER_AUTHORIZATION) = Some ''Basic YTpiOmM=''"
    by code_simp
  show ?thesis
    by (rule basic_auth_roundtrip) (simp_all only: e l, simp_all add: c_string_def)
qed

end
