(* ===== verification/Internal.thy ===== *)
theory Internal
  imports Mhd_Str
begin

text \<open>
  The helpers of \<^verbatim>\<open>libmicrohttpd/src/microhttpd/internal.c\<close>: unescaping of URI components and the parser of
  query arguments, with the connection states of \<^verbatim>\<open>internal.h\<close> and their names.

  \<^verbatim>\<open>MHD_http_unescape\<close> works in place with a read and a write index; it is modelled on the memory it is given,
  which holds the terminator. \<^verbatim>\<open>MHD_parse_arguments_\<close> takes the unescape callback of the daemon and the callback
  for each pair as parameters; the latter passes the state of the connection on.
\<close>

section \<open>Connection states\<close>

datatype MHD_CONNECTION_STATE =
    MHD_CONNECTION_INIT | MHD_CONNECTION_URL_RECEIVED | MHD_CONNECTION_HEADER_PART_RECEIVED
  | MHD_CONNECTION_HEADERS_RECEIVED | MHD_CONNECTION_HEADERS_PROCESSED
  | MHD_CONNECTION_CONTINUE_SENDING | MHD_CONNECTION_CONTINUE_SENT | MHD_CONNECTION_BODY_RECEIVED
  | MHD_CONNECTION_FOOTER_PART_RECEIVED | MHD_CONNECTION_FOOTERS_RECEIVED
  | MHD_CONNECTION_HEADERS_SENDING | MHD_CONNECTION_HEADERS_SENT
  | MHD_CONNECTION_NORMAL_BODY_READY | MHD_CONNECTION_NORMAL_BODY_UNREADY
  | MHD_CONNECTION_CHUNKED_BODY_READY | MHD_CONNECTION_CHUNKED_BODY_UNREADY
  | MHD_CONNECTION_BODY_SENT | MHD_CONNECTION_FOOTERS_SENDING | MHD_CONNECTION_FOOTERS_SENT
  | MHD_CONNECTION_CLOSED | MHD_CONNECTION_UPGRADE

definition MHD_state_to_string :: "MHD_CONNECTION_STATE \<Rightarrow> string" where
  "MHD_state_to_string state = (case state of
     MHD_CONNECTION_INIT \<Rightarrow> ''connection init''
   | MHD_CONNECTION_URL_RECEIVED \<Rightarrow> ''connection url received''
   | MHD_CONNECTION_HEADER_PART_RECEIVED \<Rightarrow> ''header partially received''
   | MHD_CONNECTION_HEADERS_RECEIVED \<Rightarrow> ''headers received''
   | MHD_CONNECTION_HEADERS_PROCESSED \<Rightarrow> ''headers processed''
   | MHD_CONNECTION_CONTINUE_SENDING \<Rightarrow> ''continue sending''
   | MHD_CONNECTION_CONTINUE_SENT \<Rightarrow> ''continue sent''
   | MHD_CONNECTION_BODY_RECEIVED \<Rightarrow> ''body received''
   | MHD_CONNECTION_FOOTER_PART_RECEIVED \<Rightarrow> ''footer partially received''
   | MHD_CONNECTION_FOOTERS_RECEIVED \<Rightarrow> ''footers received''
   | MHD_CONNECTION_HEADERS_SENDING \<Rightarrow> ''headers sending''
   | MHD_CONNECTION_HEADERS_SENT \<Rightarrow> ''headers sent''
   | MHD_CONNECTION_NORMAL_BODY_READY \<Rightarrow> ''normal body ready''
   | MHD_CONNECTION_NORMAL_BODY_UNREADY \<Rightarrow> ''normal body unready''
   | MHD_CONNECTION_CHUNKED_BODY_READY \<Rightarrow> ''chunked body ready''
   | MHD_CONNECTION_CHUNKED_BODY_UNREADY \<Rightarrow> ''chunked body unready''
   | MHD_CONNECTION_BODY_SENT \<Rightarrow> ''body sent''
   | MHD_CONNECTION_FOOTERS_SENDING \<Rightarrow> ''footers sending''
   | MHD_CONNECTION_FOOTERS_SENT \<Rightarrow> ''footers sent''
   | MHD_CONNECTION_CLOSED \<Rightarrow> ''closed''
   | _ \<Rightarrow> ''unrecognized connection state'')"

lemma state_to_string_inj: "inj MHD_state_to_string"
  by (rule injI) (simp add: MHD_state_to_string_def split: MHD_CONNECTION_STATE.splits)

section \<open>Unescaping\<close>

function unescape_plus_loop :: "string \<Rightarrow> nat \<Rightarrow> string" where
  "unescape_plus_loop arg i =
     (case strchr (drop i arg) CHR ''+'' of
        None \<Rightarrow> arg
      | Some j \<Rightarrow> unescape_plus_loop (arg[i + j := CHR '' '']) (i + j + 1))"
  by auto
termination
  by (relation "measure (\<lambda>(arg, i). length arg - i)") (auto dest: strchr_Some)

definition MHD_unescape_plus :: "string \<Rightarrow> string" where
  "MHD_unescape_plus arg = unescape_plus_loop arg 0"

definition rd :: "string \<Rightarrow> nat \<Rightarrow> char" where
  "rd buf i = (if i < length buf then buf ! i else NUL)"

function http_unescape_loop :: "string \<Rightarrow> nat \<Rightarrow> nat \<Rightarrow> string \<times> nat" where
  "http_unescape_loop val rpos wpos =
     (if rd val rpos = NUL then (val[wpos := NUL], wpos)
      else (let copy = http_unescape_loop (val[wpos := rd val rpos]) (rpos + 1) (wpos + 1) in
            if rd val rpos = CHR ''%'' then
              (case MHD_strx_to_uint32_n (Some (drop (rpos + 1) val)) 2 True of
                 (n, Some num) \<Rightarrow>
                   if n = 2
                   then http_unescape_loop (val[wpos := char_of_byte (ucast num)]) (rpos + 3) (wpos + 1)
                   else copy
               | (n, None) \<Rightarrow> copy)
            else copy))"
  by auto
termination
  by (relation "measure (\<lambda>(val, rpos, wpos). length val - rpos)") (auto simp: rd_def split: if_splits)

declare unescape_plus_loop.simps [simp del] http_unescape_loop.simps [simp del]

definition MHD_http_unescape :: "string \<Rightarrow> string \<times> nat" where
  "MHD_http_unescape val = http_unescape_loop val 0 0"

section \<open>Query arguments\<close>

text \<open>The string a pointer denotes.\<close>

definition c_str :: "string \<Rightarrow> string" where
  "c_str buf = takeWhile (\<lambda>c. c \<noteq> NUL) buf"

type_synonym unescape_callback = "string \<Rightarrow> string"
type_synonym 'c argument_iterator = "'c \<Rightarrow> string \<Rightarrow> string option \<Rightarrow> u32 \<Rightarrow> bool \<times> 'c"

function parse_arguments_loop ::
  "unescape_callback \<Rightarrow> 'c argument_iterator \<Rightarrow> u32 \<Rightarrow> string \<Rightarrow> 'c \<Rightarrow> u32 \<Rightarrow> bool \<times> 'c \<times> u32" where
  "parse_arguments_loop unesc cb kind args connection num_headers =
     (if peek args = NUL then (True, connection, num_headers)
      else (let prep = (\<lambda>s. unesc (MHD_unescape_plus s)) in
        case strchr args CHR ''&'' of
          None \<Rightarrow>
            (case strchr args CHR ''='' of
               None \<Rightarrow>
                 (case cb connection (prep args) None kind of
                    (True, connection') \<Rightarrow> (True, connection', num_headers + 1)
                  | (False, connection') \<Rightarrow> (False, connection', num_headers))
             | Some equals \<Rightarrow>
                 (case cb connection (prep (take equals args)) (Some (prep (drop (equals + 1) args))) kind of
                    (True, connection') \<Rightarrow> (True, connection', num_headers + 1)
                  | (False, connection') \<Rightarrow> (False, connection', num_headers)))
        | Some amper \<Rightarrow>
            (let arg = take amper args; rest = drop (amper + 1) args;
                 no_value = (case cb connection (prep arg) None kind of
                     (True, connection') \<Rightarrow>
                       parse_arguments_loop unesc cb kind rest connection' (num_headers + 1)
                   | (False, connection') \<Rightarrow> (False, connection', num_headers))
             in case strchr args CHR ''='' of
                  None \<Rightarrow> no_value
                | Some equals \<Rightarrow>
                    if equals \<ge> amper + 1 then no_value
                    else (case cb connection (prep (take equals args))
                                 (Some (prep (drop (equals + 1) arg))) kind of
                            (True, connection') \<Rightarrow>
                              parse_arguments_loop unesc cb kind rest connection' (num_headers + 1)
                          | (False, connection') \<Rightarrow> (False, connection', num_headers)))))"
  by auto
termination
  by (relation "measure (\<lambda>(unesc, cb, kind, args, connection, num_headers). length args)")
    (auto dest: strchr_Some)

declare parse_arguments_loop.simps [simp del]

definition MHD_parse_arguments ::
  "unescape_callback \<Rightarrow> 'c \<Rightarrow> u32 \<Rightarrow> string option \<Rightarrow> 'c argument_iterator \<Rightarrow> bool \<times> 'c \<times> u32" where
  "MHD_parse_arguments unesc connection kind args cb =
     (case args of None \<Rightarrow> (True, connection, 0)
      | Some s \<Rightarrow> parse_arguments_loop unesc cb kind s connection 0)"

text \<open>The default unescape callback of the daemon, as a function on the string it changes in place.\<close>

definition unescape_wrapper :: unescape_callback where
  "unescape_wrapper s = c_str (fst (MHD_http_unescape (s @ [NUL])))"

section \<open>Plus signs\<close>

lemma unescape_plus_loop_map:
  assumes "c_string arg" "i \<le> length arg" "CHR ''+'' \<notin> set (take i arg)"
  shows "unescape_plus_loop arg i = map (\<lambda>c. if c = CHR ''+'' then CHR '' '' else c) arg"
  using assms
proof (induction arg i rule: unescape_plus_loop.induct)
  case (1 arg i)
  have cs: "c_string (drop i arg)"
    using 1(2) by (auto simp: c_string_def dest: in_set_dropD)
  show ?case
  proof (cases "strchr (drop i arg) CHR ''+''")
    case None
    then have "CHR ''+'' \<notin> set (drop i arg)" using strchr_None [OF cs] by blast
    then have "CHR ''+'' \<notin> set arg" using 1(4) by (metis Un_iff append_take_drop_id set_append)
    then have "map (\<lambda>c. if c = CHR ''+'' then CHR '' '' else c) arg = arg" by (intro map_idI) auto
    then show ?thesis using None by (simp add: unescape_plus_loop.simps [of arg i])
  next
    case (Some j)
    note j = strchr_Some [OF Some]
    let ?arg = "arg[i + j := CHR '' '']"
    have lt: "i + j < length arg" and at: "arg ! (i + j) = CHR ''+''" using j by auto
    have "take (Suc (i + j)) ?arg = take (i + j) arg @ [CHR '' '']"
      using lt by (simp add: take_Suc_conv_app_nth)
    also have "\<dots> = take i arg @ take j (drop i arg) @ [CHR '' '']" by (simp add: take_add)
    finally have "take (Suc (i + j)) ?arg = take i arg @ take j (drop i arg) @ [CHR '' '']" .
    then have "CHR ''+'' \<notin> set (take (Suc (i + j)) ?arg)" using 1(4) j by auto
    moreover have "c_string ?arg"
      using 1(2) by (auto simp: c_string_def dest: set_update_subset_insert [THEN subsetD])
    ultimately have "unescape_plus_loop ?arg (Suc (i + j)) = map (\<lambda>c. if c = CHR ''+'' then CHR '' '' else c) ?arg"
      using 1(1) [OF Some] lt by simp
    also have "\<dots> = map (\<lambda>c. if c = CHR ''+'' then CHR '' '' else c) arg"
      using at lt by (auto intro: nth_equalityI simp: nth_list_update)
    finally show ?thesis using Some by (simp add: unescape_plus_loop.simps [of arg i])
  qed
qed

lemma unescape_plus_map:
  "c_string arg \<Longrightarrow> MHD_unescape_plus arg = map (\<lambda>c. if c = CHR ''+'' then CHR '' '' else c) arg"
  by (simp add: MHD_unescape_plus_def unescape_plus_loop_map)

lemma unescape_plus_length [simp]: "length (MHD_unescape_plus arg) = length arg"
proof -
  have "length (unescape_plus_loop arg i) = length arg" for i
    by (induction arg i rule: unescape_plus_loop.induct)
      (subst unescape_plus_loop.simps, auto split: option.splits)
  then show ?thesis by (simp add: MHD_unescape_plus_def)
qed

text \<open>The memory behind the terminator is not touched.\<close>

lemma strchr_memory: "c_string s \<Longrightarrow> c \<noteq> NUL \<Longrightarrow> strchr (s @ NUL # r) c = strchr s c"
  by (induction s) auto

lemma unescape_plus_loop_memory:
  assumes "c_string s" "i \<le> length s"
  shows "unescape_plus_loop (s @ NUL # r) i = unescape_plus_loop s i @ NUL # r"
  using assms
proof (induction s i rule: unescape_plus_loop.induct)
  case (1 s i)
  have cs: "c_string (drop i s)" using 1(2) by (auto simp: c_string_def dest: in_set_dropD)
  have eq: "strchr (drop i (s @ NUL # r)) CHR ''+'' = strchr (drop i s) CHR ''+''"
    using strchr_memory [OF cs, of "CHR ''+''" r] 1(3) by simp
  show ?case
  proof (cases "strchr (drop i s) CHR ''+''")
    case None
    then show ?thesis using eq by (simp add: unescape_plus_loop.simps [of _ i])
  next
    case (Some j)
    then have lt: "i + j < length s" using strchr_Some [OF Some] by auto
    then have upd: "(s @ NUL # r)[i + j := CHR '' ''] = s[i + j := CHR '' ''] @ NUL # r"
      by (simp add: list_update_append)
    have "c_string (s[i + j := CHR '' ''])"
      using 1(2) by (auto simp: c_string_def dest: set_update_subset_insert [THEN subsetD])
    then have "unescape_plus_loop (s[i + j := CHR '' ''] @ NUL # r) (i + j + 1) =
        unescape_plus_loop (s[i + j := CHR '' '']) (i + j + 1) @ NUL # r"
      using 1(1) [OF Some] lt by simp
    then show ?thesis
      using Some eq upd by (simp add: unescape_plus_loop.simps [of _ i])
  qed
qed

lemma unescape_plus_memory:
  "c_string s \<Longrightarrow> MHD_unescape_plus (s @ NUL # r) = map (\<lambda>c. if c = CHR ''+'' then CHR '' '' else c) s @ NUL # r"
  using unescape_plus_loop_memory [of s 0 r] unescape_plus_map [of s] by (simp add: MHD_unescape_plus_def)

section \<open>Escape sequences\<close>

text \<open>The reference: a percent sign with two hexadecimal digits stands for one character.\<close>

definition is_hex :: "char \<Rightarrow> bool" where
  "is_hex c \<longleftrightarrow> 0 \<le> toxdigitvalue c"

definition hex_value :: "char \<Rightarrow> char \<Rightarrow> nat" where
  "hex_value h1 h2 = nat (toxdigitvalue h1) * 16 + nat (toxdigitvalue h2)"

definition hex_char :: "char \<Rightarrow> char \<Rightarrow> char" where
  "hex_char h1 h2 = char_of (hex_value h1 h2)"

definition hex_pair_ahead :: "string \<Rightarrow> bool" where
  "hex_pair_ahead s \<longleftrightarrow> (case s of h1 # h2 # _ \<Rightarrow> is_hex h1 \<and> is_hex h2 | _ \<Rightarrow> False)"

fun unescape :: "string \<Rightarrow> string" where
  "unescape [] = []"
| "unescape (c # s) =
     (if c = CHR ''%'' \<and> hex_pair_ahead s
      then hex_char (s ! 0) (s ! 1) # unescape (drop 2 s) else c # unescape s)"

lemma unescape_length: "length (unescape s) \<le> length s"
  by (induction s rule: unescape.induct) auto

lemma hex_pair_aheadE:
  assumes "hex_pair_ahead s"
  obtains h1 h2 s' where "s = h1 # h2 # s'" "is_hex h1" "is_hex h2"
  using assms by (auto simp: hex_pair_ahead_def split: list.splits)

lemma hex_value_less: "hex_value h1 h2 < 256"
  using toxdigitvalue_less [of h1] toxdigitvalue_less [of h2] by (auto simp: hex_value_def)

lemma hex_pair:
  "MHD_strx_to_uint32_n (Some (h1 # h2 # s)) 2 True =
     (if is_hex h1 then if is_hex h2 then (2, Some (word_of_nat (hex_value h1 h2)))
        else (1, Some (word_of_nat (nat (toxdigitvalue h1)))) else (0, None))"
proof -
  have "take 2 (h1 # h2 # s) = [h1, h2]" by (simp add: numeral_2_eq_2)
  moreover have "nat (toxdigitvalue h1) < 256" using toxdigitvalue_less [of h1] by auto
  ultimately show ?thesis
    using hex_value_less [of h1 h2]
    by (auto simp: strx_ref(2) parse_digits_def Let_def is_hex_def hex_value_def)
qed

lemma no_hex_pair:
  assumes "\<not> hex_pair_ahead s"
  shows "fst (MHD_strx_to_uint32_n (Some (s @ NUL # r)) 2 True) \<noteq> 2"
proof -
  have "length (takeWhile (\<lambda>c. 0 \<le> toxdigitvalue c) (take 2 (s @ NUL # r))) < 2"
    using assms
    by (auto simp: hex_pair_ahead_def is_hex_def numeral_2_eq_2 split: list.splits)
  then show ?thesis by (auto simp: strx_ref(2) parse_digits_def Let_def)
qed

lemma hex_char_word [simp]: "char_of_byte (ucast (word_of_nat (hex_value h1 h2) :: u32)) = hex_char h1 h2"
proof -
  have "unat (word_of_nat (hex_value h1 h2) :: u32) = hex_value h1 h2"
    using hex_value_less [of h1 h2] by (simp add: unat_of_nat)
  then show ?thesis
    using hex_value_less [of h1 h2]
    by (simp add: char_of_byte_def hex_char_def unsigned_ucast_eq take_bit_nat_eq_self)
qed

text \<open>One step of the loop replaces the consumed characters \<open>us\<close> by \<open>c\<close>.\<close>

lemma write_step:
  assumes "us \<noteq> []"
  shows "(w @ g @ us @ s)[length w := c] = (w @ [c]) @ tl (g @ us) @ s"
  using assms by (cases g; cases us) (auto simp: list_update_append)

lemma rd_at: "rd (w @ g @ c # s) (length w + length g) = c"
  by (simp add: rd_def nth_append)

lemma unescape_loop_copy:
  assumes "c \<noteq> NUL" and "c \<noteq> CHR ''%'' \<or> fst (MHD_strx_to_uint32_n (Some s) 2 True) \<noteq> 2"
  shows "http_unescape_loop (w @ g @ c # s) (length w + length g) (length w)
       = http_unescape_loop ((w @ [c]) @ tl (g @ [c]) @ s) (length (w @ [c]) + length (tl (g @ [c]))) (length (w @ [c]))"
proof -
  have d: "drop (Suc (length w + length g)) (w @ g @ c # s) = s" by simp
  have st: "(w @ g @ c # s)[length w := c] = (w @ [c]) @ tl (g @ [c]) @ s"
    using write_step [of "[c]" w g s c] by simp
  show ?thesis
    using assms by (subst http_unescape_loop.simps)
      (auto simp: rd_at d st Let_def split: option.splits prod.splits)
qed

lemma unescape_loop_hex:
  assumes "is_hex h1" "is_hex h2"
  shows "http_unescape_loop (w @ g @ CHR ''%'' # h1 # h2 # s) (length w + length g) (length w)
       = http_unescape_loop ((w @ [hex_char h1 h2]) @ tl (g @ [CHR ''%'', h1, h2]) @ s)
           (length (w @ [hex_char h1 h2]) + length (tl (g @ [CHR ''%'', h1, h2]))) (length (w @ [hex_char h1 h2]))"
proof -
  have d: "drop (Suc (length w + length g)) (w @ g @ CHR ''%'' # h1 # h2 # s) = h1 # h2 # s" by simp
  have st: "(w @ g @ CHR ''%'' # h1 # h2 # s)[length w := c] = (w @ [c]) @ tl (g @ [CHR ''%'', h1, h2]) @ s" for c
    using write_step [of "[CHR ''%'', h1, h2]" w g s c] by simp
  show ?thesis
    using assms by (subst http_unescape_loop.simps)
      (simp add: rd_at d st Let_def hex_pair numeral_3_eq_3)
qed

lemma unescape_loop_end:
  "http_unescape_loop (w @ g @ NUL # s) (length w + length g) (length w) = (w @ NUL # tl (g @ [NUL]) @ s, length w)"
  using write_step [of "[NUL]" w g s NUL] by (subst http_unescape_loop.simps) (simp add: rd_at)

lemma http_unescape_loop_correct:
  assumes "c_string s"
  shows "\<exists>g'. http_unescape_loop (w @ g @ s @ NUL # rest) (length w + length g) (length w)
              = (w @ unescape s @ NUL # g' @ rest, length w + length (unescape s))"
  using assms
proof (induction s arbitrary: w g rule: unescape.induct)
  case 1
  then show ?case using unescape_loop_end [of w g rest] by simp
next
  case (2 c s)
  show ?case
  proof (cases "c = CHR ''%'' \<and> hex_pair_ahead s")
    case True
    then obtain h1 h2 s' where s: "s = h1 # h2 # s'" "is_hex h1" "is_hex h2"
      by (blast elim: hex_pair_aheadE)
    then show ?thesis
      using 2(1) [OF True, of "w @ [hex_char h1 h2]" "tl (g @ [CHR ''%'', h1, h2])"] 2(3) True
        unescape_loop_hex [OF s(2,3), of w g "s' @ NUL # rest"] by simp
  next
    case False
    then have "c \<noteq> CHR ''%'' \<or> fst (MHD_strx_to_uint32_n (Some (s @ NUL # rest)) 2 True) \<noteq> 2"
      using no_hex_pair by blast
    then show ?thesis
      using 2(2) [OF False, of "w @ [c]" "tl (g @ [c])"] 2(3) False
        unescape_loop_copy [of c "s @ NUL # rest" w g] by auto
  qed
qed

lemma http_unescape_length: "length (fst (http_unescape_loop val i j)) = length val"
  by (induction val i j rule: http_unescape_loop.induct)
    (subst http_unescape_loop.simps, auto simp: Let_def split: option.splits prod.splits)

text \<open>
  Unescaping in place writes the reference result and its terminator, returns its length, which is at most
  the length of the input, and does not change the memory behind the input.
\<close>
lemma http_unescape_correct:
  assumes "c_string s"
  shows "\<exists>g. MHD_http_unescape (s @ NUL # rest) = (unescape s @ NUL # g @ rest, length (unescape s))
           \<and> length (unescape s) + length g = length s"
proof -
  obtain g where g: "MHD_http_unescape (s @ NUL # rest) = (unescape s @ NUL # g @ rest, length (unescape s))"
    using http_unescape_loop_correct [OF assms, of "[]" "[]" rest] by (auto simp: MHD_http_unescape_def)
  have "length (unescape s) + length g = length s"
    using http_unescape_length [of "s @ NUL # rest" 0 0] g by (simp add: MHD_http_unescape_def)
  with g show ?thesis by blast
qed

section \<open>Arguments\<close>

text \<open>
  The reference: the string is split at the ampersands, an empty last piece is dropped, and each piece is split at its
  first equals sign. The pairs go to the callback in order until it refuses one.
\<close>

fun split_on :: "char \<Rightarrow> string \<Rightarrow> string list" where
  "split_on d [] = [[]]"
| "split_on d (c # s) =
     (if c = d then [] # split_on d s
      else (case split_on d s of [] \<Rightarrow> [[c]] | p # ps \<Rightarrow> (c # p) # ps))"

definition arg_pieces :: "string \<Rightarrow> string list" where
  "arg_pieces s = (let ps = split_on CHR ''&'' s in if last ps = [] then butlast ps else ps)"

definition arg_pair :: "unescape_callback \<Rightarrow> string \<Rightarrow> string \<times> string option" where
  "arg_pair unesc p =
     (let prep = (\<lambda>s. unesc (MHD_unescape_plus s)) in
      case strchr p CHR ''='' of None \<Rightarrow> (prep p, None)
      | Some i \<Rightarrow> (prep (take i p), Some (prep (drop (i + 1) p))))"

fun feed :: "'c argument_iterator \<Rightarrow> u32 \<Rightarrow> (string \<times> string option) list \<Rightarrow> 'c \<Rightarrow> u32 \<Rightarrow> bool \<times> 'c \<times> u32" where
  "feed cb kind [] c n = (True, c, n)"
| "feed cb kind ((k, v) # kvs) c n =
     (case cb c k v kind of (True, c') \<Rightarrow> feed cb kind kvs c' (n + 1) | (False, c') \<Rightarrow> (False, c', n))"

lemma split_on_not_Nil [simp]: "split_on d s \<noteq> []"
  by (induction s) (auto split: list.splits)

lemma split_on_absent: "d \<notin> set s \<Longrightarrow> split_on d s = [s]"
  by (induction s) auto

lemma split_on_append: "d \<notin> set p \<Longrightarrow> split_on d (p @ d # s) = p # split_on d s"
  by (induction p) auto

lemma arg_pieces_Nil [simp]: "arg_pieces [] = []"
  by (simp add: arg_pieces_def)

lemma arg_pieces_last: "CHR ''&'' \<notin> set p \<Longrightarrow> p \<noteq> [] \<Longrightarrow> arg_pieces p = [p]"
  by (simp add: arg_pieces_def split_on_absent)

lemma arg_pieces_step: "CHR ''&'' \<notin> set p \<Longrightarrow> arg_pieces (p @ CHR ''&'' # s) = p # arg_pieces s"
  by (simp add: arg_pieces_def split_on_append Let_def)

lemma strchr_prefix:
  "i < j \<Longrightarrow> strchr (take j s) c = Some i \<longleftrightarrow> i < j \<and> strchr s c = Some i"
proof (induction s arbitrary: i j)
  case (Cons x s)
  then show ?case by (cases j; cases i) auto
qed simp

lemma strchr_take_None:
  assumes "c_string s" "strchr s c = None \<or> (\<exists>i. strchr s c = Some i \<and> j \<le> i)"
  shows "strchr (take j s) c = None"
  using assms
proof (induction s arbitrary: j)
  case (Cons x s)
  then show ?case by (cases j) auto
qed simp

lemma parse_arguments_loop_correct:
  assumes "c_string args"
  shows "parse_arguments_loop unesc cb kind args c n = feed cb kind (map (arg_pair unesc) (arg_pieces args)) c n"
  using assms
proof (induction args arbitrary: c n rule: length_induct)
  case (1 args)
  show ?case
  proof (cases "args = []")
    case True
    then show ?thesis by (simp add: parse_arguments_loop.simps)
  next
    case ne: False
    then have pk: "peek args \<noteq> NUL" using 1(2) c_string_peek by blast
    show ?thesis
    proof (cases "strchr args CHR ''&''")
      case None
      then have "CHR ''&'' \<notin> set args" using strchr_None [OF 1(2)] by blast
      then have "arg_pieces args = [args]" using ne by (rule arg_pieces_last)
      then show ?thesis
        using None pk by (subst parse_arguments_loop.simps)
          (auto simp: arg_pair_def Let_def split: option.splits bool.splits prod.splits)
    next
      case (Some amper)
      let ?p = "take amper args" and ?rest = "drop (amper + 1) args"
      have split: "args = ?p @ CHR ''&'' # ?rest" using strchr_split [OF Some] by simp
      have amp: "CHR ''&'' \<notin> set ?p" "amper < length args" "args ! amper = CHR ''&''"
        using strchr_Some [OF Some] by auto
      have rest: "c_string ?rest" using 1(2) by (auto simp: c_string_def dest: in_set_dropD)
      have IH: "parse_arguments_loop unesc cb kind ?rest c n = feed cb kind (map (arg_pair unesc) (arg_pieces ?rest)) c n"
        for c n using 1(1) rest amp(2) by simp
      have pieces: "arg_pieces args = ?p # arg_pieces ?rest"
        using arg_pieces_step [OF amp(1), of ?rest] split by simp
      have eq: "strchr ?p CHR ''='' = (case strchr args CHR ''='' of None \<Rightarrow> None
                | Some e \<Rightarrow> if amper + 1 \<le> e then None else Some e)"
      proof (cases "strchr args CHR ''=''")
        case None
        then show ?thesis using strchr_take_None [OF 1(2)] by simp
      next
        case e: (Some e)
        have "e \<noteq> amper" using strchr_Some [OF e] amp(3) by auto
        then show ?thesis using strchr_take_None [OF 1(2), of "CHR ''=''" amper] e strchr_prefix [of e amper args] by auto
      qed
      have min: "take e ?p = take e args" if "e < amper + 1" for e using that by (simp add: min_def)
      show ?thesis
        unfolding pieces using Some pk by (subst parse_arguments_loop.simps)
          (auto simp: arg_pair_def eq IH [simplified] Let_def min split: option.splits bool.splits prod.splits)
    qed
  qed
qed

text \<open>
  C21. The argument parser gives its callback the pairs of the reference, in order, until the callback refuses one,
  and counts the pairs that were accepted.
\<close>
theorem parse_arguments_correct:
  assumes "c_string args"
  shows "MHD_parse_arguments unesc c kind (Some args) cb
       = feed cb kind (map (arg_pair unesc) (arg_pieces args)) c 0"
  by (simp add: MHD_parse_arguments_def parse_arguments_loop_correct [OF assms])

theorem parse_arguments_correct_witness:
  "MHD_parse_arguments unescape_wrapper [] 8 (Some ''a=1&b&'') (\<lambda>c k v kind. (True, c @ [(k, v)]))
   = (True, [(''a'', Some ''1''), (''b'', None)], 2)"
proof -
  have "map (arg_pair unescape_wrapper) (arg_pieces ''a=1&b&'') = [(''a'', Some ''1''), (''b'', None)]"
    by code_simp
  then show ?thesis
    using parse_arguments_correct [of "''a=1&b&''" unescape_wrapper "[]" 8 "\<lambda>c k v kind. (True, c @ [(k, v)])"]
    by (simp add: c_string_def)
qed

section \<open>Printing and parsing a query\<close>

definition hex_digit :: "nat \<Rightarrow> char" where
  "hex_digit n = ''0123456789ABCDEF'' ! n"

definition is_alnum :: "char \<Rightarrow> bool" where
  "is_alnum c \<longleftrightarrow> CHR ''0'' \<le> c \<and> c \<le> CHR ''9'' \<or> CHR ''A'' \<le> c \<and> c \<le> CHR ''Z'' \<or> CHR ''a'' \<le> c \<and> c \<le> CHR ''z''"

definition enc_char :: "char \<Rightarrow> string" where
  "enc_char c = (if is_alnum c then [c]
     else [CHR ''%'', hex_digit (of_char c div 16), hex_digit (of_char c mod 16)])"

definition enc :: "string \<Rightarrow> string" where
  "enc s = concat (map enc_char s)"

definition enc_pair :: "string \<times> string option \<Rightarrow> string" where
  "enc_pair kv = (case snd kv of None \<Rightarrow> enc (fst kv) | Some v \<Rightarrow> enc (fst kv) @ CHR ''='' # enc v)"

fun query :: "(string \<times> string option) list \<Rightarrow> string" where
  "query [] = []"
| "query [kv] = enc_pair kv"
| "query (kv # kvs) = enc_pair kv @ CHR ''&'' # query kvs"

lemma hex_digit_all: "\<forall>n \<in> set [0..<16]. toxdigitvalue (hex_digit n) = int n \<and> is_alnum (hex_digit n)"
  by code_simp

lemma hex_digit: "n < 16 \<Longrightarrow> toxdigitvalue (hex_digit n) = int n" "n < 16 \<Longrightarrow> is_alnum (hex_digit n)"
  using hex_digit_all by auto

lemma alnum_safe: "is_alnum c \<Longrightarrow> c \<noteq> CHR ''%'' \<and> c \<noteq> CHR ''+'' \<and> c \<noteq> CHR ''&'' \<and> c \<noteq> CHR ''='' \<and> c \<noteq> NUL"
  by (auto simp: is_alnum_def less_eq_char_def)

lemma char_nibbles: "of_char (c :: char) div 16 < (16 :: nat)" "of_char c mod 16 < (16 :: nat)"
proof -
  have "of_char c < (256 :: nat)" by simp
  then show "of_char c div 16 < (16 :: nat)" by linarith
qed simp

lemma enc_chars: "\<forall>c \<in> set (enc s). is_alnum c \<or> c = CHR ''%''"
  using hex_digit(2) [OF char_nibbles(1)] hex_digit(2) [OF char_nibbles(2)]
  by (auto simp: enc_def enc_char_def split: if_splits)

lemma enc_safe:
  "CHR ''+'' \<notin> set (enc s)" "CHR ''&'' \<notin> set (enc s)" "CHR ''='' \<notin> set (enc s)" "c_string (enc s)"
  using enc_chars [of s] alnum_safe by (auto simp: c_string_def)

lemma unescape_enc: "unescape (enc s) = s"
proof (induction s)
  case (Cons c s)
  note n = char_nibbles [of c]
  show ?case
  proof (cases "is_alnum c")
    case True
    then show ?thesis using Cons alnum_safe [OF True] by (simp add: enc_def enc_char_def)
  next
    case False
    have "hex_char (hex_digit (of_char c div 16)) (hex_digit (of_char c mod 16)) = c"
      using n by (simp add: hex_char_def hex_value_def hex_digit)
    then show ?thesis
      using False Cons n by (simp add: enc_def enc_char_def hex_pair_ahead_def is_hex_def hex_digit numeral_2_eq_2)
  qed
qed (simp add: enc_def)

lemma prep_enc: "c_string s \<Longrightarrow> unescape_wrapper (MHD_unescape_plus (enc s)) = s"
proof -
  assume cs: "c_string s"
  have "MHD_unescape_plus (enc s) = enc s"
    unfolding unescape_plus_map [OF enc_safe(4)] using enc_safe(1) [of s] by (intro map_idI) auto
  moreover obtain g where "MHD_http_unescape (enc s @ [NUL]) = (s @ NUL # g, length s)"
    using http_unescape_loop_correct [OF enc_safe(4), of "[]" "[]" s "[]"]
    by (auto simp: MHD_http_unescape_def unescape_enc)
  moreover have "takeWhile (\<lambda>c. c \<noteq> NUL) (s @ NUL # g) = s"
    using cs by (simp add: takeWhile_append c_string_def)
  ultimately show ?thesis by (simp add: unescape_wrapper_def c_str_def)
qed

definition printable :: "string \<times> string option \<Rightarrow> bool" where
  "printable kv \<longleftrightarrow> c_string (fst kv) \<and> (case snd kv of None \<Rightarrow> fst kv \<noteq> [] | Some v \<Rightarrow> c_string v)"

lemma arg_pair_enc: "printable kv \<Longrightarrow> arg_pair unescape_wrapper (enc_pair kv) = kv"
proof (cases kv)
  case (Pair k v)
  assume pr: "printable kv"
  show ?thesis
  proof (cases v)
    case None
    then have "strchr (enc k) CHR ''='' = None" using strchr_None enc_safe(3,4) by blast
    then show ?thesis using None Pair pr by (simp add: arg_pair_def enc_pair_def prep_enc printable_def)
  next
    case (Some w)
    have "strchr (enc k @ CHR ''='' # enc w) CHR ''='' = Some (length (enc k))"
      by (rule strchr_append) (rule enc_safe)+
    then show ?thesis using Some Pair pr by (simp add: arg_pair_def enc_pair_def prep_enc printable_def)
  qed
qed

lemma enc_pair_safe: "CHR ''&'' \<notin> set (enc_pair kv)" "c_string (enc_pair kv)"
  using enc_safe by (auto simp: enc_pair_def split: option.splits)

lemma enc_Nil: "enc s = [] \<longleftrightarrow> s = []"
  by (cases s) (auto simp: enc_def enc_char_def)

lemma enc_pair_ne: "printable kv \<Longrightarrow> enc_pair kv \<noteq> []"
  by (auto simp: printable_def enc_pair_def enc_Nil split: option.splits)

lemma query_pieces: "\<forall>kv \<in> set kvs. printable kv \<Longrightarrow> arg_pieces (query kvs) = map enc_pair kvs"
  by (induction kvs rule: query.induct) (simp_all add: arg_pieces_last arg_pieces_step enc_pair_safe enc_pair_ne)

lemma c_string_query: "c_string (query kvs)"
  by (induction kvs rule: query.induct) (simp_all add: enc_pair_safe)

lemma feed_collect: "feed (\<lambda>c k v kind. (True, c @ [(k, v)])) kind kvs c n = (True, c @ kvs, n + word_of_nat (length kvs))"
  by (induction kvs arbitrary: c n) auto

text \<open>
  C22. A query printed with percent encoding is parsed back to its key-value pairs, in order and with their number,
  by the parser with the default unescape callback of the daemon.
\<close>
theorem query_roundtrip:
  assumes "\<forall>kv \<in> set kvs. printable kv"
  shows "MHD_parse_arguments unescape_wrapper [] kind (Some (query kvs)) (\<lambda>c k v kind. (True, c @ [(k, v)]))
         = (True, kvs, word_of_nat (length kvs))"
proof -
  have "map (arg_pair unescape_wrapper \<circ> enc_pair) kvs = kvs"
    using assms by (intro map_idI) (simp add: arg_pair_enc)
  then show ?thesis
    using assms by (simp add: MHD_parse_arguments_def parse_arguments_loop_correct c_string_query
        query_pieces feed_collect)
qed

theorem query_roundtrip_witness:
  "MHD_parse_arguments unescape_wrapper [] 8 (Some ''q=a%26b&n'') (\<lambda>c k v kind. (True, c @ [(k, v)]))
   = (True, [(''q'', Some ''a&b''), (''n'', None)], 2)"
proof -
  have "query [(''q'', Some ''a&b''), (''n'', None)] = ''q=a%26b&n''" by code_simp
  then show ?thesis
    using query_roundtrip [of "[(''q'', Some ''a&b''), (''n'', None)]" 8]
    by (simp add: printable_def c_string_def)
qed

end
