(* ===== verification/Hash_Blocks.thy ===== *)
theory Hash_Blocks
  imports Prelude
begin

text \<open>
  What \<^verbatim>\<open>md5.c\<close> and \<^verbatim>\<open>sha256.c\<close> share: a message is absorbed in blocks of 64 bytes by a compression
  function, what is left of it waits in a buffer, and the end of the message is padded to a full block with
  its length. The locale \<open>streaming_hash\<close> is the contract of such an implementation: the context holds a message,
  an update appends to it, and the final operation hashes it. Its clients get that the digest depends on
  the bytes only and not on how they were split into updates.
\<close>

section \<open>Absorbing blocks\<close>

function absorb :: "('s \<Rightarrow> byte list \<Rightarrow> 's) \<Rightarrow> 's \<Rightarrow> byte list \<Rightarrow> 's \<times> byte list" where
  "absorb f st m = (if 64 \<le> length m then absorb f (f st (take 64 m)) (drop 64 m) else (st, m))"
  by auto
termination
  by (relation "measure (\<lambda>(f, st, m). length m)") auto

declare absorb.simps [simp del]

lemma absorb_short [simp]: "length m < 64 \<Longrightarrow> absorb f st m = (st, m)"
  by (simp add: absorb.simps)

lemma absorb_block: "64 \<le> length m \<Longrightarrow> absorb f st m = absorb f (f st (take 64 m)) (drop 64 m)"
  by (simp add: absorb.simps)

lemma absorb_rest_length: "length (snd (absorb f st m)) = length m mod 64"
proof (induction f st m rule: absorb.induct)
  case (1 f st m)
  then show ?case
    by (cases "64 \<le> length m") (simp_all add: absorb_block le_mod_geq)
qed

lemma absorb_append:
  "absorb f st (m @ d) = (case absorb f st m of (st', r) \<Rightarrow> absorb f st' (r @ d))"
proof (induction f st m rule: absorb.induct)
  case (1 f st m)
  show ?case
  proof (cases "64 \<le> length m")
    case True
    then have "absorb f st (m @ d) = absorb f (f st (take 64 m)) (drop 64 m @ d)"
      by (simp add: absorb_block)
    also have "\<dots> = (case absorb f (f st (take 64 m)) (drop 64 m) of (st', r) \<Rightarrow> absorb f st' (r @ d))"
      by (rule 1 [OF True])
    finally show ?thesis using True by (simp add: absorb_block)
  qed simp
qed

lemma absorb_one: "length r = 64 \<Longrightarrow> absorb f st r = (f st r, [])"
  by (simp add: absorb_block)

lemma absorb_blocks:
  "length r = 64 \<Longrightarrow> length r' = 64 \<Longrightarrow> absorb f st (r @ r') = (f (f st r) r', [])"
  by (simp only: absorb_append [of f st r r'] absorb_one split append_Nil)

section \<open>Padding\<close>

definition padding :: "(nat \<Rightarrow> byte list) \<Rightarrow> nat \<Rightarrow> byte list" where
  "padding len_bytes n = 0x80 # replicate ((119 - n mod 64) mod 64) 0 @ len_bytes n"

lemma padding_short:
  "n mod 64 < 56 \<Longrightarrow> padding len_bytes n = 0x80 # replicate (55 - n mod 64) 0 @ len_bytes n"
proof -
  assume "n mod 64 < 56"
  then have "119 - n mod 64 = 64 + (55 - n mod 64)" by linarith
  then have "(119 - n mod 64) mod 64 = (55 - n mod 64) mod 64" by (simp only: mod_add_self1)
  also have "\<dots> = 55 - n mod 64" by (rule mod_less) linarith
  finally show ?thesis by (simp only: padding_def)
qed

lemma padding_long:
  assumes "56 \<le> n mod 64"
  shows "padding len_bytes n = 0x80 # replicate (119 - n mod 64) 0 @ len_bytes n"
proof -
  have "(119 - n mod 64) mod 64 = 119 - n mod 64"
    using assms by (intro mod_less) linarith
  then show ?thesis by (simp only: padding_def)
qed

section \<open>The contract of a streaming implementation\<close>

locale streaming_hash =
  fixes compress :: "'st \<Rightarrow> byte list \<Rightarrow> 'st" and iv :: 'st
    and started :: "'ctx \<Rightarrow> bool"
    and update :: "'ctx \<Rightarrow> byte list \<Rightarrow> 'ctx"
    and finish :: "'ctx \<Rightarrow> 'd"
    and holds :: "'ctx \<Rightarrow> byte list \<Rightarrow> bool"
    and len_bytes :: "nat \<Rightarrow> byte list"
    and out :: "'st \<Rightarrow> 'd"
  assumes started_holds: "started ctx \<Longrightarrow> holds ctx []"
    and update_holds: "holds ctx m \<Longrightarrow> holds (update ctx d) (m @ d)"
    and finish_out: "holds ctx m \<Longrightarrow>
           finish ctx = out (fst (absorb compress iv (m @ padding len_bytes (length m))))"
begin

lemma updates_hold: "holds ctx m \<Longrightarrow> holds (foldl update ctx ds) (m @ concat ds)"
proof (induction ds arbitrary: ctx m)
  case (Cons d ds)
  then show ?case using update_holds [OF Cons.prems, of d] Cons.IH [of "update ctx d" "m @ d"] by simp
qed simp

lemma digest_of_updates:
  assumes "started ctx"
  shows "finish (foldl update ctx ds) =
         out (fst (absorb compress iv (concat ds @ padding len_bytes (length (concat ds)))))"
  using finish_out [OF updates_hold [OF started_holds [OF assms], of ds]] by simp

lemma split_irrelevant:
  assumes "started ctx" "started ctx'" "concat ds = concat ds'"
  shows "finish (foldl update ctx ds) = finish (foldl update ctx' ds')"
  using digest_of_updates [OF assms(1)] digest_of_updates [OF assms(2)] assms(3) by simp

end

section \<open>Buffers\<close>

text \<open>\<^verbatim>\<open>memcpy (buffer + at, input, n)\<close> inside the buffer.\<close>

definition copy_in :: "byte list \<Rightarrow> nat \<Rightarrow> byte list \<Rightarrow> nat \<Rightarrow> byte list" where
  "copy_in buf at input n = take at buf @ take n input @ drop (at + n) buf"

lemma length_copy_in [simp]:
  "at + n \<le> length buf \<Longrightarrow> n \<le> length input \<Longrightarrow> length (copy_in buf at input n) = length buf"
  by (simp add: copy_in_def)

lemma take_copy_in:
  "at \<le> length buf \<Longrightarrow> n \<le> length input \<Longrightarrow> take (at + n) (copy_in buf at input n) = take at buf @ take n input"
  by (simp add: copy_in_def)

text \<open>\<^verbatim>\<open>memset (buffer + at, 0, n)\<close> inside the buffer.\<close>

definition clear_in :: "byte list \<Rightarrow> nat \<Rightarrow> nat \<Rightarrow> byte list" where
  "clear_in buf at n = copy_in buf at (replicate n 0) n"

definition rotl32 :: "nat \<Rightarrow> u32 \<Rightarrow> u32" where
  "rotl32 s w = push_bit s w OR drop_bit (32 - s) w"

end
