(* ===== verification/Md5.thy ===== *)
theory Md5
  imports Hash_Blocks
begin

text \<open>
  The MD5 implementation of \<^verbatim>\<open>libmicrohttpd/src/microhttpd/md5.c\<close>. The context pointer is never null; a null
  input is \<open>None\<close>. The 64 invocations of \<^verbatim>\<open>MD5STEP\<close> are the list \<open>md5_steps\<close>, in the order of the source; the step that
  assigns to the variable \<open>a\<close>, \<open>b\<close>, \<open>c\<close> or \<open>d\<close> is \<open>step_a\<close>, \<open>step_b\<close>, \<open>step_c\<close> or \<open>step_d\<close>.
\<close>

record MD5Context =
  state :: "u32 list"
  count :: u64
  buffer :: "byte list"

section \<open>The transformation\<close>

definition F1 :: "u32 \<Rightarrow> u32 \<Rightarrow> u32 \<Rightarrow> u32" where
  "F1 x y z = z XOR (x AND (y XOR z))"

definition F2 :: "u32 \<Rightarrow> u32 \<Rightarrow> u32 \<Rightarrow> u32" where
  "F2 x y z = F1 z x y"

definition F3 :: "u32 \<Rightarrow> u32 \<Rightarrow> u32 \<Rightarrow> u32" where
  "F3 x y z = x XOR y XOR z"

definition F4 :: "u32 \<Rightarrow> u32 \<Rightarrow> u32 \<Rightarrow> u32" where
  "F4 x y z = y XOR (x OR NOT z)"

type_synonym core_fn = "u32 \<Rightarrow> u32 \<Rightarrow> u32 \<Rightarrow> u32"
type_synonym regs = "u32 \<times> u32 \<times> u32 \<times> u32"

definition MD5STEP :: "core_fn \<Rightarrow> u32 \<Rightarrow> u32 \<Rightarrow> u32 \<Rightarrow> u32 \<Rightarrow> u32 \<Rightarrow> nat \<Rightarrow> u32" where
  "MD5STEP f w x y z data s = (let w = w + (f x y z + data); w = push_bit s w OR drop_bit (32 - s) w in w + x)"

fun step_a :: "core_fn \<Rightarrow> u32 \<Rightarrow> nat \<Rightarrow> regs \<Rightarrow> regs" where
  "step_a f data s (a, b, c, d) = (MD5STEP f a b c d data s, b, c, d)"

fun step_d :: "core_fn \<Rightarrow> u32 \<Rightarrow> nat \<Rightarrow> regs \<Rightarrow> regs" where
  "step_d f data s (a, b, c, d) = (a, b, c, MD5STEP f d a b c data s)"

fun step_c :: "core_fn \<Rightarrow> u32 \<Rightarrow> nat \<Rightarrow> regs \<Rightarrow> regs" where
  "step_c f data s (a, b, c, d) = (a, b, MD5STEP f c d a b data s, d)"

fun step_b :: "core_fn \<Rightarrow> u32 \<Rightarrow> nat \<Rightarrow> regs \<Rightarrow> regs" where
  "step_b f data s (a, b, c, d) = (a, MD5STEP f b c d a data s, c, d)"

definition md5_steps :: "u32 list \<Rightarrow> (regs \<Rightarrow> regs) list" where
  "md5_steps inw =
    [step_a F1 (inw ! 0 + 0xd76aa478) 7, step_d F1 (inw ! 1 + 0xe8c7b756) 12,
     step_c F1 (inw ! 2 + 0x242070db) 17, step_b F1 (inw ! 3 + 0xc1bdceee) 22,
     step_a F1 (inw ! 4 + 0xf57c0faf) 7, step_d F1 (inw ! 5 + 0x4787c62a) 12,
     step_c F1 (inw ! 6 + 0xa8304613) 17, step_b F1 (inw ! 7 + 0xfd469501) 22,
     step_a F1 (inw ! 8 + 0x698098d8) 7, step_d F1 (inw ! 9 + 0x8b44f7af) 12,
     step_c F1 (inw ! 10 + 0xffff5bb1) 17, step_b F1 (inw ! 11 + 0x895cd7be) 22,
     step_a F1 (inw ! 12 + 0x6b901122) 7, step_d F1 (inw ! 13 + 0xfd987193) 12,
     step_c F1 (inw ! 14 + 0xa679438e) 17, step_b F1 (inw ! 15 + 0x49b40821) 22,
     step_a F2 (inw ! 1 + 0xf61e2562) 5, step_d F2 (inw ! 6 + 0xc040b340) 9,
     step_c F2 (inw ! 11 + 0x265e5a51) 14, step_b F2 (inw ! 0 + 0xe9b6c7aa) 20,
     step_a F2 (inw ! 5 + 0xd62f105d) 5, step_d F2 (inw ! 10 + 0x02441453) 9,
     step_c F2 (inw ! 15 + 0xd8a1e681) 14, step_b F2 (inw ! 4 + 0xe7d3fbc8) 20,
     step_a F2 (inw ! 9 + 0x21e1cde6) 5, step_d F2 (inw ! 14 + 0xc33707d6) 9,
     step_c F2 (inw ! 3 + 0xf4d50d87) 14, step_b F2 (inw ! 8 + 0x455a14ed) 20,
     step_a F2 (inw ! 13 + 0xa9e3e905) 5, step_d F2 (inw ! 2 + 0xfcefa3f8) 9,
     step_c F2 (inw ! 7 + 0x676f02d9) 14, step_b F2 (inw ! 12 + 0x8d2a4c8a) 20,
     step_a F3 (inw ! 5 + 0xfffa3942) 4, step_d F3 (inw ! 8 + 0x8771f681) 11,
     step_c F3 (inw ! 11 + 0x6d9d6122) 16, step_b F3 (inw ! 14 + 0xfde5380c) 23,
     step_a F3 (inw ! 1 + 0xa4beea44) 4, step_d F3 (inw ! 4 + 0x4bdecfa9) 11,
     step_c F3 (inw ! 7 + 0xf6bb4b60) 16, step_b F3 (inw ! 10 + 0xbebfbc70) 23,
     step_a F3 (inw ! 13 + 0x289b7ec6) 4, step_d F3 (inw ! 0 + 0xeaa127fa) 11,
     step_c F3 (inw ! 3 + 0xd4ef3085) 16, step_b F3 (inw ! 6 + 0x04881d05) 23,
     step_a F3 (inw ! 9 + 0xd9d4d039) 4, step_d F3 (inw ! 12 + 0xe6db99e5) 11,
     step_c F3 (inw ! 15 + 0x1fa27cf8) 16, step_b F3 (inw ! 2 + 0xc4ac5665) 23,
     step_a F4 (inw ! 0 + 0xf4292244) 6, step_d F4 (inw ! 7 + 0x432aff97) 10,
     step_c F4 (inw ! 14 + 0xab9423a7) 15, step_b F4 (inw ! 5 + 0xfc93a039) 21,
     step_a F4 (inw ! 12 + 0x655b59c3) 6, step_d F4 (inw ! 3 + 0x8f0ccc92) 10,
     step_c F4 (inw ! 10 + 0xffeff47d) 15, step_b F4 (inw ! 1 + 0x85845dd1) 21,
     step_a F4 (inw ! 8 + 0x6fa87e4f) 6, step_d F4 (inw ! 15 + 0xfe2ce6e0) 10,
     step_c F4 (inw ! 6 + 0xa3014314) 15, step_b F4 (inw ! 13 + 0x4e0811a1) 21,
     step_a F4 (inw ! 4 + 0xf7537e82) 6, step_d F4 (inw ! 11 + 0xbd3af235) 10,
     step_c F4 (inw ! 2 + 0x2ad7d2bb) 15, step_b F4 (inw ! 9 + 0xeb86d391) 21]"

text \<open>On a little-endian machine the block is copied and read as 16 words.\<close>

definition word_le :: "byte list \<Rightarrow> nat \<Rightarrow> u32" where
  "word_le block i = ucast (block ! (4 * i)) OR push_bit 8 (ucast (block ! (4 * i + 1)))
     OR push_bit 16 (ucast (block ! (4 * i + 2))) OR push_bit 24 (ucast (block ! (4 * i + 3)))"

definition MD5Transform :: "u32 list \<Rightarrow> byte list \<Rightarrow> u32 list" where
  "MD5Transform st block =
     (let inw = map (word_le block) [0..<16] in
      case foldl (\<lambda>r f. f r) (st ! 0, st ! 1, st ! 2, st ! 3) (md5_steps inw) of
        (a, b, c, d) \<Rightarrow> [st ! 0 + a, st ! 1 + b, st ! 2 + c, st ! 3 + d])"

section \<open>The operations\<close>

definition MD5Init :: "MD5Context \<Rightarrow> MD5Context" where
  "MD5Init ctx = ctx\<lparr>count := 0, state := [0x67452301, 0xefcdab89, 0x98badcfe, 0x10325476]\<rparr>"

text \<open>The bytes that wait in the buffer, and the bits of an input, from the counters in bits and in bytes.\<close>

definition buffered :: "u64 \<Rightarrow> nat" where
  "buffered cnt = unat (drop_bit 3 cnt AND 63)"

definition bit_length :: "nat \<Rightarrow> u64" where
  "bit_length len = push_bit 3 (word_of_nat len)"

definition MD5Update :: "MD5Context \<Rightarrow> byte list option \<Rightarrow> nat \<Rightarrow> MD5Context" where
  "MD5Update ctx inp len =
     (case inp of None \<Rightarrow> ctx
      | Some input \<Rightarrow>
          (let hv = buffered (count ctx);
               need = 64 - hv;
               data = take len input;
               ctx = ctx\<lparr>count := count ctx + bit_length len\<rparr>
           in if need \<le> len
              then (let (ctx, data) =
                          (if hv \<noteq> 0
                           then (let buf = copy_in (buffer ctx) hv data need
                                 in (ctx\<lparr>buffer := buf, state := MD5Transform (state ctx) buf\<rparr>, drop need data))
                           else (ctx, data));
                        (st, rest) = absorb MD5Transform (state ctx) data;
                        ctx = ctx\<lparr>state := st\<rparr>
                    in if rest \<noteq> [] then ctx\<lparr>buffer := copy_in (buffer ctx) 0 rest (length rest)\<rparr> else ctx)
              else if len \<noteq> 0 then ctx\<lparr>buffer := copy_in (buffer ctx) hv data len\<rparr> else ctx))"

definition PUT_64BIT_LE :: "u64 \<Rightarrow> byte list" where
  "PUT_64BIT_LE v = [ucast v, ucast (drop_bit 8 v), ucast (drop_bit 16 v), ucast (drop_bit 24 v),
     ucast (drop_bit 32 v), ucast (drop_bit 40 v), ucast (drop_bit 48 v), ucast (drop_bit 56 v)]"

definition PUT_32BIT_LE :: "u32 \<Rightarrow> byte list" where
  "PUT_32BIT_LE v = [ucast v, ucast (drop_bit 8 v), ucast (drop_bit 16 v), ucast (drop_bit 24 v)]"

definition PADDING :: "byte list" where
  "PADDING = 0x80 # replicate 63 0"

definition MD5Pad :: "MD5Context \<Rightarrow> MD5Context" where
  "MD5Pad ctx =
     (let cnt = PUT_64BIT_LE (count ctx);
          padlen = 64 - buffered (count ctx);
          padlen = (if padlen < 1 + 8 then padlen + 64 else padlen)
      in MD5Update (MD5Update ctx (Some PADDING) (padlen - 8)) (Some cnt) 8)"

definition MD5Final :: "MD5Context \<Rightarrow> byte list \<times> MD5Context" where
  "MD5Final ctx =
     (let ctx = MD5Pad ctx in
      (concat (map (\<lambda>i. PUT_32BIT_LE (state ctx ! i)) [0..<4]),
       \<lparr>state = [0, 0, 0, 0], count = 0, buffer = replicate 64 0\<rparr>))"

section \<open>The textbook form of the transformation\<close>

text \<open>
  RFC 1321 gives the four functions without the optimisation of \<open>F1\<close> and describes one round of 64 steps that rotates
  the variables, with the index of the input word and the shift as functions of the step number.
\<close>

lemma F1_textbook: "F1 x y z = (x AND y) OR (NOT x AND z)"
  by (rule bit_word_eqI) (auto simp: F1_def bit_simps)

lemma F2_textbook: "F2 x y z = (x AND z) OR (y AND NOT z)"
  by (rule bit_word_eqI) (auto simp: F2_def F1_def bit_simps)

definition T :: "u32 list" where
  "T = [0xd76aa478, 0xe8c7b756, 0x242070db, 0xc1bdceee, 0xf57c0faf, 0x4787c62a, 0xa8304613, 0xfd469501,
    0x698098d8, 0x8b44f7af, 0xffff5bb1, 0x895cd7be, 0x6b901122, 0xfd987193, 0xa679438e, 0x49b40821,
    0xf61e2562, 0xc040b340, 0x265e5a51, 0xe9b6c7aa, 0xd62f105d, 0x02441453, 0xd8a1e681, 0xe7d3fbc8,
    0x21e1cde6, 0xc33707d6, 0xf4d50d87, 0x455a14ed, 0xa9e3e905, 0xfcefa3f8, 0x676f02d9, 0x8d2a4c8a,
    0xfffa3942, 0x8771f681, 0x6d9d6122, 0xfde5380c, 0xa4beea44, 0x4bdecfa9, 0xf6bb4b60, 0xbebfbc70,
    0x289b7ec6, 0xeaa127fa, 0xd4ef3085, 0x04881d05, 0xd9d4d039, 0xe6db99e5, 0x1fa27cf8, 0xc4ac5665,
    0xf4292244, 0x432aff97, 0xab9423a7, 0xfc93a039, 0x655b59c3, 0x8f0ccc92, 0xffeff47d, 0x85845dd1,
    0x6fa87e4f, 0xfe2ce6e0, 0xa3014314, 0x4e0811a1, 0xf7537e82, 0xbd3af235, 0x2ad7d2bb, 0xeb86d391]"

definition core :: "nat \<Rightarrow> core_fn" where
  "core i = [\<lambda>x y z. (x AND y) OR (NOT x AND z), \<lambda>x y z. (x AND z) OR (y AND NOT z),
             \<lambda>x y z. x XOR y XOR z, \<lambda>x y z. y XOR (x OR NOT z)] ! (i div 16)"

definition input_index :: "nat \<Rightarrow> nat" where
  "input_index i = [i, 5 * i + 1, 3 * i + 5, 7 * i] ! (i div 16) mod 16"

definition shift :: "nat \<Rightarrow> nat" where
  "shift i = [[7, 12, 17, 22], [5, 9, 14, 20], [4, 11, 16, 23], [6, 10, 15, 21]] ! (i div 16) ! (i mod 4)"

fun md5_round :: "core_fn \<Rightarrow> u32 \<Rightarrow> nat \<Rightarrow> regs \<Rightarrow> regs" where
  "md5_round f data s (a, b, c, d) = (d, b + rotl32 s (a + f b c d + data), b, c)"

definition transform_rfc :: "u32 list \<Rightarrow> byte list \<Rightarrow> u32 list" where
  "transform_rfc st block =
     (case foldl (\<lambda>r i. md5_round (core i) (word_le block (input_index i) + T ! i) (shift i) r)
             (st ! 0, st ! 1, st ! 2, st ! 3) [0..<64] of
        (a, b, c, d) \<Rightarrow> [st ! 0 + a, st ! 1 + b, st ! 2 + c, st ! 3 + d])"

lemma quad_steps:
  "step_b f d3 s3 (step_c f d2 s2 (step_d f d1 s1 (step_a f d0 s0 r))) =
   md5_round f d3 s3 (md5_round f d2 s2 (md5_round f d1 s1 (md5_round f d0 s0 r)))"
  by (cases r) (simp add: MD5STEP_def rotl32_def Let_def ac_simps)

lemma core_16:
  "i div 16 = 0 \<Longrightarrow> core i = F1" "i div 16 = 1 \<Longrightarrow> core i = F2"
  "i div 16 = 2 \<Longrightarrow> core i = F3" "i div 16 = 3 \<Longrightarrow> core i = F4"
  by (simp_all add: core_def fun_eq_iff F1_textbook F2_textbook F3_def F4_def)

lemma upt_16: "[0..<16] = [0, 1, 2, 3, 4, 5, 6, 7, 8, 9, 10, 11, 12, 13, 14, 15 :: nat]"
  by code_simp

lemma upt_64: "[0..<64] = [0, 1, 2, 3, 4, 5, 6, 7, 8, 9, 10, 11, 12, 13, 14, 15,
    16, 17, 18, 19, 20, 21, 22, 23, 24, 25, 26, 27, 28, 29, 30, 31,
    32, 33, 34, 35, 36, 37, 38, 39, 40, 41, 42, 43, 44, 45, 46, 47,
    48, 49, 50, 51, 52, 53, 54, 55, 56, 57, 58, 59, 60, 61, 62, 63 :: nat]"
  by code_simp

lemma steps_rfc:
  "foldl (\<lambda>r f. f r) r (md5_steps (map (word_le block) [0..<16])) =
   foldl (\<lambda>r i. md5_round (core i) (word_le block (input_index i) + T ! i) (shift i) r) r [0..<64]"
  unfolding md5_steps_def upt_16 upt_64 foldl.simps quad_steps
  by (simp add: core_16 input_index_def shift_def T_def)

lemma md5_transform_rfc: "MD5Transform = transform_rfc"
  by (intro ext) (simp only: MD5Transform_def transform_rfc_def Let_def steps_rfc)

section \<open>The streaming contract\<close>

definition md5_iv :: "u32 list" where
  "md5_iv = [0x67452301, 0xefcdab89, 0x98badcfe, 0x10325476]"

text \<open>The context holds the message \<open>m\<close>.\<close>

definition md5_holds :: "MD5Context \<Rightarrow> byte list \<Rightarrow> bool" where
  "md5_holds ctx m \<longleftrightarrow> length (buffer ctx) = 64 \<and> count ctx = word_of_nat (8 * length m)
     \<and> absorb MD5Transform md5_iv m = (state ctx, take (length m mod 64) (buffer ctx))"

definition md5_started :: "MD5Context \<Rightarrow> bool" where
  "md5_started ctx \<longleftrightarrow> length (buffer ctx) = 64 \<and> count ctx = 0 \<and> state ctx = md5_iv"

definition md5_update :: "MD5Context \<Rightarrow> byte list \<Rightarrow> MD5Context" where
  "md5_update ctx d = MD5Update ctx (Some d) (length d)"

definition md5_len :: "nat \<Rightarrow> byte list" where
  "md5_len n = PUT_64BIT_LE (word_of_nat (8 * n))"

definition md5_out :: "u32 list \<Rightarrow> byte list" where
  "md5_out st = concat (map (\<lambda>i. PUT_32BIT_LE (st ! i)) [0..<4])"

lemma bytes_in_buffer: "buffered (word_of_nat (8 * n)) = n mod 64"
proof -
  let ?w = "word_of_nat (8 * n) :: u64"
  have "(63 :: u64) = mask 6" by (simp add: mask_eq_exp_minus_1)
  then have "drop_bit 3 ?w AND 63 = take_bit 6 (drop_bit 3 ?w)" by (simp only: take_bit_eq_mask)
  then have "unat (drop_bit 3 ?w AND 63) = unat ?w div 2 ^ 3 mod 2 ^ 6"
    by (simp add: unat_div unat_mod drop_bit_eq_div take_bit_eq_mod del: of_nat_mult)
  also have "unat ?w = 8 * n mod 2 ^ 64" by (simp only: unat_of_nat) simp
  also have "8 * n mod 2 ^ 64 = 8 * (n mod 2 ^ 61)" by (simp add: mult_mod_right)
  also have "8 * (n mod 2 ^ 61) div 2 ^ 3 mod 2 ^ 6 = n mod 64" by (simp add: mod_mod_cancel)
  finally show ?thesis unfolding buffered_def .
qed

lemma bit_length_add: "word_of_nat (8 * n) + bit_length len = word_of_nat (8 * (n + len))"
  by (simp add: bit_length_def push_bit_eq_mult algebra_simps)

lemma MD5Update_take: "n \<le> length x \<Longrightarrow> MD5Update c (Some x) n = md5_update c (take n x)"
  by (simp add: md5_update_def MD5Update_def min_absorb2)

lemma md5_update_holds:
  assumes "md5_holds ctx m"
  shows "md5_holds (md5_update ctx d) (m @ d)"
proof -
  define hv where "hv = length m mod 64"
  have buf: "length (buffer ctx) = 64" and cnt: "count ctx = word_of_nat (8 * length m)"
    and ab: "absorb MD5Transform md5_iv m = (state ctx, take hv (buffer ctx))"
    using assms by (simp_all add: md5_holds_def hv_def)
  have hv: "buffered (count ctx) = hv" "hv < 64"
    unfolding cnt bytes_in_buffer by (simp_all add: hv_def)
  have cnt': "count ctx + bit_length (length d) = word_of_nat (8 * length (m @ d))"
    unfolding cnt bit_length_add by simp
  have abd: "absorb MD5Transform md5_iv (m @ d) = absorb MD5Transform (state ctx) (take hv (buffer ctx) @ d)"
    by (simp only: absorb_append [of MD5Transform md5_iv m d] ab split)
  have md: "length (m @ d) mod 64 = (hv + length d) mod 64"
    unfolding hv_def by (simp add: mod_add_left_eq)
  show ?thesis
  proof (cases "64 - hv \<le> length d")
    case False
    then have lt: "hv + length d < 64" by simp
    have "absorb MD5Transform (state ctx) (take hv (buffer ctx) @ d) = (state ctx, take hv (buffer ctx) @ d)"
      using lt buf hv by simp
    moreover have "take (hv + length d) (copy_in (buffer ctx) hv d (length d)) = take hv (buffer ctx) @ d"
      using take_copy_in [of hv "buffer ctx" "length d" d] buf hv by simp
    ultimately show ?thesis
      using False hv cnt' buf lt md abd by (auto simp: md5_update_def MD5Update_def md5_holds_def Let_def)
  next
    case True
    let ?need = "64 - hv"
    let ?b = "copy_in (buffer ctx) hv d ?need"
    define ctx1 where "ctx1 = (if hv \<noteq> 0
        then ctx\<lparr>count := word_of_nat (8 * length (m @ d)), buffer := ?b, state := MD5Transform (state ctx) ?b\<rparr>
        else ctx\<lparr>count := word_of_nat (8 * length (m @ d))\<rparr>)"
    define d1 where "d1 = (if hv \<noteq> 0 then drop ?need d else d)"
    have b: "?b = take hv (buffer ctx) @ take ?need d" "length ?b = 64"
      using True buf hv by (simp_all add: copy_in_def)
    have split: "take hv (buffer ctx) @ d = ?b @ drop ?need d"
      unfolding b(1) by simp
    have step: "absorb MD5Transform (state ctx) (take hv (buffer ctx) @ d) = absorb MD5Transform (state ctx1) d1"
    proof (cases "hv = 0")
      case False
      have "absorb MD5Transform (state ctx) (take hv (buffer ctx) @ d) =
          absorb MD5Transform (MD5Transform (state ctx) ?b) (drop ?need d)"
        unfolding split absorb_append [of _ _ ?b] absorb_one [OF b(2)] by simp
      then show ?thesis using False by (simp add: ctx1_def d1_def)
    qed (simp add: ctx1_def d1_def)
    obtain st rest where ab1: "absorb MD5Transform (state ctx1) d1 = (st, rest)" by fastforce
    have "length rest = length (m @ d) mod 64"
      using absorb_rest_length [of MD5Transform md5_iv "m @ d"] abd step ab1 by simp
    moreover have "length (buffer ctx1) = 64" "count ctx1 = word_of_nat (8 * length (m @ d))"
      using b(2) buf by (simp_all add: ctx1_def)
    moreover have "md5_update ctx d = (let ctx2 = ctx1\<lparr>state := st\<rparr> in
        if rest \<noteq> [] then ctx2\<lparr>buffer := copy_in (buffer ctx2) 0 rest (length rest)\<rparr> else ctx2)"
      using True hv cnt' ab1
      by (auto simp: md5_update_def MD5Update_def ctx1_def d1_def Let_def split: if_splits)
    ultimately show ?thesis
      using abd step ab1 by (auto simp: md5_holds_def Let_def copy_in_def)
  qed
qed

lemma MD5Pad_padding:
  assumes "md5_holds ctx m"
  shows "md5_holds (MD5Pad ctx) (m @ padding md5_len (length m))"
proof -
  define hv where "hv = length m mod 64"
  have c: "count ctx = word_of_nat (8 * length m)" using assms unfolding md5_holds_def by blast
  have hv: "hv < 64" "buffered (count ctx) = hv" unfolding c bytes_in_buffer by (simp_all add: hv_def)
  have cnt: "PUT_64BIT_LE (count ctx) = md5_len (length m)" unfolding c md5_len_def ..
  define n where "n = (if hv < 56 then 56 - hv else 120 - hv)"
  have upd: "MD5Update c (Some PADDING) n = md5_update c (take n PADDING)" for c
    by (rule MD5Update_take) (auto simp: n_def PADDING_def)
  have len8: "length (md5_len (length m)) = 8" by (simp add: md5_len_def PUT_64BIT_LE_def)
  have "MD5Pad ctx = MD5Update (MD5Update ctx (Some PADDING) n) (Some (md5_len (length m))) 8"
    using hv cnt by (auto simp: MD5Pad_def Let_def n_def)
  also have "\<dots> = md5_update (md5_update ctx (take n PADDING)) (md5_len (length m))"
    unfolding upd by (simp add: md5_update_def len8)
  finally have pad: "MD5Pad ctx = \<dots>" .
  have "take n PADDING = 0x80 # replicate (n - 1) 0"
    using hv(1) by (auto simp: PADDING_def n_def take_Cons' min_def)
  moreover have "padding md5_len (length m) = 0x80 # replicate (n - 1) 0 @ md5_len (length m)"
    using padding_short [of "length m" md5_len] padding_long [of "length m" md5_len]
    by (cases "hv < 56") (simp_all add: n_def hv_def)
  ultimately show ?thesis
    unfolding pad using md5_update_holds [OF md5_update_holds [OF assms], of "take n PADDING" "md5_len (length m)"] by simp
qed

interpretation md5: streaming_hash MD5Transform md5_iv md5_started md5_update "fst \<circ> MD5Final" md5_holds md5_len md5_out
proof
  show "md5_holds ctx []" if "md5_started ctx" for ctx
    using that by (simp add: md5_started_def md5_holds_def)
  show "md5_holds (md5_update ctx d) (m @ d)" if "md5_holds ctx m" for ctx m d
    by (rule md5_update_holds [OF that])
  show "(fst \<circ> MD5Final) ctx = md5_out (fst (absorb MD5Transform md5_iv (m @ padding md5_len (length m))))"
    if "md5_holds ctx m" for ctx m
    using MD5Pad_padding [OF that] by (simp add: md5_holds_def MD5Final_def md5_out_def Let_def)
qed

text \<open>
  C16. The MD5 digest of data given in any number of updates of any sizes is the hash of RFC 1321 of the concatenated
  data: blocks of 64 bytes of the padded message, absorbed by the textbook transformation.
\<close>
theorem md5_digest_correct:
  assumes "length (buffer ctx) = 64"
  shows "fst (MD5Final (foldl (\<lambda>c d. MD5Update c (Some d) (length d)) (MD5Init ctx) ds)) =
         md5_out (fst (absorb transform_rfc md5_iv (concat ds @ padding md5_len (length (concat ds)))))"
proof -
  have "md5_started (MD5Init ctx)" using assms by (simp add: md5_started_def MD5Init_def md5_iv_def)
  then have "fst (MD5Final (foldl md5_update (MD5Init ctx) ds)) =
      md5_out (fst (absorb transform_rfc md5_iv (concat ds @ padding md5_len (length (concat ds)))))"
    using md5.digest_of_updates [of "MD5Init ctx" ds] by (simp add: md5_transform_rfc)
  then show ?thesis by (simp only: md5_update_def [abs_def])
qed

text \<open>The test vector \<open>abc\<close> of RFC 1321.\<close>

lemma md5_abc:
  "md5_out (fst (absorb transform_rfc md5_iv ([0x61, 0x62, 0x63] @ padding md5_len 3))) =
   [0x90, 0x01, 0x50, 0x98, 0x3c, 0xd2, 0x4f, 0xb0, 0xd6, 0x96, 0x3f, 0x7d, 0x28, 0xe1, 0x7f, 0x72]"
  unfolding md5_transform_rfc [symmetric] by code_simp

theorem md5_digest_correct_witness:
  "fst (MD5Final (foldl (\<lambda>c d. MD5Update c (Some d) (length d))
          (MD5Init \<lparr>state = [], count = 0, buffer = replicate 64 0\<rparr>) [[0x61], [0x62, 0x63]])) =
   [0x90, 0x01, 0x50, 0x98, 0x3c, 0xd2, 0x4f, 0xb0, 0xd6, 0x96, 0x3f, 0x7d, 0x28, 0xe1, 0x7f, 0x72]"
  using md5_digest_correct [of "\<lparr>state = [], count = 0, buffer = replicate 64 0\<rparr>" "[[0x61], [0x62, 0x63]]"] md5_abc
  by (simp only: MD5Context.simps length_replicate concat.simps append.simps list.size) (simp add: numeral_eq_Suc)

end
