(* ===== verification/Sha256.thy ===== *)
theory Sha256
  imports Hash_Blocks
begin

text \<open>
  The SHA-256 implementation of \<^verbatim>\<open>libmicrohttpd/src/microhttpd/sha256.c\<close>. The compression function unrolls eight rounds
  and renames its variables instead of moving them: \<open>ROUND_0\<close> to \<open>ROUND_7\<close> are the eight invocations of the macro
  \<^verbatim>\<open>ROUND\<close>, each assigning to two of the variables \<open>A\<close> to \<open>H\<close>. The message schedule is computed in a
  circular buffer of 16 words. Both are proved equal to the description in FIPS 180-4.
\<close>

record sha256_ctx =
  state :: "u32 list"
  count :: u64
  block :: "byte list"
  index :: u32

section \<open>The compression function\<close>

definition K :: "u32 list" where
  "K = concat [
    [0x428a2f98, 0x71374491, 0xb5c0fbcf, 0xe9b5dba5],
    [0x3956c25b, 0x59f111f1, 0x923f82a4, 0xab1c5ed5],
    [0xd807aa98, 0x12835b01, 0x243185be, 0x550c7dc3],
    [0x72be5d74, 0x80deb1fe, 0x9bdc06a7, 0xc19bf174],
    [0xe49b69c1, 0xefbe4786, 0x0fc19dc6, 0x240ca1cc],
    [0x2de92c6f, 0x4a7484aa, 0x5cb0a9dc, 0x76f988da],
    [0x983e5152, 0xa831c66d, 0xb00327c8, 0xbf597fc7],
    [0xc6e00bf3, 0xd5a79147, 0x06ca6351, 0x14292967],
    [0x27b70a85, 0x2e1b2138, 0x4d2c6dfc, 0x53380d13],
    [0x650a7354, 0x766a0abb, 0x81c2c92e, 0x92722c85],
    [0xa2bfe8a1, 0xa81a664b, 0xc24b8b70, 0xc76c51a3],
    [0xd192e819, 0xd6990624, 0xf40e3585, 0x106aa070],
    [0x19a4c116, 0x1e376c08, 0x2748774c, 0x34b0bcb5],
    [0x391c0cb3, 0x4ed8aa4a, 0x5b9cca4f, 0x682e6ff3],
    [0x748f82ee, 0x78a5636f, 0x84c87814, 0x8cc70208],
    [0x90befffa, 0xa4506ceb, 0xbef9a3f7, 0xc67178f2]]"

definition Choice :: "u32 \<Rightarrow> u32 \<Rightarrow> u32 \<Rightarrow> u32" where
  "Choice x y z = z XOR (x AND (y XOR z))"

definition Majority :: "u32 \<Rightarrow> u32 \<Rightarrow> u32 \<Rightarrow> u32" where
  "Majority x y z = (x AND y) XOR (z AND (x XOR y))"

definition ROTL32 :: "nat \<Rightarrow> u32 \<Rightarrow> u32" where
  "ROTL32 n x = push_bit n x OR drop_bit (nat ((- int n) mod 32)) x"

definition S0 :: "u32 \<Rightarrow> u32" where
  "S0 x = ROTL32 30 x XOR ROTL32 19 x XOR ROTL32 10 x"

definition S1 :: "u32 \<Rightarrow> u32" where
  "S1 x = ROTL32 26 x XOR ROTL32 21 x XOR ROTL32 7 x"

definition s0 :: "u32 \<Rightarrow> u32" where
  "s0 x = ROTL32 25 x XOR ROTL32 14 x XOR drop_bit 3 x"

definition s1 :: "u32 \<Rightarrow> u32" where
  "s1 x = ROTL32 15 x XOR ROTL32 13 x XOR drop_bit 10 x"

text \<open>The macro stores into the buffer and yields the stored word.\<close>

definition EXPAND :: "u32 list \<Rightarrow> nat \<Rightarrow> u32 list \<times> u32" where
  "EXPAND W i =
     (let at = (\<lambda>j. W ! nat ((int i - j) mod 16));
          w = W ! (i mod 16) + (s1 (at 2) + at 7 + s0 (at 15))
      in (W[i mod 16 := w], w))"

text \<open>The macro updates its fourth and its eighth argument; these are the two results.\<close>

definition ROUND :: "u32 \<Rightarrow> u32 \<Rightarrow> u32 \<Rightarrow> u32 \<Rightarrow> u32 \<Rightarrow> u32 \<Rightarrow> u32 \<Rightarrow> u32 \<Rightarrow> u32 \<Rightarrow> u32 \<Rightarrow> u32 \<times> u32" where
  "ROUND a b c d e f g h k data =
     (let h = h + (S1 e + Choice e f g + k + data);
          d = d + h;
          h = h + (S0 a + Majority a b c)
      in (d, h))"

type_synonym vars = "u32 \<times> u32 \<times> u32 \<times> u32 \<times> u32 \<times> u32 \<times> u32 \<times> u32"

fun ROUND_0 :: "u32 \<Rightarrow> u32 \<Rightarrow> vars \<Rightarrow> vars" where
  "ROUND_0 k data (A, B, C, D, E, F, G, H) =
     (case ROUND A B C D E F G H k data of (D', H') \<Rightarrow> (A, B, C, D', E, F, G, H'))"

fun ROUND_1 :: "u32 \<Rightarrow> u32 \<Rightarrow> vars \<Rightarrow> vars" where
  "ROUND_1 k data (A, B, C, D, E, F, G, H) =
     (case ROUND H A B C D E F G k data of (C', G') \<Rightarrow> (A, B, C', D, E, F, G', H))"

fun ROUND_2 :: "u32 \<Rightarrow> u32 \<Rightarrow> vars \<Rightarrow> vars" where
  "ROUND_2 k data (A, B, C, D, E, F, G, H) =
     (case ROUND G H A B C D E F k data of (B', F') \<Rightarrow> (A, B', C, D, E, F', G, H))"

fun ROUND_3 :: "u32 \<Rightarrow> u32 \<Rightarrow> vars \<Rightarrow> vars" where
  "ROUND_3 k data (A, B, C, D, E, F, G, H) =
     (case ROUND F G H A B C D E k data of (A', E') \<Rightarrow> (A', B, C, D, E', F, G, H))"

fun ROUND_4 :: "u32 \<Rightarrow> u32 \<Rightarrow> vars \<Rightarrow> vars" where
  "ROUND_4 k data (A, B, C, D, E, F, G, H) =
     (case ROUND E F G H A B C D k data of (H', D') \<Rightarrow> (A, B, C, D', E, F, G, H'))"

fun ROUND_5 :: "u32 \<Rightarrow> u32 \<Rightarrow> vars \<Rightarrow> vars" where
  "ROUND_5 k data (A, B, C, D, E, F, G, H) =
     (case ROUND D E F G H A B C k data of (G', C') \<Rightarrow> (A, B, C', D, E, F, G', H))"

fun ROUND_6 :: "u32 \<Rightarrow> u32 \<Rightarrow> vars \<Rightarrow> vars" where
  "ROUND_6 k data (A, B, C, D, E, F, G, H) =
     (case ROUND C D E F G H A B k data of (F', B') \<Rightarrow> (A, B', C, D, E, F', G, H))"

fun ROUND_7 :: "u32 \<Rightarrow> u32 \<Rightarrow> vars \<Rightarrow> vars" where
  "ROUND_7 k data (A, B, C, D, E, F, G, H) =
     (case ROUND B C D E F G H A k data of (E', A') \<Rightarrow> (A', B, C, D, E', F, G, H))"

definition rounds8 :: "(u32 \<Rightarrow> u32 \<Rightarrow> vars \<Rightarrow> vars) list" where
  "rounds8 = [ROUND_0, ROUND_1, ROUND_2, ROUND_3, ROUND_4, ROUND_5, ROUND_6, ROUND_7]"

text \<open>One pass of the first loop, on the words \<open>i\<close> to \<open>i + 7\<close> of the data.\<close>

definition plain_pass :: "u32 list \<Rightarrow> u32 list \<Rightarrow> nat \<Rightarrow> vars \<Rightarrow> vars" where
  "plain_pass k data i v =
     foldl (\<lambda>v j. (rounds8 ! j) (k ! (i + j)) (data ! (i + j)) v) v [0..<8]"

text \<open>One pass of the second loop: 16 rounds, each preceded by the expansion of one word.\<close>

definition expand_pass :: "u32 list \<Rightarrow> nat \<Rightarrow> vars \<times> u32 list \<Rightarrow> vars \<times> u32 list" where
  "expand_pass k i vd =
     foldl (\<lambda>(v, data) j. case EXPAND data j of
              (data, w) \<Rightarrow> ((rounds8 ! (j mod 8)) (k ! (i + j)) w v, data)) vd [0..<16]"

definition READ_UINT32 :: "byte list \<Rightarrow> nat \<Rightarrow> u32" where
  "READ_UINT32 p i = push_bit 24 (ucast (p ! i)) OR push_bit 16 (ucast (p ! (i + 1)))
     OR push_bit 8 (ucast (p ! (i + 2))) OR ucast (p ! (i + 3))"

definition nettle_sha256_compress :: "u32 list \<Rightarrow> byte list \<Rightarrow> u32 list \<Rightarrow> u32 list" where
  "nettle_sha256_compress st input k =
     (let data = map (\<lambda>i. READ_UINT32 input (4 * i)) [0..<16];
          v = (st ! 0, st ! 1, st ! 2, st ! 3, st ! 4, st ! 5, st ! 6, st ! 7);
          v = plain_pass k data 8 (plain_pass k data 0 v);
          (v, data) = expand_pass k 48 (expand_pass k 32 (expand_pass k 16 (v, data)))
      in case v of (A, B, C, D, E, F, G, H) \<Rightarrow>
           [st ! 0 + A, st ! 1 + B, st ! 2 + C, st ! 3 + D, st ! 4 + E, st ! 5 + F, st ! 6 + G, st ! 7 + H])"

definition COMPRESS :: "u32 list \<Rightarrow> byte list \<Rightarrow> u32 list" where
  "COMPRESS st data = nettle_sha256_compress st data K"

section \<open>The operations\<close>

definition sha256_init :: "sha256_ctx \<Rightarrow> sha256_ctx" where
  "sha256_init ctx = ctx\<lparr>state := [0x6a09e667, 0xbb67ae85, 0x3c6ef372, 0xa54ff53a,
    0x510e527f, 0x9b05688c, 0x1f83d9ab, 0x5be0cd19], count := 0, index := 0\<rparr>"

text \<open>The loop over full blocks, which counts them.\<close>

definition counting :: "u32 list \<times> u64 \<Rightarrow> byte list \<Rightarrow> u32 list \<times> u64" where
  "counting sc blk = (COMPRESS (fst sc) blk, snd sc + 1)"

definition MD_UPDATE_rest :: "sha256_ctx \<Rightarrow> byte list \<Rightarrow> sha256_ctx" where
  "MD_UPDATE_rest ctx data =
     (case absorb counting (state ctx, count ctx) data of
        ((st, cnt), rest) \<Rightarrow>
          ctx\<lparr>state := st, count := cnt, block := copy_in (block ctx) 0 rest (length rest),
              index := word_of_nat (length rest)\<rparr>)"

definition sha256_update :: "sha256_ctx \<Rightarrow> byte list \<Rightarrow> nat \<Rightarrow> sha256_ctx" where
  "sha256_update ctx data len =
     (let data = take len data in
      if index ctx \<noteq> 0
      then (let md_left = 64 - unat (index ctx) in
            if len < md_left
            then ctx\<lparr>block := copy_in (block ctx) (unat (index ctx)) data len,
                     index := index ctx + word_of_nat len\<rparr>
            else (let blk = copy_in (block ctx) (unat (index ctx)) data md_left
                  in MD_UPDATE_rest (ctx\<lparr>block := blk, state := COMPRESS (state ctx) blk, count := count ctx + 1\<rparr>)
                       (drop md_left data)))
      else MD_UPDATE_rest ctx data)"

text \<open>\<open>None\<close> is a failed assertion.\<close>

definition MD_PAD :: "sha256_ctx \<Rightarrow> nat \<Rightarrow> sha256_ctx option" where
  "MD_PAD ctx sz =
     (let md_i = unat (index ctx) in
      if md_i < 64
      then (let blk = (block ctx)[md_i := 0x80]; md_i = md_i + 1;
                (st, blk, md_i) =
                  (if md_i > 64 - sz
                   then (let blk = clear_in blk md_i (64 - md_i) in (COMPRESS (state ctx) blk, blk, 0))
                   else (state ctx, blk, md_i))
            in Some (ctx\<lparr>state := st, block := clear_in blk md_i (64 - sz - md_i)\<rparr>))
      else None)"

definition WRITE_UINT32 :: "u32 \<Rightarrow> byte list" where
  "WRITE_UINT32 i = [ucast (drop_bit 24 i AND 0xff), ucast (drop_bit 16 i AND 0xff),
     ucast (drop_bit 8 i AND 0xff), ucast (i AND 0xff)]"

definition WRITE_UINT64 :: "u64 \<Rightarrow> byte list" where
  "WRITE_UINT64 i = [ucast (drop_bit 56 i AND 0xff), ucast (drop_bit 48 i AND 0xff),
     ucast (drop_bit 40 i AND 0xff), ucast (drop_bit 32 i AND 0xff), ucast (drop_bit 24 i AND 0xff),
     ucast (drop_bit 16 i AND 0xff), ucast (drop_bit 8 i AND 0xff), ucast (i AND 0xff)]"

definition nettle_write_be32 :: "nat \<Rightarrow> u32 list \<Rightarrow> byte list" where
  "nettle_write_be32 len src =
     (let words = len div 4; leftover = len mod 4; word = src ! words in
      concat (map (\<lambda>i. WRITE_UINT32 (src ! i)) [0..<words]) @
      (if leftover = 3 then [ucast (drop_bit 24 word AND 0xff), ucast (drop_bit 16 word AND 0xff),
                             ucast (drop_bit 8 word AND 0xff)]
       else if leftover = 2 then [ucast (drop_bit 24 word AND 0xff), ucast (drop_bit 16 word AND 0xff)]
       else if leftover = 1 then [ucast (drop_bit 24 word AND 0xff)]
       else []))"

definition sha256_write_digest :: "sha256_ctx \<Rightarrow> nat \<Rightarrow> (byte list \<times> sha256_ctx) option" where
  "sha256_write_digest ctx len =
     (if len \<le> 32
      then (case MD_PAD ctx 8 of
              None \<Rightarrow> None
            | Some ctx \<Rightarrow>
                (let bit_count = push_bit 9 (count ctx) OR ucast (push_bit 3 (index ctx));
                     blk = copy_in (block ctx) (64 - 8) (WRITE_UINT64 bit_count) 8;
                     ctx = ctx\<lparr>block := blk, state := COMPRESS (state ctx) blk\<rparr>
                 in Some (nettle_write_be32 len (state ctx), ctx)))
      else None)"

definition sha256_digest :: "sha256_ctx \<Rightarrow> (byte list \<times> sha256_ctx) option" where
  "sha256_digest ctx =
     (case sha256_write_digest ctx 32 of
        None \<Rightarrow> None
      | Some (digest, ctx) \<Rightarrow> Some (digest, sha256_init ctx))"

section \<open>FIPS 180-4\<close>

text \<open>The standard uses rotations to the right, a schedule of 64 words and rounds that move all variables.\<close>

definition rotr32 :: "nat \<Rightarrow> u32 \<Rightarrow> u32" where
  "rotr32 n x = drop_bit n x OR push_bit (32 - n) x"

definition Sigma0 :: "u32 \<Rightarrow> u32" where
  "Sigma0 x = rotr32 2 x XOR rotr32 13 x XOR rotr32 22 x"

definition Sigma1 :: "u32 \<Rightarrow> u32" where
  "Sigma1 x = rotr32 6 x XOR rotr32 11 x XOR rotr32 25 x"

definition sigma0 :: "u32 \<Rightarrow> u32" where
  "sigma0 x = rotr32 7 x XOR rotr32 18 x XOR drop_bit 3 x"

definition sigma1 :: "u32 \<Rightarrow> u32" where
  "sigma1 x = rotr32 17 x XOR rotr32 19 x XOR drop_bit 10 x"

fun W :: "u32 list \<Rightarrow> nat \<Rightarrow> u32" where
  "W M t = (if t < 16 then M ! t
            else sigma1 (W M (t - 2)) + W M (t - 7) + sigma0 (W M (t - 15)) + W M (t - 16))"

declare W.simps [simp del]

fun fips_round :: "u32 \<Rightarrow> u32 \<Rightarrow> vars \<Rightarrow> vars" where
  "fips_round k w (a, b, c, d, e, f, g, h) =
     (let T1 = h + Sigma1 e + ((e AND f) XOR (NOT e AND g)) + k + w;
          T2 = Sigma0 a + ((a AND b) XOR (a AND c) XOR (b AND c))
      in (T1 + T2, a, b, c, d + T1, e, f, g))"

definition compress_fips :: "u32 list \<Rightarrow> byte list \<Rightarrow> u32 list" where
  "compress_fips st input =
     (let M = map (\<lambda>i. READ_UINT32 input (4 * i)) [0..<16] in
      case foldl (\<lambda>v t. fips_round (K ! t) (W M t) v)
             (st ! 0, st ! 1, st ! 2, st ! 3, st ! 4, st ! 5, st ! 6, st ! 7) [0..<64] of
        (A, B, C, D, E, F, G, H) \<Rightarrow>
          [st ! 0 + A, st ! 1 + B, st ! 2 + C, st ! 3 + D, st ! 4 + E, st ! 5 + F, st ! 6 + G, st ! 7 + H])"

lemma Choice_fips: "Choice x y z = (x AND y) XOR (NOT x AND z)"
  by (rule bit_word_eqI) (auto simp: Choice_def bit_simps)

lemma Majority_fips: "Majority x y z = (x AND y) XOR (x AND z) XOR (y AND z)"
  by (rule bit_word_eqI) (auto simp: Majority_def bit_simps)

lemma Sigma_fips: "S0 = Sigma0" "S1 = Sigma1" "s0 = sigma0" "s1 = sigma1"
  by (simp_all add: fun_eq_iff S0_def S1_def s0_def s1_def Sigma0_def Sigma1_def sigma0_def sigma1_def
      ROTL32_def rotr32_def or.commute)

fun rot :: "vars \<Rightarrow> vars" where
  "rot (A, B, C, D, E, F, G, H) = (H, A, B, C, D, E, F, G)"

lemma rot8: "(rot ^^ 8) v = v"
  by (cases v rule: rot.cases) (simp add: numeral_eq_Suc)

lemma rot_mod8: "rot ^^ n = rot ^^ (n mod 8)"
proof -
  have 8: "rot ^^ 8 = id" by (intro ext) (simp only: rot8 id_apply)
  have "rot ^^ n = rot ^^ (n mod 8 + 8 * (n div 8))" by simp
  also have "\<dots> = (rot ^^ (n mod 8)) \<circ> ((rot ^^ 8) ^^ (n div 8))"
    by (simp only: funpow_add funpow_mult)
  finally show ?thesis by (simp add: 8)
qed

lemma ROUND_fips:
  "ROUND a b c d e f g h k w =
     (let T1 = h + Sigma1 e + ((e AND f) XOR (NOT e AND g)) + k + w;
          T2 = Sigma0 a + ((a AND b) XOR (a AND c) XOR (b AND c)) in (d + T1, T1 + T2))"
  by (simp add: ROUND_def Let_def Sigma_fips Choice_fips Majority_fips ac_simps)

lemma round_rot8: "j < 8 \<Longrightarrow> (rot ^^ Suc j) ((rounds8 ! j) k w v) = fips_round k w ((rot ^^ j) v)"
proof -
  assume "j < 8"
  then have "j = 0 \<or> j = 1 \<or> j = 2 \<or> j = 3 \<or> j = 4 \<or> j = 5 \<or> j = 6 \<or> j = 7" by auto
  then show ?thesis
    by (cases v) (auto simp: rounds8_def ROUND_fips Let_def numeral_eq_Suc)
qed

lemma round_rot: "(rot ^^ Suc j) ((rounds8 ! (j mod 8)) k w v) = fips_round k w ((rot ^^ j) v)"
proof -
  have "(rot ^^ Suc j) = (rot ^^ Suc (j mod 8))"
    using rot_mod8 [of "Suc j"] rot_mod8 [of "Suc (j mod 8)"] by (simp add: mod_Suc_eq)
  then show ?thesis using round_rot8 [of "j mod 8" k w v] rot_mod8 [of j] by simp
qed

lemma foldl_upt_Suc: "i \<le> j \<Longrightarrow> foldl f v [i..<Suc j] = f (foldl f v [i..<j]) j"
  by simp

lemma plain_rounds:
  assumes "n \<le> 8"
  shows "(rot ^^ n) (foldl (\<lambda>v j. (rounds8 ! j) (k ! (i + j)) (data ! (i + j)) v) v [0..<n]) =
         foldl (\<lambda>v t. fips_round (k ! t) (data ! t) v) v [i..<i + n]"
  using assms
proof (induction n)
  case (Suc n)
  then show ?case using round_rot8 [of n] by (simp del: funpow.simps)
qed simp

lemma plain_pass_fips: "plain_pass k data i v = foldl (\<lambda>v t. fips_round (k ! t) (data ! t) v) v [i..<i + 8]"
  using plain_rounds [of 8 k i data v] unfolding plain_pass_def rot8 by simp

text \<open>The circular buffer holds the last 16 words of the schedule before word \<open>t\<close>.\<close>

definition ring :: "u32 list \<Rightarrow> nat \<Rightarrow> u32 list \<Rightarrow> bool" where
  "ring M t data \<longleftrightarrow> length data = 16 \<and> (\<forall>u. t - 16 \<le> u \<and> u < t \<longrightarrow> data ! (u mod 16) = W M u)"

lemma ring_index:
  assumes "16 \<le> t" "t mod 16 = j" "s \<le> 15"
  shows "nat ((int j - int s) mod 16) = (t - s) mod 16"
proof -
  have "(int j - int s) mod 16 = int (t - s) mod 16"
    using assms by (simp add: of_nat_diff zmod_int flip: assms(2)) (simp add: mod_diff_left_eq)
  also have "\<dots> = int ((t - s) mod 16)" by (simp add: zmod_int)
  finally show ?thesis by (simp only: nat_int)
qed

lemma expand_ring:
  assumes "ring M t data" "16 \<le> t" "t mod 16 = j"
  shows "EXPAND data j = (data[j := W M t], W M t) \<and> ring M (Suc t) (data[j := W M t])"
proof -
  have at: "data ! (u mod 16) = W M u" if "t - 16 \<le> u" "u < t" for u
    using assms(1) that by (simp add: ring_def)
  have j: "j < 16" using assms(3) by auto
  have old: "data ! j = W M (t - 16)"
    using at [of "t - 16"] assms(2,3) by (simp add: mod_diff_eq le_mod_geq flip: assms(3))
  have prev: "data ! nat ((int j - int s) mod 16) = W M (t - s)" if "0 < s" "s \<le> 15" for s
    using ring_index [OF assms(2,3) that(2)] at [of "t - s"] assms(2) that by simp
  have "W M t = sigma1 (W M (t - 2)) + W M (t - 7) + sigma0 (W M (t - 15)) + W M (t - 16)"
    using assms(2) by (simp add: W.simps [of M t])
  then have "EXPAND data j = (data[j := W M t], W M t)"
    using j old prev [of 2] prev [of 7] prev [of 15] by (simp add: EXPAND_def Let_def Sigma_fips ac_simps)
  moreover have "ring M (Suc t) (data[j := W M t])"
  proof -
    have "data[j := W M t] ! (u mod 16) = W M u" if u: "Suc t - 16 \<le> u" "u < Suc t" for u
    proof (cases "u = t")
      case True
      then show ?thesis using assms(1,3) j by (simp add: ring_def)
    next
      case False
      then have "0 < t - u" "t - u < 16" using u assms(2) by auto
      then have "\<not> 16 dvd t - u" by (auto dest: dvd_imp_le)
      then have "u mod 16 \<noteq> j" using mod_eq_dvd_iff_nat [of u t 16] u(2) assms(3) by auto
      then show ?thesis using at [of u] u False by simp
    qed
    then show ?thesis using assms(1) by (simp add: ring_def)
  qed
  ultimately show ?thesis by blast
qed

lemma expand_rounds:
  assumes "ring M i data" "16 \<le> i" "i mod 16 = 0" "n \<le> 16"
  shows "\<exists>v' data'. foldl (\<lambda>(v, data) j. case EXPAND data j of
              (data, w) \<Rightarrow> ((rounds8 ! (j mod 8)) (k ! (i + j)) w v, data)) (v, data) [0..<n] = (v', data')
          \<and> (rot ^^ n) v' = foldl (\<lambda>v t. fips_round (k ! t) (W M t) v) v [i..<i + n] \<and> ring M (i + n) data'"
  using assms(4)
proof (induction n)
  case (Suc n)
  then obtain v' data' where IH: "foldl (\<lambda>(v, data) j. case EXPAND data j of
              (data, w) \<Rightarrow> ((rounds8 ! (j mod 8)) (k ! (i + j)) w v, data)) (v, data) [0..<n] = (v', data')"
    "(rot ^^ n) v' = foldl (\<lambda>v t. fips_round (k ! t) (W M t) v) v [i..<i + n]" "ring M (i + n) data'" by auto
  have "(i + n) mod 16 = n" using assms(3) Suc.prems by (simp add: mod_add_eq [symmetric])
  from expand_ring [OF IH(3) _ this] assms(2) round_rot [of n "k ! (i + n)" "W M (i + n)" v'] IH
  show ?case by (simp del: funpow.simps)
qed (use assms(1) in simp)

lemma rot16: "(rot ^^ 16) v = v"
  using rot_mod8 [of 16] by simp

lemma expand_pass_fips:
  assumes "ring M i data" "16 \<le> i" "i mod 16 = 0"
  shows "fst (expand_pass k i (v, data)) = foldl (\<lambda>v t. fips_round (k ! t) (W M t) v) v [i..<i + 16]"
    and "ring M (i + 16) (snd (expand_pass k i (v, data)))"
  using expand_rounds [OF assms, of 16 k v] unfolding expand_pass_def rot16 by auto

lemma foldl_upt_join: "i \<le> j \<Longrightarrow> j \<le> l \<Longrightarrow> foldl f (foldl f v [i..<j]) [j..<l] = foldl f v [i..<l]"
  using upt_add_eq_append [of i j "l - j"] by (simp flip: foldl_append)

lemma expand_chain:
  assumes "fst x = foldl (\<lambda>v t. fips_round (k ! t) (W M t) v) v [0..<i]" "ring M i (snd x)" "16 \<le> i" "i mod 16 = 0"
  shows "fst (expand_pass k i x) = foldl (\<lambda>v t. fips_round (k ! t) (W M t) v) v [0..<i + 16]
       \<and> ring M (i + 16) (snd (expand_pass k i x))"
proof (cases x)
  case (Pair w data)
  then show ?thesis
    using expand_pass_fips [OF assms(2-4), of k w] assms(1)
      foldl_upt_join [of 0 i "i + 16" "\<lambda>v t. fips_round (k ! t) (W M t) v" v] by simp
qed

lemma plain_chain:
  "plain_pass k data 8 (plain_pass k data 0 v) = foldl (\<lambda>v t. fips_round (k ! t) (data ! t) v) v [0..<16]"
  using foldl_upt_join [of 0 8 16 "\<lambda>v t. fips_round (k ! t) (data ! t) v" v]
  unfolding plain_pass_fips by (simp only: numeral_plus_numeral add_0) simp

lemma compress_is_fips: "COMPRESS st input = compress_fips st input"
proof -
  define M where "M = map (\<lambda>i. READ_UINT32 input (4 * i)) [0..<16]"
  define v where "v = (st ! 0, st ! 1, st ! 2, st ! 3, st ! 4, st ! 5, st ! 6, st ! 7)"
  let ?f = "\<lambda>v t. fips_round (K ! t) (W M t) v"
  have W16: "M ! t = W M t" if "t < 16" for t using that by (simp add: W.simps)
  have "foldl (\<lambda>v t. fips_round (K ! t) (M ! t) v) v [0..<16] = foldl ?f v [0..<16]"
    by (rule foldl_cong) (simp_all add: W16)
  then have p: "plain_pass K M 8 (plain_pass K M 0 v) = foldl ?f v [0..<16]" by (simp only: plain_chain)
  have r0: "ring M 16 M" by (simp add: ring_def M_def W.simps)
  define x0 where "x0 = (foldl ?f v [0..<16], M)"
  define x1 where "x1 = expand_pass K 16 x0"
  define x2 where "x2 = expand_pass K 32 x1"
  have r1: "fst x1 = foldl ?f v [0..<32]" "ring M 32 (snd x1)"
    using expand_chain [of x0 K M v 16] r0 by (simp_all add: x1_def x0_def)
  have r2: "fst x2 = foldl ?f v [0..<48]" "ring M 48 (snd x2)"
    using expand_chain [OF r1] by (simp_all add: x2_def)
  have r3: "fst (expand_pass K 48 x2) = foldl ?f v [0..<64]"
    using expand_chain [OF r2] by simp
  show ?thesis
    unfolding COMPRESS_def nettle_sha256_compress_def compress_fips_def Let_def M_def [symmetric] v_def [symmetric]
      p x0_def [symmetric] x1_def [symmetric] x2_def [symmetric] r3 [symmetric]
    by (simp add: split_beta)
qed

section \<open>The streaming contract\<close>

definition sha256_iv :: "u32 list" where
  "sha256_iv = [0x6a09e667, 0xbb67ae85, 0x3c6ef372, 0xa54ff53a,
    0x510e527f, 0x9b05688c, 0x1f83d9ab, 0x5be0cd19]"

definition sha256_holds :: "sha256_ctx \<Rightarrow> byte list \<Rightarrow> bool" where
  "sha256_holds ctx m \<longleftrightarrow> length (block ctx) = 64 \<and> index ctx = word_of_nat (length m mod 64)
     \<and> count ctx = word_of_nat (length m div 64)
     \<and> absorb COMPRESS sha256_iv m = (state ctx, take (length m mod 64) (block ctx))"

definition sha256_started :: "sha256_ctx \<Rightarrow> bool" where
  "sha256_started ctx \<longleftrightarrow> length (block ctx) = 64 \<and> index ctx = 0 \<and> count ctx = 0 \<and> state ctx = sha256_iv"

definition sha256_add :: "sha256_ctx \<Rightarrow> byte list \<Rightarrow> sha256_ctx" where
  "sha256_add ctx d = sha256_update ctx d (length d)"

definition sha256_len :: "nat \<Rightarrow> byte list" where
  "sha256_len n = WRITE_UINT64 (word_of_nat (8 * n))"

definition sha256_out :: "u32 list \<Rightarrow> byte list" where
  "sha256_out st = concat (map (\<lambda>i. WRITE_UINT32 (st ! i)) [0..<8])"

lemma absorb_counting:
  "absorb counting (st, c) m =
     (case absorb COMPRESS st m of (st', r) \<Rightarrow> ((st', c + word_of_nat (length m div 64)), r))"
proof (induction COMPRESS st m arbitrary: c rule: absorb.induct)
  case (1 st m)
  show ?case
  proof (cases "64 \<le> length m")
    case True
    have "length m div 64 = Suc ((length m - 64) div 64)" using True by (simp add: le_div_geq)
    then show ?thesis
      using True 1 [OF True, of "c + 1"] by (simp add: absorb_block counting_def split_beta)
  qed simp
qed

lemma update_rest_holds:
  assumes "length (block ctx) = 64"
    and "absorb COMPRESS sha256_iv m = (state ctx, [])" "count ctx = word_of_nat (length m div 64)"
  shows "sha256_holds (MD_UPDATE_rest ctx d) (m @ d)"
proof -
  have m0: "length m mod 64 = 0" using absorb_rest_length [of COMPRESS sha256_iv m] assms(2) by simp
  obtain st r where ab: "absorb COMPRESS (state ctx) d = (st, r)" by fastforce
  have abm: "absorb COMPRESS sha256_iv (m @ d) = (st, r)"
    by (simp only: absorb_append [of COMPRESS sha256_iv m d] assms(2) split append_Nil ab)
  have r: "length r = length (m @ d) mod 64"
    using absorb_rest_length [of COMPRESS sha256_iv "m @ d"] abm by simp
  then have "length r \<le> 64" by simp
  moreover have "length (m @ d) div 64 = length m div 64 + length d div 64"
    using m0 by (simp add: div_plus_div_distrib_dvd_left mod_0_imp_dvd)
  ultimately show ?thesis
    using r abm ab assms(1,3)
    by (auto simp: sha256_holds_def MD_UPDATE_rest_def absorb_counting copy_in_def)
qed

lemma unat_index: "n < 64 \<Longrightarrow> unat (word_of_nat n :: u32) = n"
  by (simp add: unat_of_nat)

lemma sha256_add_holds:
  assumes "sha256_holds ctx m"
  shows "sha256_holds (sha256_add ctx d) (m @ d)"
proof -
  define hv where "hv = length m mod 64"
  have blk: "length (block ctx) = 64" and idx: "index ctx = word_of_nat hv" and cnt: "count ctx = word_of_nat (length m div 64)"
    and ab: "absorb COMPRESS sha256_iv m = (state ctx, take hv (block ctx))"
    using assms by (simp_all add: sha256_holds_def hv_def)
  have hv: "hv < 64" "unat (index ctx) = hv" by (simp_all add: hv_def idx unat_index)
  have idx0: "index ctx = 0 \<longleftrightarrow> hv = 0" using hv(2) by (metis unat_eq_zero)
  show ?thesis
  proof (cases "hv = 0")
    case True
    then show ?thesis
      using update_rest_holds [OF blk _ cnt, of d] ab idx0 by (simp add: sha256_add_def sha256_update_def)
  next
    case nz: False
    show ?thesis
    proof (cases "length d < 64 - hv")
      case True
      then have lt: "hv + length d < 64" by simp
      define q where "q = length m div 64"
      have e: "length (m @ d) = 64 * q + (hv + length d)" unfolding hv_def q_def by simp
      have dm: "length (m @ d) mod 64 = hv + length d" "length (m @ d) div 64 = length m div 64"
        unfolding e q_def [symmetric] using lt by simp_all
      have "absorb COMPRESS sha256_iv (m @ d) = absorb COMPRESS (state ctx) (take hv (block ctx) @ d)"
        by (simp only: absorb_append [of COMPRESS sha256_iv m d] ab split)
      also have "\<dots> = (state ctx, take hv (block ctx) @ d)" using lt blk by simp
      finally show ?thesis
        using True nz hv idx idx0 blk cnt dm take_copy_in [of hv "block ctx" "length d" d]
        by (auto simp: sha256_add_def sha256_update_def sha256_holds_def)
    next
      case False
      let ?left = "64 - hv"
      let ?b = "copy_in (block ctx) hv d ?left"
      have b: "?b = take hv (block ctx) @ take ?left d" "length ?b = 64"
        using False blk hv(1) by (simp_all add: copy_in_def)
      have m1: "absorb COMPRESS sha256_iv (m @ take ?left d) = (COMPRESS (state ctx) ?b, [])"
        using absorb_one [OF b(2), of COMPRESS "state ctx"]
        by (simp only: absorb_append [of COMPRESS sha256_iv m] ab split b(1))
      have "length (m @ take ?left d) = length m + (64 - hv)" using False by (simp add: min_absorb2)
      also have "\<dots> = 64 * (length m div 64) + hv + (64 - hv)" unfolding hv_def by simp
      also have "\<dots> = 64 * (length m div 64) + 64" using hv(1) by simp
      finally have "length (m @ take ?left d) = 64 * (length m div 64) + 64" .
      then have cnt1: "count ctx + 1 = word_of_nat (length (m @ take ?left d) div 64)" by (simp add: cnt)
      have "sha256_add ctx d = MD_UPDATE_rest
          (ctx\<lparr>block := ?b, state := COMPRESS (state ctx) ?b, count := count ctx + 1\<rparr>) (drop ?left d)"
        using nz idx0 False hv(2) by (simp add: sha256_add_def sha256_update_def Let_def)
      then show ?thesis
        using update_rest_holds [of "ctx\<lparr>block := ?b, state := COMPRESS (state ctx) ?b, count := count ctx + 1\<rparr>"
            "m @ take ?left d" "drop ?left d"] b(2) m1 cnt1 by simp
    qed
  qed
qed

lemma bit_count_ok:
  assumes "hv < 64"
  shows "push_bit 9 (word_of_nat q :: u64) OR ucast (push_bit 3 (word_of_nat hv :: u32)) = word_of_nat (8 * (64 * q + hv))"
proof -
  have "unat (push_bit 3 (word_of_nat hv :: u32)) = 8 * hv"
    using assms by (simp add: push_bit_eq_mult unat_of_nat unat_word_ariths)
  then have u: "ucast (push_bit 3 (word_of_nat hv :: u32)) = (word_of_nat (8 * hv) :: u64)"
    using assms by (simp add: word_unat_eq_iff unsigned_ucast_eq unat_of_nat take_bit_nat_eq_self del: of_nat_mult)
  have "take_bit 9 (word_of_nat (8 * hv) :: u64) = word_of_nat (8 * hv)"
    using assms by (simp add: take_bit_of_nat take_bit_nat_eq_self flip: of_nat_mult)
  then have "push_bit 9 (word_of_nat q :: u64) AND word_of_nat (8 * hv) =
      push_bit 9 (word_of_nat q) AND take_bit 9 (word_of_nat (8 * hv))" by (simp only:)
  also have "\<dots> = 0" by (rule bit_word_eqI) (auto simp: bit_simps)
  finally have "push_bit 9 (word_of_nat q :: u64) OR word_of_nat (8 * hv) = push_bit 9 (word_of_nat q) + word_of_nat (8 * hv)"
    by (rule disjunctive_add_eq_or [symmetric])
  then show ?thesis unfolding u by (simp add: push_bit_eq_mult algebra_simps)
qed

lemma digest_words: "nettle_write_be32 32 st = sha256_out st"
  by (simp add: nettle_write_be32_def sha256_out_def)

lemma finish_short:
  assumes "length blk = 64" "hv < 56" "length l = 8"
  shows "copy_in (clear_in (blk[hv := 0x80]) (hv + 1) (56 - (hv + 1))) 56 l 8 =
         take hv blk @ 0x80 # replicate (55 - hv) 0 @ l"
proof -
  have "56 - hv = Suc (55 - hv)" using assms(2) by simp
  then show ?thesis using assms by (simp add: clear_in_def copy_in_def upd_conv_take_nth_drop)
qed

lemma finish_long:
  assumes "length blk = 64" "56 \<le> hv" "hv < 64"
  shows "clear_in (blk[hv := 0x80]) (hv + 1) (64 - (hv + 1)) = take hv blk @ 0x80 # replicate (63 - hv) 0"
  using assms by (simp add: clear_in_def copy_in_def upd_conv_take_nth_drop)

lemma finish_second:
  "length blk = 64 \<Longrightarrow> length l = 8 \<Longrightarrow> copy_in (clear_in blk 0 56) 56 l 8 = replicate 56 0 @ l"
  by (simp add: clear_in_def copy_in_def)

lemma finish_holds:
  assumes "sha256_holds ctx m"
  shows "map_option fst (sha256_digest ctx) =
         Some (sha256_out (fst (absorb COMPRESS sha256_iv (m @ padding sha256_len (length m)))))"
proof -
  define hv where "hv = length m mod 64"
  let ?l = "sha256_len (length m)"
  have blk: "length (block ctx) = 64" and idx: "index ctx = word_of_nat hv" and cnt: "count ctx = word_of_nat (length m div 64)"
    and ab: "absorb COMPRESS sha256_iv m = (state ctx, take hv (block ctx))"
    using assms by (simp_all add: sha256_holds_def hv_def)
  have hv: "hv < 64" "unat (index ctx) = hv" by (simp_all add: hv_def idx unat_index)
  have "64 * (length m div 64) + hv = length m" unfolding hv_def by simp
  then have bc: "WRITE_UINT64 (push_bit 9 (count ctx) OR ucast (push_bit 3 (index ctx))) = ?l"
    using bit_count_ok [OF hv(1), of "length m div 64"] unfolding cnt idx sha256_len_def by (simp only:)
  have l8: "length ?l = 8" by (simp add: sha256_len_def WRITE_UINT64_def)
  have abm: "absorb COMPRESS sha256_iv (m @ x) = absorb COMPRESS (state ctx) (take hv (block ctx) @ x)" for x
    by (simp only: absorb_append [of COMPRESS sha256_iv m x] ab split)
  show ?thesis
  proof (cases "hv < 56")
    case True
    let ?b = "take hv (block ctx) @ 0x80 # replicate (55 - hv) 0 @ ?l"
    have "length ?b = 64" using True blk l8 by simp
    moreover have "map_option fst (sha256_digest ctx) = Some (sha256_out (COMPRESS (state ctx) ?b))"
      using True hv bc finish_short [OF blk True l8]
      by (simp add: sha256_digest_def sha256_write_digest_def MD_PAD_def Let_def digest_words)
    moreover have "padding sha256_len (length m) = 0x80 # replicate (55 - hv) 0 @ ?l"
      using padding_short [of "length m" sha256_len] True by (simp add: hv_def)
    ultimately show ?thesis unfolding abm by (simp add: absorb_one)
  next
    case False
    let ?b = "take hv (block ctx) @ 0x80 # replicate (63 - hv) 0" and ?c = "replicate 56 0 @ ?l"
    have len: "length ?b = 64" "length ?c = 64" using False hv(1) blk l8 by simp_all
    have "map_option fst (sha256_digest ctx) = Some (sha256_out (COMPRESS (COMPRESS (state ctx) ?b) ?c))"
      using False hv bc finish_long [OF blk _ hv(1)] finish_second [OF len(1) l8]
      by (simp add: sha256_digest_def sha256_write_digest_def MD_PAD_def Let_def digest_words)
    moreover have "replicate (119 - hv) 0 = replicate (63 - hv) 0 @ replicate 56 (0 :: byte)"
      using hv(1) by (simp flip: replicate_add)
    then have "padding sha256_len (length m) = (0x80 # replicate (63 - hv) 0) @ ?c"
      using padding_long [of "length m" sha256_len] False by (simp add: hv_def)
    then have "take hv (block ctx) @ padding sha256_len (length m) = ?b @ ?c" by (simp only: append_assoc)
    ultimately show ?thesis unfolding abm using absorb_blocks [OF len, of COMPRESS "state ctx"] by (simp only: fst_conv)
  qed
qed

interpretation sha256: streaming_hash COMPRESS sha256_iv sha256_started sha256_add
    "map_option fst \<circ> sha256_digest" sha256_holds sha256_len "Some \<circ> sha256_out"
proof
  show "sha256_holds ctx []" if "sha256_started ctx" for ctx
    using that by (simp add: sha256_started_def sha256_holds_def)
  show "sha256_holds (sha256_add ctx d) (m @ d)" if "sha256_holds ctx m" for ctx m d
    by (rule sha256_add_holds [OF that])
  show "(map_option fst \<circ> sha256_digest) ctx =
      (Some \<circ> sha256_out) (fst (absorb COMPRESS sha256_iv (m @ padding sha256_len (length m))))"
    if "sha256_holds ctx m" for ctx m
    using finish_holds [OF that] by simp
qed

text \<open>
  C15. The SHA-256 digest of data given in any number of updates of any sizes is the hash of FIPS 180-4 of the
  concatenated data, and the assertions of the implementation never fail.
\<close>
theorem sha256_digest_correct:
  assumes "length (block ctx) = 64"
  shows "map_option fst (sha256_digest (foldl (\<lambda>c d. sha256_update c d (length d)) (sha256_init ctx) ds)) =
         Some (sha256_out (fst (absorb compress_fips sha256_iv (concat ds @ padding sha256_len (length (concat ds))))))"
proof -
  have "sha256_started (sha256_init ctx)" using assms by (simp add: sha256_started_def sha256_init_def sha256_iv_def)
  moreover have "COMPRESS = compress_fips" by (intro ext) (rule compress_is_fips)
  ultimately have "map_option fst (sha256_digest (foldl sha256_add (sha256_init ctx) ds)) =
      Some (sha256_out (fst (absorb compress_fips sha256_iv (concat ds @ padding sha256_len (length (concat ds))))))"
    using sha256.digest_of_updates [of "sha256_init ctx" ds] by simp
  then show ?thesis by (simp only: sha256_add_def [abs_def])
qed

text \<open>The test vector \<open>abc\<close> of FIPS 180-4.\<close>

lemma sha256_abc:
  "sha256_out (fst (absorb COMPRESS sha256_iv ([0x61, 0x62, 0x63] @ padding sha256_len 3))) =
   [0xba, 0x78, 0x16, 0xbf, 0x8f, 0x01, 0xcf, 0xea, 0x41, 0x41, 0x40, 0xde, 0x5d, 0xae, 0x22, 0x23,
    0xb0, 0x03, 0x61, 0xa3, 0x96, 0x17, 0x7a, 0x9c, 0xb4, 0x10, 0xff, 0x61, 0xf2, 0x00, 0x15, 0xad]"
  by code_simp

theorem sha256_digest_correct_witness:
  "map_option fst (sha256_digest (foldl (\<lambda>c d. sha256_update c d (length d))
          (sha256_init \<lparr>state = [], count = 0, block = replicate 64 0, index = 0\<rparr>) [[0x61], [0x62, 0x63]])) =
   Some [0xba, 0x78, 0x16, 0xbf, 0x8f, 0x01, 0xcf, 0xea, 0x41, 0x41, 0x40, 0xde, 0x5d, 0xae, 0x22, 0x23,
    0xb0, 0x03, 0x61, 0xa3, 0x96, 0x17, 0x7a, 0x9c, 0xb4, 0x10, 0xff, 0x61, 0xf2, 0x00, 0x15, 0xad]"
proof -
  have "COMPRESS = compress_fips" by (intro ext) (rule compress_is_fips)
  then show ?thesis
    using sha256_digest_correct [of "\<lparr>state = [], count = 0, block = replicate 64 0, index = 0\<rparr>" "[[0x61], [0x62, 0x63]]"] sha256_abc
    by (simp only: sha256_ctx.simps length_replicate concat.simps append.simps list.size) (simp add: numeral_eq_Suc)
qed

end
