(* ===== verification/Reason_Phrase.thy ===== *)
theory Reason_Phrase
  imports Prelude
begin

text \<open>
  The reason phrases of \<^verbatim>\<open>libmicrohttpd/src/microhttpd/reason_phrase.c\<close>. A table entry is \<open>None\<close> for a null
  pointer. The result of the lookup is \<open>None\<close> if it would be a null pointer or an access behind a table.
\<close>

definition invalid_hundred :: "string option list" where
  "invalid_hundred = [None]"

definition one_hundred :: "string option list" where
  "one_hundred = [Some ''Continue'', Some ''Switching Protocols'', Some ''Processing'']"

definition two_hundred :: "string option list" where
  "two_hundred = [Some ''OK'', Some ''Created'', Some ''Accepted'', Some ''Non-Authoritative Information'',
     Some ''No Content'', Some ''Reset Content'', Some ''Partial Content'', Some ''Multi-Status'',
     Some ''Already Reported'', Some ''Unknown'', Some ''Unknown'', Some ''Unknown'',
     Some ''Unknown'', Some ''Unknown'', Some ''Unknown'', Some ''Unknown'',
     Some ''Unknown'', Some ''Unknown'', Some ''Unknown'', Some ''Unknown'',
     Some ''Unknown'', Some ''Unknown'', Some ''Unknown'', Some ''Unknown'',
     Some ''Unknown'', Some ''Unknown'', Some ''IM Used'']"

definition three_hundred :: "string option list" where
  "three_hundred = [Some ''Multiple Choices'', Some ''Moved Permanently'', Some ''Found'', Some ''See Other'',
     Some ''Not Modified'', Some ''Use Proxy'', Some ''Switch Proxy'', Some ''Temporary Redirect'',
     Some ''Permanent Redirect'']"

definition four_hundred :: "string option list" where
  "four_hundred = [Some ''Bad Request'', Some ''Unauthorized'', Some ''Payment Required'', Some ''Forbidden'',
     Some ''Not Found'', Some ''Method Not Allowed'', Some ''Not Acceptable'', Some ''Proxy Authentication Required'',
     Some ''Request Timeout'', Some ''Conflict'', Some ''Gone'', Some ''Length Required'',
     Some ''Precondition Failed'', Some ''Payload Too Large'', Some ''URI Too Long'', Some ''Unsupported Media Type'',
     Some ''Range Not Satisfiable'', Some ''Expectation Failed'', Some ''Unknown'', Some ''Unknown'',
     Some ''Unknown'', Some ''Misdirected Request'', Some ''Unprocessable Entity'', Some ''Locked'',
     Some ''Failed Dependency'', Some ''Unordered Collection'', Some ''Upgrade Required'', Some ''Unknown'',
     Some ''Precondition Required'', Some ''Too Many Requests'', Some ''Unknown'', Some ''Request Header Fields Too Large'',
     Some ''Unknown'', Some ''Unknown'', Some ''Unknown'', Some ''Unknown'',
     Some ''Unknown'', Some ''Unknown'', Some ''Unknown'', Some ''Unknown'',
     Some ''Unknown'', Some ''Unknown'', Some ''Unknown'', Some ''Unknown'',
     Some ''No Response'', Some ''Unknown'', Some ''Unknown'', Some ''Unknown'',
     Some ''Unknown'', Some ''Retry With'', Some ''Blocked by Windows Parental Controls'', Some ''Unavailable For Legal Reasons'']"

definition five_hundred :: "string option list" where
  "five_hundred = [Some ''Internal Server Error'', Some ''Not Implemented'', Some ''Bad Gateway'', Some ''Service Unavailable'',
     Some ''Gateway Timeout'', Some ''HTTP Version Not Supported'', Some ''Variant Also Negotiates'', Some ''Insufficient Storage'',
     Some ''Loop Detected'', Some ''Bandwidth Limit Exceeded'', Some ''Not Extended'', Some ''Network Authentication Required'']"

definition reasons :: "string option list list" where
  "reasons = [invalid_hundred, one_hundred, two_hundred, three_hundred, four_hundred, five_hundred]"

definition fetch :: "'a list \<Rightarrow> nat \<Rightarrow> 'a option" where
  "fetch xs i = (if i < length xs then Some (xs ! i) else None)"

definition MHD_get_reason_phrase_for :: "u32 \<Rightarrow> string option" where
  "MHD_get_reason_phrase_for code =
     (if code \<ge> 100 \<and> code < 600
      then (case fetch reasons (unat (code div 100)) of
              None \<Rightarrow> None
            | Some data \<Rightarrow> if length data > unat (code mod 100) then data ! unat (code mod 100)
                           else Some ''Unknown'')
      else Some ''Unknown'')"

lemma no_null: "\<forall>data \<in> set (tl reasons). None \<notin> set data"
  by code_simp

lemma reason_phrase_total:
  "(\<exists>phrase. MHD_get_reason_phrase_for code = Some phrase)
   \<and> (unat code < 100 \<or> 600 \<le> unat code \<longrightarrow> MHD_get_reason_phrase_for code = Some ''Unknown'')"
proof (cases "code \<ge> 100 \<and> code < 600")
  case True
  let ?h = "unat (code div 100)" and ?r = "unat (code mod 100)"
  have n: "100 \<le> unat code" "unat code < 600" using True by (auto simp: word_le_nat_alt word_less_nat_alt)
  have len: "length reasons = 6" by (simp add: reasons_def)
  have h: "1 \<le> ?h" "?h < length reasons" using n len by (auto simp: unat_div)
  then have d: "fetch reasons ?h = Some (reasons ! ?h)" by (simp add: fetch_def)
  have "reasons ! ?h = tl reasons ! (?h - 1)" using h by (simp add: nth_tl)
  then have "reasons ! ?h \<in> set (tl reasons)" using h by (simp add: nth_mem)
  then have "None \<notin> set (reasons ! ?h)" using no_null by blast
  then have "(reasons ! ?h) ! ?r \<noteq> None" if "?r < length (reasons ! ?h)" using that by (metis nth_mem)
  then show ?thesis using True n d by (auto simp: MHD_get_reason_phrase_for_def)
qed (auto simp: MHD_get_reason_phrase_for_def)

end
