(* ===== verification/Postprocessor.thy ===== *)
theory Postprocessor
  imports Internal Conn_Values "HOL-Library.Monad_Syntax"
begin

text \<open>
  The POST processor of \<^verbatim>\<open>libmicrohttpd/src/microhttpd/postprocessor.c\<close>: its state, its creation, the parsers of
  url-encoded and of multipart data and its end. The memory behind the struct is the field \<open>buf\<close> (\<^verbatim>\<open>buffer_size + 1\<close> bytes); every
  access to it goes through operations that are \<open>None\<close> outside of the memory, and a loop that does not end is \<open>None\<close>
  too. That an operation returns \<open>Some\<close> therefore says that it ends and stays inside its memory.
  The result of an operation is what it returns, or \<open>Panic\<close> where the code calls \<^verbatim>\<open>mhd_panic\<close>.

  The callback of the application is a function on the state of the application, the field \<open>cls\<close>.
  Lengths and offsets are natural numbers, but the lengths of the two boundaries are machine words, because the
  code that removes quotes from a boundary can make its length wrap around.
\<close>

section \<open>State\<close>

datatype PP_State = PP_Error | PP_Done | PP_Init | PP_NextBoundary
  | PP_ProcessValue | PP_ExpectNewLine
  | PP_ProcessEntryHeaders | PP_PerformCheckMultipart | PP_ProcessValueToBoundary | PP_PerformCleanup
  | PP_Nested_Init | PP_Nested_PerformMarking | PP_Nested_ProcessEntryHeaders
  | PP_Nested_ProcessValueToBoundary | PP_Nested_PerformCleanup

datatype RN_State = RN_Inactive | RN_OptN | RN_Full | RN_Dash | RN_Dash2

text \<open>The bits of \<^verbatim>\<open>enum NE_State\<close>.\<close>

record NE_State =
  NE_content_name :: bool
  NE_content_type :: bool
  NE_content_filename :: bool
  NE_content_transfer_encoding :: bool

definition NE_none :: NE_State where
  "NE_none = \<lparr>NE_content_name = False, NE_content_type = False, NE_content_filename = False,
     NE_content_transfer_encoding = False\<rparr>"

record 'c MHD_PostProcessor =
  encoding :: string
  boundary :: "string option"
  nested_boundary :: "string option"
  content_name :: "string option"
  content_type :: "string option"
  content_filename :: "string option"
  content_transfer_encoding :: "string option"
  xbuf :: string
  buffer_size :: nat
  buffer_pos :: nat
  xbuf_pos :: nat
  value_offset :: u64
  blen :: size_t
  nlen :: size_t
  must_ikvi :: bool
  pp_state :: PP_State
  skip_rn :: RN_State
  dash_state :: PP_State
  have_ne :: NE_State
  buf :: string
  cls :: 'c

text \<open>Key, file name, content type, transfer encoding, data and offset of the data in the value.\<close>

type_synonym 'c post_data_iterator =
  "'c \<Rightarrow> string option \<Rightarrow> string option \<Rightarrow> string option \<Rightarrow> string option \<Rightarrow> string \<Rightarrow> u64 \<Rightarrow> bool \<times> 'c"

datatype outcome = Ret bool | Panic

section \<open>Creation\<close>

text \<open>\<^verbatim>\<open>strstr\<close>: the first index at which \<open>t\<close> occurs.\<close>

fun strstr :: "string \<Rightarrow> string \<Rightarrow> nat option" where
  "strstr [] t = (if t = [] then Some 0 else None)"
| "strstr (c # s) t = (if take (length t) (c # s) = t then Some 0 else map_option Suc (strstr s t))"

definition MHD_HTTP_HEADER_CONTENT_TYPE :: string where
  "MHD_HTTP_HEADER_CONTENT_TYPE = ''Content-Type''"
definition FORM_URLENCODED :: string where
  "FORM_URLENCODED = ''application/x-www-form-urlencoded''"
definition MULTIPART_FORMDATA :: string where
  "MULTIPART_FORMDATA = ''multipart/form-data''"

datatype 'a created = Created 'a | Create_failed | Create_panic

text \<open>The boundary parameter of the content type and its length, without the quotes around it.\<close>

definition find_boundary_param :: "string \<Rightarrow> nat \<Rightarrow> (string \<times> size_t) option" where
  "find_boundary_param ctype bsize =
     (case strstr (drop (length MULTIPART_FORMDATA) ctype) ''boundary='' of
        None \<Rightarrow> None
      | Some i \<Rightarrow>
          (let b = drop (i + 9) (drop (length MULTIPART_FORMDATA) ctype); n = length b in
           if n = 0 \<or> n * 2 + 2 > bsize then None
           else if b ! 0 = CHR 0x22 \<and> b ! (n - 1) = CHR 0x22 then Some (tl b, word_of_nat n - 2)
           else Some (b, word_of_nat n)))"

definition MHD_create_post_processor ::
  "bool \<Rightarrow> 'b conn_values_scheme option \<Rightarrow> nat \<Rightarrow> bool \<Rightarrow> 'c \<Rightarrow> 'c MHD_PostProcessor created" where
  "MHD_create_post_processor mem connection bsize have_iter iter_cls =
     (if bsize < 256 \<or> connection = None \<or> \<not> have_iter then Create_panic
      else (case MHD_lookup_connection_value connection MHD_HEADER_KIND (Some MHD_HTTP_HEADER_CONTENT_TYPE) of
              None \<Rightarrow> Create_failed
            | Some ctype \<Rightarrow>
                (let form = MHD_str_equal_caseless_n FORM_URLENCODED ctype (length FORM_URLENCODED);
                     multi = MHD_str_equal_caseless_n MULTIPART_FORMDATA ctype (length MULTIPART_FORMDATA);
                     make = (\<lambda>bnd bl.
                       if mem
                       then Created \<lparr>encoding = ctype, boundary = bnd, nested_boundary = None, content_name = None,
                              content_type = None, content_filename = None, content_transfer_encoding = None,
                              xbuf = replicate 8 NUL, buffer_size = bsize + 4, buffer_pos = 0, xbuf_pos = 0,
                              value_offset = 0, blen = bl, nlen = 0, must_ikvi = False, pp_state = PP_Init,
                              skip_rn = RN_Inactive, dash_state = PP_Error, have_ne = NE_none,
                              buf = replicate (bsize + 4 + 1) NUL, cls = iter_cls\<rparr>
                       else Create_failed)
                 in if form then make None 0
                    else if \<not> multi then Create_failed
                    else (case find_boundary_param ctype bsize of
                            None \<Rightarrow> Create_failed
                          | Some (b, n) \<Rightarrow> make (Some b) n))))"

section \<open>Url-encoded data\<close>

definition XBUF_SIZE :: nat where
  "XBUF_SIZE = 512"

datatype 'c pp_step = Continue nat "'c MHD_PostProcessor" | Return outcome "'c MHD_PostProcessor"

text \<open>State \<^verbatim>\<open>PP_Init\<close>: collect the key up to the equals sign.\<close>

definition url_init :: "string \<Rightarrow> nat \<Rightarrow> 'c MHD_PostProcessor \<Rightarrow> 'c pp_step option" where
  "url_init data poff pp =
     (let equals = length (takeWhile (\<lambda>c. c \<noteq> CHR ''='') (drop poff data)) in
      if equals + buffer_pos pp > buffer_size pp then Some (Return (Ret False) (pp\<lparr>pp_state := PP_Error\<rparr>))
      else do {
        mem \<leftarrow> blit (buf pp) (buffer_pos pp) (take equals (drop poff data));
        let wpos = buffer_pos pp + equals;
        if equals + poff = length data
        then Some (Return (Ret True) (pp\<lparr>buf := mem, buffer_pos := wpos\<rparr>))
        else do {
          mem \<leftarrow> wr_at mem wpos NUL;
          Some (Continue (poff + equals + 1)
            (pp\<lparr>buf := fst (MHD_http_unescape (MHD_unescape_plus mem)), buffer_pos := 0,
                pp_state := PP_ProcessValue, value_offset := 0\<rparr>))
        }
      })"

definition is_url_end :: "char \<Rightarrow> bool" where
  "is_url_end c \<longleftrightarrow> c = CHR ''&'' \<or> c = LF \<or> c = CR"

text \<open>The length of an incomplete escape sequence at the end of the processing buffer.\<close>

definition pending_length :: "string \<Rightarrow> nat" where
  "pending_length x =
     (if length x > 0 \<and> x ! (length x - 1) = CHR ''%'' then 1
      else if length x > 1 \<and> x ! (length x - 2) = CHR ''%'' then 2 else 0)"

text \<open>
  State \<^verbatim>\<open>PP_ProcessValue\<close>. First the input moves into the local buffer \<^verbatim>\<open>xbuf\<close>, behind the bytes kept from the previous
  call, and an incomplete escape sequence at its end is kept for the next one. The local buffer is the list of
  the bytes in it; it has room for \<open>XBUF_SIZE\<close> bytes and the terminator. The results are the new state, the bytes to
  process, the new offset and whether the end of the value was found.
\<close>

definition url_fill ::
  "string \<Rightarrow> nat \<Rightarrow> 'c MHD_PostProcessor \<Rightarrow> ('c MHD_PostProcessor \<times> string \<times> nat \<times> bool) option" where
  "url_fill data poff pp = do {
     x \<leftarrow> slice (xbuf pp) 0 (xbuf_pos pp);
     let amper = length (takeWhile (\<lambda>c. \<not> is_url_end c) (take XBUF_SIZE (drop poff data)));
     let end_of_value_found = (amper + poff < length data \<and> is_url_end (data ! (amper + poff)));
     if length x > XBUF_SIZE then None else do {
       let delta = min amper (XBUF_SIZE - length x);
       let x = x @ take delta (drop poff data);
       let keep = pending_length x;
       xb \<leftarrow> blit (xbuf pp) 0 (drop (length x - keep) x);
       Some (pp\<lparr>xbuf := xb, xbuf_pos := keep\<rparr>, take (length x - keep) x, poff + delta, end_of_value_found)
     } }"

text \<open>Then the bytes are unescaped and given to the application.\<close>

definition url_deliver ::
  "'c post_data_iterator \<Rightarrow> string \<Rightarrow> 'c MHD_PostProcessor \<Rightarrow> string \<Rightarrow> nat \<Rightarrow> bool \<Rightarrow> 'c pp_step option" where
  "url_deliver ikvi data pp x poff end_of_value_found =
     (case MHD_http_unescape (MHD_unescape_plus (x @ [NUL])) of
        (mem, xoff) \<Rightarrow>
          (case ikvi (cls pp) (Some (c_str (buf pp))) None None None (take xoff mem) (value_offset pp) of
             (False, cl) \<Rightarrow> Some (Return (Ret False) (pp\<lparr>must_ikvi := False, cls := cl, pp_state := PP_Error\<rparr>))
           | (True, cl) \<Rightarrow>
               (let pp = pp\<lparr>must_ikvi := False, cls := cl, value_offset := value_offset pp + word_of_nat xoff\<rparr> in
                if end_of_value_found
                then do {
                  c \<leftarrow> rd_at data poff;
                  if c = LF \<or> c = CR then Some (Continue poff (pp\<lparr>pp_state := PP_ExpectNewLine\<rparr>))
                  else if c = CHR ''&'' then Some (Continue (poff + 1) (pp\<lparr>pp_state := PP_Init\<rparr>))
                  else Some (Continue poff pp)
                }
                else Some (Continue poff pp))))"

definition url_value ::
  "'c post_data_iterator \<Rightarrow> string \<Rightarrow> nat \<Rightarrow> 'c MHD_PostProcessor \<Rightarrow> 'c pp_step option" where
  "url_value ikvi data poff pp = do {
     (pp, x, poff, end_of_value_found) \<leftarrow> url_fill data poff pp;
     if x = [] \<and> poff = length data then Some (Continue poff pp)
     else url_deliver ikvi data pp x poff end_of_value_found
   }"

definition url_step ::
  "'c post_data_iterator \<Rightarrow> string \<Rightarrow> nat \<Rightarrow> 'c MHD_PostProcessor \<Rightarrow> 'c pp_step option" where
  "url_step ikvi data poff pp =
     (case pp_state pp of
        PP_Error \<Rightarrow> Some (Return (Ret False) pp)
      | PP_Done \<Rightarrow> Some (Return (Ret False) (pp\<lparr>pp_state := PP_Error\<rparr>))
      | PP_Init \<Rightarrow> url_init data poff pp
      | PP_ProcessValue \<Rightarrow> url_value ikvi data poff pp
      | PP_ExpectNewLine \<Rightarrow> do {
          c \<leftarrow> rd_at data poff;
          if c = LF \<or> c = CR then Some (Return (Ret True) (pp\<lparr>pp_state := PP_Done\<rparr>))
          else Some (Return (Ret False) pp)
        }
      | _ \<Rightarrow> Some (Return Panic pp))"

partial_function (option) url_loop ::
  "'c post_data_iterator \<Rightarrow> string \<Rightarrow> nat \<Rightarrow> 'c MHD_PostProcessor \<Rightarrow> (outcome \<times> 'c MHD_PostProcessor) option" where
  [code]: "url_loop ikvi data poff pp =
     (if poff < length data
      then do {
        r \<leftarrow> url_step ikvi data poff pp;
        (case r of Return res pp' \<Rightarrow> Some (res, pp') | Continue poff' pp' \<Rightarrow> url_loop ikvi data poff' pp')
      }
      else Some (Ret True, pp))"

definition post_process_urlencoded ::
  "'c post_data_iterator \<Rightarrow> 'c MHD_PostProcessor \<Rightarrow> string \<Rightarrow> (outcome \<times> 'c MHD_PostProcessor) option" where
  "post_process_urlencoded ikvi pp data = url_loop ikvi data 0 pp"

section \<open>Multipart data\<close>

text \<open>
  The memory allocator is a parameter: \<open>alloc n\<close> says whether a block of \<open>n\<close> bytes can be allocated.
  A boundary is a string with a terminator; a comparison reads as many of its bytes as the given length says.
\<close>

fun match_header_loop :: "(nat \<Rightarrow> bool) \<Rightarrow> string \<Rightarrow> string \<Rightarrow> bool \<times> string option" where
  "match_header_loop alloc prefix [] = (False, None)"
| "match_header_loop alloc prefix (c # line) =
     (if c = NUL then (False, None)
      else if MHD_str_equal_caseless_n prefix (c # line) (length prefix)
      then (let rest = c_str (drop (length prefix) (c # line))
            in (True, if alloc (length rest + 1) then Some rest else None))
      else match_header_loop alloc prefix line)"

definition try_match_header ::
  "(nat \<Rightarrow> bool) \<Rightarrow> string \<Rightarrow> string \<Rightarrow> string option \<Rightarrow> bool \<times> string option" where
  "try_match_header alloc prefix line suffix =
     (case suffix of Some _ \<Rightarrow> (False, suffix) | None \<Rightarrow> match_header_loop alloc prefix line)"

text \<open>A byte of a string; the byte after the last one is the terminator.\<close>

definition str_at :: "string \<Rightarrow> nat \<Rightarrow> char option" where
  "str_at s i = (if i < length s then Some (s ! i) else if i = length s then Some NUL else None)"

partial_function (option) get_value_loop ::
  "(nat \<Rightarrow> bool) \<Rightarrow> string \<Rightarrow> string \<Rightarrow> nat \<Rightarrow> string option option" where
  [code]: "get_value_loop alloc text key bpos =
     (if bpos > length text then None
      else (case strstr (drop bpos text) key of
         None \<Rightarrow> Some None
       | Some i \<Rightarrow> do {
           let spos = bpos + i;
           let klen = length key;
           c \<leftarrow> str_at text (spos + klen);
           if c \<noteq> CHR ''='' \<or> (spos \<noteq> 0 \<and> text ! (spos - 1) \<noteq> CHR '' '')
           then get_value_loop alloc text key (spos + 1)
           else do {
             q \<leftarrow> str_at text (spos + klen + 1);
             if q \<noteq> CHR 0x22 then Some None
             else (case strchr (drop (spos + klen + 2) text) CHR 0x22 of
                     None \<Rightarrow> Some None
                   | Some n \<Rightarrow>
                       Some (if alloc (n + 1) then Some (take n (drop (spos + klen + 2) text)) else None))
           }
         }))"

definition try_get_value ::
  "(nat \<Rightarrow> bool) \<Rightarrow> string \<Rightarrow> string \<Rightarrow> string option \<Rightarrow> string option option" where
  "try_get_value alloc text key destination =
     (case destination of Some _ \<Rightarrow> Some destination | None \<Rightarrow> get_value_loop alloc text key 0)"

text \<open>
  The three functions below return whether the code returns \<^verbatim>\<open>MHD_YES\<close>, what they add to \<^verbatim>\<open>*ioffptr\<close> and the new state.
\<close>

definition find_boundary ::
  "'c MHD_PostProcessor \<Rightarrow> string option \<Rightarrow> size_t \<Rightarrow> PP_State \<Rightarrow> PP_State \<Rightarrow> (bool \<times> nat \<times> 'c MHD_PostProcessor) option" where
  "find_boundary pp bnd n next_state next_dash_state =
     (if word_of_nat (buffer_pos pp) < 2 + n
      then Some (False, 0, if buffer_pos pp = buffer_size pp then pp\<lparr>pp_state := PP_Error\<rparr> else pp)
      else do {
        dashes \<leftarrow> slice (buf pp) 0 2;
        same \<leftarrow> (if dashes \<noteq> ''--'' then Some False
                 else do {
                   l \<leftarrow> slice (buf pp) 2 (unat n);
                   b \<leftarrow> bnd;
                   r \<leftarrow> slice (b @ [NUL]) 0 (unat n);
                   Some (l = r)
                 });
        if \<not> same
        then (if pp_state pp \<noteq> PP_Init then Some (False, 0, pp\<lparr>pp_state := PP_Error\<rparr>)
              else do {
                filled \<leftarrow> slice (buf pp) 0 (buffer_pos pp);
                let dash = length (takeWhile (\<lambda>c. c \<noteq> CHR ''-'') filled);
                Some (False, if dash = length filled then buffer_pos pp else if dash = 0 then 1 else dash, pp)
              })
        else Some (True, 2 + unat n, pp\<lparr>skip_rn := RN_Dash, pp_state := next_state, dash_state := next_dash_state\<rparr>)
      })"

definition CONTENT_DISPOSITION :: string where
  "CONTENT_DISPOSITION = ''Content-disposition: ''"

definition multipart_header_line :: "(nat \<Rightarrow> bool) \<Rightarrow> string \<Rightarrow> 'c MHD_PostProcessor \<Rightarrow> 'c MHD_PostProcessor option" where
  "multipart_header_line alloc line pp =
     (if MHD_str_equal_caseless_n CONTENT_DISPOSITION line (length CONTENT_DISPOSITION)
      then do {
        let params = drop (length CONTENT_DISPOSITION) line;
        nm \<leftarrow> try_get_value alloc params ''name'' (content_name pp);
        fn \<leftarrow> try_get_value alloc params ''filename'' (content_filename pp);
        Some (pp\<lparr>content_name := nm, content_filename := fn\<rparr>)
      }
      else Some (pp\<lparr>content_type := snd (try_match_header alloc ''Content-type: '' line (content_type pp)),
               content_transfer_encoding :=
                 snd (try_match_header alloc ''Content-Transfer-Encoding: '' line (content_transfer_encoding pp))\<rparr>))"

definition process_multipart_headers ::
  "(nat \<Rightarrow> bool) \<Rightarrow> 'c MHD_PostProcessor \<Rightarrow> PP_State \<Rightarrow> (bool \<times> nat \<times> 'c MHD_PostProcessor) option" where
  "process_multipart_headers alloc pp next_state = do {
     filled \<leftarrow> slice (buf pp) 0 (buffer_pos pp);
     let newline = length (takeWhile (\<lambda>c. c \<noteq> CR \<and> c \<noteq> LF) filled);
     if newline = buffer_size pp then Some (False, 0, pp\<lparr>pp_state := PP_Error\<rparr>)
     else if newline = buffer_pos pp then Some (False, 0, pp)
     else if newline = 0 then Some (True, 0, pp\<lparr>skip_rn := RN_Full, pp_state := next_state\<rparr>)
     else do {
       c \<leftarrow> rd_at (buf pp) newline;
       let pp = (if c = CR then pp\<lparr>skip_rn := RN_OptN\<rparr> else pp);
       mem \<leftarrow> wr_at (buf pp) newline NUL;
       pp \<leftarrow> multipart_header_line alloc (c_str mem) (pp\<lparr>buf := mem\<rparr>);
       Some (True, newline + 1, pp)
     }
   }"

text \<open>The inner loop of \<^verbatim>\<open>process_value_to_boundary\<close>: the next place where a delimiter may start.\<close>

partial_function (option) scan_newline :: "string \<Rightarrow> nat \<Rightarrow> nat \<Rightarrow> nat option" where
  [code]: "scan_newline mem bpos newline =
     (if newline + 4 < bpos
      then do {
        w \<leftarrow> slice mem newline (bpos - newline - 4);
        let i = length (takeWhile (\<lambda>c. c \<noteq> CR) w);
        if i = length w then Some (bpos - 4)
        else do {
          q \<leftarrow> slice mem (newline + i) 4;
          if q = [CR, LF, CHR ''-'', CHR ''-''] then Some (newline + i)
          else scan_newline mem bpos (newline + i + 1)
        }
      }
      else Some newline)"

text \<open>The outer loop: whether the delimiter was found, and where the part of the value in the buffer ends.\<close>

partial_function (option) scan_value :: "string \<Rightarrow> nat \<Rightarrow> string option \<Rightarrow> size_t \<Rightarrow> nat \<Rightarrow> (bool \<times> nat) option" where
  [code]: "scan_value mem bpos bnd n newline = do {
     newline \<leftarrow> scan_newline mem bpos newline;
     if word_of_nat newline + n + 4 \<le> word_of_nat bpos
     then do {
       l \<leftarrow> slice mem (newline + 4) (unat n);
       b \<leftarrow> bnd;
       r \<leftarrow> slice (b @ [NUL]) 0 (unat n);
       if l \<noteq> r then scan_value mem bpos bnd n (newline + 4)
       else Some (True, newline)
     }
     else Some (False, newline)
   }"

definition process_value_to_boundary ::
  "'c post_data_iterator \<Rightarrow> 'c MHD_PostProcessor \<Rightarrow> string option \<Rightarrow> size_t \<Rightarrow> PP_State \<Rightarrow> PP_State
     \<Rightarrow> (bool \<times> nat \<times> 'c MHD_PostProcessor) option" where
  "process_value_to_boundary ikvi pp bnd n next_state next_dash_state = do {
     (found, newline) \<leftarrow> scan_value (buf pp) (buffer_pos pp) bnd n 0;
     if \<not> found \<and> newline = 0 \<and> buffer_pos pp = buffer_size pp
     then Some (False, 0, pp\<lparr>pp_state := PP_Error\<rparr>)
     else do {
       (skip, pp) \<leftarrow> (if found
          then do {
            mem \<leftarrow> wr_at (buf pp) newline NUL;
            Some (unat n + 4, pp\<lparr>skip_rn := RN_Dash, pp_state := next_state, dash_state := next_dash_state, buf := mem\<rparr>)
          }
          else Some (0, pp));
       data \<leftarrow> slice (buf pp) 0 newline;
       let (go, cl) = (if must_ikvi pp \<or> newline \<noteq> 0
          then ikvi (cls pp) (content_name pp) (content_filename pp) (content_type pp)
                 (content_transfer_encoding pp) data (value_offset pp)
          else (True, cls pp));
       if \<not> go then Some (False, skip, pp\<lparr>cls := cl, pp_state := PP_Error\<rparr>)
       else Some (True, skip + newline,
              pp\<lparr>cls := cl, must_ikvi := False, value_offset := value_offset pp + word_of_nat newline\<rparr>)
     }
   }"

definition free_unmarked :: "'c MHD_PostProcessor \<Rightarrow> 'c MHD_PostProcessor" where
  "free_unmarked pp = pp\<lparr>
     content_name := (if NE_content_name (have_ne pp) then content_name pp else None),
     content_type := (if NE_content_type (have_ne pp) then content_type pp else None),
     content_filename := (if NE_content_filename (have_ne pp) then content_filename pp else None),
     content_transfer_encoding :=
       (if NE_content_transfer_encoding (have_ne pp) then content_transfer_encoding pp else None)\<rparr>"

text \<open>
  How one iteration of the loop of \<^verbatim>\<open>post_process_multipart\<close> ends: at the label \<^verbatim>\<open>AGAIN\<close> with \<^verbatim>\<open>state_changed\<close> and \<^verbatim>\<open>ioff\<close>,
  at the label \<^verbatim>\<open>END\<close> with \<^verbatim>\<open>ioff\<close>, or by a return. \<open>Engine\<close> goes on from the first switch to the second one.
\<close>

datatype 'c mp_step = Again bool nat "'c MHD_PostProcessor" | End nat "'c MHD_PostProcessor"
  | MReturn outcome "'c MHD_PostProcessor" | Engine "'c MHD_PostProcessor"

definition skip_full :: "'c MHD_PostProcessor \<Rightarrow> 'c mp_step option" where
  "skip_full pp = do {
     c \<leftarrow> rd_at (buf pp) 0;
     if c = CR
     then do {
       d \<leftarrow> (if buffer_pos pp > 1 then rd_at (buf pp) 1 else Some NUL);
       Some (if buffer_pos pp > 1 \<and> d = LF then Again False 2 (pp\<lparr>skip_rn := RN_Inactive\<rparr>)
             else Again False 1 (pp\<lparr>skip_rn := RN_OptN\<rparr>))
     }
     else if c = LF then Some (Again False 1 (pp\<lparr>skip_rn := RN_Inactive\<rparr>))
     else Some (MReturn (Ret False) (pp\<lparr>skip_rn := RN_Inactive, pp_state := PP_Error\<rparr>))
   }"

definition skip_dash :: "'c MHD_PostProcessor \<Rightarrow> 'c mp_step option" where
  "skip_dash pp = do {
     c \<leftarrow> rd_at (buf pp) 0;
     if c = CHR ''-'' then Some (Again False 1 (pp\<lparr>skip_rn := RN_Dash2\<rparr>))
     else skip_full (pp\<lparr>skip_rn := RN_Full\<rparr>)
   }"

definition skip_step :: "'c MHD_PostProcessor \<Rightarrow> 'c mp_step option" where
  "skip_step pp =
     (case skip_rn pp of
        RN_Inactive \<Rightarrow> Some (Engine pp)
      | RN_OptN \<Rightarrow> do {
          c \<leftarrow> rd_at (buf pp) 0;
          if c = LF then Some (Again False 1 (pp\<lparr>skip_rn := RN_Inactive\<rparr>)) else skip_dash pp
        }
      | RN_Dash \<Rightarrow> skip_dash pp
      | RN_Full \<Rightarrow> skip_full pp
      | RN_Dash2 \<Rightarrow> do {
          c \<leftarrow> rd_at (buf pp) 0;
          Some (if c = CHR ''-'' then Again False 1 (pp\<lparr>skip_rn := RN_Full, pp_state := dash_state pp\<rparr>)
                else Engine (pp\<lparr>pp_state := PP_Error\<rparr>))
        })"

text \<open>State \<^verbatim>\<open>PP_PerformCheckMultipart\<close>\<close>

definition check_multipart :: "(nat \<Rightarrow> bool) \<Rightarrow> 'c MHD_PostProcessor \<Rightarrow> 'c mp_step" where
  "check_multipart alloc pp =
     (let plain_value = Again True 0 (pp\<lparr>pp_state := PP_ProcessValueToBoundary, value_offset := 0\<rparr>) in
      case content_type pp of
        None \<Rightarrow> plain_value
      | Some ct \<Rightarrow>
          if MHD_str_equal_caseless_n ct ''multipart/mixed'' (length ''multipart/mixed'')
          then (case strstr ct ''boundary='' of
                  None \<Rightarrow> MReturn (Ret False) (pp\<lparr>nested_boundary := None, pp_state := PP_Error\<rparr>)
                | Some i \<Rightarrow>
                    (let nb = drop (i + length ''boundary='') ct in
                     if \<not> alloc (length nb + 1)
                     then MReturn (Ret False) (pp\<lparr>nested_boundary := None, pp_state := PP_Error\<rparr>)
                     else Again True 0 (pp\<lparr>nested_boundary := Some nb, content_type := None,
                            nlen := word_of_nat (length nb), pp_state := PP_Nested_Init\<rparr>)))
          else plain_value)"

text \<open>A call whose failure ends the loop, with an error or to wait for more data.\<close>

definition or_end :: "(bool \<times> nat \<times> 'c MHD_PostProcessor) option \<Rightarrow> bool \<Rightarrow> 'c mp_step option" where
  "or_end r changed = do {
     (ok, ioff, pp) \<leftarrow> r;
     Some (if ok then Again changed ioff pp
           else if pp_state pp = PP_Error then MReturn (Ret False) pp else End ioff pp)
   }"

definition or_continue :: "(bool \<times> nat \<times> 'c MHD_PostProcessor) option \<Rightarrow> 'c mp_step option" where
  "or_continue r = do {
     (ok, ioff, pp) \<leftarrow> r;
     Some (if \<not> ok \<and> pp_state pp = PP_Error then MReturn (Ret False) pp else Again False ioff pp)
   }"

definition multipart_engine ::
  "(nat \<Rightarrow> bool) \<Rightarrow> 'c post_data_iterator \<Rightarrow> 'c MHD_PostProcessor \<Rightarrow> 'c mp_step option" where
  "multipart_engine alloc ikvi pp =
     (case pp_state pp of
        PP_Error \<Rightarrow> Some (MReturn (Ret False) pp)
      | PP_Done \<Rightarrow> Some (MReturn (Ret False) (pp\<lparr>pp_state := PP_Error\<rparr>))
      | PP_Init \<Rightarrow> do {
          (_, ioff, pp) \<leftarrow> find_boundary pp (boundary pp) (blen pp) PP_ProcessEntryHeaders PP_Done;
          Some (Again False ioff pp)
        }
      | PP_NextBoundary \<Rightarrow> or_end (find_boundary pp (boundary pp) (blen pp) PP_ProcessEntryHeaders PP_Done) False
      | PP_ProcessEntryHeaders \<Rightarrow>
          or_end (process_multipart_headers alloc (pp\<lparr>must_ikvi := True\<rparr>) PP_PerformCheckMultipart) True
      | PP_PerformCheckMultipart \<Rightarrow> Some (check_multipart alloc pp)
      | PP_ProcessValueToBoundary \<Rightarrow>
          or_continue (process_value_to_boundary ikvi pp (boundary pp) (blen pp) PP_PerformCleanup PP_Done)
      | PP_PerformCleanup \<Rightarrow>
          Some (Again True 0 ((free_unmarked (pp\<lparr>have_ne := NE_none\<rparr>))\<lparr>nested_boundary := None,
            pp_state := PP_ProcessEntryHeaders\<rparr>))
      | PP_Nested_Init \<Rightarrow>
          (if nested_boundary pp = None then Some (MReturn (Ret False) (pp\<lparr>pp_state := PP_Error\<rparr>))
           else or_end (find_boundary pp (nested_boundary pp) (nlen pp) PP_Nested_PerformMarking PP_NextBoundary) False)
      | PP_Nested_PerformMarking \<Rightarrow>
          Some (Again True 0 (pp\<lparr>have_ne := \<lparr>NE_content_name = content_name pp \<noteq> None,
            NE_content_type = content_type pp \<noteq> None, NE_content_filename = content_filename pp \<noteq> None,
            NE_content_transfer_encoding = content_transfer_encoding pp \<noteq> None\<rparr>,
            pp_state := PP_Nested_ProcessEntryHeaders\<rparr>))
      | PP_Nested_ProcessEntryHeaders \<Rightarrow>
          or_end (process_multipart_headers alloc (pp\<lparr>value_offset := 0\<rparr>) PP_Nested_ProcessValueToBoundary) True
      | PP_Nested_ProcessValueToBoundary \<Rightarrow>
          or_continue (process_value_to_boundary ikvi pp (nested_boundary pp) (nlen pp) PP_Nested_PerformCleanup
            PP_NextBoundary)
      | PP_Nested_PerformCleanup \<Rightarrow>
          Some (Again True 0 ((free_unmarked pp)\<lparr>pp_state := PP_Nested_ProcessEntryHeaders\<rparr>))
      | _ \<Rightarrow> Some (MReturn Panic pp))"

text \<open>Moving the unprocessed bytes to the front of the buffer\<close>

definition shift_buffer :: "nat \<Rightarrow> 'c MHD_PostProcessor \<Rightarrow> 'c MHD_PostProcessor option" where
  "shift_buffer ioff pp =
     (if ioff > buffer_pos pp then None
      else do {
        rest \<leftarrow> slice (buf pp) ioff (buffer_pos pp - ioff);
        mem \<leftarrow> blit (buf pp) 0 rest;
        Some (pp\<lparr>buf := mem, buffer_pos := buffer_pos pp - ioff\<rparr>)
      })"

definition multipart_end ::
  "nat \<Rightarrow> nat \<Rightarrow> nat \<Rightarrow> 'c MHD_PostProcessor \<Rightarrow> (outcome \<times> 'c MHD_PostProcessor) option" where
  "multipart_end len poff ioff pp = do {
     pp \<leftarrow> (if ioff \<noteq> 0 then shift_buffer ioff pp else Some pp);
     Some (if poff < len then (Ret False, pp\<lparr>pp_state := PP_Error\<rparr>) else (Ret True, pp))
   }"

definition multipart_step ::
  "(nat \<Rightarrow> bool) \<Rightarrow> 'c post_data_iterator \<Rightarrow> 'c MHD_PostProcessor \<Rightarrow> 'c mp_step option" where
  "multipart_step alloc ikvi pp = do {
     r \<leftarrow> skip_step pp;
     (case r of Engine pp' \<Rightarrow> multipart_engine alloc ikvi pp' | _ \<Rightarrow> Some r)
   }"

partial_function (option) multipart_loop ::
  "(nat \<Rightarrow> bool) \<Rightarrow> 'c post_data_iterator \<Rightarrow> string \<Rightarrow> nat \<Rightarrow> bool \<Rightarrow> 'c MHD_PostProcessor
     \<Rightarrow> (outcome \<times> 'c MHD_PostProcessor) option" where
  [code]: "multipart_loop alloc ikvi data poff state_changed pp =
     (if poff < length data \<or> (buffer_pos pp > 0 \<and> state_changed)
      then do {
        let mx = min (buffer_size pp - buffer_pos pp) (length data - poff);
        mem \<leftarrow> blit (buf pp) (buffer_pos pp) (take mx (drop poff data));
        let poff' = poff + mx;
        let pp' = pp\<lparr>buf := mem, buffer_pos := buffer_pos pp + mx\<rparr>;
        if mx = 0 \<and> \<not> state_changed \<and> poff' < length data
        then Some (Ret False, pp'\<lparr>pp_state := PP_Error\<rparr>)
        else do {
          r \<leftarrow> multipart_step alloc ikvi pp';
          (case r of
             Again changed ioff pp'' \<Rightarrow>
               if ioff > 0
               then do {
                 pp3 \<leftarrow> shift_buffer ioff pp'';
                 multipart_loop alloc ikvi data poff' True pp3
               }
               else multipart_loop alloc ikvi data poff' changed pp''
           | End ioff pp'' \<Rightarrow> multipart_end (length data) poff' ioff pp''
           | MReturn res pp'' \<Rightarrow> Some (res, pp'')
           | Engine pp'' \<Rightarrow> None)
        }
      }
      else multipart_end (length data) poff 0 pp)"

definition post_process_multipart ::
  "(nat \<Rightarrow> bool) \<Rightarrow> 'c post_data_iterator \<Rightarrow> 'c MHD_PostProcessor \<Rightarrow> string \<Rightarrow> (outcome \<times> 'c MHD_PostProcessor) option" where
  "post_process_multipart alloc ikvi pp data = multipart_loop alloc ikvi data 0 True pp"

section \<open>Processing and destruction\<close>

definition MHD_post_process ::
  "(nat \<Rightarrow> bool) \<Rightarrow> 'c post_data_iterator \<Rightarrow> 'c MHD_PostProcessor option \<Rightarrow> string
     \<Rightarrow> (outcome \<times> 'c MHD_PostProcessor option) option" where
  "MHD_post_process alloc ikvi ppo data =
     (if length data = 0 then Some (Ret True, ppo)
      else (case ppo of
         None \<Rightarrow> Some (Ret False, None)
       | Some pp \<Rightarrow>
           if MHD_str_equal_caseless_n FORM_URLENCODED (encoding pp) (length FORM_URLENCODED)
           then map_option (\<lambda>(r, pp). (r, Some pp)) (post_process_urlencoded ikvi pp data)
           else if MHD_str_equal_caseless_n MULTIPART_FORMDATA (encoding pp) (length MULTIPART_FORMDATA)
           then map_option (\<lambda>(r, pp). (r, Some pp)) (post_process_multipart alloc ikvi pp data)
           else Some (Ret False, Some pp)))"

text \<open>The memory of the processor is freed; what is left is the result and the state of the application.\<close>

definition MHD_destroy_post_processor ::
  "'c post_data_iterator \<Rightarrow> 'c MHD_PostProcessor \<Rightarrow> (outcome \<times> 'c) option" where
  "MHD_destroy_post_processor ikvi pp = do {
     (r, pp) \<leftarrow> (if pp_state pp = PP_ProcessValue then post_process_urlencoded ikvi pp [LF] else Some (Ret True, pp));
     if r = Panic then Some (Panic, cls pp)
     else Some (Ret (\<not> (xbuf_pos pp > 0 \<or> (pp_state pp \<noteq> PP_Done \<and> pp_state pp \<noteq> PP_ExpectNewLine))), cls pp)
   }"

end
