(* ===== verification/Post_Url.thy ===== *)
theory Post_Url
  imports Postprocessor
begin

text \<open>
  Correctness of the url-encoded POST parser. It refines a machine that consumes one byte at a time, so that its
  result does not depend on how the data was split into calls, as long as the data has no line end.
\<close>

section \<open>Memory safety and termination\<close>

definition url_inv :: "'c MHD_PostProcessor \<Rightarrow> bool" where
  "url_inv pp \<longleftrightarrow> length (buf pp) = buffer_size pp + 1 \<and> buffer_pos pp \<le> buffer_size pp
     \<and> length (xbuf pp) = 8 \<and> xbuf_pos pp \<le> 2
     \<and> pp_state pp \<in> {PP_Error, PP_Done, PP_Init, PP_ProcessValue, PP_ExpectNewLine}"

lemma pending_length_le: "pending_length x \<le> 2" "pending_length x \<le> length x"
proof -
  show "pending_length x \<le> 2" by (simp add: pending_length_def)
  show "pending_length x \<le> length x"
  proof (cases "length x > 1")
    case False
    then consider "x = []" | c where "x = [c]" by (cases x) auto
    then show ?thesis by cases (simp_all add: pending_length_def)
  qed (auto simp: pending_length_def)
qed

lemma blit_kept:
  "k \<le> length z \<Longrightarrow> k \<le> length b \<Longrightarrow> \<exists>xb. blit b 0 (drop (length z - k) z) = Some xb
     \<and> length xb = length b \<and> take k xb = drop (length z - k) z"
  by (simp add: blit_def)

definition step_ok :: "string \<Rightarrow> nat \<Rightarrow> 'c MHD_PostProcessor \<Rightarrow> 'c pp_step option \<Rightarrow> bool" where
  "step_ok data poff pp r = (case r of
     None \<Rightarrow> False
   | Some (Return res pp') \<Rightarrow> url_inv pp' \<and> res \<noteq> Panic \<and> encoding pp' = encoding pp
   | Some (Continue poff' pp') \<Rightarrow> url_inv pp' \<and> encoding pp' = encoding pp \<and> poff \<le> poff' \<and> poff' \<le> length data
       \<and> (poff < poff' \<or> pp_state pp = PP_ProcessValue \<and> pp_state pp' = PP_ExpectNewLine))"

lemma url_init_ok:
  assumes "url_inv pp" "poff < length data"
  shows "step_ok data poff pp (url_init data poff pp)"
proof -
  let ?e = "length (takeWhile (\<lambda>c. c \<noteq> CHR ''='') (drop poff data))"
  have e: "?e \<le> length data - poff" by (metis length_drop length_takeWhile_le)
  show ?thesis
  proof (cases "?e + buffer_pos pp > buffer_size pp")
    case False
    then have "buffer_pos pp + length (take ?e (drop poff data)) \<le> length (buf pp)"
      using assms(1) e by (simp add: url_inv_def min_absorb2)
    then obtain m where m: "blit (buf pp) (buffer_pos pp) (take ?e (drop poff data)) = Some m" "length m = length (buf pp)"
      using blit_total by blast
    then show ?thesis
      using False assms e http_unescape_length [of _ 0 0]
      by (auto simp: step_ok_def url_init_def url_inv_def wr_at_def MHD_http_unescape_def Let_def)
  qed (use assms(1) in \<open>simp add: step_ok_def url_init_def url_inv_def\<close>)
qed

lemma amper_le: "length (takeWhile P (take n (drop poff data))) \<le> length data - poff"
  by (rule order_trans [OF length_takeWhile_le]) simp

text \<open>What the fill step computes, in terms of the kept bytes \<open>p\<close>.\<close>

lemma url_fill_eq:
  assumes "url_inv pp" "poff < length data" and p: "p = take (xbuf_pos pp) (xbuf pp)"
  obtains seg fin xb where
    "url_fill data poff pp = Some (pp\<lparr>xbuf := xb, xbuf_pos := pending_length (p @ seg)\<rparr>,
       take (length (p @ seg) - pending_length (p @ seg)) (p @ seg), poff + length seg, fin)"
    "length xb = 8" "take (pending_length (p @ seg)) xb = drop (length (p @ seg) - pending_length (p @ seg)) (p @ seg)"
    "drop poff data = seg @ drop (poff + length seg) data" "\<forall>c \<in> set seg. \<not> is_url_end c"
    "fin \<Longrightarrow> poff + length seg < length data"
    "length seg < 500 \<Longrightarrow> poff + length seg = length data \<or> (fin \<and> is_url_end (data ! (poff + length seg)))"
proof -
  let ?w = "take XBUF_SIZE (drop poff data)"
  define amper where "amper = length (takeWhile (\<lambda>c. \<not> is_url_end c) ?w)"
  define fin where "fin \<longleftrightarrow> amper + poff < length data \<and> is_url_end (data ! (amper + poff))"
  define delta where "delta = min amper (XBUF_SIZE - length p)"
  define seg where "seg = take delta (drop poff data)"
  have lp: "length p \<le> 2" using assms(1) p by (auto simp: url_inv_def)
  have amp: "amper \<le> length ?w" unfolding amper_def by (rule length_takeWhile_le)
  have len: "length seg = delta" using amp assms(2) by (auto simp: seg_def delta_def)
  let ?k = "pending_length (p @ seg)"
  have k: "?k \<le> 2" "?k \<le> length (p @ seg)" by (rule pending_length_le)+
  obtain xb where xb: "blit (xbuf pp) 0 (drop (length (p @ seg) - ?k) (p @ seg)) = Some xb"
    "length xb = 8" "take ?k xb = drop (length (p @ seg) - ?k) (p @ seg)"
    using blit_kept [OF k(2), of "xbuf pp"] k(1) assms(1) by (auto simp: url_inv_def)
  have take_amper: "take amper (drop poff data) = takeWhile (\<lambda>c. \<not> is_url_end c) ?w"
    using amp by (metis amper_def takeWhile_eq_take take_take min.absorb1 length_take min_def)
  have "seg = take delta (take amper (drop poff data))" by (simp add: seg_def delta_def min_def)
  then have noend: "\<forall>c \<in> set seg. \<not> is_url_end c"
    unfolding take_amper by (auto dest: in_set_takeD set_takeWhileD)
  have at_end: "is_url_end (data ! (poff + amper))" if "amper < 512" "poff + amper < length data"
  proof -
    have "amper < length ?w" using that by (simp add: XBUF_SIZE_def)
    then have "is_url_end (?w ! amper)" unfolding amper_def by (meson nth_length_takeWhile)
    then show ?thesis using that by (simp add: XBUF_SIZE_def)
  qed
  show thesis
  proof (rule that)
    show "url_fill data poff pp = Some (pp\<lparr>xbuf := xb, xbuf_pos := ?k\<rparr>,
       take (length (p @ seg) - ?k) (p @ seg), poff + length seg, fin)"
    proof -
      have "slice (xbuf pp) 0 (xbuf_pos pp) = Some p" using assms(1) p by (simp add: slice_def url_inv_def)
      then show ?thesis
        unfolding url_fill_def Let_def
        by (simp only: bind.bind_lunit amper_def [symmetric] fin_def [symmetric] delta_def [symmetric]
            seg_def [symmetric] xb(1)) (use lp in \<open>simp add: len XBUF_SIZE_def\<close>)
    qed
    show "length xb = 8" "take ?k xb = drop (length (p @ seg) - ?k) (p @ seg)" by (rule xb)+
    show "drop poff data = seg @ drop (poff + length seg) data"
      using len by (simp add: seg_def) (metis append_take_drop_id drop_drop add.commute)
    show "\<forall>c \<in> set seg. \<not> is_url_end c" by (rule noend)
    show "poff + length seg < length data" if fin using that len by (auto simp: fin_def delta_def)
    show "poff + length seg = length data \<or> (fin \<and> is_url_end (data ! (poff + length seg)))" if "length seg < 500"
    proof -
      have "delta = amper" "amper < 512" using that len lp by (auto simp: delta_def XBUF_SIZE_def min_def split: if_splits)
      moreover have "poff + amper \<le> length data" using amp assms(2) by auto
      ultimately show ?thesis using at_end len by (auto simp: fin_def add.commute)
    qed
  qed
qed

lemma url_value_ok:
  assumes "url_inv pp" "poff < length data" "pp_state pp = PP_ProcessValue"
  shows "step_ok data poff pp (url_value ikvi data poff pp)"
proof -
  define p where "p = take (xbuf_pos pp) (xbuf pp)"
  obtain seg fin xb where f: "url_fill data poff pp = Some (pp\<lparr>xbuf := xb, xbuf_pos := pending_length (p @ seg)\<rparr>,
       take (length (p @ seg) - pending_length (p @ seg)) (p @ seg), poff + length seg, fin)"
    "length xb = 8" "drop poff data = seg @ drop (poff + length seg) data"
    "fin \<Longrightarrow> poff + length seg < length data"
    "length seg < 500 \<Longrightarrow> poff + length seg = length data \<or> (fin \<and> is_url_end (data ! (poff + length seg)))"
    using url_fill_eq [OF assms(1,2) p_def] by metis
  let ?pp = "pp\<lparr>xbuf := xb, xbuf_pos := pending_length (p @ seg)\<rparr>"
  have inv: "url_inv ?pp" using assms(1) f(2) pending_length_le(1) [of "p @ seg"] by (simp add: url_inv_def)
  have le: "poff + length seg \<le> length data"
    using arg_cong [OF f(3), of length] assms(2) by simp
  have zero: "fin \<and> is_url_end (data ! poff)" if "seg = []" using f(5) that assms(2) by auto
  have "step_ok data poff pp (url_deliver ikvi data ?pp x (poff + length seg) fin)" for x
    using inv le f(4) zero assms(3)
    by (cases "seg = []")
      (auto simp: step_ok_def url_deliver_def url_inv_def rd_at_def is_url_end_def Let_def
        split: prod.splits bool.splits)
  then show ?thesis
    using inv assms(2) by (auto simp: url_value_def f(1) step_ok_def)
qed

lemma url_step_ok:
  assumes "url_inv pp" "poff < length data"
  shows "step_ok data poff pp (url_step ikvi data poff pp)"
  using url_init_ok [OF assms] url_value_ok [OF assms] assms
  by (auto simp: url_step_def step_ok_def rd_at_def url_inv_def split: PP_State.splits)

lemma url_loop_total:
  assumes "url_inv pp"
  shows "\<exists>res pp'. url_loop ikvi data poff pp = Some (res, pp') \<and> url_inv pp' \<and> res \<noteq> Panic \<and> encoding pp' = encoding pp"
  using assms
proof (induction "2 * (length data - poff) + (if pp_state pp = PP_ExpectNewLine then 0 else 1)"
    arbitrary: poff pp rule: less_induct)
  case less
  show ?case
  proof (cases "poff < length data")
    case True
    note ok = url_step_ok [OF less.prems True, of ikvi]
    then obtain r where r: "url_step ikvi data poff pp = Some r" by (auto simp: step_ok_def split: option.splits)
    show ?thesis
    proof (cases r)
      case (Return res pp')
      then show ?thesis using ok r True by (subst url_loop.simps) (simp add: step_ok_def)
    next
      case (Continue poff' pp')
      then have c: "url_inv pp'" "encoding pp' = encoding pp" "poff' \<le> length data" "poff \<le> poff'"
        "poff < poff' \<or> pp_state pp = PP_ProcessValue \<and> pp_state pp' = PP_ExpectNewLine"
        using ok r by (auto simp: step_ok_def)
      have "\<exists>res pp''. url_loop ikvi data poff' pp' = Some (res, pp'') \<and> url_inv pp'' \<and> res \<noteq> Panic \<and> encoding pp'' = encoding pp'"
        using c True by (intro less.hyps) auto
      then show ?thesis using r Continue True c(2) by (subst url_loop.simps) simp
    qed
  qed (use less.prems in \<open>simp add: url_loop.simps\<close>)
qed

section \<open>Splitting escape sequences\<close>

definition plus_char :: "char \<Rightarrow> char" where
  "plus_char c = (if c = CHR ''+'' then CHR '' '' else c)"

text \<open>The text a raw value stands for.\<close>

definition decode :: "string \<Rightarrow> string" where
  "decode s = unescape (map plus_char s)"

lemma plus_char_simps [simp]:
  "plus_char c = CHR ''%'' \<longleftrightarrow> c = CHR ''%''" "plus_char c = NUL \<longleftrightarrow> c = NUL" "is_hex (plus_char c) \<longleftrightarrow> is_hex c"
  by (auto simp: plus_char_def is_hex_def toxdigitvalue_def isasciidigit_def less_eq_char_def)

lemma decode_Nil [simp]: "decode [] = []"
  by (simp add: decode_def)

lemma decode_ne: "x \<noteq> [] \<Longrightarrow> decode x \<noteq> []"
  by (cases x) (auto simp: decode_def)

lemma not_hex_percent [simp]: "\<not> is_hex CHR ''%''"
  by (simp add: is_hex_def toxdigitvalue_def isasciidigit_def less_eq_char_def)

lemma pending_snoc:
  "pending_length (x @ [c]) = (if c = CHR ''%'' then 1 else if x \<noteq> [] \<and> last x = CHR ''%'' then 2 else 0)"
  by (cases x rule: rev_cases) (auto simp: pending_length_def nth_append)

lemma pending_small:
  "pending_length [] = 0" "pending_length [c] = (if c = CHR ''%'' then 1 else 0)"
  "pending_length [b, c] = (if c = CHR ''%'' then 1 else if b = CHR ''%'' then 2 else 0)"
  "pending_length [a, b, c] = (if c = CHR ''%'' then 1 else if b = CHR ''%'' then 2 else 0)"
  using pending_snoc [of "[]" c] pending_snoc [of "[b]" c] pending_snoc [of "[a, b]" c]
  by (simp_all add: pending_length_def)

lemma pending_suffix: "pending_length (u @ v) = 0 \<Longrightarrow> pending_length v = 0"
proof (cases v rule: rev_cases)
  case (snoc w c)
  assume "pending_length (u @ v) = 0"
  then have "c \<noteq> CHR ''%''" "\<not> (u @ w \<noteq> [] \<and> last (u @ w) = CHR ''%'')"
    using pending_snoc [of "u @ w" c] snoc by (auto split: if_splits)
  then show ?thesis using pending_snoc [of w c] snoc by auto
qed (simp add: pending_small)

lemma unescape_append:
  assumes "b = [] \<or> hd b = CHR ''%'' \<or> pending_length a = 0"
  shows "unescape (a @ b) = unescape a @ unescape b"
  using assms
proof (induction a rule: unescape.induct)
  case (2 c s)
  have suffix: "pending_length s = 0" "pending_length (drop 2 s) = 0" if "pending_length (c # s) = 0"
    using pending_suffix [of "[c]" s] pending_suffix [of "c # take 2 s" "drop 2 s"] that by simp_all
  show ?case
  proof (cases "c = CHR ''%'' \<and> hex_pair_ahead s")
    case True
    then obtain h1 h2 s' where s: "s = h1 # h2 # s'" "is_hex h1" "is_hex h2" by (blast elim: hex_pair_aheadE)
    then have "unescape (s' @ b) = unescape s' @ unescape b"
      using 2(1) [OF True] 2(3) suffix by auto
    then show ?thesis using s True by (simp add: hex_pair_ahead_def)
  next
    case False
    have "c = CHR ''%'' \<Longrightarrow> \<not> hex_pair_ahead (s @ b)"
      using False 2(3) by (auto simp: hex_pair_ahead_def pending_small split: list.splits if_splits)
    then show ?thesis using 2(2) [OF False] 2(3) suffix False by auto
  qed
qed simp

text \<open>The processed part and the kept part of a buffer.\<close>

definition settled :: "string \<Rightarrow> string" where
  "settled x = take (length x - pending_length x) x"

definition kept :: "string \<Rightarrow> string" where
  "kept x = drop (length x - pending_length x) x"

lemma settle_Nil [simp]: "settled [] = []" "kept [] = []"
  by (simp_all add: settled_def kept_def)

lemma settle_append: "settled x @ kept x = x"
  by (simp add: settled_def kept_def)

lemma settle_rule:
  "kept (y @ [c]) = (if c = CHR ''%'' then [c] else if y \<noteq> [] \<and> last y = CHR ''%'' then [CHR ''%'', c] else [])"
  "settled (y @ [c]) = (if c = CHR ''%'' then y else if y \<noteq> [] \<and> last y = CHR ''%'' then butlast y else y @ [c])"
proof -
  have "kept (y @ [c]) = [CHR ''%'', c] \<and> settled (y @ [c]) = butlast y"
    if "c \<noteq> CHR ''%''" "y \<noteq> []" "last y = CHR ''%''"
  proof -
    have z: "y = butlast y @ [CHR ''%'']" using append_butlast_last_id [OF that(2)] that(3) by simp
    have "pending_length (y @ [c]) = 2" using that by (simp add: pending_snoc)
    then have "kept (y @ [c]) = drop (length y - 1) (y @ [c])" "settled (y @ [c]) = take (length y - 1) (y @ [c])"
      by (simp_all add: kept_def settled_def)
    moreover have "drop (length y - 1) (y @ [c]) = drop (length (butlast y)) (butlast y @ [CHR ''%'', c])"
      by (subst (2) z) simp
    ultimately show ?thesis by (simp add: butlast_conv_take)
  qed
  then show "kept (y @ [c]) = (if c = CHR ''%'' then [c] else if y \<noteq> [] \<and> last y = CHR ''%'' then [CHR ''%'', c] else [])"
    "settled (y @ [c]) = (if c = CHR ''%'' then y else if y \<noteq> [] \<and> last y = CHR ''%'' then butlast y else y @ [c])"
    by (auto simp: kept_def settled_def pending_snoc)
qed

lemma settle_snoc:
  "settled (x @ [c]) = settled x @ settled (kept x @ [c])" "kept (x @ [c]) = kept (kept x @ [c])"
proof -
  have "settled (x @ [c]) = settled x @ settled (kept x @ [c]) \<and> kept (x @ [c]) = kept (kept x @ [c])"
  proof (cases x rule: rev_cases)
    case (snoc y d)
    then show ?thesis
      using settle_rule [of "[]" c] settle_rule [of "[d]" c] settle_rule [of "[CHR ''%'', d]" c]
      by (auto simp: settle_rule butlast_append simp del: append_assoc)
        (metis append_butlast_last_id)
  qed simp
  then show "settled (x @ [c]) = settled x @ settled (kept x @ [c])" "kept (x @ [c]) = kept (kept x @ [c])" by auto
qed

lemma kept_hd: "kept x = [] \<or> hd (kept x) = CHR ''%''"
  by (cases x rule: rev_cases) (auto simp: settle_rule)

lemma kept_nil: "kept x = [] \<Longrightarrow> settled x = x \<and> pending_length x = 0"
  using settle_append [of x] by (cases x rule: rev_cases) (auto simp: settle_rule pending_snoc pending_small split: if_splits)

lemma pending_map: "pending_length (map plus_char x) = pending_length x"
  by (cases x rule: rev_cases) (auto simp: pending_small pending_snoc last_map)

lemma decode_append:
  "b = [] \<or> hd b = CHR ''%'' \<or> pending_length a = 0 \<Longrightarrow> decode (a @ b) = decode a @ decode b"
  unfolding decode_def map_append by (rule unescape_append) (auto simp: pending_map hd_map)

lemma settled_hd: "x \<noteq> [] \<Longrightarrow> settled x = [] \<or> hd (settled x) = hd x"
  using settle_append [of x] by (metis hd_append2)

lemma decode_settle: "decode (settled (x @ [c])) = decode (settled x) @ decode (settled (kept x @ [c]))"
proof -
  have "settled (kept x @ [c]) = [] \<or> hd (settled (kept x @ [c])) = CHR ''%'' \<or> pending_length (settled x) = 0"
    using kept_hd [of x] kept_nil [of x] settled_hd [of "kept x @ [c]"] by (cases "kept x") auto
  then show ?thesis by (subst settle_snoc(1)) (rule decode_append)
qed

section \<open>The byte machine\<close>

text \<open>
  The state of the machine: the raw key read so far, or the key and the text of the current value; the finished
  entries and the kept bytes. \<open>bsize\<close> is the size of the key buffer.
\<close>

datatype ustate = UKey string "(string \<times> string) list" string
  | UVal string string "(string \<times> string) list" string | UErr

definition decode_key :: "string \<Rightarrow> string" where
  "decode_key rk = c_str (decode rk)"

fun ustep :: "nat \<Rightarrow> ustate \<Rightarrow> char \<Rightarrow> ustate" where
  "ustep bsize (UKey rk es p) c =
     (if c = CHR ''='' then UVal (decode_key rk) [] es p
      else if length rk \<ge> bsize then UErr else UKey (rk @ [c]) es p)"
| "ustep bsize (UVal k v es p) c =
     (if c = CHR ''&'' then UKey [] (es @ [(k, v)]) p
      else UVal k (v @ decode (settled (p @ [c]))) es (kept (p @ [c])))"
| "ustep bsize UErr c = UErr"

abbreviation urun :: "nat \<Rightarrow> ustate \<Rightarrow> string \<Rightarrow> ustate" where
  "urun bsize \<equiv> foldl (ustep bsize)"

lemma urun_err [simp]: "urun bsize UErr data = UErr"
  by (induction data) auto

lemma urun_value:
  "CHR ''&'' \<notin> set seg \<Longrightarrow> kept p = p \<Longrightarrow> urun bsize (UVal k v es p) seg =
     UVal k (v @ decode (settled (p @ seg))) es (kept (p @ seg))"
proof (induction seg rule: rev_induct)
  case Nil
  have "settled p = []" using settle_append [of p] Nil(2) by simp
  then show ?case using Nil by simp
next
  case (snoc c seg)
  then show ?case
    using settle_snoc(2) [of "p @ seg" c] decode_settle [of "p @ seg" c] by auto
qed

lemma urun_key:
  "CHR ''='' \<notin> set seg \<Longrightarrow> urun bsize (UKey rk es p) seg =
     (if length rk + length seg > bsize \<and> seg \<noteq> [] then UErr else UKey (rk @ seg) es p)"
  by (induction seg arbitrary: rk) auto

text \<open>An application that joins the pieces of a value.\<close>

definition gather :: "(string \<times> string) list post_data_iterator" where
  "gather es k f t e data off =
     (True, if off = 0 then es @ [(the k, data)]
            else butlast es @ [(fst (last es), snd (last es) @ data)])"

definition kept_ok :: "string \<Rightarrow> 'c MHD_PostProcessor \<Rightarrow> bool" where
  "kept_ok p pp \<longleftrightarrow> xbuf_pos pp = length p \<and> take (length p) (xbuf pp) = p \<and> kept p = p \<and> c_string p"

fun refines :: "ustate \<Rightarrow> (string \<times> string) list MHD_PostProcessor \<Rightarrow> bool" where
  "refines (UKey rk es p) pp \<longleftrightarrow> url_inv pp \<and> pp_state pp = PP_Init \<and> buffer_pos pp = length rk
     \<and> take (length rk) (buf pp) = rk \<and> c_string rk \<and> cls pp = es \<and> kept_ok p pp"
| "refines (UVal k v es p) pp \<longleftrightarrow> url_inv pp \<and> pp_state pp = PP_ProcessValue \<and> buffer_pos pp = 0
     \<and> c_str (buf pp) = k \<and> value_offset pp = word_of_nat (length v)
     \<and> cls pp = (if v = [] then es else es @ [(k, v)]) \<and> kept_ok p pp"
| "refines UErr pp \<longleftrightarrow> pp_state pp = PP_Error"

definition plain :: "string \<Rightarrow> bool" where
  "plain s \<longleftrightarrow> c_string s \<and> CR \<notin> set s \<and> LF \<notin> set s"

lemma http_unescape_memory:
  assumes "c_string x"
  shows "\<exists>g. MHD_http_unescape (MHD_unescape_plus (x @ NUL # r)) = (decode x @ NUL # g, length (decode x))"
proof -
  have "MHD_unescape_plus (x @ NUL # r) = map plus_char x @ NUL # r"
    using unescape_plus_memory [OF assms] by (simp add: plus_char_def [abs_def])
  moreover have "c_string (map plus_char x)" using assms by (auto simp: c_string_def) (metis plus_char_simps(2))
  ultimately show ?thesis
    using http_unescape_loop_correct [of "map plus_char x" "[]" "[]" r]
    by (auto simp: MHD_http_unescape_def decode_def)
qed

lemma c_str_NUL: "c_str (s @ NUL # g) = c_str s"
  by (induction s) (auto simp: c_str_def)

lemma unescape_memory_length: "length (fst (MHD_http_unescape (MHD_unescape_plus m))) = length m"
  by (simp add: MHD_http_unescape_def http_unescape_length)

text \<open>One iteration consumes input the way the machine does.\<close>

definition advances :: "nat \<Rightarrow> ustate \<Rightarrow> string \<Rightarrow> nat \<Rightarrow> (string \<times> string) list pp_step option \<Rightarrow> bool" where
  "advances bs u data poff r = (case r of
      Some (Continue poff' pp') \<Rightarrow> poff < poff' \<and> poff' \<le> length data
        \<and> refines (urun bs u (take (poff' - poff) (drop poff data))) pp' \<and> buffer_size pp' = bs
    | Some (Return res pp') \<Rightarrow> refines (urun bs u (drop poff data)) pp' \<and> buffer_size pp' = bs
        \<and> res = Ret (urun bs u (drop poff data) \<noteq> UErr)
    | None \<Rightarrow> False)"

lemma url_init_refines:
  assumes "refines (UKey rk es p) pp" "poff < length data" "plain data"
  shows "advances (buffer_size pp) (UKey rk es p) data poff (url_init data poff pp)"
proof -
  define seg where "seg = takeWhile (\<lambda>c. c \<noteq> CHR ''='') (drop poff data)"
  have seg: "CHR ''='' \<notin> set seg" "take (length seg) (drop poff data) = seg" "length seg \<le> length data - poff"
    using length_takeWhile_le [of "\<lambda>c. c \<noteq> CHR ''=''" "drop poff data"]
    by (auto simp: seg_def dest: set_takeWhileD intro: takeWhile_eq_take [symmetric])
  have cs: "c_string seg" using assms(3) unfolding seg_def plain_def c_string_def
    by (meson in_set_dropD set_takeWhileD)
  show ?thesis
  proof (cases "length seg + length rk > buffer_size pp")
    case True
    then have "seg \<noteq> []" using assms(1) by (auto simp: url_inv_def)
    moreover have "drop poff data = seg @ drop (length seg) (drop poff data)" using seg(2) by (metis append_take_drop_id)
    ultimately have "urun (buffer_size pp) (UKey rk es p) (drop poff data) = UErr"
      using True urun_key [OF seg(1)] by (metis add.commute foldl_append urun_err)
    then show ?thesis using True assms(1) by (simp add: url_init_def seg_def advances_def)
  next
    case False
    define m where "m = rk @ seg @ drop (length rk + length seg) (buf pp)"
    have blit: "blit (buf pp) (buffer_pos pp) (take (length seg) (drop poff data)) = Some m"
      using False assms(1) seg(2) by (simp add: blit_def m_def url_inv_def)
    have key: "urun (buffer_size pp) (UKey rk es p) seg = UKey (rk @ seg) es p"
      using urun_key [OF seg(1)] False by auto
    show ?thesis
    proof (cases "length seg + poff = length data")
      case True
      then have "drop poff data = seg" using seg(2) by auto
      then show ?thesis
        using True False blit key assms(1) cs unfolding url_init_def seg_def [symmetric] Let_def
        by (simp add: m_def url_inv_def kept_ok_def advances_def)
    next
      case lt: False
      let ?n = "length rk + length seg" and ?rest = "drop (Suc (length rk + length seg)) (buf pp)"
      have at: "data ! (poff + length seg) = CHR ''=''" "poff + length seg < length data"
        using lt seg(3) assms(2) nth_length_takeWhile [of "\<lambda>c. c \<noteq> CHR ''=''" "drop poff data"] by (auto simp: seg_def)
      have tk: "take (Suc (length seg)) (drop poff data) = seg @ [CHR ''='']"
        using at seg(2) by (simp add: take_Suc_conv_app_nth)
      have n: "?n < length (buf pp)" using False assms(1) by (simp add: url_inv_def)
      then have "drop ?n (buf pp) = buf pp ! ?n # ?rest" by (simp add: Cons_nth_drop_Suc)
      then have wr: "wr_at m ?n NUL = Some ((rk @ seg) @ NUL # ?rest)"
        using n by (simp add: wr_at_def m_def list_update_append)
      have "c_string (rk @ seg)" using cs assms(1) by simp
      then obtain g where g: "MHD_http_unescape (MHD_unescape_plus ((rk @ seg) @ NUL # ?rest)) =
          (decode (rk @ seg) @ NUL # g, length (decode (rk @ seg)))"
        using http_unescape_memory by blast
      have len: "length (decode (rk @ seg) @ NUL # g) = length (buf pp)"
        using unescape_memory_length [of "(rk @ seg) @ NUL # ?rest"] n unfolding g by simp
      show ?thesis
        using False lt blit wr g key tk at len assms(1,2)
        by (simp add: url_init_def seg_def [symmetric] url_inv_def kept_ok_def Let_def c_str_NUL decode_key_def advances_def)
    qed
  qed
qed

lemma gather_new: "gather es k f t e d 0 = (True, es @ [(the k, d)])"
  by (simp add: gather_def)

lemma gather_more: "off \<noteq> 0 \<Longrightarrow> gather (es @ [(k, v)]) kk f t e d off = (True, es @ [(k, v @ d)])"
  by (simp add: gather_def)

text \<open>The call of the application, on the bytes \<open>out\<close>.\<close>

lemma url_deliver_refines:
  assumes "refines (UVal k v es p0) pp" "kept_ok p pp" "c_string out" "length v < 2 ^ 64"
    and "out = [] \<Longrightarrow> fin \<and> data ! poff = CHR ''&''" and "fin \<Longrightarrow> poff < length data" "plain data"
  shows "\<exists>poff' pp'. url_deliver gather data pp out poff fin = Some (Continue poff' pp')
    \<and> buffer_size pp' = buffer_size pp
    \<and> (poff' = poff \<and> out \<noteq> [] \<and> refines (UVal k (v @ decode out) es p) pp'
       \<or> poff' = poff + 1 \<and> fin \<and> data ! poff = CHR ''&'' \<and> refines (UKey [] (es @ [(k, v @ decode out)]) p) pp')"
proof -
  obtain g where g: "MHD_http_unescape (MHD_unescape_plus (out @ [NUL])) = (decode out @ NUL # g, length (decode out))"
    using http_unescape_memory [OF assms(3)] by blast
  have off: "value_offset pp = 0 \<longleftrightarrow> v = []"
    using assms(1,4) by (auto simp: word_unat_eq_iff unat_of_nat)
  have ev: "gather (cls pp) (Some (c_str (buf pp))) None None None (decode out) (value_offset pp) =
      (True, es @ [(k, v @ decode out)])"
    using assms(1) off by (cases "v = []") (simp_all add: gather_new gather_more)
  have "data ! poff \<noteq> LF" "data ! poff \<noteq> CR" if fin
    using assms(6) that assms(7) by (auto simp: plain_def dest: nth_mem)
  then show ?thesis
    using assms(1,2,5,6) g ev decode_ne [of out]
    by (auto simp: url_deliver_def rd_at_def Let_def url_inv_def kept_ok_def)
qed

lemma kept_idem: "kept (kept x) = kept x"
  by (cases x rule: rev_cases) (auto simp: settle_rule settle_rule(1) [of "[]", simplified] settle_rule(1) [of "[_]", simplified])

lemma settled_kept_nil: "kept p = p \<Longrightarrow> settled p = []"
  using settle_append [of p] by simp

lemma length_kept: "length (kept x) = pending_length x"
  using pending_length_le(2) [of x] by (simp add: kept_def)

text \<open>The next piece of a value: what is taken from the data and what is decoded of it.\<close>

lemma url_segment:
  assumes "refines (UVal k v es p) pp" "poff < length data" "plain data"
  obtains seg fin pp1 where
    "url_value gather data poff pp = (if settled (p @ seg) = [] \<and> poff + length seg = length data then Some (Continue (poff + length seg) pp1)
       else url_deliver gather data pp1 (settled (p @ seg)) (poff + length seg) fin)"
    "refines (UVal k v es (kept (p @ seg))) pp1" "kept_ok (kept (p @ seg)) pp1" "buffer_size pp1 = buffer_size pp" "c_string (settled (p @ seg))"
    "\<And>bs. urun bs (UVal k v es p) seg = UVal k (v @ decode (settled (p @ seg))) es (kept (p @ seg))"
    "take (length seg) (drop poff data) = seg" "poff + length seg \<le> length data" "fin \<Longrightarrow> poff + length seg < length data"
    "settled (p @ seg) \<noteq> [] \<Longrightarrow> seg \<noteq> []"
    "settled (p @ seg) = [] \<Longrightarrow> poff + length seg \<noteq> length data \<Longrightarrow> fin \<and> data ! (poff + length seg) = CHR ''&''"
proof -
  have inv: "url_inv pp" and p: "p = take (xbuf_pos pp) (xbuf pp)" "kept p = p" "c_string p"
    using assms(1) by (auto simp: kept_ok_def)
  obtain seg fin xb where f: "url_fill data poff pp = Some (pp\<lparr>xbuf := xb, xbuf_pos := pending_length (p @ seg)\<rparr>,
       take (length (p @ seg) - pending_length (p @ seg)) (p @ seg), poff + length seg, fin)"
    "length xb = 8" "take (pending_length (p @ seg)) xb = drop (length (p @ seg) - pending_length (p @ seg)) (p @ seg)"
    "drop poff data = seg @ drop (poff + length seg) data" "\<forall>c \<in> set seg. \<not> is_url_end c"
    "fin \<Longrightarrow> poff + length seg < length data"
    "length seg < 500 \<Longrightarrow> poff + length seg = length data \<or> (fin \<and> is_url_end (data ! (poff + length seg)))"
    using url_fill_eq [OF inv assms(2) p(1)] by metis
  let ?pp = "pp\<lparr>xbuf := xb, xbuf_pos := pending_length (p @ seg)\<rparr>"
  have le: "poff + length seg \<le> length data" using arg_cong [OF f(4), of length] assms(2) by simp
  have tk: "take (length seg) (drop poff data) = seg" by (subst f(4)) simp
  have cs: "c_string (p @ seg)"
    using p(3) tk assms(3) by (auto simp: c_string_def plain_def dest: in_set_takeD in_set_dropD) (metis in_set_takeD in_set_dropD)
  have out: "c_string (settled (p @ seg))" using cs by (auto simp: settled_def c_string_def dest: in_set_takeD)
  have ck: "c_string (kept (p @ seg))" using cs by (auto simp: kept_def c_string_def dest: in_set_dropD)
  have ok: "kept_ok (kept (p @ seg)) ?pp"
    using f(3) ck by (simp add: kept_ok_def length_kept kept_idem) (simp add: kept_def)
  have ref: "refines (UVal k v es (kept (p @ seg))) ?pp"
    using assms(1) ok f(2) pending_length_le(1) [of "p @ seg"] by (auto simp: url_inv_def)
  have amp: "CHR ''&'' \<notin> set seg" using f(5) by (auto simp: is_url_end_def)
  have val: "url_value gather data poff pp = (if settled (p @ seg) = [] \<and> poff + length seg = length data then Some (Continue (poff + length seg) ?pp)
       else url_deliver gather data ?pp (settled (p @ seg)) (poff + length seg) fin)"
    by (simp add: url_value_def f(1) settled_def)
  have stop: "fin \<and> data ! (poff + length seg) = CHR ''&''" if "settled (p @ seg) = []" "poff + length seg \<noteq> length data"
  proof -
    have "length (p @ seg) = pending_length (p @ seg)" using that(1) settle_append [of "p @ seg"] length_kept [of "p @ seg"] by simp
    then have "length seg < 500" using pending_length_le(1) [of "p @ seg"] by simp
    then have e: "fin" "is_url_end (data ! (poff + length seg))" using f(7) that(2) by auto
    have "data ! (poff + length seg) \<in> set data" using f(6) [OF e(1)] by (rule nth_mem)
    then show ?thesis using e assms(3) by (auto simp: is_url_end_def plain_def)
  qed
  show thesis
    by (rule that [OF val ref ok _ out urun_value [OF amp p(2)] tk le f(6) _ stop]) (use settled_kept_nil [OF p(2)] in auto)
qed

lemma url_value_refines:
  assumes "refines (UVal k v es p) pp" "poff < length data" "plain data" "length v < 2 ^ 64"
  shows "advances (buffer_size pp) (UVal k v es p) data poff (url_value gather data poff pp)"
proof -
  obtain seg fin pp1 where s:
    "url_value gather data poff pp = (if settled (p @ seg) = [] \<and> poff + length seg = length data then Some (Continue (poff + length seg) pp1)
       else url_deliver gather data pp1 (settled (p @ seg)) (poff + length seg) fin)"
    "refines (UVal k v es (kept (p @ seg))) pp1" "kept_ok (kept (p @ seg)) pp1" "buffer_size pp1 = buffer_size pp" "c_string (settled (p @ seg))"
    "\<And>bs. urun bs (UVal k v es p) seg = UVal k (v @ decode (settled (p @ seg))) es (kept (p @ seg))"
    "take (length seg) (drop poff data) = seg" "poff + length seg \<le> length data" "fin \<Longrightarrow> poff + length seg < length data"
    "settled (p @ seg) \<noteq> [] \<Longrightarrow> seg \<noteq> []"
    "settled (p @ seg) = [] \<Longrightarrow> poff + length seg \<noteq> length data \<Longrightarrow> fin \<and> data ! (poff + length seg) = CHR ''&''"
    by (rule url_segment [OF assms(1-3)]) (rule that; assumption)
  define out where "out = settled (p @ seg)"
  show ?thesis
  proof (cases "out = [] \<and> poff + length seg = length data")
    case True
    then show ?thesis using assms(2) s(1,2,4,6,7) by (auto simp: advances_def out_def)
  next
    case False
    have fin: "fin \<and> data ! (poff + length seg) = CHR ''&''" if "out = []" using s(11) that False by (simp add: out_def)
    have cs: "c_string out" using s(5) by (simp add: out_def)
    obtain poff' pp' where d: "url_deliver gather data pp1 out (poff + length seg) fin = Some (Continue poff' pp')" "buffer_size pp' = buffer_size pp"
      "poff' = poff + length seg \<and> out \<noteq> [] \<and> refines (UVal k (v @ decode out) es (kept (p @ seg))) pp'
       \<or> poff' = poff + length seg + 1 \<and> fin \<and> data ! (poff + length seg) = CHR ''&''
         \<and> refines (UKey [] (es @ [(k, v @ decode out)]) (kept (p @ seg))) pp'"
      using url_deliver_refines [OF s(2,3) cs assms(4) fin s(9) assms(3)] s(4) by auto
    have val: "url_value gather data poff pp = Some (Continue poff' pp')" using s(1) False d(1) by (auto simp: out_def)
    from d(3) show ?thesis
    proof (elim disjE conjE)
      assume "poff' = poff + length seg" "out \<noteq> []" "refines (UVal k (v @ decode out) es (kept (p @ seg))) pp'"
      then show ?thesis using val d(2) s(6,7,8,10) by (simp add: advances_def out_def)
    next
      assume a: "poff' = poff + length seg + 1" fin "data ! (poff + length seg) = CHR ''&''"
        "refines (UKey [] (es @ [(k, v @ decode out)]) (kept (p @ seg))) pp'"
      have "take (Suc (length seg)) (drop poff data) = seg @ [CHR ''&'']"
        using a(3) s(9) [OF a(2)] s(7) by (simp add: take_Suc_conv_app_nth)
      then show ?thesis using val d(2) a s(9) [OF a(2)] s(6) by (simp add: advances_def out_def)
    qed
  qed
qed

text \<open>The length of the current value, with what is kept for it.\<close>

fun usize :: "ustate \<Rightarrow> nat" where
  "usize (UVal k v es p) = length v + length p"
| "usize (UKey rk es p) = length p"
| "usize UErr = 0"

lemma decode_length: "length (decode x) \<le> length x"
  using unescape_length [of "map plus_char x"] by (simp add: decode_def)

lemma usize_step: "usize (ustep bs u c) \<le> usize u + 1"
proof (cases u)
  case (UVal k v es p)
  have "length (settled (p @ [c])) + length (kept (p @ [c])) = length p + 1"
    using arg_cong [OF settle_append [of "p @ [c]"], of length] by simp
  then show ?thesis using UVal decode_length [of "settled (p @ [c])"] by simp
qed auto

lemma usize_run: "usize (urun bs u s) \<le> usize u + length s"
proof (induction s rule: rev_induct)
  case (snoc c s)
  then show ?case using usize_step [of bs "urun bs u s" c] by simp
qed simp

lemma url_step_refines:
  assumes "refines u pp" "poff < length data" "plain data" "usize u < 2 ^ 64"
  shows "advances (buffer_size pp) u data poff (url_step gather data poff pp)"
proof (cases u)
  case (UKey rk es p)
  then show ?thesis using assms url_init_refines [of rk es p pp poff data] by (simp add: url_step_def)
next
  case (UVal k v es p)
  then show ?thesis using assms url_value_refines [of k v es p pp poff data] by (simp add: url_step_def)
next
  case UErr
  then show ?thesis using assms by (simp add: url_step_def advances_def)
qed

lemma url_loop_refines:
  assumes "refines u pp" "plain data" "poff \<le> length data" "usize u + (length data - poff) < 2 ^ 64"
  shows "\<exists>res pp'. url_loop gather data poff pp = Some (res, pp')
    \<and> refines (urun (buffer_size pp) u (drop poff data)) pp' \<and> buffer_size pp' = buffer_size pp
    \<and> (urun (buffer_size pp) u (drop poff data) \<noteq> UErr \<longrightarrow> res = Ret True)"
  using assms
proof (induction "length data - poff" arbitrary: poff pp u rule: less_induct)
  case less
  show ?case
  proof (cases "poff < length data")
    case True
    have adv: "advances (buffer_size pp) u data poff (url_step gather data poff pp)"
      using url_step_refines [OF less.prems(1) True less.prems(2)] less.prems(4) by simp
    then obtain r where r: "url_step gather data poff pp = Some r" by (auto simp: advances_def split: option.splits)
    show ?thesis
    proof (cases r)
      case (Return res pp')
      then show ?thesis using adv r True by (subst url_loop.simps) (auto simp: advances_def)
    next
      case (Continue poff' pp')
      let ?seg = "take (poff' - poff) (drop poff data)"
      have c: "poff < poff'" "poff' \<le> length data" "refines (urun (buffer_size pp) u ?seg) pp'"
        "buffer_size pp' = buffer_size pp"
        using adv r Continue by (auto simp: advances_def)
      have sz: "usize (urun (buffer_size pp) u ?seg) + (length data - poff') < 2 ^ 64"
        using usize_run [of "buffer_size pp" u ?seg] less.prems(4) c(1,2) by simp
      have "drop poff data = ?seg @ drop poff' data"
        using c(1) by (metis append_take_drop_id drop_drop le_add_diff_inverse2 less_imp_le)
      then have split: "urun (buffer_size pp) u (drop poff data) =
          urun (buffer_size pp) (urun (buffer_size pp) u ?seg) (drop poff' data)"
        by (metis foldl_append)
      show ?thesis
        using less.hyps [OF _ c(3) less.prems(2) c(2) sz] c r Continue True split
        by (subst url_loop.simps) auto
    qed
  qed (use less.prems in \<open>simp add: url_loop.simps\<close>)
qed

section \<open>Sequences of calls\<close>

text \<open>
  A request body arrives in pieces: the application creates a processor, gives it the pieces in order and destroys
  it at the end. It stops at the first piece that is not accepted.
\<close>

fun post_process_all ::
  "(nat \<Rightarrow> bool) \<Rightarrow> 'c post_data_iterator \<Rightarrow> 'c MHD_PostProcessor \<Rightarrow> string list
     \<Rightarrow> (outcome \<times> 'c MHD_PostProcessor) option" where
  "post_process_all alloc ikvi pp [] = Some (Ret True, pp)"
| "post_process_all alloc ikvi pp (d # ds) =
     (case MHD_post_process alloc ikvi (Some pp) d of
        Some (r, Some pp') \<Rightarrow> if r = Ret True then post_process_all alloc ikvi pp' ds else Some (r, pp')
      | _ \<Rightarrow> None)"

definition post_body ::
  "(nat \<Rightarrow> bool) \<Rightarrow> conn_values \<Rightarrow> nat \<Rightarrow> 'c post_data_iterator \<Rightarrow> 'c \<Rightarrow> string list \<Rightarrow> (outcome \<times> 'c) option" where
  "post_body alloc connection bsize ikvi cl ds =
     (case MHD_create_post_processor True (Some connection) bsize True cl of
        Created pp \<Rightarrow> do {
          (r, pp) \<leftarrow> post_process_all alloc ikvi pp ds;
          (r', cl) \<leftarrow> MHD_destroy_post_processor ikvi pp;
          Some (if r = Ret True then r' else r, cl)
        }
      | _ \<Rightarrow> None)"

abbreviation is_urlencoded :: "string \<Rightarrow> bool" where
  "is_urlencoded ctype \<equiv> MHD_str_equal_caseless_n FORM_URLENCODED ctype (length FORM_URLENCODED)"

lemma post_process_url:
  assumes "refines u pp" "url_inv pp" "is_urlencoded (encoding pp)" "plain d" "usize u + length d < 2 ^ 64"
    and "urun (buffer_size pp) u d \<noteq> UErr"
  shows "\<exists>pp'. MHD_post_process alloc gather (Some pp) d = Some (Ret True, Some pp') \<and> url_inv pp'
    \<and> refines (urun (buffer_size pp) u d) pp' \<and> buffer_size pp' = buffer_size pp \<and> encoding pp' = encoding pp"
proof (cases "d = []")
  case False
  then show ?thesis
    using url_loop_refines [of u pp d 0] url_loop_total [OF assms(2), of gather d 0] assms
    by (auto simp: MHD_post_process_def post_process_urlencoded_def)
qed (use assms in \<open>simp add: MHD_post_process_def\<close>)

lemma post_process_all_url:
  assumes "refines u pp" "url_inv pp" "is_urlencoded (encoding pp)" "plain (concat ds)"
    and "usize u + length (concat ds) < 2 ^ 64" "urun (buffer_size pp) u (concat ds) \<noteq> UErr"
  shows "\<exists>pp'. post_process_all alloc gather pp ds = Some (Ret True, pp') \<and> url_inv pp'
    \<and> refines (urun (buffer_size pp) u (concat ds)) pp'"
  using assms
proof (induction ds arbitrary: u pp)
  case (Cons d ds)
  have pl: "plain d" "plain (concat ds)" using Cons.prems(4) by (auto simp: plain_def)
  have ne: "urun (buffer_size pp) u d \<noteq> UErr" using Cons.prems(6) by auto
  obtain pp' where p: "MHD_post_process alloc gather (Some pp) d = Some (Ret True, Some pp')" "url_inv pp'"
    "refines (urun (buffer_size pp) u d) pp'" "buffer_size pp' = buffer_size pp" "encoding pp' = encoding pp"
    using post_process_url [OF Cons.prems(1,2,3) pl(1) _ ne] Cons.prems(5) by auto
  have "usize (urun (buffer_size pp) u d) + length (concat ds) < 2 ^ 64"
    using usize_run [of "buffer_size pp" u d] Cons.prems(5) by simp
  then show ?case
    using Cons.IH [OF p(3,2)] p(1,4,5) Cons.prems(3,6) pl(2) by simp
qed auto

text \<open>What the destruction adds: the value that is still open.\<close>

fun ufinish :: "ustate \<Rightarrow> outcome \<times> (string \<times> string) list" where
  "ufinish (UKey rk es p) = (Ret False, es)"
| "ufinish (UVal k v es p) = (Ret (p = []), es @ [(k, v)])"
| "ufinish UErr = (Ret False, [])"

lemma destroy_value:
  assumes "refines (UVal k v es p) pp" "length v < 2 ^ 64"
  shows "MHD_destroy_post_processor gather pp = Some (Ret (p = []), es @ [(k, v)])"
proof -
  have inv: "url_inv pp" and p: "p = take (xbuf_pos pp) (xbuf pp)" "kept p = p"
    using assms(1) by (auto simp: kept_ok_def)
  have lt: "0 < length [LF]" by simp
  obtain seg fin xb where f: "url_fill [LF] 0 pp = Some (pp\<lparr>xbuf := xb, xbuf_pos := pending_length (p @ seg)\<rparr>,
       take (length (p @ seg) - pending_length (p @ seg)) (p @ seg), 0 + length seg, fin)"
    "drop 0 [LF] = seg @ drop (0 + length seg) [LF]" "\<forall>c \<in> set seg. \<not> is_url_end c"
    "length seg < 500 \<Longrightarrow> 0 + length seg = length [LF] \<or> (fin \<and> is_url_end ([LF] ! (0 + length seg)))"
    using url_fill_eq [OF inv lt p(1)] by metis
  have seg: "seg = []" using f(2,3) by (cases seg) (auto simp: is_url_end_def)
  have pend: "pending_length p = length p" using length_kept [of p] p(2) by simp
  have fill: "url_fill [LF] 0 pp = Some (pp\<lparr>xbuf := xb, xbuf_pos := length p\<rparr>, [], 0, True)"
    using f(1,4) seg pend by simp
  obtain g where g: "MHD_http_unescape (MHD_unescape_plus ([] @ [NUL])) = (decode [] @ NUL # g, length (decode []))"
    using http_unescape_memory [of "[]"] by (auto simp: c_string_def)
  have off: "value_offset pp = 0 \<longleftrightarrow> v = []"
    using assms by (auto simp: word_unat_eq_iff unat_of_nat)
  have ev: "gather (cls pp) (Some (c_str (buf pp))) None None None [] (value_offset pp) = (True, es @ [(k, v)])"
    using assms(1) off by (cases "v = []") (simp_all add: gather_new gather_more)
  have step: "url_step gather [LF] 0 pp = Some (Continue 0 (pp\<lparr>xbuf := xb, xbuf_pos := length p, must_ikvi := False,
      cls := es @ [(k, v)], value_offset := value_offset pp, pp_state := PP_ExpectNewLine\<rparr>))"
    using assms(1) g ev by (simp add: url_step_def url_value_def fill url_deliver_def rd_at_def Let_def)
  show ?thesis
    using assms(1)
    by (simp add: MHD_destroy_post_processor_def post_process_urlencoded_def url_loop.simps [of _ "[LF]"] step
        url_step_def [of _ _ _ "_\<lparr>pp_state := PP_ExpectNewLine\<rparr>"] rd_at_def)
qed

lemma destroy_refines:
  assumes "refines u pp" "usize u < 2 ^ 64" "u \<noteq> UErr"
  shows "MHD_destroy_post_processor gather pp = Some (ufinish u)"
  using assms destroy_value by (cases u) (auto simp: MHD_destroy_post_processor_def)

definition url_created :: "string \<Rightarrow> nat \<Rightarrow> 'c \<Rightarrow> 'c MHD_PostProcessor" where
  "url_created ctype bsize cl = \<lparr>encoding = ctype, boundary = None, nested_boundary = None, content_name = None,
     content_type = None, content_filename = None, content_transfer_encoding = None,
     xbuf = replicate 8 NUL, buffer_size = bsize + 4, buffer_pos = 0, xbuf_pos = 0,
     value_offset = 0, blen = 0, nlen = 0, must_ikvi = False, pp_state = PP_Init,
     skip_rn = RN_Inactive, dash_state = PP_Error, have_ne = NE_none,
     buf = replicate (bsize + 4 + 1) NUL, cls = cl\<rparr>"

lemma url_created_inv: "url_inv (url_created ctype bsize cl)"
  by (simp add: url_created_def url_inv_def)

lemma url_created_refines: "refines (UKey [] es []) (url_created ctype bsize es)"
  by (simp add: url_created_def url_inv_def kept_ok_def c_string_def)

lemma create_url:
  assumes "MHD_lookup_connection_value (Some connection) MHD_HEADER_KIND (Some MHD_HTTP_HEADER_CONTENT_TYPE) = Some ctype"
    and "is_urlencoded ctype" "256 \<le> bsize"
  shows "MHD_create_post_processor True (Some connection) bsize True cl = Created (url_created ctype bsize cl)"
  using assms by (simp add: MHD_create_post_processor_def url_created_def Let_def)

lemma post_body_machine:
  assumes "MHD_lookup_connection_value (Some connection) MHD_HEADER_KIND (Some MHD_HTTP_HEADER_CONTENT_TYPE) = Some ctype"
    and "is_urlencoded ctype" "256 \<le> bsize" "plain (concat ds)" "length (concat ds) < 2 ^ 64"
    and "urun (bsize + 4) (UKey [] [] []) (concat ds) \<noteq> UErr"
  shows "post_body alloc connection bsize gather [] ds = Some (ufinish (urun (bsize + 4) (UKey [] [] []) (concat ds)))"
proof -
  let ?pp = "url_created ctype bsize ([] :: (string \<times> string) list)"
  have bs: "buffer_size ?pp = bsize + 4" "encoding ?pp = ctype" by (simp_all add: url_created_def)
  obtain pp' where p: "post_process_all alloc gather ?pp ds = Some (Ret True, pp')"
    "refines (urun (bsize + 4) (UKey [] [] []) (concat ds)) pp'"
    using post_process_all_url [OF url_created_refines url_created_inv, of ctype bsize "[]" ds alloc] assms(2,4,5,6) bs by auto
  have "usize (urun (bsize + 4) (UKey [] [] []) (concat ds)) < 2 ^ 64"
    using usize_run [of "bsize + 4" "UKey [] [] []" "concat ds"] assms(5) by simp
  then show ?thesis
    using destroy_refines [OF p(2) _ assms(6)] p(1) create_url [OF assms(1,2,3), of "[] :: (string \<times> string) list"]
    by (cases "ufinish (urun (bsize + 4) (UKey [] [] []) (concat ds))") (simp add: post_body_def)
qed

text \<open>
  C12. Url-encoded data without line ends and null bytes gives the entries that the byte machine computes from the whole
  body, however the body is split into calls of the processor, as long as the machine does not run out of buffer for a key.
\<close>
theorem urlencoded_refines_machine:
  assumes "MHD_lookup_connection_value (Some connection) MHD_HEADER_KIND (Some MHD_HTTP_HEADER_CONTENT_TYPE) = Some ctype"
    and "is_urlencoded ctype" "256 \<le> bsize" "plain (concat ds)" "length (concat ds) < 2 ^ 64"
    and "urun (bsize + 4) (UKey [] [] []) (concat ds) \<noteq> UErr"
  shows "post_body alloc connection bsize gather [] ds = Some (ufinish (urun (bsize + 4) (UKey [] [] []) (concat ds)))"
  using assms by (rule post_body_machine)

section \<open>Printing and parsing a form\<close>

definition form_entry :: "string \<times> string \<Rightarrow> string" where
  "form_entry kv = enc (fst kv) @ CHR ''='' # enc (snd kv)"

fun form_body :: "(string \<times> string) list \<Rightarrow> string" where
  "form_body [] = []"
| "form_body [kv] = form_entry kv"
| "form_body (kv # kvs) = form_entry kv @ CHR ''&'' # form_body kvs"

lemma enc_snoc: "enc (s @ [c]) = enc s @ enc_char c"
  by (simp add: enc_def)

lemma hex_digit_percent: "n < 16 \<Longrightarrow> hex_digit n \<noteq> CHR ''%''"
  using hex_digit(2) [of n] alnum_safe by blast

lemma enc_last: "s \<noteq> [] \<Longrightarrow> last (enc s) \<noteq> CHR ''%''"
  using hex_digit_percent [OF char_nibbles(2)]
  by (cases s rule: rev_cases) (auto simp: enc_snoc enc_char_def dest: alnum_safe)

lemma enc_complete: "kept (enc s) = []" "settled (enc s) = enc s"
proof -
  have "kept (enc s) = []"
  proof (cases s rule: rev_cases)
    case (snoc t c)
    show ?thesis
    proof (cases "is_alnum c")
      case True
      then show ?thesis using snoc enc_last [of t] alnum_safe [OF True]
        by (cases "t = []") (auto simp: enc_snoc enc_char_def settle_rule enc_Nil enc_def settle_rule(1) [of "[]", simplified])
    next
      case False
      then have e: "enc s = (enc t @ [CHR ''%'', hex_digit (of_char c div 16)]) @ [hex_digit (of_char c mod 16)]"
        using snoc by (simp add: enc_snoc enc_char_def)
      show ?thesis unfolding e settle_rule
        using hex_digit_percent [OF char_nibbles(1) [of c]] hex_digit_percent [OF char_nibbles(2) [of c]] by simp
    qed
  qed (simp add: enc_def)
  then show "kept (enc s) = []" "settled (enc s) = enc s" using kept_nil by auto
qed

lemma decode_enc: "decode (enc s) = s"
proof -
  have "map plus_char (enc s) = enc s" using enc_safe(1) [of s] by (intro map_idI) (auto simp: plus_char_def)
  then show ?thesis by (simp add: decode_def unescape_enc)
qed

lemma urun_entry:
  assumes "c_string (fst kv)" "length (enc (fst kv)) \<le> bsize"
  shows "urun bsize (UKey [] es []) (form_entry kv) = UVal (fst kv) (snd kv) es []"
proof -
  have "c_str (fst kv) = fst kv" using assms(1) by (auto simp: c_str_def c_string_def takeWhile_eq_all_conv)
  then show ?thesis
    using assms urun_key [OF enc_safe(3) [of "fst kv"]] urun_value [OF enc_safe(2) [of "snd kv"], of "[]"]
    by (simp add: form_entry_def decode_key_def decode_enc enc_complete)
qed

lemma urun_form:
  assumes "\<forall>kv \<in> set kvs. c_string (fst kv) \<and> length (enc (fst kv)) \<le> bsize" "kvs \<noteq> []"
  shows "urun bsize (UKey [] es []) (form_body kvs) =
    UVal (fst (last kvs)) (snd (last kvs)) (es @ butlast kvs) []"
  using assms by (induction kvs arbitrary: es rule: form_body.induct) (simp_all add: urun_entry)

lemma plain_enc: "plain (enc s)"
proof -
  have "CR \<notin> set (enc s)" "LF \<notin> set (enc s)"
    using enc_chars [of s] by (auto simp: is_alnum_def less_eq_char_def)
  then show ?thesis using enc_safe(4) by (simp add: plain_def)
qed

lemma plain_form: "plain (form_body kvs)"
proof -
  have "plain (form_entry kv)" for kv
    using plain_enc [of "fst kv"] plain_enc [of "snd kv"] by (auto simp: plain_def form_entry_def)
  then show ?thesis by (induction kvs rule: form_body.induct) (auto simp: plain_def c_string_def)
qed

text \<open>
  C18. A form printed with percent encoding is parsed back to its entries, in order and with every byte of the values,
  however the body is split into calls, and the destruction of the processor reports success.
\<close>
theorem urlencoded_roundtrip:
  assumes "MHD_lookup_connection_value (Some connection) MHD_HEADER_KIND (Some MHD_HTTP_HEADER_CONTENT_TYPE) = Some ctype"
    and "is_urlencoded ctype" "256 \<le> bsize" "kvs \<noteq> []"
    and "\<forall>kv \<in> set kvs. c_string (fst kv) \<and> length (enc (fst kv)) \<le> bsize + 4"
    and "concat ds = form_body kvs" "length (concat ds) < 2 ^ 64"
  shows "post_body alloc connection bsize gather [] ds = Some (Ret True, kvs)"
proof -
  have run: "urun (bsize + 4) (UKey [] [] []) (concat ds) = UVal (fst (last kvs)) (snd (last kvs)) (butlast kvs) []"
    using urun_form [OF assms(5,4), of "[]"] assms(6) by simp
  show ?thesis
    using post_body_machine [OF assms(1,2,3) _ assms(7), of alloc] run plain_form [of kvs] assms(4,6) by simp
qed

section \<open>Every body is processed\<close>

lemma not_panic: "res \<noteq> Panic \<longleftrightarrow> (\<exists>b. res = Ret b)"
  by (cases res) auto

lemma post_process_url_total:
  assumes "url_inv pp" "is_urlencoded (encoding pp)"
  shows "\<exists>b pp'. MHD_post_process alloc ikvi (Some pp) d = Some (Ret b, Some pp') \<and> url_inv pp' \<and> encoding pp' = encoding pp"
  using url_loop_total [OF assms(1), of ikvi d 0] assms
  by (auto simp: MHD_post_process_def post_process_urlencoded_def not_panic)

lemma post_process_all_url_total:
  assumes "url_inv pp" "is_urlencoded (encoding pp)"
  shows "\<exists>b pp'. post_process_all alloc ikvi pp ds = Some (Ret b, pp') \<and> url_inv pp'"
  using assms
proof (induction ds arbitrary: pp)
  case (Cons d ds)
  obtain b pp' where "MHD_post_process alloc ikvi (Some pp) d = Some (Ret b, Some pp')" "url_inv pp'"
    "encoding pp' = encoding pp"
    using post_process_url_total [OF Cons.prems] by blast
  then show ?case using Cons.IH [of pp'] Cons.prems(2) by (cases b) auto
qed auto

lemma destroy_total:
  assumes "url_inv pp"
  shows "\<exists>b cl. MHD_destroy_post_processor ikvi pp = Some (Ret b, cl)"
  using url_loop_total [OF assms, of ikvi "[LF]" 0]
  by (auto simp: MHD_destroy_post_processor_def post_process_urlencoded_def)

text \<open>
  C23. Url-encoded processing ends on every body, in every split into calls and with every callback, stays inside the
  buffers of the processor and never reaches the panic of the state machine.
\<close>
theorem urlencoded_total:
  assumes "MHD_lookup_connection_value (Some connection) MHD_HEADER_KIND (Some MHD_HTTP_HEADER_CONTENT_TYPE) = Some ctype"
    and "is_urlencoded ctype" "256 \<le> bsize"
  shows "\<exists>b cl'. post_body alloc connection bsize ikvi cl ds = Some (Ret b, cl')"
proof -
  let ?pp = "url_created ctype bsize cl"
  have enc: "is_urlencoded (encoding ?pp)" using assms(2) by (simp add: url_created_def)
  obtain b pp' where p: "post_process_all alloc ikvi ?pp ds = Some (Ret b, pp')" "url_inv pp'"
    using post_process_all_url_total [OF url_created_inv enc] by blast
  show ?thesis
    using destroy_total [OF p(2), of ikvi] p(1) create_url [OF assms, of cl] by (auto simp: post_body_def)
qed

definition form_conn :: conn_values where
  "form_conn = \<lparr>pool = example_pool, headers_received =
     [\<lparr>hname = Some ''content-type'', hvalue = Some ''application/x-www-form-urlencoded; charset=utf-8'', hkind = 1\<rparr>]\<rparr>"

lemma form_conn_type:
  "MHD_lookup_connection_value (Some form_conn) MHD_HEADER_KIND (Some MHD_HTTP_HEADER_CONTENT_TYPE) =
     Some ''application/x-www-form-urlencoded; charset=utf-8''"
  "is_urlencoded ''application/x-www-form-urlencoded; charset=utf-8''"
  by code_simp+

theorem urlencoded_total_witness:
  "\<exists>b cl'. post_body (\<lambda>n. True) form_conn 256 (\<lambda>c k f t e d off. (False, c + 1)) (0 :: nat) [''a=%zz'', [LF, NUL]] = Some (Ret b, cl')"
  by (rule urlencoded_total [OF form_conn_type]) simp

theorem urlencoded_refines_machine_witness:
  "post_body (\<lambda>n. True) form_conn 256 gather [] [''a=1+2&b'', ''=%4'', ''1''] = Some (Ret True, [(''a'', ''1 2''), (''b'', ''A'')])"
proof -
  have "ufinish (urun (256 + 4) (UKey [] [] []) (concat [''a=1+2&b'', ''=%4'', ''1''])) = (Ret True, [(''a'', ''1 2''), (''b'', ''A'')])"
    "plain (concat [''a=1+2&b'', ''=%4'', ''1''])"
    "urun (256 + 4) (UKey [] [] []) (concat [''a=1+2&b'', ''=%4'', ''1'']) = UVal ''b'' ''A'' [(''a'', ''1 2'')] []"
    by code_simp+
  then show ?thesis
    using urlencoded_refines_machine [OF form_conn_type, of 256 "[''a=1+2&b'', ''=%4'', ''1'']" "\<lambda>n. True"] by simp
qed

theorem urlencoded_roundtrip_witness:
  "post_body (\<lambda>n. True) form_conn 256 gather [] [''k%2'', ''0=%00%2'', ''6&n=''] =
     Some (Ret True, [(''k '', [NUL, CHR ''&'']), (''n'', [])])"
proof -
  have "concat [''k%2'', ''0=%00%2'', ''6&n=''] = form_body [(''k '', [NUL, CHR ''&'']), (''n'', [])]"
    "\<forall>kv \<in> set [(''k '', [NUL, CHR ''&'']), (''n'', [])]. length (enc (fst kv)) \<le> 256 + 4"
    by code_simp+
  moreover have "length (concat [''k%2'', ''0=%00%2'', ''6&n='']) < 2 ^ 64"
    "\<forall>kv \<in> set [(''k '', [NUL, CHR ''&'']), (''n'', [])]. c_string (fst kv)"
    by (simp_all add: c_string_def)
  ultimately show ?thesis
    by (intro urlencoded_roundtrip [OF form_conn_type]) (simp_all del: form_body.simps)
qed


text \<open>
  A line end after the data is accepted when it comes in one call, and is an error when the call ends between its
  two bytes.
\<close>
lemma urlencoded_line_end_split:
  "post_body (\<lambda>n. True) form_conn 256 gather [] [''a=b'' @ [CR, LF]] = Some (Ret True, [(''a'', ''b'')])
   \<and> post_body (\<lambda>n. True) form_conn 256 gather [] [''a=b'' @ [CR], [LF]] = Some (Ret False, [(''a'', ''b'')])"
  by code_simp

end
