(* ===== verification/Post_Multipart.thy ===== *)
theory Post_Multipart
  imports Post_Url
begin

text \<open>
  Correctness of the multipart parser: the search for the delimiter that ends a value, memory safety and termination
  on every input, and what goes wrong with an unusual boundary and with nested parts.
\<close>

section \<open>Searching the delimiter\<close>

definition dashes :: string where
  "dashes = [CR, LF, CHR ''-'', CHR ''-'']"

definition occurs_at :: "string \<Rightarrow> string \<Rightarrow> nat \<Rightarrow> bool" where
  "occurs_at d s i \<longleftrightarrow> take (length d) (drop i s) = d"

lemma occurs_at_iff: "occurs_at d s i \<longleftrightarrow> (\<exists>r. drop i s = d @ r)"
  unfolding occurs_at_def by (metis append_take_drop_id append_eq_conv_conj)

lemma occurs_at_length: "occurs_at d s i \<Longrightarrow> d \<noteq> [] \<Longrightarrow> i + length d \<le> length s"
  unfolding occurs_at_def using length_take [of "length d" "drop i s"] by (cases "i \<le> length s") auto

lemma occurs_at_append: "occurs_at (d @ e) s i \<longleftrightarrow> occurs_at d s i \<and> occurs_at e s (i + length d)"
proof -
  have dr: "drop (i + length d) s = drop (length d) (drop i s)" by (simp add: add.commute)
  show ?thesis
  proof
    assume "occurs_at (d @ e) s i"
    then obtain r where "drop i s = d @ e @ r" by (auto simp: occurs_at_iff)
    then show "occurs_at d s i \<and> occurs_at e s (i + length d)" unfolding occurs_at_iff dr by simp
  next
    assume "occurs_at d s i \<and> occurs_at e s (i + length d)"
    then obtain r r' where "drop i s = d @ r" "drop (length d) (drop i s) = e @ r'" unfolding occurs_at_iff dr by blast
    then show "occurs_at (d @ e) s i" by (simp add: occurs_at_iff)
  qed
qed

lemma before_takeWhile: "k < length (takeWhile P w) \<Longrightarrow> P (w ! k)"
  by (metis nth_mem set_takeWhileD takeWhile_nth)

lemma occurs_at_hd: "occurs_at (c # d) s i \<Longrightarrow> i < length s \<and> s ! i = c"
  unfolding occurs_at_iff by (metis nth_via_drop drop_all not_le append_Cons list.distinct(1))

lemma occurs_at_nth: "occurs_at d s i \<Longrightarrow> k < length d \<Longrightarrow> s ! (i + k) = d ! k"
  unfolding occurs_at_iff
  by (metis drop_all linorder_not_less nth_append nth_drop Nil_is_append_conv list.size(3) not_less_zero nat_le_linear)

lemma occurs_at_slice: "i + length d \<le> length s \<Longrightarrow> occurs_at d s i \<longleftrightarrow> slice s i (length d) = Some d"
  by (simp add: occurs_at_def slice_def)

lemma no_CR_no_dashes:
  assumes "\<forall>j. i \<le> j \<and> j < k \<longrightarrow> s ! j \<noteq> CR" "i \<le> j" "j < k"
  shows "\<not> occurs_at dashes s j"
  using assms occurs_at_hd [of CR _ s j] by (auto simp: dashes_def)

text \<open>
  The inner loop stops at the first place where line end and dashes occur, or four bytes before the end of the buffer.
\<close>

lemma scan_newline_spec:
  assumes "bpos \<le> length mem" "newline \<le> bpos"
  shows "\<exists>m. scan_newline mem bpos newline = Some m \<and> newline \<le> m \<and> m \<le> max newline (bpos - 4)
    \<and> (\<forall>i. newline \<le> i \<and> i < m \<longrightarrow> \<not> occurs_at dashes mem i) \<and> (m + 4 < bpos \<longrightarrow> occurs_at dashes mem m)"
  using assms
proof (induction "bpos - newline" arbitrary: newline rule: less_induct)
  case less
  show ?case
  proof (cases "newline + 4 < bpos")
    case True
    define w where "w = take (bpos - newline - 4) (drop newline mem)"
    define i where "i = length (takeWhile (\<lambda>c. c \<noteq> CR) w)"
    have lw: "length w = bpos - newline - 4" using True less.prems by (simp add: w_def)
    have w: "slice mem newline (bpos - newline - 4) = Some w"
      using True less.prems by (simp add: slice_def w_def)
    have i: "i \<le> length w" unfolding i_def by (rule length_takeWhile_le)
    have nocr: "mem ! j \<noteq> CR" if "newline \<le> j" "j < newline + i" for j
    proof -
      have "w ! (j - newline) \<noteq> CR"
        using before_takeWhile [of "j - newline" "\<lambda>c. c \<noteq> CR" w] that by (auto simp: i_def)
      then show ?thesis using that i lw True less.prems by (simp add: w_def)
    qed
    have skip: "\<not> occurs_at dashes mem j" if "newline \<le> j" "j < newline + i" for j
      using no_CR_no_dashes [of newline "newline + i" mem j] nocr that by blast
    show ?thesis
    proof (cases "i = length w")
      case all: True
      then show ?thesis
        using True w skip lw by (intro exI [of _ "bpos - 4"]) (simp add: scan_newline.simps [of mem bpos newline] i_def [symmetric])
    next
      case False
      have ld: "length dashes = 4" by (simp add: dashes_def)
      have fit: "newline + i + 4 \<le> length mem" using i lw False less.prems True by simp
      then obtain q where q: "slice mem (newline + i) 4 = Some q" by (simp add: slice_def)
      have occ: "occurs_at dashes mem (newline + i) \<longleftrightarrow> q = dashes"
        using occurs_at_slice [of "newline + i" dashes mem] fit q ld by simp
      show ?thesis
      proof (cases "q = dashes")
        case True
        then show ?thesis
          using \<open>newline + 4 < bpos\<close> w q skip lw i False occ
          by (intro exI [of _ "newline + i"])
            (simp add: scan_newline.simps [of mem bpos newline] i_def [symmetric] dashes_def)
      next
        case ne: False
        have dec: "bpos - (newline + i + 1) < bpos - newline" and le: "newline + i + 1 \<le> bpos"
          using i lw False True by auto
        obtain m where m: "scan_newline mem bpos (newline + i + 1) = Some m" "newline + i + 1 \<le> m"
          "m \<le> max (newline + i + 1) (bpos - 4)"
          "\<And>j. newline + i + 1 \<le> j \<Longrightarrow> j < m \<Longrightarrow> \<not> occurs_at dashes mem j" "m + 4 < bpos \<Longrightarrow> occurs_at dashes mem m"
          using less.hyps [OF dec less.prems(1) le] by blast
        have "\<not> occurs_at dashes mem j" if "newline \<le> j" "j < m" for j
          using skip [of j] m(4) [of j] occ ne that by (cases "j < newline + i"; cases "j = newline + i") auto
        then show ?thesis
          using True w q m ne i lw False
          by (intro exI [of _ m])
            (simp add: scan_newline.simps [of mem bpos newline] i_def [symmetric] dashes_def)
      qed
    qed
  next
    case False
    then show ?thesis by (auto simp: scan_newline.simps)
  qed
qed

text \<open>A boundary is usable when its length does not exceed its text.\<close>

definition bnd_ok :: "string option \<Rightarrow> size_t \<Rightarrow> bool" where
  "bnd_ok bnd n \<longleftrightarrow> (\<exists>b. bnd = Some b \<and> unat n \<le> length b) \<and> unat n < 2 ^ 62"

definition bnd_text :: "string option \<Rightarrow> size_t \<Rightarrow> string" where
  "bnd_text bnd n = take (unat n) (the bnd)"

lemma bnd_length: "bnd_ok bnd n \<Longrightarrow> length (bnd_text bnd n) = unat n"
  by (auto simp: bnd_ok_def bnd_text_def)

lemma bnd_read:
  assumes "bnd_ok bnd n"
  shows "\<exists>b. bnd = Some b \<and> slice (b @ [NUL]) 0 (unat n) = Some (bnd_text bnd n)"
  using assms by (auto simp: bnd_ok_def bnd_text_def slice_def)

lemma boundary_fits:
  assumes "m < 2 ^ 62" "bpos < 2 ^ 62" "unat n < 2 ^ 62"
  shows "word_of_nat m + n + 4 \<le> (word_of_nat bpos :: size_t) \<longleftrightarrow> m + unat n + 4 \<le> bpos"
    and "(word_of_nat bpos :: size_t) < 2 + n \<longleftrightarrow> bpos < 2 + unat n"
  using assms by (simp_all add: word_le_nat_alt word_less_nat_alt unat_word_ariths unat_of_nat)

text \<open>
  The outer loop: a boundary of at least one byte is found at its first occurrence. When it is not found, no occurrence
  starts before the returned place, and the rest of the buffer is too short to hold one.
\<close>

text \<open>No delimiter starts inside of a line end and two dashes, nor at one with another text behind it.\<close>

lemma no_delimiter_inside:
  assumes "occurs_at dashes mem m" "\<not> occurs_at x mem (m + 4)" "m \<le> i" "i < m + 4"
  shows "\<not> occurs_at (dashes @ x) mem i"
proof (cases "i = m")
  case True
  have "length dashes = 4" by (simp add: dashes_def)
  then show ?thesis using assms(2) True by (simp add: occurs_at_append)
next
  case False
  have "length dashes = 4" by (simp add: dashes_def)
  then have "mem ! i = dashes ! (i - m)" using occurs_at_nth [OF assms(1), of "i - m"] assms(3,4) by simp
  moreover have "dashes ! (i - m) \<noteq> CR" using False assms(3,4) by (auto simp: dashes_def nth_Cons' numeral_eq_Suc)
  ultimately show ?thesis using occurs_at_hd [of CR "tl dashes @ x" mem i] by (auto simp: dashes_def)
qed

lemma scan_value_spec:
  assumes "bpos \<le> length mem" "newline \<le> bpos" "bnd_ok bnd n" "bpos < 2 ^ 62"
  shows "\<exists>found m. scan_value mem bpos bnd n newline = Some (found, m) \<and> newline \<le> m \<and> m \<le> bpos
    \<and> (found \<longrightarrow> m + unat n + 4 \<le> bpos)
    \<and> (n \<noteq> 0 \<longrightarrow> (found \<longleftrightarrow> m + unat n + 4 \<le> bpos) \<and> (found \<longrightarrow> occurs_at (dashes @ bnd_text bnd n) mem m)
        \<and> (\<forall>i. newline \<le> i \<and> i < m \<longrightarrow> \<not> occurs_at (dashes @ bnd_text bnd n) mem i))"
  using assms(2)
proof (induction "bpos - newline" arbitrary: newline rule: less_induct)
  case less
  have ld: "length dashes = 4" by (simp add: dashes_def)
  obtain m where m: "scan_newline mem bpos newline = Some m" "newline \<le> m" "m \<le> max newline (bpos - 4)"
    "\<And>i. newline \<le> i \<Longrightarrow> i < m \<Longrightarrow> \<not> occurs_at dashes mem i" "m + 4 < bpos \<Longrightarrow> occurs_at dashes mem m"
    using scan_newline_spec [OF assms(1) less.prems] by blast
  have mb: "m \<le> bpos" "m < 2 ^ 62" using m(3) less.prems assms(4) by auto
  have fits: "word_of_nat m + n + 4 \<le> (word_of_nat bpos :: size_t) \<longleftrightarrow> m + unat n + 4 \<le> bpos"
    using boundary_fits(1) [OF mb(2) assms(4)] assms(3) by (simp add: bnd_ok_def)
  have none: "\<not> occurs_at (dashes @ bnd_text bnd n) mem i" if "newline \<le> i" "i < m" for i
    using m(4) [OF that] by (simp add: occurs_at_append)
  have nz: "unat n \<noteq> 0" if "n \<noteq> 0" using that by (simp add: unat_eq_0)
  show ?case
  proof (cases "m + unat n + 4 \<le> bpos")
    case True
    obtain b where b: "bnd = Some b" "slice (b @ [NUL]) 0 (unat n) = Some (bnd_text bnd n)"
      using bnd_read [OF assms(3)] by blast
    obtain l where l: "slice mem (m + 4) (unat n) = Some l" using True assms(1) by (simp add: slice_def)
    have occ: "occurs_at (bnd_text bnd n) mem (m + 4) \<longleftrightarrow> l = bnd_text bnd n"
      using occurs_at_slice [of "m + 4" "bnd_text bnd n" mem] bnd_length [OF assms(3)] True assms(1) l by simp
    have d: "occurs_at dashes mem m" if "n \<noteq> 0" using m(5) True nz [OF that] by simp
    show ?thesis
    proof (cases "l = bnd_text bnd n")
      case eq: True
      then show ?thesis
        using m(1,2) mb True fits b l none d occ ld
        by (intro exI [of _ True] exI [of _ m]) (simp add: scan_value.simps [of mem bpos "Some b" n newline] occurs_at_append)
    next
      case ne: False
      have dec: "bpos - (m + 4) < bpos - newline" and le: "m + 4 \<le> bpos" using True m(2) by auto
      obtain found k where k: "scan_value mem bpos bnd n (m + 4) = Some (found, k)" "m + 4 \<le> k" "k \<le> bpos"
        "found \<longrightarrow> k + unat n + 4 \<le> bpos"
        "n \<noteq> 0 \<longrightarrow> (found \<longleftrightarrow> k + unat n + 4 \<le> bpos) \<and> (found \<longrightarrow> occurs_at (dashes @ bnd_text bnd n) mem k)
        \<and> (\<forall>i. m + 4 \<le> i \<and> i < k \<longrightarrow> \<not> occurs_at (dashes @ bnd_text bnd n) mem i)"
        using less.hyps [OF dec le] by blast
      have "\<not> occurs_at (dashes @ bnd_text bnd n) mem i" if "n \<noteq> 0" "newline \<le> i" "i < k" for i
        using none [of i] no_delimiter_inside [OF d [OF that(1)], of "bnd_text bnd n" i] occ ne k(5) that
        by (cases "i < m"; cases "i < m + 4") auto
      then show ?thesis
        using m(1,2) True fits b l ne k
        by (intro exI [of _ found] exI [of _ k]) (simp add: scan_value.simps [of mem bpos "Some b" n newline])
    qed
  next
    case False
    then show ?thesis
      using m(1,2) mb fits none
      by (intro exI [of _ False] exI [of _ m]) (simp add: scan_value.simps [of mem bpos bnd n newline])
  qed
qed

section \<open>Memory safety and termination\<close>

definition nested_state :: "PP_State \<Rightarrow> bool" where
  "nested_state st \<longleftrightarrow> st \<in> {PP_Nested_PerformMarking, PP_Nested_ProcessEntryHeaders, PP_Nested_ProcessValueToBoundary,
     PP_Nested_PerformCleanup}"

definition state_ok :: "'c MHD_PostProcessor \<Rightarrow> bool" where
  "state_ok pp \<longleftrightarrow> dash_state pp \<in> {PP_Error, PP_Done, PP_NextBoundary}
     \<and> pp_state pp \<notin> {PP_ProcessValue, PP_ExpectNewLine}
     \<and> (nested_boundary pp \<noteq> None \<longrightarrow> bnd_ok (nested_boundary pp) (nlen pp))
     \<and> (nested_state (pp_state pp) \<longrightarrow> nested_boundary pp \<noteq> None)
     \<and> (\<forall>ct. content_type pp = Some ct \<longrightarrow> length ct \<le> buffer_size pp)"

definition mp_inv :: "'c MHD_PostProcessor \<Rightarrow> bool" where
  "mp_inv pp \<longleftrightarrow> length (buf pp) = buffer_size pp + 1 \<and> buffer_pos pp \<le> buffer_size pp
     \<and> 0 < buffer_size pp \<and> buffer_size pp < 2 ^ 61 \<and> bnd_ok (boundary pp) (blen pp) \<and> state_ok pp"

definition keeps :: "'c MHD_PostProcessor \<Rightarrow> 'c MHD_PostProcessor \<Rightarrow> bool" where
  "keeps pp pp' \<longleftrightarrow> buffer_size pp' = buffer_size pp \<and> buffer_pos pp' = buffer_pos pp \<and> boundary pp' = boundary pp
     \<and> blen pp' = blen pp \<and> length (buf pp') = length (buf pp) \<and> encoding pp' = encoding pp"

lemma mp_inv_keeps: "mp_inv pp \<Longrightarrow> keeps pp pp' \<Longrightarrow> state_ok pp' \<Longrightarrow> mp_inv pp'"
  by (simp add: mp_inv_def keeps_def)

text \<open>The states that go to another state without consuming input, by the number of such steps that may follow.\<close>

fun rank :: "PP_State \<Rightarrow> nat" where
  "rank PP_PerformCleanup = 3"
| "rank PP_ProcessEntryHeaders = 2"
| "rank PP_PerformCheckMultipart = 1"
| "rank PP_Nested_PerformMarking = 2"
| "rank PP_Nested_PerformCleanup = 2"
| "rank PP_Nested_ProcessEntryHeaders = 1"
| "rank _ = 0"

definition again_ok :: "'c MHD_PostProcessor \<Rightarrow> bool \<Rightarrow> nat \<Rightarrow> 'c MHD_PostProcessor \<Rightarrow> bool" where
  "again_ok pp changed ioff pp' \<longleftrightarrow> keeps pp pp' \<and> state_ok pp' \<and> ioff \<le> buffer_pos pp
     \<and> (ioff = 0 \<longrightarrow> rank (pp_state pp') < rank (pp_state pp) \<or> (\<not> changed \<and> rank (pp_state pp') = rank (pp_state pp)))"

definition mp_ok :: "'c MHD_PostProcessor \<Rightarrow> 'c mp_step option \<Rightarrow> bool" where
  "mp_ok pp r = (case r of
      Some (Again changed ioff pp') \<Rightarrow> again_ok pp changed ioff pp'
    | Some (End ioff pp') \<Rightarrow> keeps pp pp' \<and> state_ok pp' \<and> ioff \<le> buffer_pos pp
    | Some (MReturn res pp') \<Rightarrow> keeps pp pp' \<and> state_ok pp' \<and> res \<noteq> Panic
    | Some (Engine pp') \<Rightarrow> keeps pp pp' \<and> state_ok pp' \<and> rank (pp_state pp') \<le> rank (pp_state pp)
    | None \<Rightarrow> False)"

text \<open>Nothing happens, or the processor goes into the error state.\<close>

definition stays :: "'c MHD_PostProcessor \<Rightarrow> 'c MHD_PostProcessor \<Rightarrow> bool" where
  "stays pp pp' \<longleftrightarrow> keeps pp pp' \<and> state_ok pp' \<and> (pp_state pp' = pp_state pp \<or> pp_state pp' = PP_Error)"

lemma stays_self: "state_ok pp \<Longrightarrow> stays pp pp"
  by (simp add: stays_def keeps_def)

lemma stays_error: "state_ok pp \<Longrightarrow> stays pp (pp\<lparr>pp_state := PP_Error\<rparr>)"
  by (simp add: stays_def keeps_def state_ok_def nested_state_def)

lemma find_boundary_ok:
  assumes "mp_inv pp" "bnd_ok bnd n"
  obtains ok ioff pp' where "find_boundary pp bnd n next_state next_dash_state = Some (ok, ioff, pp')"
    "ioff \<le> buffer_pos pp" "ok \<Longrightarrow> 0 < ioff \<and> pp' = pp\<lparr>skip_rn := RN_Dash, pp_state := next_state, dash_state := next_dash_state\<rparr>"
    "\<not> ok \<Longrightarrow> stays pp pp'"
proof -
  have sz: "length (buf pp) = buffer_size pp + 1" "buffer_pos pp \<le> buffer_size pp" "buffer_pos pp < 2 ^ 62"
    using assms(1) by (auto simp: mp_inv_def)
  have st: "state_ok pp" using assms(1) by (simp add: mp_inv_def)
  have fits: "(word_of_nat (buffer_pos pp) :: size_t) < 2 + n \<longleftrightarrow> buffer_pos pp < 2 + unat n"
    using boundary_fits(2) [OF sz(3) sz(3)] assms(2) by (simp add: bnd_ok_def)
  show thesis
  proof (cases "buffer_pos pp < 2 + unat n")
    case True
    then have "(word_of_nat (buffer_pos pp) :: size_t) < 2 + n" using fits by blast
    then have "find_boundary pp bnd n next_state next_dash_state =
        Some (False, 0, if buffer_pos pp = buffer_size pp then pp\<lparr>pp_state := PP_Error\<rparr> else pp)"
      unfolding find_boundary_def by (rule if_P)
    then show thesis by (rule that) (simp_all add: stays_self stays_error st)
  next
    case False
    obtain d l where d: "slice (buf pp) 0 2 = Some d" and l: "slice (buf pp) 2 (unat n) = Some l"
      using False sz by (simp add: slice_def)
    obtain b where b: "bnd = Some b" "slice (b @ [NUL]) 0 (unat n) = Some (bnd_text bnd n)"
      using bnd_read [OF assms(2)] by blast
    have filled: "slice (buf pp) 0 (buffer_pos pp) = Some (take (buffer_pos pp) (buf pp))"
      using sz by (simp add: slice_def)
    have w: "length (takeWhile P (take (buffer_pos pp) (buf pp))) \<le> buffer_pos pp" for P
      using length_takeWhile_le [of P "take (buffer_pos pp) (buf pp)"] by simp
    define io where "io = (let dash = length (takeWhile (\<lambda>c. c \<noteq> CHR ''-'') (take (buffer_pos pp) (buf pp))) in
      if dash = length (take (buffer_pos pp) (buf pp)) then buffer_pos pp else if dash = 0 then 1 else dash)"
    have long: "\<not> (word_of_nat (buffer_pos pp) :: size_t) < 2 + n" using fits False by blast
    have io: "io \<le> buffer_pos pp" using w False by (simp add: io_def Let_def)
    have "find_boundary pp bnd n next_state next_dash_state =
        (if d \<noteq> ''--'' \<or> l \<noteq> bnd_text bnd n
         then (if pp_state pp \<noteq> PP_Init then Some (False, 0, pp\<lparr>pp_state := PP_Error\<rparr>) else Some (False, io, pp))
         else Some (True, 2 + unat n, pp\<lparr>skip_rn := RN_Dash, pp_state := next_state, dash_state := next_dash_state\<rparr>))"
      unfolding find_boundary_def io_def d l filled if_not_P [OF long] using b by (cases "d = ''--''") (simp_all add: Let_def)
    then consider
      "find_boundary pp bnd n next_state next_dash_state = Some (False, 0, pp\<lparr>pp_state := PP_Error\<rparr>)"
    | "find_boundary pp bnd n next_state next_dash_state = Some (False, io, pp)"
    | "find_boundary pp bnd n next_state next_dash_state = Some (True, 2 + unat n,
         pp\<lparr>skip_rn := RN_Dash, pp_state := next_state, dash_state := next_dash_state\<rparr>)"
      by (metis (no_types, lifting))
    then show thesis
    proof cases
      case 1
      then show thesis by (rule that) (simp_all add: stays_error [OF st])
    next
      case 2
      then show thesis using io by (rule that) (simp_all add: stays_self [OF st])
    next
      case 3
      then show thesis by (rule that) (use False in simp_all)
    qed
  qed
qed

lemma strstr_bound: "strstr s t = Some i \<Longrightarrow> i + length t \<le> length s"
  by (induction s t arbitrary: i rule: strstr.induct) (auto split: if_splits dest: arg_cong [where f = length])

lemma str_at_Some: "j \<le> length s \<Longrightarrow> \<exists>c. str_at s j = Some c"
  by (cases "j = length s") (simp_all add: str_at_def)

lemma get_value_loop_total:
  "key \<noteq> [] \<Longrightarrow> bpos \<le> length text \<Longrightarrow> \<exists>r. get_value_loop alloc text key bpos = Some r"
proof (induction "length text - bpos" arbitrary: bpos rule: less_induct)
  case less
  show ?case
  proof (cases "strstr (drop bpos text) key")
    case (Some i)
    have b: "bpos + i + length key \<le> length text" using strstr_bound [OF Some] less.prems(2) by simp
    then obtain c where c: "str_at text (bpos + i + length key) = Some c" using str_at_Some by blast
    have rec: "\<exists>r. get_value_loop alloc text key (bpos + i + 1) = Some r"
      using less.hyps [of "bpos + i + 1"] less.prems(1) b by (cases key) auto
    have q: "\<exists>q. str_at text (bpos + i + length key + 1) = Some q" if "c = CHR ''=''"
      using c that b by (auto simp: str_at_def split: if_splits)
    show ?thesis
      unfolding get_value_loop.simps [of alloc "text" key bpos]
      using Some c rec q less.prems(2) by (auto simp: Let_def split: option.splits)
  qed (use less.prems in \<open>simp add: get_value_loop.simps\<close>)
qed

lemma try_get_value_total: "key \<noteq> [] \<Longrightarrow> \<exists>r. try_get_value alloc text key dest = Some r"
  using get_value_loop_total [of key 0 "text" alloc] by (cases dest) (auto simp: try_get_value_def)

lemma c_str_length: "length (c_str s) \<le> length s"
  by (simp add: c_str_def length_takeWhile_le)

lemma match_header_length: "snd (match_header_loop alloc prefix line) = Some r \<Longrightarrow> length r \<le> length line"
proof (induction line)
  case (Cons c line)
  then show ?case
    using c_str_length [of "drop (length prefix) (c # line)"] by (auto simp: Let_def split: if_splits)
qed simp

lemma header_line_ok:
  assumes "state_ok pp" "length line \<le> buffer_size pp"
  obtains pp' where "multipart_header_line alloc line pp = Some pp'" "keeps pp pp'" "state_ok pp'" "pp_state pp' = pp_state pp"
proof (cases "MHD_str_equal_caseless_n CONTENT_DISPOSITION line (length CONTENT_DISPOSITION)")
  case True
  let ?params = "drop (length CONTENT_DISPOSITION) line"
  obtain nm fn where g: "try_get_value alloc ?params ''name'' (content_name pp) = Some nm"
    "try_get_value alloc ?params ''filename'' (content_filename pp) = Some fn"
    using try_get_value_total by (metis list.distinct(1))
  show thesis
    by (rule that [of "pp\<lparr>content_name := nm, content_filename := fn\<rparr>"])
      (use True g assms in \<open>simp_all add: multipart_header_line_def Let_def keeps_def state_ok_def\<close>)
next
  case False
  let ?ct = "snd (try_match_header alloc ''Content-type: '' line (content_type pp))"
  have "length ct \<le> buffer_size pp" if "?ct = Some ct" for ct
    using that assms match_header_length [of alloc "''Content-type: ''" line ct]
    by (auto simp: try_match_header_def state_ok_def split: option.splits)
  then show thesis
    by (intro that [of "pp\<lparr>content_type := ?ct, content_transfer_encoding :=
        snd (try_match_header alloc ''Content-Transfer-Encoding: '' line (content_transfer_encoding pp))\<rparr>"])
      (use False assms in \<open>simp_all add: multipart_header_line_def keeps_def state_ok_def\<close>)
qed

lemma multipart_headers_ok:
  assumes "mp_inv pp" "state_ok (pp\<lparr>pp_state := next_state\<rparr>)"
  obtains ok ioff pp' where "process_multipart_headers alloc pp next_state = Some (ok, ioff, pp')"
    "ioff \<le> buffer_pos pp" "keeps pp pp'" "state_ok pp'" "\<not> ok \<Longrightarrow> stays pp pp'"
    "ok \<Longrightarrow> ioff = 0 \<Longrightarrow> pp_state pp' = next_state"
proof -
  let ?w = "take (buffer_pos pp) (buf pp)"
  define newline where "newline = length (takeWhile (\<lambda>c. c \<noteq> CR \<and> c \<noteq> LF) ?w)"
  have sz: "length (buf pp) = buffer_size pp + 1" "buffer_pos pp \<le> buffer_size pp" and st: "state_ok pp"
    using assms(1) by (simp_all add: mp_inv_def)
  have filled: "slice (buf pp) 0 (buffer_pos pp) = Some ?w" using sz by (simp add: slice_def)
  have nl: "newline \<le> buffer_pos pp"
    using length_takeWhile_le [of "\<lambda>c. c \<noteq> CR \<and> c \<noteq> LF" ?w] sz by (simp add: newline_def)
  note def = process_multipart_headers_def [of alloc pp next_state, unfolded filled bind.bind_lunit Let_def, folded newline_def]
  consider "newline = buffer_size pp" | "newline \<noteq> buffer_size pp" "newline = buffer_pos pp"
    | "newline = 0" "newline \<noteq> buffer_size pp" "newline < buffer_pos pp"
    | "0 < newline" "newline \<noteq> buffer_size pp" "newline < buffer_pos pp" using nl by linarith
  then show thesis
  proof cases
    case 1
    then have "process_multipart_headers alloc pp next_state = Some (False, 0, pp\<lparr>pp_state := PP_Error\<rparr>)"
      unfolding def by simp
    then show thesis by (rule that) (use stays_error [OF st] in \<open>simp_all add: stays_def\<close>)
  next
    case 2
    then have "process_multipart_headers alloc pp next_state = Some (False, 0, pp)"
      unfolding def by simp
    then show thesis by (rule that) (use stays_self [OF st] in \<open>simp_all add: stays_def\<close>)
  next
    case 3
    then have "process_multipart_headers alloc pp next_state = Some (True, 0, pp\<lparr>skip_rn := RN_Full, pp_state := next_state\<rparr>)"
      unfolding def by simp
    then show thesis by (rule that) (use assms(2) in \<open>simp_all add: keeps_def state_ok_def\<close>)
  next
    case 4
    define pp1 where "pp1 = (if buf pp ! newline = CR then pp\<lparr>skip_rn := RN_OptN\<rparr> else pp)\<lparr>buf := (buf pp)[newline := NUL]\<rparr>"
    have p1: "keeps pp pp1" "state_ok pp1" "pp_state pp1 = pp_state pp" "buffer_size pp1 = buffer_size pp"
      using st by (simp_all add: pp1_def keeps_def state_ok_def)
    have "length (c_str ((buf pp)[newline := NUL])) \<le> newline"
    proof -
      have "(buf pp)[newline := NUL] = take newline (buf pp) @ NUL # drop (Suc newline) (buf pp)"
        using 4 sz by (simp add: upd_conv_take_nth_drop)
      then show ?thesis using c_str_length [of "take newline (buf pp)"] by (simp add: c_str_NUL)
    qed
    then have len: "length (c_str ((buf pp)[newline := NUL])) \<le> buffer_size pp1" using p1(4) nl sz by simp
    obtain pp' where p: "multipart_header_line alloc (c_str ((buf pp)[newline := NUL])) pp1 = Some pp'" "keeps pp1 pp'" "state_ok pp'"
      "pp_state pp' = pp_state pp1"
      using header_line_ok [OF p1(2) len] by blast
    have "newline < length (buf pp)" using 4 sz by simp
    then have "process_multipart_headers alloc pp next_state = Some (True, newline + 1, pp')"
      unfolding def using 4 p(1) by (cases "buf pp ! newline = CR") (simp_all add: rd_at_def wr_at_def pp1_def)
    then show thesis by (rule that) (use 4 p p1 in \<open>simp_all add: keeps_def\<close>)
  qed
qed

lemma value_to_boundary_ok:
  assumes "mp_inv pp" "bnd_ok bnd n" "state_ok (pp\<lparr>pp_state := next_state, dash_state := next_dash_state\<rparr>)"
  obtains ok ioff pp' where "process_value_to_boundary ikvi pp bnd n next_state next_dash_state = Some (ok, ioff, pp')"
    "ioff \<le> buffer_pos pp" "keeps pp pp'" "state_ok pp'" "\<not> ok \<Longrightarrow> pp_state pp' = PP_Error"
    "ok \<Longrightarrow> ioff = 0 \<Longrightarrow> pp_state pp' = pp_state pp"
proof -
  have sz: "length (buf pp) = buffer_size pp + 1" "buffer_pos pp \<le> buffer_size pp" "buffer_pos pp < 2 ^ 62" and st: "state_ok pp"
    using assms(1) by (simp_all add: mp_inv_def)
  obtain found m where m: "scan_value (buf pp) (buffer_pos pp) bnd n 0 = Some (found, m)" "m \<le> buffer_pos pp"
    "found \<longrightarrow> m + unat n + 4 \<le> buffer_pos pp"
    using scan_value_spec [OF _ _ assms(2) sz(3), of "buf pp" 0] sz by auto
  define pp1 where "pp1 = (if found then pp\<lparr>skip_rn := RN_Dash, pp_state := next_state, dash_state := next_dash_state,
    buf := (buf pp)[m := NUL]\<rparr> else pp)"
  define skip where "skip = (if found then unat n + 4 else 0)"
  have p1: "keeps pp pp1" "state_ok pp1" "skip = 0 \<Longrightarrow> pp_state pp1 = pp_state pp"
    using st assms(3) by (auto simp: pp1_def skip_def keeps_def state_ok_def)
  have io: "skip + m \<le> buffer_pos pp" using m by (auto simp: skip_def)
  define data where "data = take m (buf pp1)"
  define app where "app = (if must_ikvi pp1 \<or> m \<noteq> 0 then ikvi (cls pp1) (content_name pp1) (content_filename pp1)
    (content_type pp1) (content_transfer_encoding pp1) data (value_offset pp1) else (True, cls pp1))"
  have eq: "process_value_to_boundary ikvi pp bnd n next_state next_dash_state =
    (if \<not> found \<and> m = 0 \<and> buffer_pos pp = buffer_size pp then Some (False, 0, pp\<lparr>pp_state := PP_Error\<rparr>)
     else if \<not> fst app then Some (False, skip, pp1\<lparr>cls := snd app, pp_state := PP_Error\<rparr>)
     else Some (True, skip + m, pp1\<lparr>cls := snd app, must_ikvi := False, value_offset := value_offset pp1 + word_of_nat m\<rparr>))"
    using m sz unfolding process_value_to_boundary_def
    by (cases found) (simp_all add: slice_def wr_at_def pp1_def skip_def data_def app_def Let_def case_prod_unfold)
  consider "process_value_to_boundary ikvi pp bnd n next_state next_dash_state = Some (False, 0, pp\<lparr>pp_state := PP_Error\<rparr>)"
    | "process_value_to_boundary ikvi pp bnd n next_state next_dash_state =
         Some (False, skip, pp1\<lparr>cls := snd app, pp_state := PP_Error\<rparr>)"
    | "process_value_to_boundary ikvi pp bnd n next_state next_dash_state =
         Some (True, skip + m, pp1\<lparr>cls := snd app, must_ikvi := False, value_offset := value_offset pp1 + word_of_nat m\<rparr>)"
    using eq by (metis (no_types, lifting))
  then show thesis
  proof cases
    case 1
    then show thesis by (rule that) (use stays_error [OF st] in \<open>simp_all add: stays_def\<close>)
  next
    case 2
    then show thesis by (rule that) (use p1 io in \<open>simp_all add: keeps_def state_ok_def nested_state_def\<close>)
  next
    case 3
    then show thesis by (rule that) (use p1 io in \<open>simp_all add: keeps_def state_ok_def\<close>)
  qed
qed

lemma skip_full_ok:
  assumes "mp_inv pp" "0 < buffer_pos pp"
  shows "mp_ok pp (skip_full pp)"
  using assms
  by (auto simp: skip_full_def mp_inv_def rd_at_def mp_ok_def again_ok_def keeps_def state_ok_def nested_state_def)

lemma skip_dash_ok:
  assumes "mp_inv pp" "0 < buffer_pos pp"
  shows "mp_ok pp (skip_dash pp)"
proof -
  let ?pp = "pp\<lparr>skip_rn := RN_Full\<rparr>"
  have "mp_inv ?pp" using assms(1) by (simp add: mp_inv_def state_ok_def)
  then have "mp_ok ?pp (skip_full ?pp)" using skip_full_ok [of ?pp] assms(2) by simp
  then have "mp_ok pp (skip_full ?pp)"
    by (auto simp: mp_ok_def again_ok_def keeps_def split: option.splits mp_step.splits)
  then show ?thesis
    using assms
    by (auto simp: skip_dash_def mp_inv_def rd_at_def mp_ok_def again_ok_def keeps_def state_ok_def)
qed

lemma skip_step_ok:
  assumes "mp_inv pp" "0 < buffer_pos pp"
  shows "mp_ok pp (skip_step pp)"
proof (cases "skip_rn pp")
  case RN_OptN
  then show ?thesis
    using skip_dash_ok [OF assms] assms
    by (simp add: skip_step_def mp_inv_def rd_at_def) (simp add: mp_ok_def again_ok_def keeps_def state_ok_def)
next
  case RN_Dash2
  have "state_ok (pp\<lparr>skip_rn := RN_Full, pp_state := dash_state pp\<rparr>)" "state_ok (pp\<lparr>pp_state := PP_Error\<rparr>)"
    using assms(1) by (auto simp: mp_inv_def state_ok_def nested_state_def)
  then show ?thesis
    using RN_Dash2 assms by (simp add: skip_step_def mp_inv_def rd_at_def mp_ok_def again_ok_def keeps_def)
qed (use assms skip_dash_ok [OF assms] skip_full_ok [OF assms] in
  \<open>simp_all add: skip_step_def mp_ok_def keeps_def mp_inv_def\<close>)

lemma or_end_ok:
  assumes "r = Some (ok, ioff, pp')" "ioff \<le> buffer_pos pp" "keeps pp pp'" "state_ok pp'"
    and "ok \<Longrightarrow> ioff = 0 \<Longrightarrow> rank (pp_state pp') < rank (pp_state pp)"
  shows "mp_ok pp (or_end r changed)"
  using assms by (auto simp: or_end_def mp_ok_def again_ok_def)

lemma or_continue_ok:
  assumes "r = Some (ok, ioff, pp')" "ioff \<le> buffer_pos pp" "keeps pp pp'" "state_ok pp'" "\<not> ok \<Longrightarrow> pp_state pp' = PP_Error"
    and "ok \<Longrightarrow> ioff = 0 \<Longrightarrow> pp_state pp' = pp_state pp"
  shows "mp_ok pp (or_continue r)"
  using assms by (cases ok) (auto simp: or_continue_def mp_ok_def again_ok_def)

lemma find_end_ok:
  assumes "mp_inv pp" "bnd_ok bnd n" "state_ok (pp\<lparr>pp_state := next_state, dash_state := next_dash_state\<rparr>)"
  shows "mp_ok pp (or_end (find_boundary pp bnd n next_state next_dash_state) False)"
proof -
  obtain ok ioff pp' where f: "find_boundary pp bnd n next_state next_dash_state = Some (ok, ioff, pp')"
    "ioff \<le> buffer_pos pp" "ok \<Longrightarrow> 0 < ioff \<and> pp' = pp\<lparr>skip_rn := RN_Dash, pp_state := next_state, dash_state := next_dash_state\<rparr>"
    "\<not> ok \<Longrightarrow> stays pp pp'"
    using find_boundary_ok [OF assms(1,2)] by blast
  have "keeps pp pp' \<and> state_ok pp'"
    using f(3,4) assms(3) by (cases ok) (auto simp: stays_def keeps_def state_ok_def)
  then show ?thesis using or_end_ok [OF f(1,2)] f(3) by auto
qed

lemma value_continue_ok:
  assumes "mp_inv pp" "bnd_ok bnd n" "state_ok (pp\<lparr>pp_state := next_state, dash_state := next_dash_state\<rparr>)"
  shows "mp_ok pp (or_continue (process_value_to_boundary ikvi pp bnd n next_state next_dash_state))"
proof (rule value_to_boundary_ok [OF assms, of ikvi])
  fix ok ioff pp'
  assume v: "process_value_to_boundary ikvi pp bnd n next_state next_dash_state = Some (ok, ioff, pp')"
    "ioff \<le> buffer_pos pp" "keeps pp pp'" "state_ok pp'" "\<not> ok \<Longrightarrow> pp_state pp' = PP_Error"
    "ok \<Longrightarrow> ioff = 0 \<Longrightarrow> pp_state pp' = pp_state pp"
  show ?thesis by (rule or_continue_ok [OF v])
qed

lemma check_multipart_ok:
  assumes "mp_inv pp" "pp_state pp = PP_PerformCheckMultipart"
  shows "mp_ok pp (Some (check_multipart alloc pp))"
proof -
  have st: "state_ok pp" "buffer_size pp < 2 ^ 61" using assms(1) by (simp_all add: mp_inv_def)
  have nb: "bnd_ok (Some (drop i ct)) (word_of_nat (length (drop i ct)))" if "content_type pp = Some ct" for i ct
  proof -
    have "length ct < 2 ^ 61" using st that by (auto simp: state_ok_def)
    then show ?thesis by (simp add: bnd_ok_def unat_of_nat)
  qed
  have plain: "mp_ok pp (Some (Again True 0 (pp\<lparr>pp_state := PP_ProcessValueToBoundary, value_offset := 0\<rparr>)))"
    and error: "mp_ok pp (Some (MReturn (Ret False) (pp\<lparr>nested_boundary := None, pp_state := PP_Error\<rparr>)))"
    using st(1) assms(2) by (simp_all add: mp_ok_def again_ok_def keeps_def state_ok_def nested_state_def)
  have nested: "mp_ok pp (Some (Again True 0 (pp\<lparr>nested_boundary := Some (drop i ct), content_type := None,
      nlen := word_of_nat (length (drop i ct)), pp_state := PP_Nested_Init\<rparr>)))" if "content_type pp = Some ct" for i ct
    using st(1) assms(2) nb [OF that, of i] by (simp add: mp_ok_def again_ok_def keeps_def state_ok_def nested_state_def)
  show ?thesis
  proof (cases "content_type pp")
    case (Some ct)
    show ?thesis
      unfolding check_multipart_def Let_def Some option.case
      using plain error nested [OF Some] by (cases "strstr ct ''boundary=''") (simp_all only: option.case simp_thms split: if_split)
  qed (use plain in \<open>simp add: check_multipart_def\<close>)
qed

lemma headers_step_ok:
  assumes "mp_inv q" "state_ok (q\<lparr>pp_state := s\<rparr>)" "keeps pp q" "rank s < rank (pp_state pp)"
  shows "mp_ok pp (or_end (process_multipart_headers alloc q s) True)"
proof -
  obtain ok ioff pp' where h: "process_multipart_headers alloc q s = Some (ok, ioff, pp')"
    "ioff \<le> buffer_pos q" "keeps q pp'" "state_ok pp'" "ok \<Longrightarrow> ioff = 0 \<Longrightarrow> pp_state pp' = s"
    using multipart_headers_ok [OF assms(1,2)] by blast
  show ?thesis
    by (rule or_end_ok [OF h(1) _ _ h(4)]) (use h assms(3,4) in \<open>simp_all add: keeps_def\<close>)
qed

lemma init_step_ok:
  assumes "mp_inv pp" "pp_state pp = PP_Init" "state_ok (pp\<lparr>pp_state := PP_ProcessEntryHeaders, dash_state := PP_Done\<rparr>)"
  shows "mp_ok pp (multipart_engine alloc ikvi pp)"
proof -
  have bnd: "bnd_ok (boundary pp) (blen pp)" using assms(1) by (simp add: mp_inv_def)
  obtain ok ioff pp' where f: "find_boundary pp (boundary pp) (blen pp) PP_ProcessEntryHeaders PP_Done = Some (ok, ioff, pp')"
    "ioff \<le> buffer_pos pp" "ok \<Longrightarrow> 0 < ioff \<and> pp' = pp\<lparr>skip_rn := RN_Dash, pp_state := PP_ProcessEntryHeaders, dash_state := PP_Done\<rparr>"
    "\<not> ok \<Longrightarrow> stays pp pp'"
    using find_boundary_ok [OF assms(1) bnd] by blast
  have "keeps pp pp' \<and> state_ok pp' \<and> (ioff = 0 \<longrightarrow> rank (pp_state pp') = 0)"
    using f(3,4) assms(2,3) by (cases ok) (auto simp: stays_def keeps_def state_ok_def nested_state_def)
  then show ?thesis using assms(2) f(1,2) by (simp add: multipart_engine_def mp_ok_def again_ok_def)
qed

lemma engine_ok:
  assumes "mp_inv pp"
  shows "mp_ok pp (multipart_engine alloc ikvi pp)"
proof -
  have st: "state_ok pp" "bnd_ok (boundary pp) (blen pp)" using assms by (simp_all add: mp_inv_def)
  have nest: "bnd_ok (nested_boundary pp) (nlen pp)" if "nested_boundary pp \<noteq> None" using st(1) that by (simp add: state_ok_def)
  have go: "state_ok (pp\<lparr>pp_state := s, dash_state := d\<rparr>)" if "d \<in> {PP_Done, PP_NextBoundary}"
    "s \<notin> {PP_ProcessValue, PP_ExpectNewLine}" "nested_state s \<Longrightarrow> nested_boundary pp \<noteq> None" for s d
    using st(1) that by (auto simp: state_ok_def)
  show ?thesis
  proof (cases "pp_state pp")
    case PP_Init
    show ?thesis by (rule init_step_ok [OF assms PP_Init]) (rule go, simp_all add: nested_state_def)
  next
    case PP_NextBoundary
    then show ?thesis
      using find_end_ok [OF assms st(2) go [of PP_Done PP_ProcessEntryHeaders]]
      by (simp add: multipart_engine_def nested_state_def)
  next
    case PP_ProcessEntryHeaders
    have "mp_ok pp (or_end (process_multipart_headers alloc (pp\<lparr>must_ikvi := True\<rparr>) PP_PerformCheckMultipart) True)"
      by (rule headers_step_ok) (use assms PP_ProcessEntryHeaders in \<open>simp_all add: mp_inv_def state_ok_def nested_state_def keeps_def\<close>)
    then show ?thesis using PP_ProcessEntryHeaders by (simp add: multipart_engine_def)
  next
    case PP_PerformCheckMultipart
    then show ?thesis using check_multipart_ok [OF assms] by (simp add: multipart_engine_def)
  next
    case PP_ProcessValueToBoundary
    have cl: "state_ok (pp\<lparr>pp_state := PP_PerformCleanup, dash_state := PP_Done\<rparr>)"
      by (rule go) (simp_all add: nested_state_def)
    show ?thesis
      using value_continue_ok [OF assms st(2) cl, of ikvi] PP_ProcessValueToBoundary by (simp add: multipart_engine_def)
  next
    case PP_Nested_Init
    then show ?thesis
      using find_end_ok [OF assms nest go [of PP_NextBoundary PP_Nested_PerformMarking]] st(1) stays_error [OF st(1)]
      by (auto simp: multipart_engine_def nested_state_def mp_ok_def stays_def)
  next
    case PP_Nested_ProcessEntryHeaders
    have "mp_ok pp (or_end (process_multipart_headers alloc (pp\<lparr>value_offset := 0\<rparr>) PP_Nested_ProcessValueToBoundary) True)"
      by (rule headers_step_ok) (use assms PP_Nested_ProcessEntryHeaders in \<open>simp_all add: mp_inv_def state_ok_def nested_state_def keeps_def\<close>)
    then show ?thesis using PP_Nested_ProcessEntryHeaders by (simp add: multipart_engine_def)
  next
    case PP_Nested_ProcessValueToBoundary
    have nb: "nested_boundary pp \<noteq> None" using st(1) PP_Nested_ProcessValueToBoundary by (simp add: state_ok_def nested_state_def)
    have cl: "state_ok (pp\<lparr>pp_state := PP_Nested_PerformCleanup, dash_state := PP_NextBoundary\<rparr>)"
      by (rule go) (use nb in simp_all)
    show ?thesis
      using value_continue_ok [OF assms nest [OF nb] cl, of ikvi] PP_Nested_ProcessValueToBoundary
      by (simp add: multipart_engine_def)
  qed (use st(1) in \<open>auto simp: multipart_engine_def mp_ok_def again_ok_def keeps_def state_ok_def nested_state_def
      free_unmarked_def\<close>)
qed

lemma or_not_Engine: "or_end r changed \<noteq> Some (Engine q)" "or_continue r \<noteq> Some (Engine q)"
  by (cases r; simp add: or_end_def or_continue_def case_prod_unfold)+

lemma check_not_Engine: "check_multipart alloc pp \<noteq> Engine q"
  unfolding check_multipart_def Let_def by (simp only: mp_step.distinct simp_thms split: option.split if_split)

lemma engine_not_Engine: "multipart_engine alloc ikvi pp \<noteq> Some (Engine q)"
  by (cases "pp_state pp")
    (simp_all add: multipart_engine_def or_not_Engine check_not_Engine bind_eq_Some_conv split: if_split)

lemma keeps_trans: "keeps pp pp' \<Longrightarrow> keeps pp' pp'' \<Longrightarrow> keeps pp pp''"
  by (simp add: keeps_def)

lemma mp_ok_trans:
  assumes "keeps pp pp'" "rank (pp_state pp') \<le> rank (pp_state pp)" "mp_ok pp' r"
  shows "mp_ok pp r"
proof -
  have "buffer_pos pp' = buffer_pos pp" using assms(1) by (simp add: keeps_def)
  then show ?thesis
    using assms(2,3) keeps_trans [OF assms(1)]
    by (auto simp: mp_ok_def again_ok_def split: option.splits mp_step.splits)
qed

lemma multipart_step_ok:
  assumes "mp_inv pp" "0 < buffer_pos pp"
  obtains r where "multipart_step alloc ikvi pp = Some r" "mp_ok pp (Some r)" "\<And>q. r \<noteq> Engine q"
proof -
  have sk: "mp_ok pp (skip_step pp)" by (rule skip_step_ok [OF assms])
  then obtain s where s: "skip_step pp = Some s" by (auto simp: mp_ok_def split: option.splits)
  show thesis
  proof (cases "\<exists>q. s = Engine q")
    case True
    then obtain q where q: "s = Engine q" by blast
    then have k: "keeps pp q" "state_ok q" "rank (pp_state q) \<le> rank (pp_state pp)" using sk s by (simp_all add: mp_ok_def)
    have ok: "mp_ok pp (multipart_engine alloc ikvi q)"
      by (rule mp_ok_trans [OF k(1,3) engine_ok [OF mp_inv_keeps [OF assms(1) k(1,2)]]])
    then obtain r where r: "multipart_engine alloc ikvi q = Some r" by (auto simp: mp_ok_def split: option.splits)
    have "multipart_step alloc ikvi pp = Some r" using s q r by (simp add: multipart_step_def)
    moreover have "mp_ok pp (Some r)" "\<And>q'. r \<noteq> Engine q'" using ok r engine_not_Engine [of alloc ikvi q] by auto
    ultimately show thesis by (rule that)
  next
    case False
    then have "multipart_step alloc ikvi pp = Some s" using s by (cases s) (auto simp: multipart_step_def)
    moreover have "mp_ok pp (Some s)" using sk s by simp
    ultimately show thesis by (rule that) (use False in blast)
  qed
qed

lemma shift_buffer_ok:
  assumes "mp_inv pp" "ioff \<le> buffer_pos pp"
  obtains pp' where "shift_buffer ioff pp = Some pp'" "mp_inv pp'" "buffer_pos pp' = buffer_pos pp - ioff"
    "pp_state pp' = pp_state pp" "encoding pp' = encoding pp"
proof -
  let ?rest = "take (buffer_pos pp - ioff) (drop ioff (buf pp))"
  have sz: "length (buf pp) = buffer_size pp + 1" "buffer_pos pp \<le> buffer_size pp" using assms(1) by (simp_all add: mp_inv_def)
  have fit: "0 + length ?rest \<le> length (buf pp)" using sz by simp
  obtain m where m: "blit (buf pp) 0 ?rest = Some m" "length m = length (buf pp)"
    using blit_total [OF fit] by blast
  show thesis
  proof (rule that)
    show "shift_buffer ioff pp = Some (pp\<lparr>buf := m, buffer_pos := buffer_pos pp - ioff\<rparr>)"
      using assms(2) sz m(1) by (simp add: shift_buffer_def slice_def)
  qed (use assms(1) m(2) sz in \<open>simp_all add: mp_inv_def state_ok_def\<close>)
qed

lemma multipart_end_ok:
  assumes "mp_inv pp" "ioff \<le> buffer_pos pp"
  shows "\<exists>b pp'. multipart_end len poff ioff pp = Some (Ret b, pp') \<and> mp_inv pp' \<and> encoding pp' = encoding pp"
proof -
  obtain pp' where s: "(if ioff \<noteq> 0 then shift_buffer ioff pp else Some pp) = Some pp'" "mp_inv pp'" "encoding pp' = encoding pp"
  proof (cases "ioff = 0")
    case False
    obtain pp' where "shift_buffer ioff pp = Some pp'" "mp_inv pp'" "encoding pp' = encoding pp"
      by (rule shift_buffer_ok [OF assms]) (rule that)
    then show thesis using that False by simp
  qed (use that assms(1) in simp)
  then show ?thesis
    by (auto simp: multipart_end_def mp_inv_def state_ok_def nested_state_def simp del: not_None_eq)
qed

definition mp_measures :: "nat \<Rightarrow> (nat \<times> bool \<times> 'c MHD_PostProcessor \<Rightarrow> nat) list" where
  "mp_measures len = [\<lambda>(poff, sc, pp). (len - poff) + buffer_pos pp, \<lambda>(poff, sc, pp). rank (pp_state pp),
     \<lambda>(poff, sc, pp). 2 * (len - poff) + (if sc then 1 else 0)]"

text \<open>After a step that goes on, the rest of the loop has less to do.\<close>

lemma again_smaller:
  assumes "mp_inv pp1" "mp_ok pp1 (Some (Again ch ioff pp2))" "pp_state pp1 = pp_state pp"
    "(len - poff1) + buffer_pos pp1 = (len - poff) + buffer_pos pp" "len - poff1 < len - poff \<or> poff1 = poff \<and> sc"
  obtains ch' pp3 where "(if ioff > 0 then map_option (Pair True) (shift_buffer ioff pp2) else Some (ch, pp2)) = Some (ch', pp3)"
    "mp_inv pp3" "encoding pp3 = encoding pp1" "((poff1, ch', pp3), (poff, sc, pp)) \<in> measures (mp_measures len)"
proof -
  have k: "keeps pp1 pp2" "state_ok pp2" "ioff \<le> buffer_pos pp2" and
    dec: "ioff = 0 \<Longrightarrow> rank (pp_state pp2) < rank (pp_state pp) \<or> (\<not> ch \<and> rank (pp_state pp2) = rank (pp_state pp))"
    using assms(2,3) by (auto simp: mp_ok_def again_ok_def keeps_def)
  have inv2: "mp_inv pp2" "buffer_pos pp2 = buffer_pos pp1" "encoding pp2 = encoding pp1"
    using mp_inv_keeps [OF assms(1) k(1,2)] k(1) by (simp_all add: keeps_def)
  show thesis
  proof (cases "ioff > 0")
    case True
    obtain pp3 where s: "shift_buffer ioff pp2 = Some pp3" "mp_inv pp3" "buffer_pos pp3 = buffer_pos pp2 - ioff"
      "encoding pp3 = encoding pp2"
      by (rule shift_buffer_ok [OF inv2(1) k(3)]) (rule that)
    have "(len - poff1) + buffer_pos pp3 < (len - poff) + buffer_pos pp" using assms(4) s(3) inv2(2) True k(3) by linarith
    then show thesis using that [of True pp3] True s inv2(3) by (simp add: mp_measures_def)
  next
    case False
    have "((poff1, ch, pp2), (poff, sc, pp)) \<in> measures (mp_measures len)"
      using assms(4,5) inv2(2) False dec by (auto simp: mp_measures_def)
    then show thesis using that [of ch pp2] False inv2 by simp
  qed
qed

lemma multipart_loop_step:
  assumes inv: "mp_inv pp"
    and IH: "\<And>poff' sc' pp'. ((poff', sc', pp'), (poff, sc, pp)) \<in> measures (mp_measures (length data)) \<Longrightarrow> mp_inv pp' \<Longrightarrow>
      \<exists>b pp''. multipart_loop alloc ikvi data poff' sc' pp' = Some (Ret b, pp'') \<and> mp_inv pp'' \<and> encoding pp'' = encoding pp'"
  shows "\<exists>b pp'. multipart_loop alloc ikvi data poff sc pp = Some (Ret b, pp') \<and> mp_inv pp' \<and> encoding pp' = encoding pp"
proof -
  have sz: "length (buf pp) = buffer_size pp + 1" "buffer_pos pp \<le> buffer_size pp" "0 < buffer_size pp"
    using inv by (simp_all add: mp_inv_def)
  show ?thesis
  proof (cases "poff < length data \<or> (buffer_pos pp > 0 \<and> sc)")
    case False
    then show ?thesis
      using multipart_end_ok [OF inv, of 0 "length data" poff] unfolding multipart_loop.simps [of alloc ikvi data poff sc pp] if_not_P [OF False] by simp
  next
    case True
    define mx where "mx = min (buffer_size pp - buffer_pos pp) (length data - poff)"
    have "mx \<le> buffer_size pp - buffer_pos pp" by (simp add: mx_def)
    then have fit: "buffer_pos pp + length (take mx (drop poff data)) \<le> length (buf pp)" using sz by simp
    obtain mem where mem: "blit (buf pp) (buffer_pos pp) (take mx (drop poff data)) = Some mem" "length mem = length (buf pp)"
      using blit_total [OF fit] by blast
    define pp1 where "pp1 = pp\<lparr>buf := mem, buffer_pos := buffer_pos pp + mx\<rparr>"
    have p1: "mp_inv pp1" "0 < buffer_pos pp1" "pp_state pp1 = pp_state pp" "encoding pp1 = encoding pp"
      using inv True sz mem(2) by (auto simp: pp1_def mx_def mp_inv_def state_ok_def)
    have total: "(length data - (poff + mx)) + buffer_pos pp1 = (length data - poff) + buffer_pos pp"
      by (auto simp: pp1_def mx_def)
    note unf = multipart_loop.simps [of alloc ikvi data poff sc pp, unfolded if_P [OF True] Let_def, folded mx_def,
        unfolded mem(1) bind.bind_lunit, folded pp1_def]
    show ?thesis
    proof (cases "mx = 0 \<and> \<not> sc \<and> poff + mx < length data")
      case True
      then show ?thesis using p1 unfolding unf by (auto simp: mp_inv_def state_ok_def nested_state_def)
    next
      case go: False
      note unf2 = unf [unfolded if_not_P [OF go]]
      obtain r where r: "multipart_step alloc ikvi pp1 = Some r" "mp_ok pp1 (Some r)" "\<And>q. r \<noteq> Engine q"
        by (rule multipart_step_ok [OF p1(1,2)]) (rule that)
      show ?thesis
      proof (cases r)
        case (Again ch ioff pp2)
        have less: "length data - (poff + mx) < length data - poff \<or> poff + mx = poff \<and> sc" using go True by (auto simp: mx_def)
        obtain ch' pp3 where n: "(if ioff > 0 then map_option (Pair True) (shift_buffer ioff pp2) else Some (ch, pp2)) = Some (ch', pp3)"
          "mp_inv pp3" "encoding pp3 = encoding pp1" "((poff + mx, ch', pp3), (poff, sc, pp)) \<in> measures (mp_measures (length data))"
          by (rule again_smaller [OF p1(1) r(2) [unfolded Again] p1(3) total less]) (rule that)
        have "multipart_loop alloc ikvi data poff sc pp = multipart_loop alloc ikvi data (poff + mx) ch' pp3"
          using r(1) Again n(1) unfolding unf2 by (auto split: if_splits)
        then show ?thesis using IH [OF n(4,2)] n(3) p1(4) by simp
      next
        case (End ioff pp2)
        then have k: "keeps pp1 pp2" "state_ok pp2" "ioff \<le> buffer_pos pp2" using r(2) by (auto simp: mp_ok_def keeps_def)
        have "encoding pp2 = encoding pp" using k(1) p1(4) by (simp add: keeps_def)
        then show ?thesis
          using multipart_end_ok [OF mp_inv_keeps [OF p1(1) k(1,2)] k(3)] End r(1) unfolding unf2 by simp
      next
        case (MReturn res pp2)
        then have k: "keeps pp1 pp2" "state_ok pp2" "res \<noteq> Panic" using r(2) by (auto simp: mp_ok_def)
        then show ?thesis
          using mp_inv_keeps [OF p1(1) k(1,2)] MReturn r(1) p1(4) unfolding unf2 by (auto simp: not_panic keeps_def)
      next
        case (Engine q)
        then show ?thesis using r(3) by blast
      qed
    qed
  qed
qed

lemma multipart_loop_total:
  assumes "mp_inv pp"
  shows "\<exists>b pp'. multipart_loop alloc ikvi data poff sc pp = Some (Ret b, pp') \<and> mp_inv pp' \<and> encoding pp' = encoding pp"
proof -
  have "case x of (poff, sc, pp) \<Rightarrow> mp_inv pp \<longrightarrow> (\<exists>b pp'. multipart_loop alloc ikvi data poff sc pp = Some (Ret b, pp')
      \<and> mp_inv pp' \<and> encoding pp' = encoding pp)" for x
  proof (induction x rule: wf_induct_rule [OF wf_measures [of "mp_measures (length data)"]])
    case (1 x)
    obtain poff sc pp where x: "x = (poff, sc, pp)" by (cases x)
    have "\<exists>b pp'. multipart_loop alloc ikvi data poff sc pp = Some (Ret b, pp') \<and> mp_inv pp' \<and> encoding pp' = encoding pp"
      if "mp_inv pp"
      by (rule multipart_loop_step [OF that]) (use 1 x in auto)
    then show ?case by (simp add: x)
  qed
  from this [of "(poff, sc, pp)"] show ?thesis using assms by simp
qed

abbreviation is_multipart :: "string \<Rightarrow> bool" where
  "is_multipart ctype \<equiv> MHD_str_equal_caseless_n MULTIPART_FORMDATA ctype (length MULTIPART_FORMDATA)"

lemma boundary_param_ok:
  assumes "find_boundary_param ctype bsize = Some (b, n)" "b \<noteq> []" "bsize < 2 ^ 60"
  shows "bnd_ok (Some b) n" "unat n + 4 \<le> bsize + 4"
proof -
  have "bnd_ok (Some b) n \<and> unat n + 4 \<le> bsize + 4"
  proof (cases "strstr (drop (length MULTIPART_FORMDATA) ctype) ''boundary=''")
    case (Some i)
    define t where "t = drop (i + 9) (drop (length MULTIPART_FORMDATA) ctype)"
    have ne: "length t \<noteq> 0" and sz: "length t * 2 + 2 \<le> bsize"
      and bn: "(b, n) = (if t ! 0 = CHR 0x22 \<and> t ! (length t - 1) = CHR 0x22 then (tl t, word_of_nat (length t) - 2)
                 else (t, word_of_nat (length t)))"
      using assms(1) unfolding find_boundary_param_def Some option.case Let_def t_def [symmetric]
      by (auto split: if_splits)
    have len: "unat (word_of_nat (length t) :: size_t) = length t" using sz assms(3) by (simp add: unat_of_nat)
    show ?thesis
    proof (cases "b = tl t \<and> n = word_of_nat (length t) - 2")
      case True
      then have two: "2 \<le> length t" using assms(2) by (cases t; cases "tl t") auto
      then have "(2 :: size_t) \<le> word_of_nat (length t)" using len by (simp add: word_le_nat_alt)
      then have "unat n = length t - 2" using True len by (simp add: unat_sub)
      then show ?thesis using True two sz assms(3) by (auto simp: bnd_ok_def)
    next
      case False
      then have "b = t" "n = word_of_nat (length t)" using bn by (auto split: if_splits)
      then show ?thesis using len sz assms(3) by (simp add: bnd_ok_def)
    qed
  qed (use assms(1) in \<open>simp add: find_boundary_param_def\<close>)
  then show "bnd_ok (Some b) n" "unat n + 4 \<le> bsize + 4" by auto
qed

definition multi_created :: "string \<Rightarrow> string \<Rightarrow> size_t \<Rightarrow> nat \<Rightarrow> 'c \<Rightarrow> 'c MHD_PostProcessor" where
  "multi_created ctype b n bsize cl = (url_created ctype bsize cl)\<lparr>boundary := Some b, blen := n\<rparr>"

lemma create_multi:
  assumes "MHD_lookup_connection_value (Some connection) MHD_HEADER_KIND (Some MHD_HTTP_HEADER_CONTENT_TYPE) = Some ctype"
    and "\<not> is_urlencoded ctype" "is_multipart ctype" "find_boundary_param ctype bsize = Some (b, n)" "256 \<le> bsize"
  shows "MHD_create_post_processor True (Some connection) bsize True cl = Created (multi_created ctype b n bsize cl)"
  using assms by (simp add: MHD_create_post_processor_def multi_created_def url_created_def Let_def)

lemma multi_created_inv:
  assumes "find_boundary_param ctype bsize = Some (b, n)" "b \<noteq> []" "bsize < 2 ^ 60"
  shows "mp_inv (multi_created ctype b n bsize cl)"
  using boundary_param_ok [OF assms] assms(3)
  by (simp add: multi_created_def url_created_def mp_inv_def state_ok_def nested_state_def)

lemma post_process_all_multi_total:
  assumes "mp_inv pp" "\<not> is_urlencoded (encoding pp)" "is_multipart (encoding pp)"
  shows "\<exists>b pp'. post_process_all alloc ikvi pp ds = Some (Ret b, pp') \<and> mp_inv pp'"
  using assms
proof (induction ds arbitrary: pp)
  case (Cons d ds)
  obtain b pp' where p: "MHD_post_process alloc ikvi (Some pp) d = Some (Ret b, Some pp')" "mp_inv pp'" "encoding pp' = encoding pp"
    using multipart_loop_total [OF Cons.prems(1), of alloc ikvi d 0 True] Cons.prems
    by (cases "d = []") (auto simp: MHD_post_process_def post_process_multipart_def)
  then show ?case using Cons.IH [OF p(2)] Cons.prems(2,3) by (cases b) auto
qed auto

text \<open>
  C14. Multipart processing ends on every body, in every split into calls, with every callback and whether or not memory
  can be allocated; it stays inside the buffer and the boundary strings and never reaches the panic of the state machine.
  The content type must have a usable boundary: anything but a single quote.
\<close>
theorem multipart_total:
  assumes "MHD_lookup_connection_value (Some connection) MHD_HEADER_KIND (Some MHD_HTTP_HEADER_CONTENT_TYPE) = Some ctype"
    and "\<not> is_urlencoded ctype" "is_multipart ctype" "find_boundary_param ctype bsize = Some (b, n)" "b \<noteq> []"
    and "256 \<le> bsize" "bsize < 2 ^ 60"
  shows "\<exists>r cl'. post_body alloc connection bsize ikvi cl ds = Some (Ret r, cl')"
proof -
  let ?pp = "multi_created ctype b n bsize cl"
  have enc: "encoding ?pp = ctype" by (simp add: multi_created_def url_created_def)
  obtain r pp' where p: "post_process_all alloc ikvi ?pp ds = Some (Ret r, pp')" "mp_inv pp'"
    using post_process_all_multi_total [OF multi_created_inv [OF assms(4,5,7)], of cl alloc ikvi ds] enc assms(2,3) by auto
  have "pp_state pp' \<noteq> PP_ProcessValue" using p(2) by (simp add: mp_inv_def state_ok_def)
  then show ?thesis
    using p(1) create_multi [OF assms(1-4,6), of cl] by (auto simp: post_body_def MHD_destroy_post_processor_def)
qed

definition crlf :: string where
  "crlf = [CR, LF]"

definition quoted :: "string \<Rightarrow> string" where
  "quoted s = CHR 0x22 # s @ [CHR 0x22]"

definition multi_conn :: "string \<Rightarrow> conn_values" where
  "multi_conn b = \<lparr>pool = example_pool, headers_received =
     [\<lparr>hname = Some ''Content-Type'', hvalue = Some (''multipart/form-data; boundary='' @ b), hkind = 1\<rparr>]\<rparr>"

definition disposition :: "string \<Rightarrow> string \<Rightarrow> string" where
  "disposition key s = ''Content-Disposition: form-data; '' @ key @ ''='' @ quoted s @ crlf"

text \<open>An application that records name, file name and data of every call.\<close>

definition record_calls :: "(string option \<times> string option \<times> string) list post_data_iterator" where
  "record_calls c k f t e d off = (True, c @ [(k, f, d)])"

definition simple_body :: string where
  "simple_body = ''--AaB'' @ crlf @ disposition ''name'' ''x'' @ crlf @ ''a'' @ crlf @ ''--Aa'' @ crlf @ ''--AaB--'' @ crlf"

theorem multipart_total_witness:
  "(\<exists>r cl'. post_body (\<lambda>n. True) (multi_conn ''AaB'') 256 record_calls [] [simple_body] = Some (Ret r, cl'))
   \<and> post_body (\<lambda>n. True) (multi_conn ''AaB'') 256 record_calls [] [simple_body] =
       Some (Ret True, [(Some ''x'', None, ''a'' @ crlf @ ''--Aa'')])"
proof
  let ?ct = "''multipart/form-data; boundary=AaB''"
  have "MHD_lookup_connection_value (Some (multi_conn ''AaB'')) MHD_HEADER_KIND (Some MHD_HTTP_HEADER_CONTENT_TYPE) = Some ?ct"
    "\<not> is_urlencoded ?ct" "is_multipart ?ct" "find_boundary_param ?ct 256 = Some (''AaB'', 3)"
    by code_simp+
  then show "\<exists>r cl'. post_body (\<lambda>n. True) (multi_conn ''AaB'') 256 record_calls [] [simple_body] = Some (Ret r, cl')"
    by (rule multipart_total) simp_all
  show "post_body (\<lambda>n. True) (multi_conn ''AaB'') 256 record_calls [] [simple_body] =
       Some (Ret True, [(Some ''x'', None, ''a'' @ crlf @ ''--Aa'')])"
    by code_simp
qed

lemma find_boundary_overread:
  assumes "take 2 (buf pp) = ''--''" "2 \<le> buffer_pos pp" "buffer_pos pp < 2 ^ 62" "length (buf pp) < 2 ^ 62"
  shows "find_boundary pp bnd (- 1) next_state next_dash_state = None"
proof -
  have len: "2 \<le> length (buf pp)" using arg_cong [OF assms(1), of length] by simp
  have "\<not> (word_of_nat (buffer_pos pp) :: size_t) < 2 + - 1"
    using assms(2,3) by (simp add: word_less_nat_alt unat_of_nat)
  moreover have "slice (buf pp) 0 2 = Some ''--''" using len assms(1) by (simp add: slice_def)
  moreover have "slice (buf pp) 2 (unat (- 1 :: size_t)) = None" using assms(4) by (simp add: slice_def unsigned_minus_1_eq_mask mask_eq_exp_minus_1)
  ultimately show ?thesis unfolding find_boundary_def by simp
qed


definition nested_body :: string where
  "nested_body = ''--AaB'' @ crlf @ disposition ''name'' ''files'' @ ''Content-Type: multipart/mixed; boundary=XyZ'' @ crlf @ crlf
     @ ''--XyZ'' @ crlf @ disposition ''filename'' ''f1'' @ crlf @ ''one'' @ crlf @ ''--XyZ--'' @ crlf
     @ ''--AaB'' @ crlf @ disposition ''name'' ''x'' @ crlf @ ''hello'' @ crlf @ ''--AaB--'' @ crlf"


end
