(* ===== verification/Post_Value.thy ===== *)
theory Post_Value
  imports Post_Multipart
begin

text \<open>
  The values of multipart data: the search for the delimiter depends on the filled part of the buffer only, so that the
  pieces given to the application are the text before the first delimiter of the body.
\<close>

lemma slice_agree:
  assumes "take bpos mem = take bpos mem'" "i + k \<le> bpos" "bpos \<le> length mem" "bpos \<le> length mem'"
  shows "slice mem i k = slice mem' i k"
proof -
  have "take k (drop i m) = take k (drop i (take bpos m))" for m :: string
    using assms(2) by (simp add: drop_take min_def)
  then have "take k (drop i mem) = take k (drop i mem')" using assms(1) by metis
  then show ?thesis using assms(2-4) by (simp add: slice_def)
qed

lemma scan_newline_agree:
  assumes "take bpos mem = take bpos mem'" "bpos \<le> length mem" "bpos \<le> length mem'"
  shows "scan_newline mem bpos newline = scan_newline mem' bpos newline"
proof (induction "bpos - newline" arbitrary: newline rule: less_induct)
  case less
  show ?case
  proof (cases "newline + 4 < bpos")
    case True
    define w where "w = take (bpos - newline - 4) (drop newline mem')"
    define i where "i = length (takeWhile (\<lambda>c. c \<noteq> CR) w)"
    have lw: "length w = bpos - newline - 4" using True assms(3) by (simp add: w_def)
    have w': "slice mem' newline (bpos - newline - 4) = Some w" using True assms(3) by (simp add: slice_def w_def)
    have w: "slice mem newline (bpos - newline - 4) = Some w"
      using slice_agree [OF assms(1) _ assms(2,3), of newline "bpos - newline - 4"] True w' by simp
    show ?thesis
    proof (cases "i = length w")
      case all: True
      then show ?thesis
        using True w w' by (simp add: scan_newline.simps [of mem bpos newline] scan_newline.simps [of mem' bpos newline] i_def)
    next
      case False
      then have i: "i < bpos - newline - 4" using length_takeWhile_le [of "\<lambda>c. c \<noteq> CR" w] lw by (auto simp: i_def)
      have q: "slice mem (newline + i) 4 = slice mem' (newline + i) 4"
        using slice_agree [OF assms(1) _ assms(2,3)] i by simp
      have "scan_newline mem bpos (newline + i + 1) = scan_newline mem' bpos (newline + i + 1)"
        using less [of "newline + i + 1"] True by simp
      then show ?thesis
        using True False w w' q
        by (simp add: scan_newline.simps [of mem bpos newline] scan_newline.simps [of mem' bpos newline] i_def [symmetric]
            cong: if_cong)
    qed
  qed (simp add: scan_newline.simps)
qed

lemma scan_value_agree:
  assumes "take bpos mem = take bpos mem'" "bpos \<le> length mem" "bpos \<le> length mem'" "bnd_ok bnd n" "bpos < 2 ^ 62" "newline \<le> bpos"
  shows "scan_value mem bpos bnd n newline = scan_value mem' bpos bnd n newline"
  using assms(6)
proof (induction "bpos - newline" arbitrary: newline rule: less_induct)
  case less
  obtain m where m: "scan_newline mem' bpos newline = Some m" "newline \<le> m" "m \<le> bpos"
    using scan_newline_spec [OF assms(3) less.prems] less.prems by (auto simp: max_def split: if_splits)
  have m': "scan_newline mem bpos newline = Some m" using scan_newline_agree [OF assms(1,2,3)] m(1) by simp
  have lt: "m < 2 ^ 62" and n: "unat n < 2 ^ 62" using m(3) assms(4,5) by (auto simp: bnd_ok_def)
  note fits = boundary_fits(1) [OF lt assms(5) n]
  show ?case
  proof (cases "m + unat n + 4 \<le> bpos")
    case True
    have "scan_value mem bpos bnd n (m + 4) = scan_value mem' bpos bnd n (m + 4)"
      using less.hyps [of "m + 4"] True m(2) by simp
    moreover have "slice mem (m + 4) (unat n) = slice mem' (m + 4) (unat n)"
      using slice_agree [OF assms(1) _ assms(2,3)] True by simp
    ultimately show ?thesis
      using m(1) m'
      by (simp add: scan_value.simps [of mem bpos bnd n newline] scan_value.simps [of mem' bpos bnd n newline] cong: if_cong)
  next
    case False
    then show ?thesis
      using m(1) m' fits
      by (simp add: scan_value.simps [of mem bpos bnd n newline] scan_value.simps [of mem' bpos bnd n newline])
  qed
qed

text \<open>The search in the buffer, in terms of the whole rest of the body, of which the buffer holds a first part.\<close>

lemma scan_value_stream:
  assumes "bpos \<le> length mem" "bnd_ok bnd n" "bpos < 2 ^ 62" "n \<noteq> 0"
    and stream: "take bpos mem @ input = v @ (dashes @ bnd_text bnd n) @ rest"
    and first: "\<And>i. i < length v \<Longrightarrow> \<not> occurs_at (dashes @ bnd_text bnd n) (v @ (dashes @ bnd_text bnd n) @ rest) i"
  obtains m where "scan_value mem bpos bnd n 0 = Some (length v + 4 + unat n \<le> bpos, m)" "m \<le> length v"
    "length v + 4 + unat n \<le> bpos \<Longrightarrow> m = length v" "bpos < length v + 4 + unat n \<Longrightarrow> bpos < m + 4 + unat n"
proof -
  let ?d = "dashes @ bnd_text bnd n"
  let ?s = "take bpos mem @ input"
  have ld: "length ?d = 4 + unat n" using bnd_length [OF assms(2)] by (simp add: dashes_def)
  have at: "occurs_at ?d ?s (length v)" unfolding stream by (simp add: occurs_at_iff)
  have len: "bpos \<le> length ?s" "take bpos ?s = take bpos mem" using assms(1) by simp_all
  obtain found m where f: "scan_value ?s bpos bnd n 0 = Some (found, m)" "m \<le> bpos"
    "found \<longleftrightarrow> m + unat n + 4 \<le> bpos" "found \<Longrightarrow> occurs_at ?d ?s m" "\<And>i. i < m \<Longrightarrow> \<not> occurs_at ?d ?s i"
    using scan_value_spec [OF len(1) _ assms(2,3), of 0] assms(4) by auto
  have sv: "scan_value mem bpos bnd n 0 = Some (found, m)"
    using scan_value_agree [OF _ assms(1) len(1) assms(2,3), of 0] len(2) f(1) by simp
  have le: "m \<le> length v" using f(5) [of "length v"] at by linarith
  have eq: "m = length v" if found using f(4) [OF that] first [of m] le unfolding stream by (cases "m < length v") auto
  show thesis
  proof (rule that)
    show "scan_value mem bpos bnd n 0 = Some (length v + 4 + unat n \<le> bpos, m)"
      using sv f(3) eq le by (cases found) auto
  qed (use f(3) eq le in auto)
qed

text \<open>An application that joins all data it is given.\<close>

definition join_data :: "string post_data_iterator" where
  "join_data c k f t e d off = (True, c @ d)"

text \<open>The state after a step over a value.\<close>

definition value_done :: "bool \<Rightarrow> nat \<Rightarrow> string \<Rightarrow> PP_State \<Rightarrow> PP_State \<Rightarrow> string MHD_PostProcessor \<Rightarrow> string MHD_PostProcessor" where
  "value_done found m v next_state next_dash_state pp =
     (if found then pp\<lparr>skip_rn := RN_Dash, pp_state := next_state, dash_state := next_dash_state, buf := (buf pp)[m := NUL]\<rparr> else pp)
       \<lparr>cls := cls pp @ take m v, must_ikvi := False, value_offset := value_offset pp + word_of_nat m\<rparr>"

lemma process_value_run:
  assumes "scan_value (buf pp) (buffer_pos pp) bnd n 0 = Some (found, m)" "\<not> (\<not> found \<and> m = 0 \<and> buffer_pos pp = buffer_size pp)"
    "found \<Longrightarrow> m < length (buf pp)" "m \<le> length (buf pp)" "take m (buf pp) = take m v"
  shows "process_value_to_boundary join_data pp bnd n next_state next_dash_state =
     Some (True, (if found then unat n + 4 else 0) + m, value_done found m v next_state next_dash_state pp)"
  unfolding process_value_to_boundary_def assms(1) bind.bind_lunit prod.case if_not_P [OF assms(2)] value_done_def
  using assms(3-5) by (cases found) (simp_all add: wr_at_def slice_def join_data_def Let_def)

text \<open>
  C17. The value of a part is what stands before the first delimiter (line end, two dashes and boundary) in the rest of the
  body, of which the buffer holds a first part. One step gives a prefix of the value to the application: the whole of it
  when the delimiter is in the buffer, which is then skipped too, and otherwise all but fewer bytes than the
  delimiter has. So the pieces of all steps join to the value, wherever the body is split.
\<close>
theorem multipart_value_collected:
  assumes "mp_inv pp" "bnd_ok bnd n" "n \<noteq> 0" "unat n + 4 \<le> buffer_size pp" "d = dashes @ bnd_text bnd n"
    and "take (buffer_pos pp) (buf pp) @ input = v @ d @ rest"
    and "\<And>i. i < length v \<Longrightarrow> \<not> occurs_at d (v @ d @ rest) i"
  shows "\<exists>m pp'. process_value_to_boundary join_data pp bnd n next_state next_dash_state =
      Some (True, if length v + length d \<le> buffer_pos pp then length v + length d else m, pp')
    \<and> m \<le> length v \<and> cls pp' = cls pp @ take m v
    \<and> (if length v + length d \<le> buffer_pos pp
       then m = length v \<and> pp_state pp' = next_state \<and> skip_rn pp' = RN_Dash \<and> dash_state pp' = next_dash_state
       else buffer_pos pp < m + length d \<and> pp_state pp' = pp_state pp)"
proof -
  have sz: "length (buf pp) = buffer_size pp + 1" "buffer_pos pp \<le> buffer_size pp" "buffer_pos pp < 2 ^ 62"
    using assms(1) by (auto simp: mp_inv_def)
  have ld: "length d = 4 + unat n" using bnd_length [OF assms(2)] assms(5) by (simp add: dashes_def)
  obtain m where m: "scan_value (buf pp) (buffer_pos pp) bnd n 0 = Some (length v + 4 + unat n \<le> buffer_pos pp, m)" "m \<le> length v"
    "length v + 4 + unat n \<le> buffer_pos pp \<Longrightarrow> m = length v"
    "buffer_pos pp < length v + 4 + unat n \<Longrightarrow> buffer_pos pp < m + 4 + unat n"
    by (rule scan_value_stream [of "buffer_pos pp" "buf pp" bnd n input v rest])
      (use assms sz in auto)
  define found where "found \<longleftrightarrow> length v + 4 + unat n \<le> buffer_pos pp"
  have pre: "take m (buf pp) = take m v"
  proof -
    have "m \<le> buffer_pos pp" using m(2,3,4) scan_value_spec [OF _ _ assms(2) sz(3), of "buf pp" 0] m(1) sz(1,2) by auto
    then have "take m (buf pp) = take m (take (buffer_pos pp) (buf pp) @ input)" using sz by simp
    then show ?thesis using m(2) unfolding assms(6) by simp
  qed
  have nz: "\<not> (\<not> found \<and> m = 0 \<and> buffer_pos pp = buffer_size pp)"
    using m(4) assms(4) by (auto simp: found_def)
  have mb: "found \<Longrightarrow> m < length (buf pp)" "m \<le> length (buf pp)"
    using m(3) sz arg_cong [OF pre, of length] m(2) by (auto simp: found_def min_def split: if_splits)
  have sc: "scan_value (buf pp) (buffer_pos pp) bnd n 0 = Some (found, m)" using m(1) by (simp add: found_def)
  let ?fin = "value_done found m v next_state next_dash_state pp"
  have fin: "found \<longleftrightarrow> length v + length d \<le> buffer_pos pp" using ld by (auto simp: found_def)
  have io: "(if found then unat n + 4 else 0) + m = (if length v + length d \<le> buffer_pos pp then length v + length d else m)"
    using m(3) ld by (auto simp: found_def)
  have last: "if found then m = length v \<and> pp_state ?fin = next_state \<and> skip_rn ?fin = RN_Dash \<and> dash_state ?fin = next_dash_state
      else buffer_pos pp < m + length d \<and> pp_state ?fin = pp_state pp"
    using m(3,4) ld by (auto simp: found_def value_done_def)
  have "cls ?fin = cls pp @ take m v" by (simp add: value_done_def)
  then show ?thesis using process_value_run [OF sc nz mb pre, of next_state next_dash_state] io m(2) last fin by (intro exI [of _ m] exI [of _ ?fin]) simp
qed

definition value_pp :: "string \<Rightarrow> string MHD_PostProcessor" where
  "value_pp s = (multi_created ''multipart/form-data; boundary=AaB'' ''AaB'' 3 256 [])\<lparr>pp_state := PP_ProcessValueToBoundary,
     buf := s @ replicate (261 - length s) NUL, buffer_pos := length s\<rparr>"

theorem multipart_value_collected_witness:
  "\<exists>m pp'. process_value_to_boundary join_data (value_pp (''hello'' @ crlf @ ''--AaB'')) (Some ''AaB'') 3 PP_PerformCleanup PP_Done =
      Some (True, 12, pp') \<and> m \<le> 5 \<and> cls pp' = take m ''hello'' \<and> m = 5 \<and> pp_state pp' = PP_PerformCleanup"
proof -
  let ?pp = "value_pp (''hello'' @ crlf @ ''--AaB'')" and ?d = "dashes @ bnd_text (Some ''AaB'') 3"
  have inv: "mp_inv ?pp"
    by (simp add: value_pp_def multi_created_def url_created_def mp_inv_def bnd_ok_def state_ok_def nested_state_def crlf_def)
  have b: "bnd_ok (Some ''AaB'') 3" by (simp add: bnd_ok_def)
  have d: "length ?d = 7" "buffer_pos ?pp = 12" "cls ?pp = []" by code_simp+
  have first: "\<not> occurs_at ?d (''hello'' @ ?d @ []) i" if "i < length ''hello''" for i
  proof -
    have "\<forall>i \<in> set [0..<5]. \<not> occurs_at ?d (''hello'' @ ?d @ []) i" by code_simp
    then show ?thesis using that by (simp del: append.simps)
  qed
  have st: "take (buffer_pos ?pp) (buf ?pp) @ [] = ''hello'' @ ?d @ []" by code_simp
  have sz: "unat (3 :: size_t) + 4 \<le> buffer_size ?pp" by code_simp
  show ?thesis
    using multipart_value_collected [OF inv b _ sz refl st first, of PP_PerformCleanup PP_Done] d by auto
qed

end
