(* ===== verification/Nonce_Map.thy ===== *)
theory Nonce_Map
  imports Prelude
begin

text \<open>
  The map from server nonces to nonce counters (\<^verbatim>\<open>check_nonce_nc\<close> of \<^verbatim>\<open>libmicrohttpd/src/microhttpd/digestauth.c\<close>), which is to
  stop the replay of authenticated requests. The array of the daemon is a list; its length is the size that the daemon
  keeps with it. The mutex is not modelled: a check is atomic.
\<close>

unbundle bit_operations_syntax

definition MAX_NONCE_LENGTH :: nat where
  "MAX_NONCE_LENGTH = 129"

record MHD_NonceNc =
  nn_nc :: u64
  nn_nmask :: u64
  nn_nonce :: string

text \<open>Characters are signed: a byte is extended by its sign before it is combined with the hash.\<close>

definition nonce_hash :: "string \<Rightarrow> u32" where
  "nonce_hash s = foldl (\<lambda>off c. push_bit 8 off OR (scast (byte_of_char c) XOR drop_bit 24 off)) 0 s"

definition nc_bit :: "MHD_NonceNc \<Rightarrow> u64 \<Rightarrow> u64" where
  "nc_bit nn n = push_bit (unat (nn_nc nn - n - 1)) 1"

text \<open>The check of one element of the array.\<close>

definition check_slot :: "MHD_NonceNc \<Rightarrow> string \<Rightarrow> u64 \<Rightarrow> bool \<times> MHD_NonceNc" where
  "check_slot nn nonce n =
     (if n = 0 then (True, \<lparr>nn_nc = 0, nn_nmask = 0, nn_nonce = nonce\<rparr>)
      else if n < nn_nc nn \<and> n + 64 > n \<and> n + 64 \<ge> nn_nc nn \<and> nc_bit nn n AND nn_nmask nn = 0
      then (True, nn\<lparr>nn_nmask := nn_nmask nn OR nc_bit nn n\<rparr>)
      else if n \<le> nn_nc nn \<or> nn_nonce nn \<noteq> nonce then (False, nn)
      else (True, nn\<lparr>nn_nmask := (if n - nn_nc nn < 64 then push_bit (unat (n - nn_nc nn)) (nn_nmask nn) else 0),
              nn_nc := n\<rparr>))"

definition check_nonce_nc :: "MHD_NonceNc list \<Rightarrow> string \<Rightarrow> u64 \<Rightarrow> bool \<times> MHD_NonceNc list" where
  "check_nonce_nc nnc nonce n =
     (if MAX_NONCE_LENGTH < length nonce + 1 then (False, nnc)
      else if nnc = [] then (False, nnc)
      else let off = unat (nonce_hash nonce mod word_of_nat (length nnc));
               (ok, nn) = check_slot (nnc ! off) nonce n
           in (ok, nnc[off := nn]))"

section \<open>How often a counter is accepted\<close>

text \<open>The counters that a sequence of requests to one element gets accepted.\<close>

fun accepted :: "MHD_NonceNc \<Rightarrow> (string \<times> u64) list \<Rightarrow> u64 list" where
  "accepted nn [] = []"
| "accepted nn ((nonce, n) # rs) =
     (let (ok, nn') = check_slot nn nonce n in (if ok then [n] else []) @ accepted nn' rs)"

text \<open>How often a counter can still be accepted: as the new limit, and once more inside the window of the bit mask.\<close>

definition chances :: "MHD_NonceNc \<Rightarrow> u64 \<Rightarrow> nat" where
  "chances nn x =
     (if x > nn_nc nn then 2 else if x = nn_nc nn then 1
      else if unat x + 64 \<ge> unat (nn_nc nn) \<and> \<not> bit (nn_nmask nn) (unat (nn_nc nn) - unat x - 1) then 1 else 0)"

lemma window_position:
  assumes "n < (m :: u64)"
  shows "unat (m - n - 1) = unat m - unat n - 1"
proof -
  have lt: "unat n < unat m" using assms by (simp add: word_less_nat_alt)
  have "unat (m - n) = unat m - unat n" using assms by (simp add: unat_sub)
  moreover have "(1 :: u64) \<le> m - n" using assms lt calculation by (simp add: word_le_nat_alt)
  ultimately show ?thesis by (simp add: unat_sub)
qed

lemma bit_test: "push_bit p 1 AND (m :: u64) = 0 \<longleftrightarrow> \<not> bit m p"
  using and_exp_eq_0_iff_not_bit [of m p] by (simp add: push_bit_of_1 and.commute)

lemma window_guard:
  assumes "n < (m :: u64)"
  shows "n + 64 > n \<and> n + 64 \<ge> m \<longleftrightarrow> unat n + 64 \<ge> unat m \<and> unat n + 64 < 2 ^ 64"
proof (cases "unat n + 64 < 2 ^ 64")
  case True
  then have "unat (n + 64) = unat n + 64" by (simp add: unat_word_ariths)
  then show ?thesis using True by (simp add: word_less_nat_alt word_le_nat_alt)
next
  case False
  then have "unat (n + 64) = unat n + 64 - 2 ^ 64"
    using unsigned_less [of n, where ?'a = nat] by (simp add: unat_word_ariths mod_if)
  then have "\<not> n + 64 > n" using unsigned_less [of n, where ?'a = nat] by (simp add: word_less_nat_alt)
  then show ?thesis using False by simp
qed

lemma slot_mask_bit:
  assumes "n < nn_nc nn" "x < nn_nc nn"
  shows "bit (nc_bit nn n) (unat (nn_nc nn) - unat x - 1) \<longleftrightarrow> x = n \<and> unat (nn_nc nn) \<le> unat n + 64"
proof -
  have "unat n < unat (nn_nc nn)" "unat x < unat (nn_nc nn)" using assms by (simp_all add: word_less_nat_alt)
  then show ?thesis
    using window_position [OF assms(1)]
    by (auto simp: nc_bit_def push_bit_of_1 bit_exp_iff word_unat_eq_iff)
qed

text \<open>A check that accepts a counter uses up one of its chances, and no other check gives it a new one.\<close>

lemma chances_step:
  assumes "n \<noteq> 0" "check_slot nn nonce n = (ok, nn')"
  shows "chances nn' x + (if ok \<and> n = x then 1 else 0) \<le> chances nn x"
proof -
  consider (mask) "n < nn_nc nn" "n + 64 > n" "n + 64 \<ge> nn_nc nn" "\<not> bit (nn_nmask nn) (unat (nn_nc nn) - unat n - 1)"
      "ok" "nn' = nn\<lparr>nn_nmask := nn_nmask nn OR nc_bit nn n\<rparr>"
    | (no) "\<not> ok" "nn' = nn"
    | (bump) "n > nn_nc nn" "ok"
      "nn' = nn\<lparr>nn_nmask := (if n - nn_nc nn < 64 then push_bit (unat (n - nn_nc nn)) (nn_nmask nn) else 0), nn_nc := n\<rparr>"
  proof -
    note c = assms(2) [unfolded check_slot_def if_not_P [OF assms(1)]]
    let ?g = "n < nn_nc nn \<and> n + 64 > n \<and> n + 64 \<ge> nn_nc nn \<and> nc_bit nn n AND nn_nmask nn = 0"
    show thesis
    proof (cases ?g)
      case True
      then have "\<not> bit (nn_nmask nn) (unat (nn_nc nn) - unat n - 1)"
        using True bit_test by (metis nc_bit_def window_position)
      then show thesis using that(1) True c [unfolded if_P [OF True]] by blast
    next
      case False
      note c2 = c [unfolded if_not_P [OF False]]
      show thesis
      proof (cases "n \<le> nn_nc nn \<or> nn_nonce nn \<noteq> nonce")
        case True
        show thesis using that(2) c2 [unfolded if_P [OF True]] by blast
      next
        case up: False
        then have "nn_nc nn < n" by (simp add: not_le)
        then show thesis using that(3) c2 [unfolded if_not_P [OF up]] by blast
      qed
    qed
  qed
  then show ?thesis
  proof cases
    case mask
    then have win: "unat n + 64 \<ge> unat (nn_nc nn)" using window_guard [OF mask(1)] by blast
    show ?thesis
    proof (cases "x < nn_nc nn")
      case True
      then show ?thesis
        using mask win slot_mask_bit [OF mask(1) True] by (auto simp: chances_def bit_or_iff)
    qed (use mask in \<open>auto simp: chances_def\<close>)
  next
    case bump
    let ?d = "unat n - unat (nn_nc nn)"
    have d: "unat (n - nn_nc nn) = ?d" "unat (nn_nc nn) < unat n"
      using bump(1) by (simp add: unat_sub) (use bump(1) in \<open>simp add: word_less_nat_alt\<close>)
    have small: "n - nn_nc nn < 64 \<longleftrightarrow> ?d < 64" using d(1) by (simp add: word_less_nat_alt)
    show ?thesis
    proof (cases "x < nn_nc nn")
      case True
      let ?p = "unat (nn_nc nn) - unat x - 1"
      have x: "unat x < unat (nn_nc nn)" using True by (simp add: word_less_nat_alt)
      have pos: "unat n - unat x - 1 = ?p + ?d" using x d(2) by simp
      have "bit (nn_nmask nn') (?p + ?d)" if "bit (nn_nmask nn) ?p" "unat x + 64 \<ge> unat n"
        using that small d bump(3) x by (simp add: bit_push_bit_iff) linarith
      then show ?thesis
        using bump True pos x d(2) by (auto simp: chances_def word_less_nat_alt)
    qed (use bump in \<open>auto simp: chances_def\<close>)
  qed simp
qed

lemma accepted_chances:
  assumes "\<forall>(nonce, n) \<in> set rs. n \<noteq> 0"
  shows "count_list (accepted nn rs) x \<le> chances nn x"
  using assms
proof (induction rs arbitrary: nn)
  case (Cons r rs)
  obtain nonce n ok nn' where r: "r = (nonce, n)" and c: "check_slot nn nonce n = (ok, nn')"
    by (cases r; cases "check_slot nn (fst r) (snd r)") auto
  have "count_list (accepted nn' rs) x \<le> chances nn' x" using Cons.IH [of nn'] Cons.prems by auto
  then show ?case using chances_step [OF _ c, of x] Cons.prems r c by auto
qed simp

text \<open>The element of the array that a nonce uses; requests with other nonces of the same element use it too.\<close>

definition slot_of :: "MHD_NonceNc list \<Rightarrow> string \<Rightarrow> nat" where
  "slot_of nnc nonce = unat (nonce_hash nonce mod word_of_nat (length nnc))"

fun accepted_at :: "nat \<Rightarrow> MHD_NonceNc list \<Rightarrow> (string \<times> u64) list \<Rightarrow> u64 list" where
  "accepted_at i nnc [] = []"
| "accepted_at i nnc ((nonce, n) # rs) =
     (let (ok, nnc') = check_nonce_nc nnc nonce n
      in (if ok \<and> slot_of nnc nonce = i then [n] else []) @ accepted_at i nnc' rs)"

lemma slot_of_less:
  assumes "nnc \<noteq> []" "length nnc < 2 ^ 32"
  shows "slot_of nnc nonce < length nnc"
proof -
  have "unat (word_of_nat (length nnc) :: u32) = length nnc" using assms(2) by (simp add: unat_of_nat)
  then show ?thesis using assms(1) by (simp add: slot_of_def unat_mod)
qed

lemma accepted_at_chances:
  assumes "\<forall>(nonce, n) \<in> set rs. n \<noteq> 0" "i < length nnc" "length nnc < 2 ^ 32"
  shows "count_list (accepted_at i nnc rs) x \<le> chances (nnc ! i) x"
  using assms
proof (induction rs arbitrary: nnc)
  case (Cons r rs)
  obtain nonce n where r: "r = (nonce, n)" by (cases r)
  obtain ok nnc' where c: "check_nonce_nc nnc nonce n = (ok, nnc')" by (cases "check_nonce_nc nnc nonce n")
  have n: "n \<noteq> 0" using Cons.prems(1) r by simp
  have ne: "nnc \<noteq> []" using Cons.prems(2) by auto
  have step: "length nnc' = length nnc \<and>
      chances (nnc' ! i) x + (if ok \<and> slot_of nnc nonce = i \<and> n = x then 1 else 0) \<le> chances (nnc ! i) x"
  proof (cases "MAX_NONCE_LENGTH < length nonce + 1")
    case False
    obtain nn' where s: "check_slot (nnc ! slot_of nnc nonce) nonce n = (ok, nn')" "nnc' = nnc[slot_of nnc nonce := nn']"
      using c False ne
      by (cases "check_slot (nnc ! slot_of nnc nonce) nonce n") (auto simp: check_nonce_nc_def Let_def slot_of_def)
    show ?thesis
      using chances_step [OF n s(1), of x] s(2) Cons.prems(2) by (cases "slot_of nnc nonce = i") auto
  qed (use c in \<open>simp add: check_nonce_nc_def\<close>)
  then have "count_list (accepted_at i nnc' rs) x \<le> chances (nnc' ! i) x"
    using Cons.IH [of nnc'] Cons.prems by simp
  then show ?case using step r c by auto
qed simp

text \<open>
  C20. Between two fresh nonces an element of the array accepts every nonce counter at most twice, whatever requests
  arrive and in whatever order.
\<close>
theorem nonce_nc_at_most_twice:
  assumes "\<forall>(nonce, n) \<in> set rs. n \<noteq> 0" "i < length nnc" "length nnc < 2 ^ 32"
  shows "count_list (accepted_at i nnc rs) x \<le> 2"
proof -
  have "chances (nnc ! i) x \<le> 2" by (simp add: chances_def)
  then show ?thesis using accepted_at_chances [OF assms, of x] by linarith
qed

theorem nonce_nc_at_most_twice_witness:
  "count_list (accepted_at 0 [\<lparr>nn_nc = 0, nn_nmask = 0, nn_nonce = ''abc''\<rparr>]
     [(''abc'', 3), (''abc'', 1), (''abc'', 3), (''abc'', 4), (''abc'', 3), (''abc'', 3)]) 3 \<le> 2"
  by (rule nonce_nc_at_most_twice) simp_all


end
