(* ===== verification/Response.thy ===== *)
theory Response
  imports Conn_Values Internal
begin

text \<open>
  Responses (\<^verbatim>\<open>libmicrohttpd/src/microhttpd/response.c\<close>): the list of headers and footers, the ways to create a response, its
  reference counter and the reader for files. A null response is \<open>None\<close>. The flags \<open>mem\<close> say which allocations succeed,
  with the initialisation of the mutex where the code has one. Callbacks of the application are represented by what
  they are for. The mutex is not modelled: an operation is atomic.
\<close>

section \<open>State\<close>

datatype content_reader = No_reader | Application_reader | File_reader
datatype content_free = No_free | Free_data | Free_fd | Application_free

definition MHD_SIZE_UNKNOWN :: u64 where
  "MHD_SIZE_UNKNOWN = - 1"

definition MHD_FD_BLOCK_SIZE :: size_t where
  "MHD_FD_BLOCK_SIZE = 4096"

record MHD_Response =
  first_header :: "MHD_HTTP_Header list"
  rdata :: "byte list"
  crc :: content_reader
  crfc :: content_free
  upgrade_handler :: bool
  total_size :: u64
  data_start :: u64
  fd_off :: u64
  data_size :: size_t
  data_buffer_size :: size_t
  reference_count :: u32
  fd :: int
  flags :: u32

definition zero_response :: MHD_Response where
  "zero_response = \<lparr>first_header = [], rdata = [], crc = No_reader, crfc = No_free, upgrade_handler = False, total_size = 0,
     data_start = 0, fd_off = 0, data_size = 0, data_buffer_size = 0, reference_count = 0, fd = 0, flags = 0\<rparr>"

section \<open>Headers and footers\<close>

text \<open>The three allocations: the list element, the name and the value.\<close>

definition add_response_entry ::
  "bool \<times> bool \<times> bool \<Rightarrow> MHD_Response option \<Rightarrow> u32 \<Rightarrow> string option \<Rightarrow> string option \<Rightarrow> bool \<times> MHD_Response option" where
  "add_response_entry mem response kind header content =
     (case (response, header, content) of
        (Some r, Some h, Some c) \<Rightarrow>
          if peek h = NUL \<or> peek c = NUL
             \<or> strchr h TAB \<noteq> None \<or> strchr h CR \<noteq> None \<or> strchr h LF \<noteq> None
             \<or> strchr c TAB \<noteq> None \<or> strchr c CR \<noteq> None \<or> strchr c LF \<noteq> None
          then (False, response)
          else if mem \<noteq> (True, True, True) then (False, response)
          else (True, Some (r\<lparr>first_header := \<lparr>hname = Some (c_str h), hvalue = Some (c_str c), hkind = kind\<rparr> # first_header r\<rparr>))
      | _ \<Rightarrow> (False, response))"

definition MHD_HTTP_HEADER_TRANSFER_ENCODING :: string where
  "MHD_HTTP_HEADER_TRANSFER_ENCODING = ''Transfer-Encoding''"
definition MHD_HTTP_HEADER_CONTENT_LENGTH :: string where
  "MHD_HTTP_HEADER_CONTENT_LENGTH = ''Content-Length''"
definition MHD_HTTP_HEADER_CONNECTION :: string where
  "MHD_HTTP_HEADER_CONNECTION = ''Connection''"

text \<open>The comparisons read the header and, for a transfer encoding, the content before they are tested for null.\<close>

definition MHD_add_response_header ::
  "bool \<times> bool \<times> bool \<Rightarrow> MHD_Response option \<Rightarrow> string \<Rightarrow> string option \<Rightarrow> (bool \<times> MHD_Response option) option" where
  "MHD_add_response_header mem response header content =
     (if MHD_str_equal_caseless header MHD_HTTP_HEADER_TRANSFER_ENCODING \<and> content = None then None
      else if MHD_str_equal_caseless header MHD_HTTP_HEADER_TRANSFER_ENCODING
         \<and> \<not> MHD_str_equal_caseless (the content) ''identity'' \<and> \<not> MHD_str_equal_caseless (the content) ''chunked''
      then Some (False, response)
      else if MHD_str_equal_caseless header MHD_HTTP_HEADER_CONTENT_LENGTH then Some (False, response)
      else Some (add_response_entry mem response MHD_HEADER_KIND (Some header) content))"

definition MHD_add_response_footer ::
  "bool \<times> bool \<times> bool \<Rightarrow> MHD_Response option \<Rightarrow> string option \<Rightarrow> string option \<Rightarrow> bool \<times> MHD_Response option" where
  "MHD_add_response_footer mem response footer content = add_response_entry mem response MHD_FOOTER_KIND footer content"

fun del_loop :: "MHD_HTTP_Header list \<Rightarrow> string \<Rightarrow> string \<Rightarrow> MHD_HTTP_Header list option" where
  "del_loop [] header content = None"
| "del_loop (p # ps) header content =
     (if hname p = Some header \<and> hvalue p = Some content then Some ps
      else map_option ((#) p) (del_loop ps header content))"

definition MHD_del_response_header :: "MHD_Response \<Rightarrow> string option \<Rightarrow> string option \<Rightarrow> bool \<times> MHD_Response" where
  "MHD_del_response_header response header content =
     (case (header, content) of
        (Some h, Some c) \<Rightarrow>
          (case del_loop (first_header response) h c of
             None \<Rightarrow> (False, response)
           | Some l \<Rightarrow> (True, response\<lparr>first_header := l\<rparr>))
      | _ \<Rightarrow> (False, response))"

fun get_headers_loop :: "MHD_HTTP_Header list \<Rightarrow> 'c key_value_iterator option \<Rightarrow> 'c \<Rightarrow> int \<Rightarrow> int \<times> 'c" where
  "get_headers_loop [] it cl n = (n, cl)"
| "get_headers_loop (p # ps) it cl n =
     (case it of
        None \<Rightarrow> get_headers_loop ps it cl (n + 1)
      | Some f \<Rightarrow> (case f cl (hkind p) (hname p) (hvalue p) of
            (True, cl') \<Rightarrow> get_headers_loop ps it cl' (n + 1)
          | (False, cl') \<Rightarrow> (n + 1, cl')))"

definition MHD_get_response_headers :: "MHD_Response \<Rightarrow> 'c key_value_iterator option \<Rightarrow> 'c \<Rightarrow> int \<times> 'c" where
  "MHD_get_response_headers response it cl = get_headers_loop (first_header response) it cl 0"

fun get_header_loop :: "MHD_HTTP_Header list \<Rightarrow> string \<Rightarrow> string option" where
  "get_header_loop [] key = None"
| "get_header_loop (p # ps) key =
     (case hname p of
        None \<Rightarrow> get_header_loop ps key
      | Some h \<Rightarrow> if MHD_str_equal_caseless h key then hvalue p else get_header_loop ps key)"

definition MHD_get_response_header :: "MHD_Response \<Rightarrow> string option \<Rightarrow> string option" where
  "MHD_get_response_header response key =
     (case key of None \<Rightarrow> None | Some k \<Rightarrow> get_header_loop (first_header response) k)"

definition MHD_check_response_header_token_ci :: "MHD_Response \<Rightarrow> string option \<Rightarrow> string option \<Rightarrow> nat \<Rightarrow> bool" where
  "MHD_check_response_header_token_ci response key token token_len =
     (case (key, token) of
        (Some k, Some t) \<Rightarrow>
          peek k \<noteq> NUL \<and> peek t \<noteq> NUL
          \<and> list_ex (\<lambda>p. hkind p = MHD_HEADER_KIND
              \<and> (case hname p of None \<Rightarrow> False | Some h \<Rightarrow> MHD_str_equal_caseless h k)
              \<and> (case hvalue p of None \<Rightarrow> False | Some v \<Rightarrow> MHD_str_has_token_caseless v t token_len)) (first_header response)
      | _ \<Rightarrow> False)"

section \<open>Creation\<close>

definition MHD_create_response_from_callback ::
  "bool \<Rightarrow> u64 \<Rightarrow> size_t \<Rightarrow> content_reader \<Rightarrow> content_free \<Rightarrow> MHD_Response option" where
  "MHD_create_response_from_callback mem len block_size reader free_cb =
     (if reader = No_reader \<or> block_size = 0 then None
      else if \<not> mem then None
      else Some (zero_response\<lparr>fd := -1, rdata := replicate (unat block_size) 0, data_buffer_size := block_size,
             crc := reader, crfc := free_cb, reference_count := 1, total_size := len\<rparr>))"

text \<open>The options after the flags: none is defined, so that any of them makes the call fail.\<close>

definition MHD_set_response_options :: "MHD_Response \<Rightarrow> u32 \<Rightarrow> u32 list \<Rightarrow> bool \<times> MHD_Response" where
  "MHD_set_response_options response fl options = (options = [], response\<lparr>flags := fl\<rparr>)"

definition MHD_CONTENT_READER_END_OF_STREAM :: int where "MHD_CONTENT_READER_END_OF_STREAM = -1"
definition MHD_CONTENT_READER_END_WITH_ERROR :: int where "MHD_CONTENT_READER_END_WITH_ERROR = -2"

text \<open>
  The reader for files on a system with \<^verbatim>\<open>pread64\<close>, which is a parameter: the descriptor, the number of bytes and the offset
  give the return value and the bytes read.
\<close>

definition file_reader ::
  "(int \<Rightarrow> nat \<Rightarrow> int \<Rightarrow> int \<times> byte list) \<Rightarrow> MHD_Response \<Rightarrow> u64 \<Rightarrow> nat \<Rightarrow> int \<times> byte list" where
  "file_reader pread64 response at mx =
     (let offset64 = sint (at + fd_off response) in
      if offset64 < 0 then (MHD_CONTENT_READER_END_WITH_ERROR, [])
      else (case pread64 (fd response) (min mx (2 ^ 63 - 1)) offset64 of
              (n, bs) \<Rightarrow>
                if n = 0 then (MHD_CONTENT_READER_END_OF_STREAM, [])
                else if n < 0 then (MHD_CONTENT_READER_END_WITH_ERROR, [])
                else (n, bs)))"

definition free_callback :: "MHD_Response \<Rightarrow> MHD_Response" where
  "free_callback response = response\<lparr>fd := -1\<rparr>"

definition MHD_create_response_from_fd_at_offset64 :: "bool \<Rightarrow> u64 \<Rightarrow> int \<Rightarrow> u64 \<Rightarrow> MHD_Response option" where
  "MHD_create_response_from_fd_at_offset64 mem len f offset =
     (if sint len < 0 \<or> sint offset < 0 \<or> sint (len + offset) < 0 then None
      else map_option (\<lambda>r. r\<lparr>fd := f, fd_off := offset\<rparr>)
             (MHD_create_response_from_callback mem len MHD_FD_BLOCK_SIZE File_reader Free_fd))"

definition MHD_create_response_from_fd_at_offset :: "bool \<Rightarrow> size_t \<Rightarrow> int \<Rightarrow> u64 \<Rightarrow> MHD_Response option" where
  "MHD_create_response_from_fd_at_offset mem len f offset = MHD_create_response_from_fd_at_offset64 mem len f offset"

definition MHD_create_response_from_fd :: "bool \<Rightarrow> size_t \<Rightarrow> int \<Rightarrow> MHD_Response option" where
  "MHD_create_response_from_fd mem len f = MHD_create_response_from_fd_at_offset64 mem len f 0"

definition MHD_create_response_from_fd64 :: "bool \<Rightarrow> u64 \<Rightarrow> int \<Rightarrow> MHD_Response option" where
  "MHD_create_response_from_fd64 mem len f = MHD_create_response_from_fd_at_offset64 mem len f 0"

text \<open>The allocations of the response with its mutex and of the copy of the data.\<close>

definition MHD_create_response_from_data ::
  "bool \<Rightarrow> bool \<Rightarrow> size_t \<Rightarrow> byte list option \<Rightarrow> bool \<Rightarrow> bool \<Rightarrow> MHD_Response option" where
  "MHD_create_response_from_data mem copy_mem len d must_free must_copy =
     (if d = None \<and> len > 0 then None
      else if \<not> mem then None
      else if must_copy \<and> len > 0 \<and> \<not> copy_mem then None
      else (let free_it = (must_free \<or> must_copy \<and> len > 0) in
        Some (zero_response\<lparr>fd := -1, crfc := (if free_it then Free_data else No_free), reference_count := 1,
          total_size := len, rdata := (case d of None \<Rightarrow> [] | Some bs \<Rightarrow> take (unat len) bs), data_size := len\<rparr>)))"

datatype MHD_ResponseMemoryMode = MHD_RESPMEM_PERSISTENT | MHD_RESPMEM_MUST_FREE | MHD_RESPMEM_MUST_COPY

definition MHD_create_response_from_buffer ::
  "bool \<Rightarrow> bool \<Rightarrow> size_t \<Rightarrow> byte list option \<Rightarrow> MHD_ResponseMemoryMode \<Rightarrow> MHD_Response option" where
  "MHD_create_response_from_buffer mem copy_mem len d mode =
     MHD_create_response_from_data mem copy_mem len d (mode = MHD_RESPMEM_MUST_FREE) (mode = MHD_RESPMEM_MUST_COPY)"

definition MHD_create_response_from_buffer_with_free_callback ::
  "bool \<Rightarrow> size_t \<Rightarrow> byte list option \<Rightarrow> content_free \<Rightarrow> MHD_Response option" where
  "MHD_create_response_from_buffer_with_free_callback mem len d free_cb =
     map_option (\<lambda>r. r\<lparr>crfc := free_cb\<rparr>) (MHD_create_response_from_data mem True len d True False)"

section \<open>Reference counter\<close>

text \<open>
  \<open>None\<close> is a response that was freed; the second part is whether the free callback was called.
\<close>

definition MHD_destroy_response :: "MHD_Response option \<Rightarrow> MHD_Response option \<times> bool" where
  "MHD_destroy_response response =
     (case response of None \<Rightarrow> (None, False)
      | Some r \<Rightarrow>
          let r = r\<lparr>reference_count := reference_count r - 1\<rparr> in
          if reference_count r \<noteq> 0 then (Some r, False) else (None, crfc r \<noteq> No_free))"

definition MHD_increment_response_rc :: "MHD_Response \<Rightarrow> MHD_Response" where
  "MHD_increment_response_rc r = r\<lparr>reference_count := reference_count r + 1\<rparr>"

definition MHD_create_response_for_upgrade ::
  "bool \<Rightarrow> bool \<times> bool \<times> bool \<Rightarrow> bool \<Rightarrow> MHD_Response option" where
  "MHD_create_response_for_upgrade mem entry_mem handler =
     (if \<not> handler then None
      else if \<not> mem then None
      else (case MHD_add_response_header entry_mem
                   (Some (zero_response\<lparr>upgrade_handler := True, total_size := MHD_SIZE_UNKNOWN, reference_count := 1\<rparr>))
                   MHD_HTTP_HEADER_CONNECTION (Some ''Upgrade'') of
              Some (True, r) \<Rightarrow> r
            | _ \<Rightarrow> None))"

section \<open>What a list of headers can contain\<close>

text \<open>Text that cannot break a line of the response.\<close>

definition header_text :: "string \<Rightarrow> bool" where
  "header_text s \<longleftrightarrow> s \<noteq> [] \<and> set s \<inter> {NUL, TAB, CR, LF} = {}"

definition entry_ok :: "MHD_HTTP_Header \<Rightarrow> bool" where
  "entry_ok p \<longleftrightarrow> (\<exists>h c. hname p = Some h \<and> hvalue p = Some c \<and> header_text h \<and> header_text c
     \<and> (hkind p = MHD_HEADER_KIND \<and> map toasciilower h = map toasciilower MHD_HTTP_HEADER_TRANSFER_ENCODING
          \<longrightarrow> map toasciilower c = ''identity'' \<or> map toasciilower c = ''chunked'')
     \<and> (hkind p = MHD_HEADER_KIND \<longrightarrow> map toasciilower h \<noteq> map toasciilower MHD_HTTP_HEADER_CONTENT_LENGTH))"

text \<open>The responses an application can build.\<close>

inductive buildable :: "MHD_Response \<Rightarrow> bool" where
  from_callback: "MHD_create_response_from_callback mem len bs reader fr = Some r \<Longrightarrow> buildable r"
| from_fd: "MHD_create_response_from_fd_at_offset64 mem len f off = Some r \<Longrightarrow> buildable r"
| from_data: "MHD_create_response_from_data mem mem' len d must_free must_copy = Some r \<Longrightarrow> buildable r"
| from_buffer: "MHD_create_response_from_buffer_with_free_callback mem len d fr = Some r \<Longrightarrow> buildable r"
| for_upgrade: "MHD_create_response_for_upgrade mem mem3 True = Some r \<Longrightarrow> buildable r"
| header: "buildable r \<Longrightarrow> MHD_add_response_header mem3 (Some r) h c = Some (res, Some r') \<Longrightarrow> buildable r'"
| footer: "buildable r \<Longrightarrow> MHD_add_response_footer mem3 (Some r) h' c = (res, Some r') \<Longrightarrow> buildable r'"
| del: "buildable r \<Longrightarrow> MHD_del_response_header r h' c = (res, r') \<Longrightarrow> buildable r'"
| options: "buildable r \<Longrightarrow> MHD_set_response_options r fl os = (res, r') \<Longrightarrow> buildable r'"
| increment: "buildable r \<Longrightarrow> buildable (MHD_increment_response_rc r)"
| destroy: "buildable r \<Longrightarrow> MHD_destroy_response (Some r) = (Some r', called) \<Longrightarrow> buildable r'"

lemma c_str_props: "c_string (c_str s)" "strchr s c = None \<Longrightarrow> c \<noteq> NUL \<Longrightarrow> c \<notin> set (c_str s)" "peek s \<noteq> NUL \<Longrightarrow> c_str s \<noteq> []"
proof -
  show "c_string (c_str s)" by (auto simp: c_string_def c_str_def dest: set_takeWhileD)
  show "c \<notin> set (c_str s)" if "strchr s c = None" "c \<noteq> NUL"
    using that by (induction s) (auto simp: c_str_def split: if_splits)
  show "c_str s \<noteq> []" if "peek s \<noteq> NUL" using that by (cases s) (auto simp: c_str_def)
qed

lemma equal_caseless_c_str: "MHD_str_equal_caseless (c_str s) t = MHD_str_equal_caseless s t"
  by (induction s arbitrary: t) (auto simp: c_str_def)

lemma add_entry_cases:
  assumes "add_response_entry mem (Some r) kind header content = (res, Some r')"
  shows "r' = r \<or> (\<exists>h c. header = Some h \<and> content = Some c \<and> header_text (c_str h) \<and> header_text (c_str c)
    \<and> r' = r\<lparr>first_header := \<lparr>hname = Some (c_str h), hvalue = Some (c_str c), hkind = kind\<rparr> # first_header r\<rparr>)"
proof -
  have ht: "header_text (c_str s)" if "peek s \<noteq> NUL" "strchr s TAB = None" "strchr s CR = None" "strchr s LF = None" for s
    using c_str_props(3) [OF that(1)] c_str_props(2) [OF that(2)] c_str_props(2) [OF that(3)] c_str_props(2) [OF that(4)]
      c_str_props(1) [of s]
    by (auto simp: header_text_def c_string_def)
  show ?thesis
    using assms ht
    by (auto simp: add_response_entry_def split: option.splits if_splits)
qed

lemma entry_ok_footer: "header_text h \<Longrightarrow> header_text c \<Longrightarrow> entry_ok \<lparr>hname = Some h, hvalue = Some c, hkind = MHD_FOOTER_KIND\<rparr>"
  by (simp add: entry_ok_def MHD_FOOTER_KIND_def MHD_HEADER_KIND_def)

lemma header_c_string: "header_text s \<Longrightarrow> c_string s"
  by (auto simp: header_text_def c_string_def)

lemma add_header_ok:
  assumes "MHD_add_response_header mem (Some r) header content = Some (res, Some r')" "list_all entry_ok (first_header r)"
  shows "list_all entry_ok (first_header r')"
proof -
  consider "r' = r" | "add_response_entry mem (Some r) MHD_HEADER_KIND (Some header) content = (res, Some r')"
    "\<not> MHD_str_equal_caseless header MHD_HTTP_HEADER_CONTENT_LENGTH"
    "MHD_str_equal_caseless header MHD_HTTP_HEADER_TRANSFER_ENCODING \<Longrightarrow>
       MHD_str_equal_caseless (the content) ''identity'' \<or> MHD_str_equal_caseless (the content) ''chunked''"
    using assms(1) unfolding MHD_add_response_header_def by (auto split: if_splits)
  then show ?thesis
  proof cases
    case 2
    show ?thesis
    proof (cases "r' = r")
      case False
      then obtain c where c: "content = Some c" "header_text (c_str header)" "header_text (c_str c)"
        "r' = r\<lparr>first_header := \<lparr>hname = Some (c_str header), hvalue = Some (c_str c), hkind = MHD_HEADER_KIND\<rparr> # first_header r\<rparr>"
        using add_entry_cases [OF 2(1)] by auto
      have eq: "MHD_str_equal_caseless s t \<longleftrightarrow> map toasciilower (c_str s) = map toasciilower t" if "c_string t" for s t
        using equal_caseless_iff [OF c_str_props(1) that] equal_caseless_c_str by blast
      have lit: "c_string MHD_HTTP_HEADER_CONTENT_LENGTH" "c_string MHD_HTTP_HEADER_TRANSFER_ENCODING"
        "c_string ''identity''" "c_string ''chunked''"
        "map toasciilower ''identity'' = ''identity''" "map toasciilower ''chunked'' = ''chunked''"
        by code_simp+
      have "entry_ok \<lparr>hname = Some (c_str header), hvalue = Some (c_str c), hkind = MHD_HEADER_KIND\<rparr>"
        unfolding entry_ok_def
        using 2(2,3) c(1-3) eq [OF lit(1)] eq [OF lit(2)] eq [OF lit(3)] eq [OF lit(4)] lit(5,6)
        by (intro exI [of _ "c_str header"] exI [of _ "c_str c"]) simp
      then show ?thesis using c(4) assms(2) by simp
    qed (use assms(2) in simp)
  qed (use assms(2) in simp)
qed

lemma del_loop_set: "del_loop ps h c = Some qs \<Longrightarrow> set qs \<subseteq> set ps"
  by (induction ps arbitrary: qs) (auto split: if_splits)

lemma created_empty:
  "MHD_create_response_from_callback mem len bs reader fr = Some r \<Longrightarrow> first_header r = []"
  "MHD_create_response_from_fd_at_offset64 mem len f off = Some r \<Longrightarrow> first_header r = []"
  "MHD_create_response_from_data mem mem' len d must_free must_copy = Some r \<Longrightarrow> first_header r = []"
  "MHD_create_response_from_buffer_with_free_callback mem len d fr = Some r \<Longrightarrow> first_header r = []"
  by (auto simp: MHD_create_response_from_callback_def MHD_create_response_from_fd_at_offset64_def zero_response_def
      MHD_create_response_from_data_def MHD_create_response_from_buffer_with_free_callback_def Let_def split: if_splits)

text \<open>
  C19. However an application builds a response, its headers and footers have a name and a value that are not empty and
  contain no line end, tab or null character, no header sets the content length, and a transfer encoding is
  \<open>identity\<close> or \<open>chunked\<close>.
\<close>
theorem response_headers_safe:
  assumes "buildable r"
  shows "list_all entry_ok (first_header r)"
  using assms
proof (induction rule: buildable.induct)
  case (for_upgrade mem mem3 r)
  then obtain res r0 where "MHD_add_response_header mem3 (Some r0) MHD_HTTP_HEADER_CONNECTION (Some ''Upgrade'') = Some (res, Some r)"
    "first_header r0 = []"
    by (auto simp: MHD_create_response_for_upgrade_def zero_response_def split: if_splits option.splits prod.splits bool.splits)
  then show ?case using add_header_ok by fastforce
next
  case (header r mem3 h c res r')
  then show ?case using add_header_ok by blast
next
  case (footer r mem3 h' c res r')
  then show ?case
    using add_entry_cases [of mem3 r MHD_FOOTER_KIND h' c res r'] entry_ok_footer
    by (auto simp: MHD_add_response_footer_def)
next
  case (del r h' c res r')
  then show ?case
    using del_loop_set
    by (auto simp: MHD_del_response_header_def list_all_iff split: option.splits) blast
next
  case (destroy r r' called)
  then show ?case by (auto simp: MHD_destroy_response_def Let_def split: if_splits)
qed (auto simp: created_empty MHD_set_response_options_def MHD_increment_response_rc_def)

theorem response_headers_safe_witness:
  "\<exists>r r'. MHD_create_response_from_buffer True True 2 (Some [104, 105]) MHD_RESPMEM_MUST_COPY = Some r
    \<and> MHD_add_response_header (True, True, True) (Some r) ''X-Key'' (Some ''v'') = Some (True, Some r')
    \<and> first_header r' \<noteq> [] \<and> list_all entry_ok (first_header r')"
proof -
  let ?r = "the (MHD_create_response_from_data True True 2 (Some [104, 105]) False True)"
  let ?r' = "the (snd (the (MHD_add_response_header (True, True, True) (Some ?r) ''X-Key'' (Some ''v''))))"
  have r: "MHD_create_response_from_data True True 2 (Some [104, 105]) False True = Some ?r" by code_simp
  have r': "MHD_add_response_header (True, True, True) (Some ?r) ''X-Key'' (Some ''v'') = Some (True, Some ?r')" by code_simp
  have ne: "first_header ?r' \<noteq> []" by code_simp
  have "buildable ?r'" by (rule buildable.header [OF buildable.from_data [OF r] r'])
  then have "list_all entry_ok (first_header ?r')" by (rule response_headers_safe)
  then show ?thesis
    using r r' ne by (intro exI [of _ ?r] exI [of _ ?r']) (simp add: MHD_create_response_from_buffer_def)
qed

end
