(* ===== verification/Digest_Auth.thy ===== *)
theory Digest_Auth
  imports Nonce_Map Md5 Sha256 Basic_Auth Response "HOL-Library.Monad_Syntax"
begin

text \<open>
  HTTP digest authentication, \<^verbatim>\<open>libmicrohttpd/src/microhttpd/digestauth.c\<close>, on the hash functions of \<^verbatim>\<open>md5.c\<close> and
  \<^verbatim>\<open>sha256.c\<close>. An operation that reads outside of a buffer, fails an assertion or panics is \<open>None\<close>.
  Strings are lists without their terminator. The clock, the random seed, the unescape callback and the success of
  allocations are parameters.
\<close>

section \<open>Digest algorithms\<close>

definition TIMESTAMP_BIN_SIZE :: nat where "TIMESTAMP_BIN_SIZE = 4"
definition MAX_DIGEST :: nat where "MAX_DIGEST = 32"
definition DIGEST_BASE :: string where "DIGEST_BASE = ''Digest ''"
definition MAX_USERNAME_LENGTH :: nat where "MAX_USERNAME_LENGTH = 128"
definition MAX_REALM_LENGTH :: nat where "MAX_REALM_LENGTH = 256"
definition MAX_AUTH_RESPONSE_LENGTH :: nat where "MAX_AUTH_RESPONSE_LENGTH = 256"
definition MHD_MD5_DIGEST_SIZE :: nat where "MHD_MD5_DIGEST_SIZE = 16"

record 'h DigestAlgorithm =
  digest_size :: nat
  da_ctx :: 'h
  da_alg :: string
  sessionkey :: string
  da_init :: "'h \<Rightarrow> 'h"
  da_update :: "'h \<Rightarrow> byte list \<Rightarrow> 'h"
  da_digest :: "'h \<Rightarrow> (byte list \<times> 'h) option"

definition VLA_CHECK_LEN_DIGEST :: "nat \<Rightarrow> unit option" where
  "VLA_CHECK_LEN_DIGEST n = (if n > MAX_DIGEST then None else Some ())"

abbreviation bytes_of :: "string \<Rightarrow> byte list" where
  "bytes_of \<equiv> map byte_of_char"

definition hex_nibble :: "byte \<Rightarrow> char" where
  "hex_nibble j = (if j \<le> 9 then char_of (unat j + 48) else char_of (unat j - 10 + 97))"

fun cvthex :: "byte list \<Rightarrow> string" where
  "cvthex [] = []"
| "cvthex (b # bin) = hex_nibble (drop_bit 4 b AND 0x0f) # hex_nibble (b AND 0x0f) # cvthex bin"

text \<open>Initialising the context, feeding it the parts and taking the digest.\<close>

definition hash_parts :: "'h DigestAlgorithm \<Rightarrow> byte list list \<Rightarrow> (byte list \<times> 'h DigestAlgorithm) option" where
  "hash_parts da parts =
     (case da_digest da (foldl (da_update da) (da_init da (da_ctx da)) parts) of
        None \<Rightarrow> None
      | Some (dig, h) \<Rightarrow> Some (dig, da\<lparr>da_ctx := h\<rparr>))"

definition digest_calc_ha1_from_digest ::
  "string \<Rightarrow> 'h DigestAlgorithm \<Rightarrow> byte list \<Rightarrow> string \<Rightarrow> string \<Rightarrow> 'h DigestAlgorithm option" where
  "digest_calc_ha1_from_digest alg da digest nonce cnonce =
     (if MHD_str_equal_caseless alg ''md5-sess'' \<or> MHD_str_equal_caseless alg ''sha-256-sess''
      then do {
        VLA_CHECK_LEN_DIGEST (digest_size da);
        (dig, da) \<leftarrow> hash_parts da [take MHD_MD5_DIGEST_SIZE digest, bytes_of '':'', bytes_of nonce, bytes_of '':'', bytes_of cnonce];
        Some (da\<lparr>sessionkey := cvthex dig\<rparr>)
      }
      else Some (da\<lparr>sessionkey := cvthex (take (digest_size da) digest)\<rparr>))"

definition digest_calc_ha1_from_user ::
  "string \<Rightarrow> string \<Rightarrow> string \<Rightarrow> string \<Rightarrow> string \<Rightarrow> string \<Rightarrow> 'h DigestAlgorithm \<Rightarrow> 'h DigestAlgorithm option" where
  "digest_calc_ha1_from_user alg username realm password nonce cnonce da = do {
     VLA_CHECK_LEN_DIGEST (digest_size da);
     (ha1, da) \<leftarrow> hash_parts da [bytes_of username, bytes_of '':'', bytes_of realm, bytes_of '':'', bytes_of password];
     digest_calc_ha1_from_digest alg da ha1 nonce cnonce
   }"

definition digest_calc_response ::
  "string \<Rightarrow> string \<Rightarrow> string \<Rightarrow> string \<Rightarrow> string \<Rightarrow> string \<Rightarrow> string \<Rightarrow> 'h DigestAlgorithm \<Rightarrow> 'h DigestAlgorithm option" where
  "digest_calc_response ha1 nonce noncecount cnonce qop mthd uri da = do {
     VLA_CHECK_LEN_DIGEST (digest_size da);
     (ha2, da) \<leftarrow> hash_parts da [bytes_of mthd, bytes_of '':'', bytes_of uri];
     let da = da\<lparr>sessionkey := cvthex (take (digest_size da) ha2)\<rparr>;
     (resphash, da) \<leftarrow> hash_parts da ([bytes_of (take (digest_size da * 2) ha1), bytes_of '':'', bytes_of nonce, bytes_of '':'']
        @ (if peek qop \<noteq> NUL
           then [bytes_of noncecount, bytes_of '':'', bytes_of cnonce, bytes_of '':'', bytes_of qop, bytes_of '':''] else [])
        @ [bytes_of (take (digest_size da * 2) (sessionkey da))]);
     Some (da\<lparr>sessionkey := cvthex resphash\<rparr>)
   }"

section \<open>Values of the Authorization header\<close>

definition is_space :: "char \<Rightarrow> bool" where
  "is_space c \<longleftrightarrow> c = CHR '' ''"

text \<open>
  The value that starts at \<open>q1\<close>: its text and what follows it, if anything; \<open>None\<close> when the end quote is missing.
\<close>

definition sub_value :: "string \<Rightarrow> (string \<times> string option) option" where
  "sub_value q1 =
     (if peek q1 \<noteq> CHR 0x22
      then (case strchr q1 CHR '','' of
              None \<Rightarrow> Some (q1, None)
            | Some i \<Rightarrow> Some (take i q1, Some (drop i q1)))
      else (case strchr (tl q1) CHR 0x22 of
              None \<Rightarrow> None
            | Some i \<Rightarrow> Some (take i (tl q1), Some (drop (i + 1) (tl q1)))))"

lemma sub_value_rest: "sub_value q = Some (v, Some r) \<Longrightarrow> length r \<le> length q"
  by (auto simp: sub_value_def split: if_splits option.splits)

function lookup_sub_loop :: "nat \<Rightarrow> string \<Rightarrow> string \<Rightarrow> string option" where
  "lookup_sub_loop sz ptr key =
     (if peek ptr = NUL then None
      else (case strchr ptr CHR ''='' of
         None \<Rightarrow> None
       | Some eq \<Rightarrow>
           (case sub_value (dropWhile is_space (drop (eq + 1) ptr)) of
              None \<Rightarrow> None
            | Some (v, qn) \<Rightarrow>
                if MHD_str_equal_caseless_n ptr key (length key) \<and> eq = length key then Some (take (sz - 1) v)
                else (case qn of
                   None \<Rightarrow> None
                 | Some rest \<Rightarrow>
                     (case strchr rest CHR '','' of
                        None \<Rightarrow> None
                      | Some k \<Rightarrow> lookup_sub_loop sz (dropWhile is_space (drop (k + 1) rest)) key)))))"
  by pat_completeness auto
termination
proof (relation "measure (\<lambda>(sz, ptr, key). length ptr)")
  fix sz and ptr key :: string and eq x v qn rest k
  assume a: "peek ptr \<noteq> NUL" "strchr ptr CHR ''='' = Some eq"
    "sub_value (dropWhile is_space (drop (eq + 1) ptr)) = Some x" "(v, qn) = x" "qn = Some rest" "strchr rest CHR '','' = Some k"
  have "length rest \<le> length (dropWhile is_space (drop (eq + 1) ptr))" using sub_value_rest a by auto
  also have "\<dots> \<le> length (drop (eq + 1) ptr)" by (rule dropWhile_length_le)
  also have "\<dots> < length ptr" using a(1) by (cases ptr) auto
  finally have "length rest < length ptr" .
  moreover have "length (dropWhile is_space (drop (k + 1) rest)) \<le> length (drop (k + 1) rest)" by (rule dropWhile_length_le)
  ultimately show "((sz, dropWhile is_space (drop (k + 1) rest), key), (sz, ptr, key)) \<in> measure (\<lambda>(sz, ptr, key). length ptr)"
    by simp
qed simp

text \<open>
  The text that is stored in the destination of \<open>sz\<close> bytes; the code returns its length. \<open>None\<close> is a return of 0 that
  stores nothing.
\<close>

definition lookup_sub_value :: "nat \<Rightarrow> string \<Rightarrow> string \<Rightarrow> string option" where
  "lookup_sub_value sz data key = (if sz = 0 then None else lookup_sub_loop sz data key)"

text \<open>A value that is not empty.\<close>

definition sub_value_of :: "nat \<Rightarrow> string \<Rightarrow> string \<Rightarrow> string option" where
  "sub_value_of sz data key = (case lookup_sub_value sz data key of None \<Rightarrow> None | Some v \<Rightarrow> if v = [] then None else Some v)"

definition MHD_digest_auth_get_username :: "bool \<Rightarrow> 'b conn_values_scheme \<Rightarrow> string option" where
  "MHD_digest_auth_get_username mem connection =
     (case MHD_lookup_connection_value (Some connection) MHD_HEADER_KIND (Some MHD_HTTP_HEADER_AUTHORIZATION) of
        None \<Rightarrow> None
      | Some header \<Rightarrow>
          if \<not> strncmp_eq header DIGEST_BASE (length DIGEST_BASE) then None
          else (case sub_value_of MAX_USERNAME_LENGTH (drop (length DIGEST_BASE) header) ''username'' of
                  None \<Rightarrow> None
                | Some user \<Rightarrow> if mem then Some user else None))"

section \<open>Nonces\<close>

definition timestamp_bytes :: "u32 \<Rightarrow> byte list" where
  "timestamp_bytes t = [ucast (drop_bit 24 (t AND 0xff000000)), ucast (drop_bit 16 (t AND 0x00ff0000)),
     ucast (drop_bit 8 (t AND 0x0000ff00)), ucast (t AND 0x000000ff)]"

definition calculate_nonce ::
  "u32 \<Rightarrow> string \<Rightarrow> byte list \<Rightarrow> string \<Rightarrow> string \<Rightarrow> 'h DigestAlgorithm \<Rightarrow> (string \<times> 'h DigestAlgorithm) option" where
  "calculate_nonce nonce_time mthd rnd uri realm da = do {
     VLA_CHECK_LEN_DIGEST (digest_size da);
     (tmpnonce, da) \<leftarrow> hash_parts da ([timestamp_bytes nonce_time, bytes_of '':'', bytes_of mthd, bytes_of '':'']
        @ (if length rnd > 0 then [rnd] else [])
        @ [bytes_of '':'', bytes_of uri, bytes_of '':'', bytes_of realm]);
     Some (cvthex tmpnonce @ take 8 (cvthex (timestamp_bytes nonce_time)), da)
   }"

section \<open>The check of a request\<close>

text \<open>What the check needs of the connection and its daemon, besides the values of the request.\<close>

record auth_conn = conn_values +
  cmethod :: string
  curl :: string
  digest_auth_random :: "byte list"
  nnc :: "MHD_NonceNc list"

definition test_header :: "'b conn_values_scheme \<Rightarrow> string \<Rightarrow> string option \<Rightarrow> u32 \<Rightarrow> bool" where
  "test_header connection key val kind =
     list_ex (\<lambda>p. kind = hkind p \<and> hname p = Some key \<and> val = hvalue p) (headers_received connection)"

definition check_argument_match :: "bool \<Rightarrow> unescape_callback \<Rightarrow> 'b conn_values_scheme \<Rightarrow> string \<Rightarrow> bool" where
  "check_argument_match mem unesc connection args =
     (if \<not> mem then False
      else (case MHD_parse_arguments unesc connection MHD_GET_ARGUMENT_KIND (Some args)
                   (\<lambda>c key val kind. (test_header c key val kind, c)) of
              (ret, _, num_headers) \<Rightarrow>
                if \<not> ret then False
                else num_headers = word_of_nat (length (filter (\<lambda>p. MHD_GET_ARGUMENT_KIND = hkind p) (headers_received connection)))))"

datatype auth_result = Auth_yes | Auth_no | Auth_invalid_nonce

text \<open>The number of bytes of a name and its value, which are subtracted from what is left of the header.\<close>

definition used_bytes :: "string \<Rightarrow> string \<Rightarrow> size_t" where
  "used_bytes key v = word_of_nat (length key + length v)"

text \<open>
  The last part: the response is computed and compared, and the URI and its arguments must be those of the request.
\<close>

definition check_response ::
  "bool \<Rightarrow> bool \<Rightarrow> unescape_callback \<Rightarrow> auth_conn \<Rightarrow> 'h DigestAlgorithm \<Rightarrow> string \<Rightarrow> string \<Rightarrow> string \<Rightarrow> byte list option
     \<Rightarrow> string \<Rightarrow> size_t \<Rightarrow> string \<Rightarrow> string \<Rightarrow> string \<Rightarrow> string \<Rightarrow> string \<Rightarrow> auth_result option" where
  "check_response uri_mem args_mem unesc connection da realm username password digest header left nonce cnonce qop nc response =
     (if \<not> uri_mem then Some Auth_no
      else (case sub_value_of (unat (left + 1)) header ''uri'' of
         None \<Rightarrow> Some Auth_no
       | Some uri \<Rightarrow> do {
           da \<leftarrow> (case digest of
                    Some d \<Rightarrow> digest_calc_ha1_from_digest (da_alg da) da d nonce cnonce
                  | None \<Rightarrow> digest_calc_ha1_from_user (da_alg da) username realm password nonce cnonce da);
           let ha1 = sessionkey da;
           da \<leftarrow> digest_calc_response ha1 nonce nc cnonce qop (cmethod connection) uri da;
           let (path, args) = (case strchr uri CHR ''?'' of
              None \<Rightarrow> (uri, [])
            | Some q \<Rightarrow> (take q uri, drop (q + 1) uri));
           if unesc path \<noteq> curl connection then Some Auth_no
           else if \<not> check_argument_match args_mem unesc connection args then Some Auth_no
           else Some (if response = sessionkey da then Auth_yes else Auth_no)
         }))"

text \<open>Before that, the remaining values are read and the nonce counter is checked.\<close>

definition check_counter ::
  "bool \<Rightarrow> bool \<Rightarrow> unescape_callback \<Rightarrow> auth_conn \<Rightarrow> 'h DigestAlgorithm \<Rightarrow> string \<Rightarrow> string \<Rightarrow> string \<Rightarrow> byte list option
     \<Rightarrow> string \<Rightarrow> size_t \<Rightarrow> string \<Rightarrow> (auth_result \<times> auth_conn) option" where
  "check_counter uri_mem args_mem unesc connection da realm username password digest header left nonce =
     (case (sub_value_of MAX_NONCE_LENGTH header ''cnonce'', sub_value_of 15 header ''qop'', sub_value_of 20 header ''nc'',
            sub_value_of MAX_AUTH_RESPONSE_LENGTH header ''response'') of
        (Some cnonce, Some qop, Some nc, Some response) \<Rightarrow>
          if qop \<noteq> ''auth'' \<and> qop \<noteq> [] then Some (Auth_no, connection)
          else (case MHD_strx_to_uint64_n (Some nc) (length nc) True of
             (k, nci) \<Rightarrow>
               if k \<noteq> length nc then Some (Auth_no, connection)
               else (case check_nonce_nc (nnc connection) nonce (the nci) of
                  (ok, nncs) \<Rightarrow>
                    let connection = connection\<lparr>nnc := nncs\<rparr> in
                    if \<not> ok then Some (Auth_no, connection)
                    else map_option (\<lambda>res. (res, connection))
                           (check_response uri_mem args_mem unesc connection da realm username password digest header left
                              nonce cnonce qop nc response)))
      | _ \<Rightarrow> Some (Auth_no, connection))"

text \<open>
  Before that, the age of the nonce and the nonce itself are checked. The time stamp is read from eight bytes in front of the end
  of the nonce, which for a shorter nonce lie outside of its buffer.
\<close>

definition check_nonce ::
  "bool \<Rightarrow> bool \<Rightarrow> unescape_callback \<Rightarrow> u32 \<Rightarrow> auth_conn \<Rightarrow> 'h DigestAlgorithm \<Rightarrow> string \<Rightarrow> string \<Rightarrow> string \<Rightarrow> byte list option
     \<Rightarrow> u32 \<Rightarrow> string \<Rightarrow> size_t \<Rightarrow> string \<Rightarrow> (auth_result \<times> auth_conn) option" where
  "check_nonce uri_mem args_mem unesc now connection da realm username password digest nonce_timeout header left nonce =
     (if left > 32 * 1024 then Some (Auth_no, connection)
      else if length nonce < TIMESTAMP_BIN_SIZE * 2 then None
      else (case MHD_strx_to_uint32_n (Some (drop (length nonce - TIMESTAMP_BIN_SIZE * 2) nonce)) (TIMESTAMP_BIN_SIZE * 2) True of
         (n, t) \<Rightarrow>
           if n \<noteq> TIMESTAMP_BIN_SIZE * 2 then Some (Auth_no, connection)
           else (let nonce_time = the t in
             if now > nonce_time + nonce_timeout \<or> nonce_time + nonce_timeout < nonce_time
             then Some (Auth_invalid_nonce, connection)
             else (case calculate_nonce nonce_time (cmethod connection) (digest_auth_random connection) (curl connection) realm da of
                None \<Rightarrow> None
              | Some (noncehashexp, da) \<Rightarrow>
                  if nonce \<noteq> noncehashexp then Some (Auth_invalid_nonce, connection)
                  else check_counter uri_mem args_mem unesc connection da realm username password digest header left nonce))))"

definition digest_auth_check_all ::
  "bool \<Rightarrow> bool \<Rightarrow> unescape_callback \<Rightarrow> u32 \<Rightarrow> auth_conn \<Rightarrow> 'h DigestAlgorithm \<Rightarrow> string \<Rightarrow> string \<Rightarrow> string \<Rightarrow> byte list option
     \<Rightarrow> u32 \<Rightarrow> (auth_result \<times> auth_conn) option" where
  "digest_auth_check_all uri_mem args_mem unesc now connection da realm username password digest nonce_timeout =
     (case VLA_CHECK_LEN_DIGEST (digest_size da) of None \<Rightarrow> None | Some _ \<Rightarrow>
      (case MHD_lookup_connection_value (Some connection) MHD_HEADER_KIND (Some MHD_HTTP_HEADER_AUTHORIZATION) of
         None \<Rightarrow> Some (Auth_no, connection)
       | Some h \<Rightarrow>
           if \<not> strncmp_eq h DIGEST_BASE (length DIGEST_BASE) then Some (Auth_no, connection)
           else let header = drop (length DIGEST_BASE) h in
             (case sub_value_of MAX_USERNAME_LENGTH header ''username'' of
                None \<Rightarrow> Some (Auth_no, connection)
              | Some un \<Rightarrow>
                  if username \<noteq> un then Some (Auth_no, connection)
                  else (case sub_value_of MAX_REALM_LENGTH header ''realm'' of
                     None \<Rightarrow> Some (Auth_no, connection)
                   | Some r \<Rightarrow>
                       if realm \<noteq> r then Some (Auth_no, connection)
                       else (case sub_value_of MAX_NONCE_LENGTH header ''nonce'' of
                          None \<Rightarrow> Some (Auth_no, connection)
                        | Some nonce \<Rightarrow>
                            check_nonce uri_mem args_mem unesc now connection da realm username password digest nonce_timeout header
                              (word_of_nat (length header) - used_bytes ''username'' un - used_bytes ''realm'' r
                               - used_bytes ''nonce'' nonce) nonce)))))"

section \<open>The algorithms\<close>

datatype MHD_DigestAuthAlgorithm = MHD_DIGEST_ALG_AUTO | MHD_DIGEST_ALG_MD5 | MHD_DIGEST_ALG_SHA256

text \<open>The union of the two contexts of \<^verbatim>\<open>SETUP_DA\<close>; its contents before the initialisation are not used.\<close>

datatype digest_ctx = Ctx_md5 MD5Context | Ctx_sha256 sha256_ctx

fun ctx_init :: "digest_ctx \<Rightarrow> digest_ctx" where
  "ctx_init (Ctx_md5 c) = Ctx_md5 (MD5Init c)"
| "ctx_init (Ctx_sha256 c) = Ctx_sha256 (sha256_init c)"

fun ctx_update :: "digest_ctx \<Rightarrow> byte list \<Rightarrow> digest_ctx" where
  "ctx_update (Ctx_md5 c) d = Ctx_md5 (MD5Update c (Some d) (length d))"
| "ctx_update (Ctx_sha256 c) d = Ctx_sha256 (sha256_update c d (length d))"

fun ctx_digest :: "digest_ctx \<Rightarrow> (byte list \<times> digest_ctx) option" where
  "ctx_digest (Ctx_md5 c) = (case MD5Final c of (d, c') \<Rightarrow> Some (d, Ctx_md5 c'))"
| "ctx_digest (Ctx_sha256 c) = map_option (\<lambda>(d, c'). (d, Ctx_sha256 c')) (sha256_digest c)"

definition SETUP_DA :: "MHD_DigestAuthAlgorithm \<Rightarrow> MD5Context \<Rightarrow> sha256_ctx \<Rightarrow> digest_ctx DigestAlgorithm" where
  "SETUP_DA algo m s =
     (if algo = MHD_DIGEST_ALG_MD5
      then \<lparr>digest_size = 16, da_ctx = Ctx_md5 m, da_alg = ''md5'', sessionkey = [], da_init = ctx_init,
             da_update = ctx_update, da_digest = ctx_digest\<rparr>
      else \<lparr>digest_size = 32, da_ctx = Ctx_sha256 s, da_alg = ''sha-256'', sessionkey = [], da_init = ctx_init,
             da_update = ctx_update, da_digest = ctx_digest\<rparr>)"

definition MHD_digest_auth_check2 ::
  "bool \<Rightarrow> bool \<Rightarrow> unescape_callback \<Rightarrow> u32 \<Rightarrow> MD5Context \<Rightarrow> sha256_ctx \<Rightarrow> auth_conn \<Rightarrow> string \<Rightarrow> string \<Rightarrow> string \<Rightarrow> u32
     \<Rightarrow> MHD_DigestAuthAlgorithm \<Rightarrow> (auth_result \<times> auth_conn) option" where
  "MHD_digest_auth_check2 uri_mem args_mem unesc now m s connection realm username password nonce_timeout algo =
     digest_auth_check_all uri_mem args_mem unesc now connection (SETUP_DA algo m s) realm username password None nonce_timeout"

definition MHD_digest_auth_check ::
  "bool \<Rightarrow> bool \<Rightarrow> unescape_callback \<Rightarrow> u32 \<Rightarrow> MD5Context \<Rightarrow> sha256_ctx \<Rightarrow> auth_conn \<Rightarrow> string \<Rightarrow> string \<Rightarrow> string \<Rightarrow> u32
     \<Rightarrow> (auth_result \<times> auth_conn) option" where
  "MHD_digest_auth_check uri_mem args_mem unesc now m s connection realm username password nonce_timeout =
     MHD_digest_auth_check2 uri_mem args_mem unesc now m s connection realm username password nonce_timeout MHD_DIGEST_ALG_MD5"

definition MHD_digest_auth_check_digest2 ::
  "bool \<Rightarrow> bool \<Rightarrow> unescape_callback \<Rightarrow> u32 \<Rightarrow> MD5Context \<Rightarrow> sha256_ctx \<Rightarrow> auth_conn \<Rightarrow> string \<Rightarrow> string \<Rightarrow> byte list \<Rightarrow> nat \<Rightarrow> u32
     \<Rightarrow> MHD_DigestAuthAlgorithm \<Rightarrow> (auth_result \<times> auth_conn) option" where
  "MHD_digest_auth_check_digest2 uri_mem args_mem unesc now m s connection realm username digest dsize nonce_timeout algo =
     (if digest_size (SETUP_DA algo m s) \<noteq> dsize then None
      else digest_auth_check_all uri_mem args_mem unesc now connection (SETUP_DA algo m s) realm username [] (Some digest) nonce_timeout)"

definition MHD_digest_auth_check_digest ::
  "bool \<Rightarrow> bool \<Rightarrow> unescape_callback \<Rightarrow> u32 \<Rightarrow> MD5Context \<Rightarrow> sha256_ctx \<Rightarrow> auth_conn \<Rightarrow> string \<Rightarrow> string \<Rightarrow> byte list \<Rightarrow> u32
     \<Rightarrow> (auth_result \<times> auth_conn) option" where
  "MHD_digest_auth_check_digest uri_mem args_mem unesc now m s connection realm username digest nonce_timeout =
     MHD_digest_auth_check_digest2 uri_mem args_mem unesc now m s connection realm username digest MHD_MD5_DIGEST_SIZE nonce_timeout
       MHD_DIGEST_ALG_MD5"

end
