(* ===== verification/Digest_Sound.thy ===== *)
theory Digest_Sound
  imports Digest_Auth
begin

text \<open>
  Soundness of digest authentication: the contract of a hash function as a locale, its interpretations on the contexts of
  MD5 and SHA-256, and what an accepted request must have carried.
\<close>

section \<open>The contract of a digest algorithm\<close>

text \<open>
  What the authentication relies on: initialising a context, feeding it parts and taking the digest gives the hash of the
  joined parts and a context that can be used again.
\<close>

locale digest_algorithm =
  fixes ini :: "'h \<Rightarrow> 'h" and upd :: "'h \<Rightarrow> byte list \<Rightarrow> 'h" and fin :: "'h \<Rightarrow> (byte list \<times> 'h) option"
    and ok :: "'h \<Rightarrow> bool" and hash :: "byte list \<Rightarrow> byte list" and sz :: nat
  assumes digest_of: "ok c \<Longrightarrow> \<exists>c'. fin (foldl upd (ini c) ds) = Some (hash (concat ds), c') \<and> ok c'"
    and hash_length: "length (hash m) = sz"
    and small: "sz \<le> MAX_DIGEST"
begin

lemma hash_parts_eq:
  assumes "da_init da = ini" "da_update da = upd" "da_digest da = fin" "ok (da_ctx da)"
  obtains c' where "hash_parts da ds = Some (hash (concat ds), da\<lparr>da_ctx := c'\<rparr>)" "ok c'"
  using digest_of [OF assms(4), of ds] assms(1-3) by (auto simp: hash_parts_def)

lemma ha1_from_user_eq:
  assumes "da_init da = ini" "da_update da = upd" "da_digest da = fin" "ok (da_ctx da)" "digest_size da = sz"
    and "\<not> MHD_str_equal_caseless alg ''md5-sess''" "\<not> MHD_str_equal_caseless alg ''sha-256-sess''"
  obtains c' where "digest_calc_ha1_from_user alg user realm password nonce cnonce da =
      Some (da\<lparr>da_ctx := c', sessionkey := cvthex (hash (bytes_of (user @ '':'' @ realm @ '':'' @ password)))\<rparr>)" "ok c'"
proof -
  obtain c' where c: "hash_parts da [bytes_of user, bytes_of '':'', bytes_of realm, bytes_of '':'', bytes_of password] =
      Some (hash (bytes_of (user @ '':'' @ realm @ '':'' @ password)), da\<lparr>da_ctx := c'\<rparr>)" "ok c'"
    by (rule hash_parts_eq [OF assms(1-4), of "[bytes_of user, bytes_of '':'', bytes_of realm, bytes_of '':'', bytes_of password]"])
      simp
  have "digest_calc_ha1_from_user alg user realm password nonce cnonce da =
      Some (da\<lparr>da_ctx := c', sessionkey := cvthex (hash (bytes_of (user @ '':'' @ realm @ '':'' @ password)))\<rparr>)"
    using c(1) assms(5-7) small hash_length
    by (simp add: digest_calc_ha1_from_user_def digest_calc_ha1_from_digest_def VLA_CHECK_LEN_DIGEST_def)
  then show thesis using c(2) by (rule that)
qed

lemma length_cvthex: "length (cvthex bs) = 2 * length bs"
  by (induction bs rule: cvthex.induct) auto

lemma response_eq:
  assumes "da_init da = ini" "da_update da = upd" "da_digest da = fin" "ok (da_ctx da)" "digest_size da = sz"
    and "length ha1 = 2 * sz" "peek qop \<noteq> NUL"
  obtains da' where "digest_calc_response ha1 nonce nc cnonce qop mthd uri da = Some da'"
    "sessionkey da' = cvthex (hash (bytes_of (ha1 @ '':'' @ nonce @ '':'' @ nc @ '':'' @ cnonce @ '':'' @ qop @ '':''
       @ cvthex (hash (bytes_of (mthd @ '':'' @ uri))))))"
proof -
  let ?a2 = "hash (bytes_of (mthd @ '':'' @ uri))"
  obtain c' where c: "hash_parts da [bytes_of mthd, bytes_of '':'', bytes_of uri] = Some (?a2, da\<lparr>da_ctx := c'\<rparr>)" "ok c'"
    by (rule hash_parts_eq [OF assms(1-4), of "[bytes_of mthd, bytes_of '':'', bytes_of uri]"]) simp
  define da1 where "da1 = da\<lparr>da_ctx := c', sessionkey := cvthex ?a2\<rparr>"
  let ?ps = "[bytes_of ha1, bytes_of '':'', bytes_of nonce, bytes_of '':'', bytes_of nc, bytes_of '':'', bytes_of cnonce,
    bytes_of '':'', bytes_of qop, bytes_of '':'', bytes_of (cvthex ?a2)]"
  have d1: "da_init da1 = ini" "da_update da1 = upd" "da_digest da1 = fin" "ok (da_ctx da1)"
    using assms(1-3) c(2) by (simp_all add: da1_def)
  obtain c'' where e: "hash_parts da1 ?ps = Some (hash (concat ?ps), da1\<lparr>da_ctx := c''\<rparr>)"
    by (rule hash_parts_eq [OF d1, of ?ps])
  have "digest_calc_response ha1 nonce nc cnonce qop mthd uri da =
      Some (da1\<lparr>da_ctx := c'', sessionkey := cvthex (hash (concat ?ps))\<rparr>)"
    using c(1) e assms(5-7) small hash_length length_cvthex [of ?a2]
    by (simp add: digest_calc_response_def VLA_CHECK_LEN_DIGEST_def da1_def mult.commute)
  then show thesis by (rule that) simp
qed

end

definition md5_hash :: "byte list \<Rightarrow> byte list" where
  "md5_hash m = md5_out (fst (absorb transform_rfc md5_iv (m @ padding md5_len (length m))))"

definition sha256_hash :: "byte list \<Rightarrow> byte list" where
  "sha256_hash m = sha256_out (fst (absorb compress_fips sha256_iv (m @ padding sha256_len (length m))))"

fun md5_ctx_ok :: "digest_ctx \<Rightarrow> bool" where
  "md5_ctx_ok (Ctx_md5 c) = (length (buffer c) = 64)"
| "md5_ctx_ok (Ctx_sha256 c) = False"

fun sha256_ctx_ok :: "digest_ctx \<Rightarrow> bool" where
  "sha256_ctx_ok (Ctx_sha256 c) = (length (block c) = 64)"
| "sha256_ctx_ok (Ctx_md5 c) = False"

lemma foldl_ctx:
  "foldl ctx_update (Ctx_md5 c) ds = Ctx_md5 (foldl md5_update c ds)"
  "foldl ctx_update (Ctx_sha256 s) ds = Ctx_sha256 (foldl sha256_add s ds)"
  by (induction ds arbitrary: c s) (simp_all add: md5_update_def sha256_add_def)

interpretation md5_alg: digest_algorithm ctx_init ctx_update ctx_digest md5_ctx_ok md5_hash 16
proof
  fix c ds assume "md5_ctx_ok c"
  then obtain m where m: "c = Ctx_md5 m" "length (buffer m) = 64" by (cases c) auto
  have "md5_started (MD5Init m)" using m(2) by (simp add: md5_started_def MD5Init_def md5_iv_def)
  then have "fst (MD5Final (foldl md5_update (MD5Init m) ds)) = md5_hash (concat ds)"
    using md5.digest_of_updates [of "MD5Init m" ds] by (simp add: md5_transform_rfc md5_hash_def)
  moreover have "length (buffer (snd (MD5Final x))) = 64" for x by (simp add: MD5Final_def Let_def)
  ultimately show "\<exists>c'. ctx_digest (foldl ctx_update (ctx_init c) ds) = Some (md5_hash (concat ds), c') \<and> md5_ctx_ok c'"
    by (cases "MD5Final (foldl md5_update (MD5Init m) ds)") (simp add: m(1) foldl_ctx, metis snd_conv)
qed (simp_all add: md5_hash_def md5_out_def PUT_32BIT_LE_def MAX_DIGEST_def upt_rec)

lemma sha256_digest_block:
  assumes "length (block c) = 64" "sha256_digest c = Some (d, c')"
  shows "length (block c') = 64"
  using assms
  by (auto simp: sha256_digest_def sha256_write_digest_def MD_PAD_def Let_def sha256_init_def clear_in_def copy_in_def
      WRITE_UINT64_def split: if_splits)

interpretation sha256_alg: digest_algorithm ctx_init ctx_update ctx_digest sha256_ctx_ok sha256_hash 32
proof
  fix c ds assume "sha256_ctx_ok c"
  then obtain s where s: "c = Ctx_sha256 s" "length (block s) = 64" by (cases c) auto
  have st: "sha256_started (sha256_init s)" using s(2) by (simp add: sha256_started_def sha256_init_def sha256_iv_def)
  have "COMPRESS = compress_fips" by (intro ext) (rule compress_is_fips)
  then have "map_option fst (sha256_digest (foldl sha256_add (sha256_init s) ds)) = Some (sha256_hash (concat ds))"
    using sha256.digest_of_updates [OF st, of ds] by (simp add: sha256_hash_def)
  moreover have "length (block (foldl sha256_add (sha256_init s) ds)) = 64"
    using sha256.updates_hold [OF sha256.started_holds [OF st], of ds] by (simp add: sha256_holds_def)
  ultimately show "\<exists>c'. ctx_digest (foldl ctx_update (ctx_init c) ds) = Some (sha256_hash (concat ds), c') \<and> sha256_ctx_ok c'"
    using sha256_digest_block by (auto simp: s(1) foldl_ctx)
qed (simp_all add: sha256_hash_def sha256_out_def WRITE_UINT32_def MAX_DIGEST_def upt_rec)

section \<open>An accepted request\<close>

definition hash_of :: "MHD_DigestAuthAlgorithm \<Rightarrow> byte list \<Rightarrow> byte list" where
  "hash_of algo = (if algo = MHD_DIGEST_ALG_MD5 then md5_hash else sha256_hash)"

text \<open>The response of RFC 2617 for the quality of protection \<open>auth\<close>.\<close>

definition rfc_response where
  "rfc_response h user realm password nonce nc cnonce mthd uri =
     cvthex (h (bytes_of (cvthex (h (bytes_of (user @ '':'' @ realm @ '':'' @ password))) @ '':'' @ nonce @ '':'' @ nc @ '':''
       @ cnonce @ '':'' @ ''auth'' @ '':'' @ cvthex (h (bytes_of (mthd @ '':'' @ uri))))))"

text \<open>The nonce the server computes for a time stamp.\<close>

definition server_nonce :: "(byte list \<Rightarrow> byte list) \<Rightarrow> u32 \<Rightarrow> string \<Rightarrow> byte list \<Rightarrow> string \<Rightarrow> string \<Rightarrow> string" where
  "server_nonce h t mthd rnd uri realm =
     cvthex (h (timestamp_bytes t @ bytes_of ('':'' @ mthd @ '':'') @ rnd @ bytes_of ('':'' @ uri @ '':'' @ realm)))
     @ cvthex (timestamp_bytes t)"

definition da_sound :: "(byte list \<Rightarrow> byte list) \<Rightarrow> digest_ctx DigestAlgorithm \<Rightarrow> bool" where
  "da_sound h da \<longleftrightarrow> (h = md5_hash \<and> da_init da = ctx_init \<and> da_update da = ctx_update \<and> da_digest da = ctx_digest
       \<and> md5_ctx_ok (da_ctx da) \<and> digest_size da = 16 \<and> da_alg da = ''md5'')
     \<or> (h = sha256_hash \<and> da_init da = ctx_init \<and> da_update da = ctx_update \<and> da_digest da = ctx_digest
       \<and> sha256_ctx_ok (da_ctx da) \<and> digest_size da = 32 \<and> da_alg da = ''sha-256'')"

lemma setup_da_sound:
  assumes "length (buffer m) = 64" "length (block s) = 64"
  shows "da_sound (hash_of algo) (SETUP_DA algo m s)"
  using assms by (simp add: da_sound_def hash_of_def SETUP_DA_def)

lemma sound_small: "da_sound h da \<Longrightarrow> VLA_CHECK_LEN_DIGEST (digest_size da) = Some ()"
  by (auto simp: da_sound_def VLA_CHECK_LEN_DIGEST_def MAX_DIGEST_def)

lemma sound_hash_parts:
  assumes "da_sound h da"
  obtains da' where "hash_parts da ds = Some (h (concat ds), da')" "da_sound h da'"
proof -
  from assms consider
    (md5) "h = md5_hash" "da_init da = ctx_init" "da_update da = ctx_update" "da_digest da = ctx_digest"
      "md5_ctx_ok (da_ctx da)" "digest_size da = 16" "da_alg da = ''md5''"
    | (sha) "h = sha256_hash" "da_init da = ctx_init" "da_update da = ctx_update" "da_digest da = ctx_digest"
      "sha256_ctx_ok (da_ctx da)" "digest_size da = 32" "da_alg da = ''sha-256''"
    unfolding da_sound_def by blast
  then show thesis
  proof cases
    case md5
    obtain c' where "hash_parts da ds = Some (md5_hash (concat ds), da\<lparr>da_ctx := c'\<rparr>)" "md5_ctx_ok c'"
      by (rule md5_alg.hash_parts_eq [OF md5(2-5)])
    then show thesis using md5 by (intro that [of "da\<lparr>da_ctx := c'\<rparr>"]) (simp_all add: da_sound_def)
  next
    case sha
    obtain c' where "hash_parts da ds = Some (sha256_hash (concat ds), da\<lparr>da_ctx := c'\<rparr>)" "sha256_ctx_ok c'"
      by (rule sha256_alg.hash_parts_eq [OF sha(2-5)])
    then show thesis using sha by (intro that [of "da\<lparr>da_ctx := c'\<rparr>"]) (simp_all add: da_sound_def)
  qed
qed

lemma sound_calculate_nonce:
  assumes "da_sound h da"
  obtains da' where "calculate_nonce t mthd rnd uri realm da = Some (server_nonce h t mthd rnd uri realm, da')" "da_sound h da'"
proof -
  let ?ps = "[timestamp_bytes t, bytes_of '':'', bytes_of mthd, bytes_of '':''] @ (if length rnd > 0 then [rnd] else [])
        @ [bytes_of '':'', bytes_of uri, bytes_of '':'', bytes_of realm]"
  obtain da' where d: "hash_parts da ?ps = Some (h (concat ?ps), da')" "da_sound h da'"
    by (rule sound_hash_parts [OF assms])
  have ts: "length (cvthex (timestamp_bytes t)) = 8" by (simp add: timestamp_bytes_def)
  have "concat ?ps = timestamp_bytes t @ bytes_of ('':'' @ mthd @ '':'') @ rnd @ bytes_of ('':'' @ uri @ '':'' @ realm)"
    by simp
  then have "calculate_nonce t mthd rnd uri realm da = Some (server_nonce h t mthd rnd uri realm, da')"
    using d(1) ts sound_small [OF assms] by (simp add: calculate_nonce_def server_nonce_def)
  then show thesis using d(2) by (rule that)
qed

lemma sound_response:
  assumes "da_sound h da"
  obtains da1 da2 where "digest_calc_ha1_from_user (da_alg da) user realm password nonce cnonce da = Some da1"
    "digest_calc_response (sessionkey da1) nonce nc cnonce ''auth'' mthd uri da1 = Some da2"
    "sessionkey da2 = rfc_response h user realm password nonce nc cnonce mthd uri"
proof -
  have alg: "\<not> MHD_str_equal_caseless ''md5'' ''md5-sess''" "\<not> MHD_str_equal_caseless ''md5'' ''sha-256-sess''"
    "\<not> MHD_str_equal_caseless ''sha-256'' ''md5-sess''" "\<not> MHD_str_equal_caseless ''sha-256'' ''sha-256-sess''"
    by code_simp+
  let ?a1 = "\<lambda>h. cvthex (h (bytes_of (user @ '':'' @ realm @ '':'' @ password)))"
  from assms consider
    (md5) "h = md5_hash" "da_init da = ctx_init" "da_update da = ctx_update" "da_digest da = ctx_digest"
      "md5_ctx_ok (da_ctx da)" "digest_size da = 16" "da_alg da = ''md5''"
    | (sha) "h = sha256_hash" "da_init da = ctx_init" "da_update da = ctx_update" "da_digest da = ctx_digest"
      "sha256_ctx_ok (da_ctx da)" "digest_size da = 32" "da_alg da = ''sha-256''"
    unfolding da_sound_def by blast
  then show thesis
  proof cases
    case md5
    obtain c' where a: "digest_calc_ha1_from_user ''md5'' user realm password nonce cnonce da =
        Some (da\<lparr>da_ctx := c', sessionkey := ?a1 md5_hash\<rparr>)" "md5_ctx_ok c'"
      by (rule md5_alg.ha1_from_user_eq [OF md5(2-6) alg(1,2)])
    let ?da = "da\<lparr>da_ctx := c', sessionkey := ?a1 md5_hash\<rparr>"
    obtain da2 where "digest_calc_response (?a1 md5_hash) nonce nc cnonce ''auth'' mthd uri ?da = Some da2"
      "sessionkey da2 = rfc_response md5_hash user realm password nonce nc cnonce mthd uri"
      using md5_alg.response_eq [of ?da "?a1 md5_hash" "''auth''" nonce nc cnonce mthd uri] md5 a(2)
        md5_alg.length_cvthex [of "md5_hash (bytes_of (user @ '':'' @ realm @ '':'' @ password))"] md5_alg.hash_length
      by (auto simp: rfc_response_def)
    then show thesis using that [of ?da da2] a(1) md5 by simp
  next
    case sha
    obtain c' where a: "digest_calc_ha1_from_user ''sha-256'' user realm password nonce cnonce da =
        Some (da\<lparr>da_ctx := c', sessionkey := ?a1 sha256_hash\<rparr>)" "sha256_ctx_ok c'"
      by (rule sha256_alg.ha1_from_user_eq [OF sha(2-6) alg(3,4)])
    let ?da = "da\<lparr>da_ctx := c', sessionkey := ?a1 sha256_hash\<rparr>"
    obtain da2 where "digest_calc_response (?a1 sha256_hash) nonce nc cnonce ''auth'' mthd uri ?da = Some da2"
      "sessionkey da2 = rfc_response sha256_hash user realm password nonce nc cnonce mthd uri"
      using sha256_alg.response_eq [of ?da "?a1 sha256_hash" "''auth''" nonce nc cnonce mthd uri] sha a(2)
        sha256_alg.length_cvthex [of "sha256_hash (bytes_of (user @ '':'' @ realm @ '':'' @ password))"] sha256_alg.hash_length
      by (auto simp: rfc_response_def)
    then show thesis using that [of ?da da2] a(1) sha by simp
  qed
qed

text \<open>The part of a URI before the question mark.\<close>

definition path_of :: "string \<Rightarrow> string" where
  "path_of uri = (case strchr uri CHR ''?'' of None \<Rightarrow> uri | Some q \<Rightarrow> take q uri)"

lemma check_response_yes:
  assumes "da_sound h da" "check_response um am unesc c da realm username password None header left nonce cnonce ''auth'' nc response = Some Auth_yes"
  shows "\<exists>uri. sub_value_of (unat (left + 1)) header ''uri'' = Some uri
    \<and> response = rfc_response h username realm password nonce nc cnonce (cmethod c) uri \<and> unesc (path_of uri) = curl c"
proof -
  obtain uri where uri: "sub_value_of (unat (left + 1)) header ''uri'' = Some uri" and um: um
    using assms(2) by (auto simp: check_response_def split: option.splits if_splits)
  obtain da1 da2 where d: "digest_calc_ha1_from_user (da_alg da) username realm password nonce cnonce da = Some da1"
    "digest_calc_response (sessionkey da1) nonce nc cnonce ''auth'' (cmethod c) uri da1 = Some da2"
    "sessionkey da2 = rfc_response h username realm password nonce nc cnonce (cmethod c) uri"
    by (rule sound_response [OF assms(1)])
  have "unesc (path_of uri) = curl c \<and> response = sessionkey da2"
    using assms(2) um d(1,2) unfolding check_response_def uri path_of_def
    by (cases "strchr uri CHR ''?''") (auto split: if_splits)
  then show ?thesis using uri d(3) by blast
qed

lemma check_counter_yes:
  assumes "da_sound h da" "check_counter um am unesc c da realm username password None header left nonce = Some (Auth_yes, c')"
  shows "\<exists>cnonce nc uri. sub_value_of MAX_NONCE_LENGTH header ''cnonce'' = Some cnonce \<and> sub_value_of 20 header ''nc'' = Some nc
    \<and> (\<exists>n. sub_value_of n header ''uri'' = Some uri) \<and> unesc (path_of uri) = curl c
    \<and> sub_value_of MAX_AUTH_RESPONSE_LENGTH header ''response'' =
        Some (rfc_response h username realm password nonce nc cnonce (cmethod c) uri)"
proof -
  obtain cnonce qop nc response where v: "sub_value_of MAX_NONCE_LENGTH header ''cnonce'' = Some cnonce"
    "sub_value_of 15 header ''qop'' = Some qop" "sub_value_of 20 header ''nc'' = Some nc"
    "sub_value_of MAX_AUTH_RESPONSE_LENGTH header ''response'' = Some response"
    using assms(2) by (auto simp: check_counter_def split: option.splits)
  have ne: "qop \<noteq> []" using v(2) by (auto simp: sub_value_of_def split: option.splits if_splits)
  obtain nncs where c: "qop = ''auth''" "check_response um am unesc (c\<lparr>nnc := nncs\<rparr>) da realm username password None header left
      nonce cnonce qop nc response = Some Auth_yes"
    using assms(2) ne unfolding check_counter_def v by (auto simp: Let_def split: if_splits prod.splits)
  show ?thesis using check_response_yes [OF assms(1) c(2) [unfolded c(1)]] v by auto
qed

lemma check_nonce_yes:
  assumes "da_sound h da"
    and "check_nonce um am unesc now c da realm username password None timeout header left nonce = Some (Auth_yes, c')"
  obtains t da' where "nonce = server_nonce h t (cmethod c) (digest_auth_random c) (curl c) realm"
    "now \<le> t + timeout" "t \<le> t + timeout" "da_sound h da'"
    "check_counter um am unesc c da' realm username password None header left nonce = Some (Auth_yes, c')"
proof -
  obtain n t where t: "MHD_strx_to_uint32_n (Some (drop (length nonce - TIMESTAMP_BIN_SIZE * 2) nonce)) (TIMESTAMP_BIN_SIZE * 2) True = (n, t)"
    by fastforce
  obtain da' where d: "calculate_nonce (the t) (cmethod c) (digest_auth_random c) (curl c) realm da =
      Some (server_nonce h (the t) (cmethod c) (digest_auth_random c) (curl c) realm, da')" "da_sound h da'"
    by (rule sound_calculate_nonce [OF assms(1)])
  show thesis
    using assms(2) d unfolding check_nonce_def t
    by (intro that [of "the t" da']) (auto simp: Let_def not_less split: if_splits)
qed

text \<open>A request with the header of a client that knows the password.\<close>

definition sample_nonce :: string where
  "sample_nonce = ''3fa7a6b265e1a9b9767907e49c825c4500000000''"

definition sample_authorization :: string where
  "sample_authorization = ''Digest username=u, realm=r, nonce='' @ sample_nonce
     @ '', cnonce=c, qop=auth, nc=1, response=7d3fcafc94f10e0e0ed91e870e884888, uri=/''"

definition sample_request :: "u64 \<Rightarrow> auth_conn" where
  "sample_request n = \<lparr>pool = \<lparr>memory = [], psize = 0, pos = 0, pend = 0, is_mmap = False\<rparr>,
     headers_received = [\<lparr>hname = Some ''authorization'', hvalue = Some sample_authorization, hkind = MHD_HEADER_KIND\<rparr>],
     cmethod = ''GET'', curl = ''/'', digest_auth_random = [], nnc = [\<lparr>nn_nc = n, nn_nmask = 0, nn_nonce = sample_nonce\<rparr>]\<rparr>"

definition empty_md5 :: MD5Context where "empty_md5 = \<lparr>MD5Context.state = [], count = 0, buffer = replicate 64 0\<rparr>"
definition empty_sha256 :: sha256_ctx where "empty_sha256 = \<lparr>state = [], count = 0, block = replicate 64 0, index = 0\<rparr>"

abbreviation sample_values :: string where
  "sample_values \<equiv> drop (length DIGEST_BASE) sample_authorization"

lemma sample_lookup:
  "MHD_lookup_connection_value (Some (sample_request 0)) MHD_HEADER_KIND (Some MHD_HTTP_HEADER_AUTHORIZATION) = Some sample_authorization"
  "strncmp_eq sample_authorization DIGEST_BASE (length DIGEST_BASE)"
  "sub_value_of MAX_USERNAME_LENGTH sample_values ''username'' = Some ''u''"
  "sub_value_of MAX_REALM_LENGTH sample_values ''realm'' = Some ''r''"
  "sub_value_of MAX_NONCE_LENGTH sample_values ''nonce'' = Some sample_nonce"
  "sub_value_of MAX_NONCE_LENGTH sample_values ''cnonce'' = Some ''c''"
  "sub_value_of 15 sample_values ''qop'' = Some ''auth''"
  "sub_value_of 20 sample_values ''nc'' = Some ''1''"
  "sub_value_of MAX_AUTH_RESPONSE_LENGTH sample_values ''response'' = Some ''7d3fcafc94f10e0e0ed91e870e884888''"
  "sub_value_of 84 sample_values ''uri'' = Some ''/''"
  by code_simp+

lemma sample_rest:
  "word_of_nat (length sample_values) - used_bytes ''username'' ''u'' - used_bytes ''realm'' ''r'' - used_bytes ''nonce'' sample_nonce = 83"
  "MHD_strx_to_uint32_n (Some (drop (length sample_nonce - TIMESTAMP_BIN_SIZE * 2) sample_nonce)) (TIMESTAMP_BIN_SIZE * 2) True = (8, Some 0)"
  "length sample_nonce = 40"
  "MHD_strx_to_uint64_n (Some ''1'') 1 True = (1, Some 1)"
  "check_nonce_nc (nnc (sample_request 0)) sample_nonce 1 = (True, nnc (sample_request 1))"
  "check_argument_match True (\<lambda>s. s) (sample_request 1) []"
  "strchr ''/'' CHR ''?'' = None"
  by code_simp+

lemma sample_server_nonce: "server_nonce md5_hash 0 ''GET'' [] ''/'' ''r'' = sample_nonce"
  unfolding server_nonce_def md5_hash_def md5_transform_rfc [symmetric] by code_simp

lemma sample_ha1: "cvthex (md5_hash (bytes_of (''u'' @ '':'' @ ''r'' @ '':'' @ ''p''))) = ''44add22b6f3179b751eafd68ee370f7d''"
  unfolding md5_hash_def md5_transform_rfc [symmetric] by code_simp

lemma sample_ha2: "cvthex (md5_hash (bytes_of (''GET'' @ '':'' @ ''/''))) = ''71998c64aea37ae77020c49c00f73fa8''"
  unfolding md5_hash_def md5_transform_rfc [symmetric] by code_simp

lemma sample_response:
  "rfc_response md5_hash ''u'' ''r'' ''p'' sample_nonce ''1'' ''c'' ''GET'' ''/'' = ''7d3fcafc94f10e0e0ed91e870e884888''"
  unfolding rfc_response_def sample_ha1 sample_ha2 sample_nonce_def
  unfolding md5_hash_def md5_transform_rfc [symmetric] by code_simp


lemma sample_accepted:
  "MHD_digest_auth_check2 True True (\<lambda>s. s) 1 empty_md5 empty_sha256 (sample_request 0) ''r'' ''u'' ''p'' 300 MHD_DIGEST_ALG_MD5 =
     Some (Auth_yes, sample_request 1)"
proof -
  let ?c = "sample_request 0" and ?c1 = "sample_request 1" and ?da = "SETUP_DA MHD_DIGEST_ALG_MD5 empty_md5 empty_sha256"
  have da: "da_sound md5_hash ?da"
    using setup_da_sound [of empty_md5 empty_sha256 MHD_DIGEST_ALG_MD5] by (simp add: hash_of_def empty_md5_def empty_sha256_def)
  have c: "cmethod ?c = ''GET''" "curl ?c = ''/''" "digest_auth_random ?c = []" "cmethod ?c1 = ''GET''" "curl ?c1 = ''/''"
    "?c\<lparr>nnc := nnc ?c1\<rparr> = ?c1"
    by (simp_all add: sample_request_def)
  obtain da1 where n: "calculate_nonce 0 ''GET'' [] ''/'' ''r'' ?da = Some (sample_nonce, da1)" "da_sound md5_hash da1"
    using sound_calculate_nonce [OF da, of 0 "''GET''" "[]" "''/''" "''r''"] unfolding sample_server_nonce by metis
  obtain da2 da3 where r: "digest_calc_ha1_from_user (da_alg da1) ''u'' ''r'' ''p'' sample_nonce ''c'' da1 = Some da2"
    "digest_calc_response (sessionkey da2) sample_nonce ''1'' ''c'' ''auth'' ''GET'' ''/'' da2 = Some da3"
    "sessionkey da3 = ''7d3fcafc94f10e0e0ed91e870e884888''"
    by (rule sound_response [OF n(2), of "''u''" "''r''" "''p''" sample_nonce "''c''" "''1''" "''GET''" "''/''"])
      (simp add: sample_response)
  have resp: "check_response True True (\<lambda>s. s) ?c1 da1 ''r'' ''u'' ''p'' None sample_values 83 sample_nonce ''c'' ''auth'' ''1''
      ''7d3fcafc94f10e0e0ed91e870e884888'' = Some Auth_yes"
    using sample_lookup(10) r sample_rest(6,7) c(4,5) by (simp add: check_response_def)
  have "check_counter True True (\<lambda>s. s) ?c da1 ''r'' ''u'' ''p'' None sample_values 83 sample_nonce = Some (Auth_yes, ?c1)"
    using sample_lookup(6-9) sample_rest(4,5) resp c(6) by (simp add: check_counter_def)
  then have "check_nonce True True (\<lambda>s. s) 1 ?c ?da ''r'' ''u'' ''p'' None 300 sample_values 83 sample_nonce = Some (Auth_yes, ?c1)"
    using sample_rest(2,3) n(1) c(1-3) by (simp add: check_nonce_def TIMESTAMP_BIN_SIZE_def)
  then show ?thesis
    using sample_lookup(1-5) sound_small [OF da] sample_rest(1)
    by (simp only: MHD_digest_auth_check2_def digest_auth_check_all_def Let_def option.case if_True if_False simp_thms)
qed

text \<open>
  C10. A request that is authenticated carries the response of RFC 2617 for the user, the realm and the password, over a
  nonce that the server made for this method and URL at a time that has not passed its timeout.
\<close>
theorem digest_auth_sound:
  assumes "length (buffer m) = 64" "length (block s) = 64"
    and "MHD_digest_auth_check2 um am unesc now m s c realm username password timeout algo = Some (Auth_yes, c')"
  shows "\<exists>hd t cnonce nc uri. let header = drop (length DIGEST_BASE) hd;
      nonce = server_nonce (hash_of algo) t (cmethod c) (digest_auth_random c) (curl c) realm in
    MHD_lookup_connection_value (Some c) MHD_HEADER_KIND (Some MHD_HTTP_HEADER_AUTHORIZATION) = Some hd
    \<and> sub_value_of MAX_USERNAME_LENGTH header ''username'' = Some username
    \<and> sub_value_of MAX_REALM_LENGTH header ''realm'' = Some realm
    \<and> sub_value_of MAX_NONCE_LENGTH header ''nonce'' = Some nonce
    \<and> now \<le> t + timeout \<and> t \<le> t + timeout
    \<and> sub_value_of MAX_NONCE_LENGTH header ''cnonce'' = Some cnonce \<and> sub_value_of 20 header ''nc'' = Some nc
    \<and> (\<exists>n. sub_value_of n header ''uri'' = Some uri) \<and> unesc (path_of uri) = curl c
    \<and> sub_value_of MAX_AUTH_RESPONSE_LENGTH header ''response'' =
        Some (rfc_response (hash_of algo) username realm password nonce nc cnonce (cmethod c) uri)"
proof -
  note snd = setup_da_sound [OF assms(1,2), of algo]
  obtain hd nonce left where h:
    "MHD_lookup_connection_value (Some c) MHD_HEADER_KIND (Some MHD_HTTP_HEADER_AUTHORIZATION) = Some hd"
    "sub_value_of MAX_USERNAME_LENGTH (drop (length DIGEST_BASE) hd) ''username'' = Some username"
    "sub_value_of MAX_REALM_LENGTH (drop (length DIGEST_BASE) hd) ''realm'' = Some realm"
    "sub_value_of MAX_NONCE_LENGTH (drop (length DIGEST_BASE) hd) ''nonce'' = Some nonce"
    "check_nonce um am unesc now c (SETUP_DA algo m s) realm username password None timeout (drop (length DIGEST_BASE) hd) left nonce =
       Some (Auth_yes, c')"
    using assms(3) unfolding MHD_digest_auth_check2_def digest_auth_check_all_def sound_small [OF snd]
    by (auto simp: Let_def split: option.splits if_splits)
  obtain t da' where n: "nonce = server_nonce (hash_of algo) t (cmethod c) (digest_auth_random c) (curl c) realm"
    "now \<le> t + timeout" "t \<le> t + timeout" "da_sound (hash_of algo) da'"
    "check_counter um am unesc c da' realm username password None (drop (length DIGEST_BASE) hd) left nonce = Some (Auth_yes, c')"
    by (rule check_nonce_yes [OF snd h(5)])
  show ?thesis
    using check_counter_yes [OF n(4,5)] h(1-4) n(1-3) unfolding Let_def by blast
qed

theorem digest_auth_sound_witness:
  "\<exists>t cnonce nc uri. server_nonce md5_hash t ''GET'' [] ''/'' ''r'' = sample_nonce \<and> 1 \<le> t + 300 \<and> path_of uri = ''/''
    \<and> rfc_response md5_hash ''u'' ''r'' ''p'' sample_nonce nc cnonce ''GET'' uri = ''7d3fcafc94f10e0e0ed91e870e884888''"
proof -
  have b: "length (buffer empty_md5) = 64" "length (block empty_sha256) = 64" by (simp_all add: empty_md5_def empty_sha256_def)
  have c: "cmethod (sample_request 0) = ''GET''" "curl (sample_request 0) = ''/''" "digest_auth_random (sample_request 0) = []"
    by (simp_all add: sample_request_def)
  from digest_auth_sound [OF b sample_accepted] obtain t cnonce nc uri where
    "sub_value_of MAX_NONCE_LENGTH sample_values ''nonce'' = Some (server_nonce md5_hash t ''GET'' [] ''/'' ''r'')"
    "1 \<le> t + 300" "path_of uri = ''/''"
    "sub_value_of MAX_AUTH_RESPONSE_LENGTH sample_values ''response'' = Some (rfc_response md5_hash ''u'' ''r'' ''p''
       (server_nonce md5_hash t ''GET'' [] ''/'' ''r'') nc cnonce ''GET'' uri)"
    unfolding Let_def hash_of_def c sample_lookup(1) option.inject by (auto simp del: length_drop)
  then show ?thesis unfolding sample_lookup(5,9) option.inject by (intro exI [of _ t] exI [of _ cnonce] exI [of _ nc] exI [of _ uri]) simp
qed

end
