(* ===== verification/Connection.thy ===== *)
theory Connection
  imports Response Reason_Phrase "HOL-Library.Monad_Syntax"
begin

text \<open>
  The state of a connection and of its daemon (\<^verbatim>\<open>struct MHD_Connection\<close>, \<^verbatim>\<open>struct MHD_Daemon\<close> of \<^verbatim>\<open>internal.h\<close>) and the operations
  of \<^verbatim>\<open>connection.c\<close> that end a request: closing, queueing a response, building its header and answering with an error.

  The build that is modelled has neither TLS nor \<^verbatim>\<open>sendfile\<close> nor epoll, and the daemon runs in one thread. The blocks of the pool are kept with
  the fields that own them: the read buffer is the list of the bytes that were received and not yet consumed, a string is a
  list without its terminator. The pool itself decides which allocations succeed. Calls of the application
  are recorded in order. A panic, a failed assertion or the use of a null pointer is \<open>None\<close>.
\<close>

section \<open>State\<close>

datatype MHD_ConnKeepAlive = MHD_CONN_MUST_CLOSE | MHD_CONN_KEEPALIVE_UNKOWN | MHD_CONN_USE_KEEPALIVE

datatype MHD_ConnectionEventLoopInfo =
  MHD_EVENT_LOOP_INFO_READ | MHD_EVENT_LOOP_INFO_WRITE | MHD_EVENT_LOOP_INFO_BLOCK | MHD_EVENT_LOOP_INFO_CLEANUP

datatype MHD_RequestTerminationCode =
    MHD_REQUEST_TERMINATED_COMPLETED_OK | MHD_REQUEST_TERMINATED_WITH_ERROR | MHD_REQUEST_TERMINATED_TIMEOUT_REACHED
  | MHD_REQUEST_TERMINATED_DAEMON_SHUTDOWN | MHD_REQUEST_TERMINATED_READ_ERROR | MHD_REQUEST_TERMINATED_CLIENT_ABORT

text \<open>
  A call of the application: the handler with the upload data it was offered and the number of bytes it left, the
  notification of the end of a request, the log callback with the URI.
\<close>

datatype app_call =
    Handler_call "string option" nat
  | Completed_call MHD_RequestTerminationCode
  | Uri_log_call "string option"

record 'a MHD_Connection = conn_values +
  response :: "MHD_Response option"
  client_context :: "'a option"
  req_method :: "string option"
  req_url :: "string option"
  req_version :: "string option"
  keepalive :: MHD_ConnKeepAlive
  read_buffer :: string
  read_buffer_at :: ptr
  read_buffer_size :: size_t
  write_buffer :: string
  write_buffer_at :: ptr
  write_buffer_size :: size_t
  write_buffer_send_offset :: nat
  write_buffer_append_offset :: nat
  last_line :: "string option"
  last_at :: ptr
  colon :: "string option"
  header_size :: size_t
  remaining_upload_size :: u64
  response_write_position :: u64
  continue_message_write_offset :: nat
  last_activity :: nat
  connection_timeout :: nat
  client_aware :: bool
  read_closed :: bool
  suspended :: bool
  cstate :: MHD_CONNECTION_STATE
  event_loop_info :: MHD_ConnectionEventLoopInfo
  responseCode :: u32
  have_chunked_upload :: bool
  current_chunk_size :: u64
  current_chunk_offset :: u64
  calls :: "app_call list"
  sent :: string

text \<open>
  What a call of the handler does: its return value, the number of bytes it leaves, the new context, a response it queues and
  whether it suspends the connection.
\<close>

record 'a handler_reply =
  hr_ok :: bool
  hr_left :: nat
  hr_context :: "'a option"
  hr_queue :: "(u32 \<times> MHD_Response) option"
  hr_suspend :: bool

text \<open>The time of \<^verbatim>\<open>gmtime\<close>.\<close>

record tm =
  tm_sec :: nat
  tm_min :: nat
  tm_hour :: nat
  tm_mday :: nat
  tm_mon :: nat
  tm_year :: nat
  tm_wday :: nat

record 'a MHD_Daemon =
  options :: u32
  strict_for_client :: int
  pool_size :: size_t
  pool_increment :: size_t
  shutdown :: bool
  default_handler :: "'a MHD_Connection \<Rightarrow> string option \<Rightarrow> nat \<Rightarrow> 'a handler_reply"
  notify_completed :: "('a option \<Rightarrow> MHD_RequestTerminationCode \<Rightarrow> 'a option) option"
  uri_log_callback :: "(string option \<Rightarrow> 'a option) option"
  unescape_cb :: unescape_callback
  content_reader_cb :: "'a MHD_Connection \<Rightarrow> u64 \<Rightarrow> nat \<Rightarrow> int \<times> byte list"
  response_mem :: bool
  monotonic_sec :: nat
  gm_time :: "tm option"

definition MHD_HTTP_VERSION_1_0 :: string where "MHD_HTTP_VERSION_1_0 = ''HTTP/1.0''"
definition MHD_HTTP_VERSION_1_1 :: string where "MHD_HTTP_VERSION_1_1 = ''HTTP/1.1''"
definition MHD_RF_HTTP_VERSION_1_0_ONLY :: u32 where "MHD_RF_HTTP_VERSION_1_0_ONLY = 1"
definition MHD_RF_HTTP_VERSION_1_0_RESPONSE :: u32 where "MHD_RF_HTTP_VERSION_1_0_RESPONSE = 2"
definition MHD_ICY_FLAG :: u32 where "MHD_ICY_FLAG = push_bit 31 1"
definition MHD_USE_SUPPRESS_DATE_NO_CLOCK :: u32 where "MHD_USE_SUPPRESS_DATE_NO_CLOCK = 128"
definition MHD_USE_INTERNAL_POLLING_THREAD :: u32 where "MHD_USE_INTERNAL_POLLING_THREAD = 8"
definition MHD_ALLOW_UPGRADE :: u32 where "MHD_ALLOW_UPGRADE = 32768"
definition MHD_BUF_INC_SIZE :: size_t where "MHD_BUF_INC_SIZE = 1024"
definition HTTP_100_CONTINUE :: string where "HTTP_100_CONTINUE = ''HTTP/1.1 100 Continue'' @ [CR, LF, CR, LF]"

definition REQUEST_TOO_BIG :: string where
  "REQUEST_TOO_BIG = ''<html><head><title>Request too big</title></head><body>Your HTTP header was too big for the memory constraints of this webserver.</body></html>''"

definition REQUEST_LACKS_HOST :: string where
  "REQUEST_LACKS_HOST = ''<html><head><title>&quot;Host:&quot; header required</title></head><body>In HTTP 1.1, requests must include a &quot;Host:&quot; header, and your HTTP 1.1 request lacked such a header.</body></html>''"

definition REQUEST_MALFORMED :: string where
  "REQUEST_MALFORMED = ''<html><head><title>Request malformed</title></head><body>Your HTTP request was syntactically incorrect.</body></html>''"

definition INTERNAL_ERROR :: string where
  "INTERNAL_ERROR = ''<html><head><title>Internal server error</title></head><body>Please ask the developer of this Web server to carefully read the GNU libmicrohttpd documentation about connection management and blocking.</body></html>''"

section \<open>Ending a request\<close>

definition MHD_lookup_header_s_token_ci :: "'b conn_values_scheme \<Rightarrow> string \<Rightarrow> string \<Rightarrow> bool" where
  "MHD_lookup_header_s_token_ci connection hdr tkn = MHD_lookup_header_token_ci (Some connection) (Some hdr) (Some tkn) (length tkn)"

definition need_100_continue :: "'a MHD_Connection \<Rightarrow> bool" where
  "need_100_continue connection =
     (response connection = None
      \<and> (case req_version connection of None \<Rightarrow> False | Some v \<Rightarrow> MHD_str_equal_caseless v MHD_HTTP_VERSION_1_1)
      \<and> (case MHD_lookup_connection_value (Some connection) MHD_HEADER_KIND (Some ''Expect'') of
           None \<Rightarrow> False | Some expect \<Rightarrow> MHD_str_equal_caseless expect ''100-continue'')
      \<and> continue_message_write_offset connection < length HTTP_100_CONTINUE)"

text \<open>The shutdown of the socket is not modelled.\<close>

definition MHD_connection_mark_closed :: "'a MHD_Connection \<Rightarrow> 'a MHD_Connection" where
  "MHD_connection_mark_closed connection =
     connection\<lparr>cstate := MHD_CONNECTION_CLOSED, event_loop_info := MHD_EVENT_LOOP_INFO_CLEANUP\<rparr>"

text \<open>The notification that a request has ended; it may change the context.\<close>

definition notify_end :: "'a MHD_Daemon \<Rightarrow> 'a MHD_Connection \<Rightarrow> MHD_RequestTerminationCode \<Rightarrow> 'a MHD_Connection" where
  "notify_end daemon connection code =
     (case notify_completed daemon of
        None \<Rightarrow> connection\<lparr>client_aware := False\<rparr>
      | Some f \<Rightarrow>
          if client_aware connection
          then connection\<lparr>client_context := f (client_context connection) code, calls := calls connection @ [Completed_call code],
                 client_aware := False\<rparr>
          else connection\<lparr>client_aware := False\<rparr>)"

definition MHD_connection_close ::
  "'a MHD_Daemon \<Rightarrow> 'a MHD_Connection \<Rightarrow> MHD_RequestTerminationCode \<Rightarrow> 'a MHD_Connection" where
  "MHD_connection_close daemon connection code =
     notify_end daemon ((MHD_connection_mark_closed connection)\<lparr>response := None\<rparr>) code"

definition CONNECTION_CLOSE_ERROR :: "'a MHD_Daemon \<Rightarrow> 'a MHD_Connection \<Rightarrow> 'a MHD_Connection" where
  "CONNECTION_CLOSE_ERROR daemon connection = MHD_connection_close daemon connection MHD_REQUEST_TERMINATED_WITH_ERROR"

text \<open>The lists of the daemon that order connections by their timeout are in \<^verbatim>\<open>Daemon_Lists\<close>.\<close>

definition MHD_update_last_activity :: "'a MHD_Daemon \<Rightarrow> 'a MHD_Connection \<Rightarrow> 'a MHD_Connection" where
  "MHD_update_last_activity daemon connection =
     (if connection_timeout connection = 0 \<or> suspended connection then connection
      else connection\<lparr>last_activity := monotonic_sec daemon\<rparr>)"

definition keepalive_possible :: "'a MHD_Connection \<Rightarrow> bool" where
  "keepalive_possible connection =
     (if keepalive connection = MHD_CONN_MUST_CLOSE then False
      else (case req_version connection of
         None \<Rightarrow> False
       | Some v \<Rightarrow>
           let fl = (case response connection of None \<Rightarrow> 0 | Some r \<Rightarrow> flags r) in
           if fl AND MHD_RF_HTTP_VERSION_1_0_ONLY \<noteq> 0 then False
           else if MHD_str_equal_caseless v MHD_HTTP_VERSION_1_1 \<and> fl AND MHD_RF_HTTP_VERSION_1_0_RESPONSE = 0
           then \<not> MHD_lookup_header_s_token_ci connection MHD_HTTP_HEADER_CONNECTION ''upgrade''
                \<and> \<not> MHD_lookup_header_s_token_ci connection MHD_HTTP_HEADER_CONNECTION ''close''
           else if MHD_str_equal_caseless v MHD_HTTP_VERSION_1_0
           then MHD_lookup_header_s_token_ci connection MHD_HTTP_HEADER_CONNECTION ''Keep-Alive''
           else False))"

section \<open>Queueing a response\<close>

definition bodyless :: "string option \<Rightarrow> u32 \<Rightarrow> bool" where
  "bodyless mthd status_code \<longleftrightarrow>
     (case mthd of None \<Rightarrow> False | Some m \<Rightarrow> MHD_str_equal_caseless m ''HEAD'')
     \<or> status_code < 200 \<or> status_code = 204 \<or> status_code = 304"

definition is_upload :: "string option \<Rightarrow> bool" where
  "is_upload mthd = (case mthd of None \<Rightarrow> False
     | Some m \<Rightarrow> MHD_str_equal_caseless m ''POST'' \<or> MHD_str_equal_caseless m ''PUT'')"

text \<open>The call from inside of the idle handler, which therefore is not entered again.\<close>

definition MHD_queue_response ::
  "'a MHD_Daemon \<Rightarrow> 'a MHD_Connection \<Rightarrow> u32 \<Rightarrow> MHD_Response option \<Rightarrow> bool \<times> 'a MHD_Connection" where
  "MHD_queue_response daemon connection status_code resp =
     (case resp of
        None \<Rightarrow> (False, connection)
      | Some r \<Rightarrow>
          if response connection \<noteq> None
             \<or> cstate connection \<noteq> MHD_CONNECTION_HEADERS_PROCESSED \<and> cstate connection \<noteq> MHD_CONNECTION_FOOTERS_RECEIVED
          then (False, connection)
          else if shutdown daemon then (True, connection)
          else if upgrade_handler r \<and> options daemon AND MHD_ALLOW_UPGRADE = 0 then (False, connection)
          else if status_code \<noteq> 101 \<and> upgrade_handler r then (False, connection)
          else
            let c = connection\<lparr>response := Some (MHD_increment_response_rc r), responseCode := status_code\<rparr>;
                c = (if bodyless (req_method c) status_code then c\<lparr>response_write_position := total_size r\<rparr> else c);
                c = (if cstate c = MHD_CONNECTION_HEADERS_PROCESSED \<and> is_upload (req_method c)
                     then c\<lparr>read_closed := True, cstate := MHD_CONNECTION_FOOTERS_RECEIVED\<rparr> else c)
            in (True, MHD_update_last_activity daemon c))"

text \<open>
  A call of the handler of the application. It may queue one response, further ones are refused in any case, and may suspend
  the connection.
\<close>

definition call_application ::
  "'a MHD_Daemon \<Rightarrow> 'a MHD_Connection \<Rightarrow> string option \<Rightarrow> nat \<Rightarrow> bool \<times> nat \<times> 'a MHD_Connection" where
  "call_application daemon connection data n =
     (let c = connection\<lparr>client_aware := True\<rparr>;
          r = default_handler daemon c data n;
          c = c\<lparr>client_context := hr_context r, calls := calls c @ [Handler_call data (hr_left r)]\<rparr>;
          c = (case hr_queue r of None \<Rightarrow> c | Some (code, resp) \<Rightarrow> snd (MHD_queue_response daemon c code (Some resp)));
          c = (if hr_suspend r then c\<lparr>suspended := True\<rparr> else c)
      in (hr_ok r, hr_left r, c))"

definition call_connection_handler :: "'a MHD_Daemon \<Rightarrow> 'a MHD_Connection \<Rightarrow> 'a MHD_Connection" where
  "call_connection_handler daemon connection =
     (if response connection \<noteq> None then connection
      else case call_application daemon connection None 0 of
             (ok, left, c) \<Rightarrow> if ok then c else CONNECTION_CLOSE_ERROR daemon c)"

section \<open>A daemon and a connection for examples\<close>

text \<open>The application takes all data and queues no response; the connection has no memory.\<close>

definition quiet_daemon :: "unit MHD_Daemon" where
  "quiet_daemon = \<lparr>options = 0, strict_for_client = 0, pool_size = 0, pool_increment = 0, shutdown = False,
     default_handler = (\<lambda>c x n. \<lparr>hr_ok = True, hr_left = 0, hr_context = None, hr_queue = None, hr_suspend = False\<rparr>),
     notify_completed = None, uri_log_callback = None, unescape_cb = (\<lambda>s. s), content_reader_cb = (\<lambda>c p n. (0, [])),
     response_mem = True, monotonic_sec = 0, gm_time = None\<rparr>"

definition new_connection :: "unit MHD_Connection" where
  "new_connection = \<lparr>pool = \<lparr>memory = [], psize = 0, pos = 0, pend = 0, is_mmap = False\<rparr>, headers_received = [],
     response = None, client_context = None, req_method = None, req_url = None, req_version = None,
     keepalive = MHD_CONN_KEEPALIVE_UNKOWN, read_buffer = [], read_buffer_at = None, read_buffer_size = 0,
     write_buffer = [], write_buffer_at = None, write_buffer_size = 0, write_buffer_send_offset = 0,
     write_buffer_append_offset = 0, last_line = None, last_at = None, colon = None, header_size = 0,
     remaining_upload_size = 0, response_write_position = 0, continue_message_write_offset = 0, last_activity = 0,
     connection_timeout = 0, client_aware = False, read_closed = False, suspended = False, cstate = MHD_CONNECTION_INIT,
     event_loop_info = MHD_EVENT_LOOP_INFO_READ, responseCode = 0, have_chunked_upload = False, current_chunk_size = 0,
     current_chunk_offset = 0, calls = [], sent = []\<rparr>"

end
