(* ===== verification/Auth_Reply.thy ===== *)
theory Auth_Reply
  imports Digest_Sound Connection
begin

text \<open>
  The replies that ask a client to authenticate (\<^verbatim>\<open>MHD_queue_basic_auth_fail_response\<close> of \<^verbatim>\<open>basicauth.c\<close>, \<^verbatim>\<open>MHD_queue_auth_fail_response\<close> of
  \<^verbatim>\<open>digestauth.c\<close>), and completeness of digest authentication: a client that answers the challenge with the password is accepted.

  An operation returns whether it succeeded, the response with its new header and the connection. The flags say
  which allocations succeed: of the header text, and of the entry of the response. The array of nonces and the random seed
  of the daemon are arguments.
\<close>

section \<open>The replies\<close>

definition MHD_HTTP_HEADER_WWW_AUTHENTICATE :: string where
  "MHD_HTTP_HEADER_WWW_AUTHENTICATE = ''WWW-Authenticate''"

definition MHD_HTTP_UNAUTHORIZED :: u32 where
  "MHD_HTTP_UNAUTHORIZED = 401"

definition quoted :: "string \<Rightarrow> string" where
  "quoted s = CHR 0x22 # s @ [CHR 0x22]"

text \<open>\<^verbatim>\<open>snprintf\<close> fails when the length of the text is not an \<^verbatim>\<open>int\<close>.\<close>

definition fits_int :: "string \<Rightarrow> bool" where
  "fits_int s \<longleftrightarrow> length s < 2 ^ 31"

text \<open>Adding the header and queueing the response.\<close>

definition queue_unauthorized ::
  "bool \<times> bool \<times> bool \<Rightarrow> 'a MHD_Daemon \<Rightarrow> 'a MHD_Connection \<Rightarrow> string \<Rightarrow> MHD_Response option
     \<Rightarrow> (bool \<times> MHD_Response option \<times> 'a MHD_Connection) option" where
  "queue_unauthorized entry_mem daemon connection header resp = do {
     (ret, resp) \<leftarrow> (if fits_int header
        then MHD_add_response_header entry_mem resp MHD_HTTP_HEADER_WWW_AUTHENTICATE (Some header) else Some (False, resp));
     Some (if ret then (case MHD_queue_response daemon connection MHD_HTTP_UNAUTHORIZED resp of (ret, connection) \<Rightarrow> (ret, resp, connection))
           else (False, resp, connection))
   }"

definition MHD_queue_basic_auth_fail_response ::
  "bool \<Rightarrow> bool \<times> bool \<times> bool \<Rightarrow> 'a MHD_Daemon \<Rightarrow> 'a MHD_Connection \<Rightarrow> string \<Rightarrow> MHD_Response option
     \<Rightarrow> (bool \<times> MHD_Response option \<times> 'a MHD_Connection) option" where
  "MHD_queue_basic_auth_fail_response header_mem entry_mem daemon connection realm resp =
     (if \<not> header_mem then Some (False, resp, connection)
      else queue_unauthorized entry_mem daemon connection (''Basic realm='' @ quoted realm) resp)"

definition digest_challenge :: "string \<Rightarrow> string \<Rightarrow> string \<Rightarrow> string \<Rightarrow> bool \<Rightarrow> string" where
  "digest_challenge realm nonce opaque alg signal_stale =
     ''Digest realm='' @ quoted realm @ '',qop='' @ quoted ''auth'' @ '',nonce='' @ quoted nonce @ '',opaque='' @ quoted opaque
     @ '',algorithm='' @ alg @ (if signal_stale then '',stale='' @ quoted ''true'' else [])"

definition MHD_queue_auth_fail_response2 ::
  "bool \<Rightarrow> bool \<times> bool \<times> bool \<Rightarrow> 'a MHD_Daemon \<Rightarrow> byte list \<Rightarrow> MD5Context \<Rightarrow> sha256_ctx \<Rightarrow> MHD_NonceNc list \<Rightarrow> 'a MHD_Connection
     \<Rightarrow> string \<Rightarrow> string \<Rightarrow> MHD_Response option \<Rightarrow> bool \<Rightarrow> MHD_DigestAuthAlgorithm
     \<Rightarrow> (MHD_NonceNc list \<times> bool \<times> MHD_Response option \<times> 'a MHD_Connection) option" where
  "MHD_queue_auth_fail_response2 header_mem entry_mem daemon rnd m s nncs connection realm opaque resp signal_stale algo = do {
     let da = SETUP_DA algo m s;
     VLA_CHECK_LEN_DIGEST (digest_size da);
     mthd \<leftarrow> req_method connection;
     url \<leftarrow> req_url connection;
     (nonce, da) \<leftarrow> calculate_nonce (word_of_nat (monotonic_sec daemon)) mthd rnd url realm da;
     let (registered, nncs) = check_nonce_nc nncs nonce 0;
     if \<not> registered then Some (nncs, False, resp, connection)
     else do {
       let header = digest_challenge realm nonce opaque (da_alg da) signal_stale;
       if fits_int header \<and> \<not> header_mem then Some (nncs, False, resp, connection)
       else map_option (Pair nncs) (queue_unauthorized entry_mem daemon connection header resp)
     }
   }"

definition MHD_queue_auth_fail_response ::
  "bool \<Rightarrow> bool \<times> bool \<times> bool \<Rightarrow> 'a MHD_Daemon \<Rightarrow> byte list \<Rightarrow> MD5Context \<Rightarrow> sha256_ctx \<Rightarrow> MHD_NonceNc list \<Rightarrow> 'a MHD_Connection
     \<Rightarrow> string \<Rightarrow> string \<Rightarrow> MHD_Response option \<Rightarrow> bool \<Rightarrow> (MHD_NonceNc list \<times> bool \<times> MHD_Response option \<times> 'a MHD_Connection) option" where
  "MHD_queue_auth_fail_response header_mem entry_mem daemon rnd m s nncs connection realm opaque resp signal_stale =
     MHD_queue_auth_fail_response2 header_mem entry_mem daemon rnd m s nncs connection realm opaque resp signal_stale MHD_DIGEST_ALG_MD5"

declare lookup_sub_loop.simps [simp del]

section \<open>The header of the client\<close>

text \<open>The values of an Authorization header, quoted or not.\<close>

type_synonym auth_item = "string \<times> bool \<times> string"

definition shown :: "bool \<Rightarrow> string \<Rightarrow> string" where
  "shown q v = (if q then quoted v else v)"

fun render_item :: "auth_item \<Rightarrow> string" where
  "render_item (k, q, v) = k @ ''='' @ shown q v"

fun render :: "auth_item list \<Rightarrow> string" where
  "render [] = []"
| "render [x] = render_item x"
| "render (x # y # zs) = render_item x @ '', '' @ render (y # zs)"

fun item_ok :: "auth_item \<Rightarrow> bool" where
  "item_ok (k, q, v) \<longleftrightarrow> k \<noteq> [] \<and> set k \<inter> {NUL, CHR ''='', CHR '' ''} = {} \<and> v \<noteq> []
     \<and> set v \<inter> (if q then {NUL, CHR 0x22} else {NUL, CHR 0x22, CHR '','', CHR '' ''}) = {}"

lemma item_c_string: "item_ok x \<Longrightarrow> c_string (render_item x)"
  by (cases x) (auto simp: c_string_def quoted_def shown_def split: if_splits)

lemma render_c_string: "list_all item_ok xs \<Longrightarrow> c_string (render xs)"
  by (induction xs rule: render.induct) (auto dest!: item_c_string)

lemma render_start:
  assumes "list_all item_ok xs" "xs \<noteq> []"
  shows "dropWhile is_space (render xs) = render xs" "peek (render xs) \<noteq> NUL"
proof -
  obtain k q v ys where xs: "xs = (k, q, v) # ys" using assms(2) by (metis neq_Nil_conv prod_cases3)
  obtain c k' where k: "k = c # k'" "c \<noteq> NUL" "c \<noteq> CHR '' ''" using assms(1) xs by (cases k) auto
  show "dropWhile is_space (render xs) = render xs" "peek (render xs) \<noteq> NUL"
    using xs k by (cases ys; simp add: is_space_def)+
qed

text \<open>One item in front of the rest, which is empty or starts with a comma.\<close>

lemma item_value:
  assumes "item_ok (k, q, v)" "rest = [] \<or> (\<exists>r. rest = '', '' @ r)"
  shows "strchr (render_item (k, q, v) @ rest) CHR ''='' = Some (length k)"
    "dropWhile is_space (drop (length k + 1) (render_item (k, q, v) @ rest)) = shown q v @ rest"
    "\<exists>qn. sub_value (shown q v @ rest) = Some (v, qn) \<and> (qn = Some rest \<or> qn = None \<and> rest = [])"
proof -
  have k: "CHR ''='' \<notin> set k" "c_string k" using assms(1) by (auto simp: c_string_def)
  show "strchr (render_item (k, q, v) @ rest) CHR ''='' = Some (length k)"
    using strchr_append [OF k, of "shown q v @ rest"] by simp
  obtain c v' where v: "v = c # v'" "c \<noteq> NUL" "c \<noteq> CHR 0x22" "\<not> q \<longrightarrow> c \<noteq> CHR '' ''" using assms(1) by (cases v; cases q) auto
  show "dropWhile is_space (drop (length k + 1) (render_item (k, q, v) @ rest)) = shown q v @ rest"
    using v by (simp add: is_space_def quoted_def shown_def)
  show "\<exists>qn. sub_value (shown q v @ rest) = Some (v, qn) \<and> (qn = Some rest \<or> qn = None \<and> rest = [])"
  proof (cases q)
    case True
    then have "CHR 0x22 \<notin> set v" "c_string v" using assms(1) by (auto simp: c_string_def)
    then show ?thesis using True strchr_append [of "CHR 0x22" v rest] by (simp add: sub_value_def quoted_def shown_def)
  next
    case False
    then have v2: "CHR '','' \<notin> set v" "c_string v" using assms(1) by (auto simp: c_string_def)
    from assms(2) show ?thesis
    proof
      assume "rest = []"
      then show ?thesis using False v v2 strchr_None [OF v2(2), of "CHR '',''"] by (simp add: sub_value_def shown_def)
    next
      assume "\<exists>r. rest = '', '' @ r"
      then obtain r where r: "rest = CHR '','' # CHR '' '' # r" by auto
      then have "strchr (v @ rest) CHR '','' = Some (length v)" using strchr_append [OF v2, of "CHR '' '' # r"] by simp
      then show ?thesis using False v by (auto simp: sub_value_def shown_def)
    qed
  qed
qed

lemma key_matches:
  assumes "item_ok (k, q, v)" "c_string key" "c_string (render_item (k, q, v) @ rest)"
  shows "MHD_str_equal_caseless_n (render_item (k, q, v) @ rest) key (length key) \<and> length k = length key
     \<longleftrightarrow> map toasciilower k = map toasciilower key"
proof -
  have len: "length k = length key" if "map toasciilower k = map toasciilower key" using that map_eq_imp_length_eq by blast
  have "take (length key) (render_item (k, q, v) @ rest) = k" if "length k = length key" using that by simp
  then show ?thesis using equal_caseless_n_iff [OF assms(3,2), of "length key"] len by (metis take_all_iff order_refl)
qed

lemma lookup_step:
  assumes "peek ptr \<noteq> NUL" "strchr ptr CHR ''='' = Some i" "sub_value (dropWhile is_space (drop (i + 1) ptr)) = Some (w, Some rest)"
    "strchr rest CHR '','' = Some j"
  shows "lookup_sub_loop sz ptr key =
     (if MHD_str_equal_caseless_n ptr key (length key) \<and> i = length key then Some (take (sz - 1) w)
      else lookup_sub_loop sz (dropWhile is_space (drop (j + 1) rest)) key)"
  using assms by (subst lookup_sub_loop.simps) simp

lemma lookup_rendered:
  assumes "list_all item_ok xs" "distinct (map (map toasciilower \<circ> fst) xs)" "(key, q, v) \<in> set xs"
  shows "lookup_sub_loop sz (render xs) key = Some (take (sz - 1) v)"
  using assms
proof (induction xs rule: render.induct)
  case (2 x)
  then have x: "x = (key, q, v)" and ok: "item_ok (key, q, v)" by auto
  have "MHD_str_equal_caseless_n (render_item (key, q, v)) key (length key)"
    using key_matches [OF ok, of key "[]"] ok item_c_string [OF ok] by (auto simp: c_string_def)
  moreover obtain qn where "sub_value (shown q v) = Some (v, qn)" using item_value(3) [OF ok, of "[]"] by auto
  ultimately show ?case
    using item_value(1,2) [OF ok, of "[]"] render_start(2) [OF 2(1)] x
    by (subst lookup_sub_loop.simps) (simp del: render_item.simps)
next
  case (3 x y zs)
  obtain k p w where x: "x = (k, p, w)" by (cases x)
  let ?rest = "'', '' @ render (y # zs)"
  have ok: "item_ok (k, p, w)" "list_all item_ok (y # zs)" using 3(2) x by auto
  have key: "c_string key" using 3(2,4) by (auto simp: list_all_iff c_string_def)
  have str: "c_string (render_item (k, p, w) @ ?rest)" using item_c_string [OF ok(1)] render_c_string [OF ok(2)] by simp
  have comma: "?rest = [] \<or> (\<exists>r. ?rest = '', '' @ r)" by blast
  note iv = item_value [OF ok(1) comma]
  have pk: "peek (render_item (k, p, w) @ ?rest) \<noteq> NUL" using render_start(2) [OF 3(2)] x by simp
  have "sub_value (dropWhile is_space (drop (length k + 1) (render_item (k, p, w) @ ?rest))) = Some (w, Some ?rest)"
    unfolding iv(2) using iv(3) by auto
  from lookup_step [OF pk iv(1) this, of 0 sz key]
  have "lookup_sub_loop sz (render_item (k, p, w) @ ?rest) key =
     (if map toasciilower k = map toasciilower key then Some (take (sz - 1) w)
      else lookup_sub_loop sz (dropWhile is_space (drop (0 + 1) ?rest)) key)"
    unfolding key_matches [OF ok(1) key str] by simp
  then have loop: "lookup_sub_loop sz (render (x # y # zs)) key =
     (if map toasciilower k = map toasciilower key then Some (take (sz - 1) w) else lookup_sub_loop sz (render (y # zs)) key)"
    using render_start(1) [OF ok(2)] x by (simp add: is_space_def)
  show ?case
  proof (cases "(key, q, v) = x")
    case True
    then show ?thesis using loop x by simp
  next
    case False
    then have m: "(key, q, v) \<in> set (y # zs)" using 3(4) by auto
    then have "map toasciilower key \<in> set (map (map toasciilower \<circ> fst) (y # zs))" by force
    moreover have "map toasciilower k \<notin> set (map (map toasciilower \<circ> fst) (y # zs))" using 3(3) x by simp
    ultimately have "map toasciilower k \<noteq> map toasciilower key" by metis
    then show ?thesis using loop 3(1) [OF ok(2)] 3(3) m by simp
  qed
qed simp

section \<open>The time stamp of a nonce\<close>

lemma hex_nibble_value:
  assumes "(j :: byte) < 16"
  shows "toxdigitvalue (hex_nibble j) = int (unat j)"
proof -
  have "\<forall>n \<in> set [0..<16]. toxdigitvalue (hex_nibble (word_of_nat n)) = int n" by code_simp
  moreover have "unat j \<in> set [0..<16]" using assms unfolding set_upt by (simp add: word_less_nat_alt)
  ultimately have "toxdigitvalue (hex_nibble (word_of_nat (unat j))) = int (unat j)" by (rule bspec)
  then show ?thesis by simp
qed

lemma nibbles:
  fixes b :: byte
  shows "unat (drop_bit 4 b AND 0x0f) = unat b div 16" "unat (b AND 0x0f) = unat b mod 16" "drop_bit 4 b AND 0x0f < 16" "b AND 0x0f < 16"
proof -
  have m: "(0x0f :: byte) = mask 4" by (simp add: mask_eq_exp_minus_1)
  have b: "unat b < 256" using unsigned_less [of b, where ?'a = nat] by simp
  show 1: "unat (b AND 0x0f) = unat b mod 16" unfolding m by (simp add: take_bit_eq_mask [symmetric] unsigned_take_bit_eq take_bit_eq_mod unat_mod)
  show 2: "unat (drop_bit 4 b AND 0x0f) = unat b div 16"
    unfolding m take_bit_eq_mask [symmetric] unsigned_take_bit_eq unsigned_drop_bit_eq
    using b by (simp add: take_bit_eq_mod drop_bit_eq_div)
  show "drop_bit 4 b AND 0x0f < 16" "b AND 0x0f < 16" using 1 2 b by (simp_all add: word_less_nat_alt)
qed

lemma cvthex_digits: "c \<in> set (cvthex bs) \<Longrightarrow> 0 \<le> toxdigitvalue c"
  by (induction bs rule: cvthex.induct) (auto simp: hex_nibble_value nibbles(3,4))

lemma cvthex_value: "acc_value 16 toxdigitvalue a (cvthex bs) = foldl (\<lambda>a b. a * 256 + unat b) a bs"
proof (induction bs arbitrary: a rule: cvthex.induct)
  case (2 b bs)
  have "(a * 16 + unat b div 16) * 16 + unat b mod 16 = a * 256 + unat b" by (simp add: algebra_simps)
  then show ?case using 2 by (simp only: cvthex.simps acc_value_Cons hex_nibble_value nibbles(3,4) nibbles(1,2) [of b] foldl.simps nat_int)
qed simp

lemma timestamp_value: "foldl (\<lambda>a b. a * 256 + unat b) 0 (timestamp_bytes t) = unat t"
proof -
  have t: "unat t < 2 ^ 32" using unsigned_less [of t, where ?'a = nat] by simp
  have byte: "unat (ucast (drop_bit n t AND 0xff) :: byte) = unat t div 2 ^ n mod 256" for n
  proof -
    have "drop_bit n t AND 0xff = take_bit 8 (drop_bit n t)" by (simp add: take_bit_eq_mask mask_eq_exp_minus_1)
    then have "unat (ucast (drop_bit n t AND 0xff) :: byte) = take_bit 8 (take_bit 8 (drop_bit n (unat t)))"
      using t by (simp only: unsigned_ucast_eq unsigned_take_bit_eq unsigned_drop_bit_eq) (simp add: take_bit_nat_eq_self)
    then show ?thesis by (simp add: take_bit_eq_mod drop_bit_eq_div)
  qed
  have parts: "timestamp_bytes t = [ucast (drop_bit 24 t AND 0xff), ucast (drop_bit 16 t AND 0xff), ucast (drop_bit 8 t AND 0xff),
      ucast (drop_bit 0 t AND 0xff)]"
    by (simp add: timestamp_bytes_def drop_bit_and)
  define a where "a = unat t div 256"
  have "unat t div 2 ^ 8 = a" "unat t div 2 ^ 16 = a div 256" "unat t div 2 ^ 24 = a div 256 div 256"
    by (simp_all add: a_def div_mult2_eq [symmetric])
  moreover have "a div 256 div 256 < 256" using t by (simp add: a_def div_mult2_eq [symmetric] less_mult_imp_div_less)
  ultimately show ?thesis unfolding parts foldl.simps byte by (simp add: a_def)
qed

lemma nonce_time: "MHD_strx_to_uint32_n (Some (cvthex (timestamp_bytes t))) 8 True = (8, Some t)"
proof -
  let ?s = "cvthex (timestamp_bytes t)"
  have len: "length ?s = 8" by (simp add: timestamp_bytes_def)
  then have tw: "takeWhile (\<lambda>c. 0 \<le> toxdigitvalue c) (take 8 ?s) = ?s" using cvthex_digits by (auto simp: takeWhile_eq_all_conv)
  have "unat t < 2 ^ 32" using unsigned_less [of t, where ?'a = nat] by simp
  moreover have "?s \<noteq> []" using len by auto
  ultimately show ?thesis using len unfolding strx_ref(2) parse_digits_def tw Let_def cvthex_value timestamp_value by (simp add: store_def)
qed

lemma hex_text: "set (cvthex bs) \<inter> {NUL, CHR 0x22} = {}"
proof -
  have "\<not> 0 \<le> toxdigitvalue NUL" "\<not> 0 \<le> toxdigitvalue CHR 0x22" by code_simp+
  then show ?thesis using cvthex_digits by blast
qed

section \<open>An answer with the password\<close>

text \<open>The header of RFC 2617 for the quality of protection \<open>auth\<close>.\<close>

definition answer :: "string \<Rightarrow> string \<Rightarrow> string \<Rightarrow> string \<Rightarrow> string \<Rightarrow> string \<Rightarrow> string \<Rightarrow> auth_item list" where
  "answer user realm nonce uri nc cnonce resp =
     [(''username'', True, user), (''realm'', True, realm), (''nonce'', True, nonce), (''uri'', True, uri), (''qop'', False, ''auth''),
      (''nc'', False, nc), (''cnonce'', True, cnonce), (''response'', True, resp)]"

definition quotable :: "string \<Rightarrow> bool" where
  "quotable v \<longleftrightarrow> v \<noteq> [] \<and> set v \<inter> {NUL, CHR 0x22} = {}"

lemma answer_keys: "distinct (map (map toasciilower \<circ> fst) (answer user realm nonce uri nc cnonce resp))"
proof -
  have "map (map toasciilower \<circ> fst) (answer user realm nonce uri nc cnonce resp) =
      map (map toasciilower) [''username'', ''realm'', ''nonce'', ''uri'', ''qop'', ''nc'', ''cnonce'', ''response'']"
    by (simp add: answer_def)
  moreover have "distinct (map (map toasciilower) [''username'', ''realm'', ''nonce'', ''uri'', ''qop'', ''nc'', ''cnonce'', ''response''])"
    by code_simp
  ultimately show ?thesis by simp
qed

lemma answer_lookup:
  assumes "list_all item_ok (answer user realm nonce uri nc cnonce resp)" "(key, q, v) \<in> set (answer user realm nonce uri nc cnonce resp)"
    "length v < sz"
  shows "sub_value_of sz (render (answer user realm nonce uri nc cnonce resp)) key = Some v"
proof -
  have "v \<noteq> []" using assms(1,2) by (auto simp: list_all_iff)
  then show ?thesis
    using lookup_rendered [OF assms(1) answer_keys assms(2), of sz] assms(3) by (simp add: sub_value_of_def lookup_sub_value_def)
qed

lemma feed_test:
  assumes "headers_received c = headers_received d"
  shows "map_prod id snd (feed (\<lambda>c k v kind. (test_header c k v kind, c)) kind kvs c n) =
     map_prod id snd (feed (\<lambda>c k v kind. (test_header c k v kind, c)) kind kvs d n)"
  using assms by (induction kvs arbitrary: n) (auto simp: test_header_def split: bool.splits)

lemma argument_match_nnc:
  assumes "c_string args"
  shows "check_argument_match am unesc (c\<lparr>nnc := x\<rparr>) args = check_argument_match am unesc c args"
proof -
  let ?f = "\<lambda>c. MHD_parse_arguments unesc c MHD_GET_ARGUMENT_KIND (Some args) (\<lambda>c key val kind. (test_header c key val kind, c))"
  have "map_prod id snd (?f (c\<lparr>nnc := x\<rparr>)) = map_prod id snd (?f c)"
    by (simp only: MHD_parse_arguments_def option.case parse_arguments_loop_correct [OF assms]) (rule feed_test, simp)
  then show ?thesis unfolding check_argument_match_def by (cases "?f (c\<lparr>nnc := x\<rparr>)"; cases "?f c") simp
qed

definition args_of :: "string \<Rightarrow> string" where
  "args_of uri = (case strchr uri CHR ''?'' of None \<Rightarrow> [] | Some q \<Rightarrow> drop (q + 1) uri)"

lemma check_response_complete:
  assumes "da_sound h da" "sub_value_of (unat (left + 1)) header ''uri'' = Some uri" "unesc (path_of uri) = curl c"
    "check_argument_match am unesc c (args_of uri)"
  shows "check_response True am unesc c da realm user password None header left nonce cnonce ''auth'' nc
     (rfc_response h user realm password nonce nc cnonce (cmethod c) uri) = Some Auth_yes"
proof -
  obtain da1 da2 where d: "digest_calc_ha1_from_user (da_alg da) user realm password nonce cnonce da = Some da1"
    "digest_calc_response (sessionkey da1) nonce nc cnonce ''auth'' (cmethod c) uri da1 = Some da2"
    "sessionkey da2 = rfc_response h user realm password nonce nc cnonce (cmethod c) uri"
    by (rule sound_response [OF assms(1)])
  show ?thesis
    using assms(2-4) d unfolding check_response_def path_of_def args_of_def
    by (cases "strchr uri CHR ''?''") simp_all
qed

lemma check_counter_complete:
  assumes "da_sound h da" "sub_value_of MAX_NONCE_LENGTH header ''cnonce'' = Some cnonce" "sub_value_of 15 header ''qop'' = Some ''auth''"
    "sub_value_of 20 header ''nc'' = Some nc" "MHD_strx_to_uint64_n (Some nc) (length nc) True = (length nc, Some n)"
    "sub_value_of MAX_AUTH_RESPONSE_LENGTH header ''response'' = Some (rfc_response h user realm password nonce nc cnonce (cmethod c) uri)"
    "sub_value_of (unat (left + 1)) header ''uri'' = Some uri" "unesc (path_of uri) = curl c" "c_string uri"
    "check_argument_match am unesc c (args_of uri)" "check_nonce_nc (nnc c) nonce n = (True, nncs)"
  shows "check_counter True am unesc c da realm user password None header left nonce = Some (Auth_yes, c\<lparr>nnc := nncs\<rparr>)"
proof -
  have "c_string (args_of uri)" using assms(9) by (auto simp: args_of_def c_string_def dest: in_set_dropD split: option.splits)
  then have "check_argument_match am unesc (c\<lparr>nnc := nncs\<rparr>) (args_of uri)" using argument_match_nnc assms(10) by blast
  then have "check_response True am unesc (c\<lparr>nnc := nncs\<rparr>) da realm user password None header left nonce cnonce ''auth'' nc
     (rfc_response h user realm password nonce nc cnonce (cmethod c) uri) = Some Auth_yes"
    using check_response_complete [OF assms(1,7), of unesc "c\<lparr>nnc := nncs\<rparr>" am] assms(8) by simp
  then show ?thesis using assms(2-6,11) by (simp add: check_counter_def)
qed

lemma server_nonce_parts:
  assumes "da_sound h da"
  shows "length (server_nonce h t mthd rnd uri realm) \<le> 72" "TIMESTAMP_BIN_SIZE * 2 \<le> length (server_nonce h t mthd rnd uri realm)"
    "drop (length (server_nonce h t mthd rnd uri realm) - TIMESTAMP_BIN_SIZE * 2) (server_nonce h t mthd rnd uri realm) = cvthex (timestamp_bytes t)"
proof -
  have "length (h x) \<le> 32" for x using assms md5_alg.hash_length sha256_alg.hash_length by (auto simp: da_sound_def)
  moreover have "length (cvthex (timestamp_bytes t)) = 8" by (simp add: timestamp_bytes_def)
  ultimately show "length (server_nonce h t mthd rnd uri realm) \<le> 72" "TIMESTAMP_BIN_SIZE * 2 \<le> length (server_nonce h t mthd rnd uri realm)"
    "drop (length (server_nonce h t mthd rnd uri realm) - TIMESTAMP_BIN_SIZE * 2) (server_nonce h t mthd rnd uri realm) = cvthex (timestamp_bytes t)"
    by (simp_all add: server_nonce_def md5_alg.length_cvthex TIMESTAMP_BIN_SIZE_def)
qed

lemma check_nonce_complete:
  assumes "da_sound h da" "left \<le> 32 * 1024" "now \<le> t + timeout" "t \<le> t + timeout"
    "nonce = server_nonce h t (cmethod c) (digest_auth_random c) (curl c) realm"
  obtains da' where "da_sound h da'" "check_nonce um am unesc now c da realm user password d timeout header left nonce =
     check_counter um am unesc c da' realm user password d header left nonce"
proof -
  obtain da' where d: "calculate_nonce t (cmethod c) (digest_auth_random c) (curl c) realm da = Some (nonce, da')" "da_sound h da'"
    using sound_calculate_nonce [OF assms(1)] assms(5) by metis
  have "MHD_strx_to_uint32_n (Some (drop (length nonce - TIMESTAMP_BIN_SIZE * 2) nonce)) (TIMESTAMP_BIN_SIZE * 2) True = (8, Some t)"
    using server_nonce_parts(3) [OF assms(1)] assms(5) nonce_time by (simp add: TIMESTAMP_BIN_SIZE_def)
  moreover have "\<not> left > 32 * 1024" "\<not> length nonce < TIMESTAMP_BIN_SIZE * 2" "\<not> (now > t + timeout \<or> t + timeout < t)"
    using assms(2-4) server_nonce_parts(2) [OF assms(1)] assms(5) by (auto simp: not_less)
  ultimately have "check_nonce um am unesc now c da realm user password d timeout header left nonce =
     check_counter um am unesc c da' realm user password d header left nonce"
    using d(1) by (simp add: check_nonce_def TIMESTAMP_BIN_SIZE_def)
  then show thesis using that d(2) by blast
qed

lemma fresh_nonce:
  assumes "check_nonce_nc nncs nonce 0 = (True, nncs')" "length nncs < 2 ^ 32" "n \<noteq> 0"
  shows "\<exists>x. check_nonce_nc nncs' nonce n = (True, x)"
proof -
  have ne: "nncs \<noteq> []" "\<not> MAX_NONCE_LENGTH < length nonce + 1" using assms(1) by (auto simp: check_nonce_nc_def split: if_splits)
  let ?i = "slot_of nncs nonce"
  have i: "?i < length nncs" by (rule slot_of_less [OF ne(1) assms(2)])
  have n': "nncs' = nncs[?i := \<lparr>nn_nc = 0, nn_nmask = 0, nn_nonce = nonce\<rparr>]"
    using assms(1) ne by (simp add: check_nonce_nc_def check_slot_def slot_of_def Let_def)
  have "check_slot (nncs' ! ?i) nonce n = (True, \<lparr>nn_nc = n, nn_nmask = (if n < 64 then 0 else 0), nn_nonce = nonce\<rparr>)"
    using n' i assms(3) by (simp add: check_slot_def word_gt_0 not_less)
  then show ?thesis using n' ne by (simp add: check_nonce_nc_def slot_of_def Let_def)
qed

text \<open>What is left of the header after user, realm and nonce has room for the URI.\<close>

lemma answer_left:
  assumes "length (render (answer user realm nonce uri nc cnonce resp)) \<le> 32 * 1024"
  defines "left \<equiv> word_of_nat (length (render (answer user realm nonce uri nc cnonce resp))) - used_bytes ''username'' user
     - used_bytes ''realm'' realm - used_bytes ''nonce'' nonce"
  shows "left \<le> 32 * 1024" "length uri < unat (left + 1)"
proof -
  let ?n = "length uri + length nc + length cnonce + length resp + 60"
  have len: "length (render (answer user realm nonce uri nc cnonce resp)) = (8 + length user) + (5 + length realm) + (5 + length nonce) + ?n"
    by (simp add: answer_def shown_def quoted_def)
  have left: "left = word_of_nat ?n" unfolding left_def len used_bytes_def by simp
  have small: "?n \<le> 32 * 1024" using assms(1) len by simp
  have "unat left = ?n" unfolding left using small by (simp only: unat_of_nat) simp
  then show "left \<le> 32 * 1024" using small by (simp add: word_le_nat_alt)
  have "left + 1 = word_of_nat (?n + 1)" unfolding left by simp
  then have "unat (left + 1) = ?n + 1" using small by (simp only: unat_of_nat) simp
  then show "length uri < unat (left + 1)" by simp
qed

text \<open>What a challenge that was queued leaves behind.\<close>

lemma challenge_sent:
  assumes "length (buffer m) = 64" "length (block s) = 64"
    "MHD_queue_auth_fail_response2 hm em daemon rnd m s nncs conn realm opaque resp stale algo = Some (nncs', True, resp', conn')"
    "req_method conn = Some mthd" "req_url conn = Some url"
    "nonce = server_nonce (hash_of algo) (word_of_nat (monotonic_sec daemon)) mthd rnd url realm"
  shows "check_nonce_nc nncs nonce 0 = (True, nncs')"
    "\<exists>r. resp' = Some r \<and> MHD_get_response_header r (Some MHD_HTTP_HEADER_WWW_AUTHENTICATE) =
       Some (c_str (digest_challenge realm nonce opaque (da_alg (SETUP_DA algo m s)) stale))"
proof -
  note da = setup_da_sound [OF assms(1,2), of algo]
  obtain da1 where d: "calculate_nonce (word_of_nat (monotonic_sec daemon)) mthd rnd url realm (SETUP_DA algo m s) = Some (nonce, da1)"
    "da_sound (hash_of algo) da1"
    using sound_calculate_nonce [OF da] assms(6) by metis
  have alg: "da_alg da1 = da_alg (SETUP_DA algo m s)" using d(1) by (auto simp: calculate_nonce_def hash_parts_def Option.bind_eq_Some_conv split: option.splits)
  show 1: "check_nonce_nc nncs nonce 0 = (True, nncs')"
    using assms(3-5) d(1) sound_small [OF da] unfolding MHD_queue_auth_fail_response2_def
    by (auto simp: Let_def split: prod.splits if_splits)
  then have "queue_unauthorized em daemon conn (digest_challenge realm nonce opaque (da_alg (SETUP_DA algo m s)) stale) resp = Some (True, resp', conn')"
    using assms(3-5) d(1) alg sound_small [OF da] unfolding MHD_queue_auth_fail_response2_def
    by (auto simp: Let_def split: if_splits)
  then obtain r where "resp = Some r" "resp' = Some (r\<lparr>first_header := \<lparr>hname = Some (c_str MHD_HTTP_HEADER_WWW_AUTHENTICATE),
      hvalue = Some (c_str (digest_challenge realm nonce opaque (da_alg (SETUP_DA algo m s)) stale)), hkind = MHD_HEADER_KIND\<rparr> # first_header r\<rparr>)"
    by (auto simp: queue_unauthorized_def MHD_add_response_header_def add_response_entry_def Option.bind_eq_Some_conv
        split: if_splits prod.splits option.splits)
  moreover have "MHD_str_equal_caseless (c_str MHD_HTTP_HEADER_WWW_AUTHENTICATE) MHD_HTTP_HEADER_WWW_AUTHENTICATE" by code_simp
  ultimately show "\<exists>r. resp' = Some r \<and> MHD_get_response_header r (Some MHD_HTTP_HEADER_WWW_AUTHENTICATE) =
       Some (c_str (digest_challenge realm nonce opaque (da_alg (SETUP_DA algo m s)) stale))"
    by (simp add: MHD_get_response_header_def)
qed

lemma rfc_response_text:
  assumes "da_sound h da"
  shows "quotable (rfc_response h user realm password nonce nc cnonce mthd uri)"
    "length (rfc_response h user realm password nonce nc cnonce mthd uri) < MAX_AUTH_RESPONSE_LENGTH"
proof -
  have l: "length (h x) \<in> {16, 32}" for x using assms md5_alg.hash_length sha256_alg.hash_length by (auto simp: da_sound_def)
  have "cvthex (h x) \<noteq> [] \<and> length (cvthex (h x)) < MAX_AUTH_RESPONSE_LENGTH" for x
    using md5_alg.length_cvthex [of "h x"] l [of x] by (cases "cvthex (h x)") (auto simp: MAX_AUTH_RESPONSE_LENGTH_def)
  then show "quotable (rfc_response h user realm password nonce nc cnonce mthd uri)"
    "length (rfc_response h user realm password nonce nc cnonce mthd uri) < MAX_AUTH_RESPONSE_LENGTH"
    unfolding rfc_response_def quotable_def using hex_text by auto
qed

lemma server_nonce_text:
  assumes "da_sound h da"
  shows "quotable (server_nonce h t mthd rnd uri realm)" "length (server_nonce h t mthd rnd uri realm) < MAX_NONCE_LENGTH"
proof -
  show "quotable (server_nonce h t mthd rnd uri realm)"
    using hex_text server_nonce_parts(2) [OF assms, of t mthd rnd uri realm]
    by (auto simp: quotable_def server_nonce_def TIMESTAMP_BIN_SIZE_def)
  show "length (server_nonce h t mthd rnd uri realm) < MAX_NONCE_LENGTH"
    using server_nonce_parts(1) [OF assms, of t mthd rnd uri realm] by (simp add: MAX_NONCE_LENGTH_def)
qed

lemma answer_items:
  assumes "quotable user" "quotable realm" "quotable nonce" "quotable uri" "item_ok (''nc'', False, nc)" "quotable cnonce" "quotable resp"
  shows "list_all item_ok (answer user realm nonce uri nc cnonce resp)"
  using assms by (auto simp: answer_def quotable_def)

section \<open>A challenge and its answer\<close>

definition challenged :: "unit MHD_Connection" where
  "challenged = new_connection\<lparr>req_method := Some ''GET'', req_url := Some ''/'', cstate := MHD_CONNECTION_HEADERS_PROCESSED\<rparr>"

definition answering :: auth_conn where
  "answering = (sample_request 0)\<lparr>headers_received := [\<lparr>hname = Some ''Authorization'', hvalue = Some (DIGEST_BASE
     @ render (answer ''u'' ''r'' sample_nonce ''/'' ''1'' ''c'' ''7d3fcafc94f10e0e0ed91e870e884888'')), hkind = MHD_HEADER_KIND\<rparr>]\<rparr>"

lemma sample_challenge:
  "\<exists>resp' conn'. MHD_queue_auth_fail_response2 True (True, True, True) quiet_daemon [] empty_md5 empty_sha256
     [\<lparr>nn_nc = 0, nn_nmask = 0, nn_nonce = []\<rparr>] challenged ''r'' ''o'' (Some zero_response) False MHD_DIGEST_ALG_MD5 =
     Some (nnc (sample_request 0), True, resp', conn')"
proof -
  have da: "da_sound md5_hash (SETUP_DA MHD_DIGEST_ALG_MD5 empty_md5 empty_sha256)"
    using setup_da_sound [of empty_md5 empty_sha256 MHD_DIGEST_ALG_MD5] by (simp add: hash_of_def empty_md5_def empty_sha256_def)
  obtain da1 where n: "calculate_nonce 0 ''GET'' [] ''/'' ''r'' (SETUP_DA MHD_DIGEST_ALG_MD5 empty_md5 empty_sha256) = Some (sample_nonce, da1)"
    "da_sound md5_hash da1"
    using sound_calculate_nonce [OF da, of 0 "''GET''" "[]" "''/''" "''r''"] unfolding sample_server_nonce by metis
  have c: "req_method challenged = Some ''GET''" "req_url challenged = Some ''/''" "word_of_nat (monotonic_sec quiet_daemon) = (0 :: u32)"
    by (simp_all add: challenged_def quiet_daemon_def)
  have reg: "check_nonce_nc [\<lparr>nn_nc = 0, nn_nmask = 0, nn_nonce = []\<rparr>] sample_nonce 0 = (True, nnc (sample_request 0))" by code_simp
  have alg: "da_alg da1 \<in> {''md5'', ''sha-256''}" using n(2) by (auto simp: da_sound_def)
  let ?ch = "digest_challenge ''r'' sample_nonce ''o'' (da_alg da1) False"
  have fits: "fits_int ?ch" using alg by (auto simp: fits_int_def digest_challenge_def quoted_def sample_nonce_def)
  have "add_response_entry (True, True, True) (Some zero_response) MHD_HEADER_KIND (Some MHD_HTTP_HEADER_WWW_AUTHENTICATE) (Some s) =
      (True, Some (zero_response\<lparr>first_header := [\<lparr>hname = Some (c_str MHD_HTTP_HEADER_WWW_AUTHENTICATE), hvalue = Some (c_str s), hkind = MHD_HEADER_KIND\<rparr>]\<rparr>))"
    if "s = digest_challenge ''r'' sample_nonce ''o'' a False" "a \<in> {''md5'', ''sha-256''}" for s a
    using that by (auto simp: add_response_entry_def zero_response_def digest_challenge_def quoted_def sample_nonce_def MHD_HTTP_HEADER_WWW_AUTHENTICATE_def)
  note entry = this [OF refl alg]
  have names: "\<not> MHD_str_equal_caseless MHD_HTTP_HEADER_WWW_AUTHENTICATE MHD_HTTP_HEADER_TRANSFER_ENCODING"
    "\<not> MHD_str_equal_caseless MHD_HTTP_HEADER_WWW_AUTHENTICATE MHD_HTTP_HEADER_CONTENT_LENGTH" by code_simp+
  have queue: "fst (MHD_queue_response quiet_daemon challenged MHD_HTTP_UNAUTHORIZED (Some (zero_response\<lparr>first_header := l\<rparr>)))" for l
    by (simp add: MHD_queue_response_def challenged_def new_connection_def quiet_daemon_def zero_response_def Let_def)
  have "\<exists>resp' conn'. queue_unauthorized (True, True, True) quiet_daemon challenged ?ch (Some zero_response) = Some (True, resp', conn')"
    using fits entry names queue by (auto simp: queue_unauthorized_def MHD_add_response_header_def split: prod.splits) (metis fst_conv)
  then show ?thesis
    using n(1) c reg fits sound_small [OF da] unfolding MHD_queue_auth_fail_response2_def by auto
qed

section \<open>Properties\<close>

text \<open>
  C11. A client that knows the password is accepted: when the daemon has sent a challenge, a request with an Authorization header for its
  nonce, with a new counter and the response of RFC 2617, is authenticated until the nonce times out. The challenge carries that nonce.
\<close>

theorem digest_challenge_answered:
  assumes ctx: "length (buffer m) = 64" "length (block s) = 64" "length (buffer m') = 64" "length (block s') = 64"
    and sent: "MHD_queue_auth_fail_response2 hm em daemon rnd m s nncs conn realm opaque resp stale algo = Some (nncs', True, resp', conn')"
    and nncs: "length nncs < 2 ^ 32" "nnc c = nncs'"
    and request: "req_method conn = Some (cmethod c)" "req_url conn = Some (curl c)" "digest_auth_random c = rnd"
    and nonce: "nonce = server_nonce (hash_of algo) (word_of_nat (monotonic_sec daemon)) (cmethod c) rnd (curl c) realm"
    and hdr: "MHD_lookup_connection_value (Some c) MHD_HEADER_KIND (Some MHD_HTTP_HEADER_AUTHORIZATION) =
      Some (DIGEST_BASE @ render (answer user realm nonce uri nc cnonce
        (rfc_response (hash_of algo) user realm password nonce nc cnonce (cmethod c) uri)))"
    and texts: "quotable user" "quotable realm" "quotable uri" "quotable cnonce" "item_ok (''nc'', False, nc)"
    and size: "length user < MAX_USERNAME_LENGTH" "length realm < MAX_REALM_LENGTH" "length cnonce < MAX_NONCE_LENGTH" "length nc < 20"
      "length (render (answer user realm nonce uri nc cnonce
         (rfc_response (hash_of algo) user realm password nonce nc cnonce (cmethod c) uri))) \<le> 32 * 1024"
    and counter: "MHD_strx_to_uint64_n (Some nc) (length nc) True = (length nc, Some n)" "n \<noteq> 0"
    and uri: "unesc (path_of uri) = curl c" "check_argument_match am unesc c (args_of uri)"
    and fresh: "now \<le> word_of_nat (monotonic_sec daemon) + timeout" "word_of_nat (monotonic_sec daemon) \<le> word_of_nat (monotonic_sec daemon) + timeout"
  shows "(\<exists>c'. MHD_digest_auth_check2 True am unesc now m' s' c realm user password timeout algo = Some (Auth_yes, c'))
     \<and> (\<exists>r. resp' = Some r \<and> MHD_get_response_header r (Some MHD_HTTP_HEADER_WWW_AUTHENTICATE) =
          Some (c_str (digest_challenge realm nonce opaque (da_alg (SETUP_DA algo m s)) stale)))"
proof -
  let ?h = "hash_of algo" and ?t = "word_of_nat (monotonic_sec daemon) :: u32"
  let ?resp = "rfc_response ?h user realm password nonce nc cnonce (cmethod c) uri"
  let ?a = "answer user realm nonce uri nc cnonce ?resp"
  note da = setup_da_sound [OF ctx(3,4), of algo]
  have nn: "check_nonce_nc nncs nonce 0 = (True, nncs')"
    and ch: "\<exists>r. resp' = Some r \<and> MHD_get_response_header r (Some MHD_HTTP_HEADER_WWW_AUTHENTICATE) =
       Some (c_str (digest_challenge realm nonce opaque (da_alg (SETUP_DA algo m s)) stale))"
    using challenge_sent [OF ctx(1,2) sent request(1,2) nonce] by simp_all
  obtain x where x: "check_nonce_nc (nnc c) nonce n = (True, x)" using fresh_nonce [OF nn nncs(1) counter(2)] nncs(2) by auto
  have nt: "quotable nonce" "length nonce < MAX_NONCE_LENGTH" using server_nonce_text [OF da] nonce by simp_all
  have "list_all item_ok ?a" using answer_items texts nt(1) rfc_response_text(1) [OF da] by blast
  note lk = answer_lookup [OF this]
  have vals: "sub_value_of MAX_USERNAME_LENGTH (render ?a) ''username'' = Some user" "sub_value_of MAX_REALM_LENGTH (render ?a) ''realm'' = Some realm"
    "sub_value_of MAX_NONCE_LENGTH (render ?a) ''nonce'' = Some nonce" "sub_value_of MAX_NONCE_LENGTH (render ?a) ''cnonce'' = Some cnonce"
    "sub_value_of MAX_AUTH_RESPONSE_LENGTH (render ?a) ''response'' = Some ?resp"
    by (rule lk [where q = True]; simp add: answer_def size nt(2) rfc_response_text(2) [OF da])+
  have plain: "sub_value_of 15 (render ?a) ''qop'' = Some ''auth''" "sub_value_of 20 (render ?a) ''nc'' = Some nc"
    by (rule lk [where q = False]; simp add: answer_def size)+
  define left where "left = word_of_nat (length (render ?a)) - used_bytes ''username'' user - used_bytes ''realm'' realm - used_bytes ''nonce'' nonce"
  have l: "left \<le> 32 * 1024" "length uri < unat (left + 1)" using answer_left [OF size(5)] unfolding left_def by simp_all
  have "sub_value_of (unat (left + 1)) (render ?a) ''uri'' = Some uri" by (rule lk) (simp_all add: answer_def l(2))
  note vals = vals this
  have nonce_c: "nonce = server_nonce ?h ?t (cmethod c) (digest_auth_random c) (curl c) realm" using nonce request(3) by simp
  obtain da1 where d: "da_sound ?h da1" "check_nonce True am unesc now c (SETUP_DA algo m' s') realm user password None timeout (render ?a) left nonce =
     check_counter True am unesc c da1 realm user password None (render ?a) left nonce"
    by (rule check_nonce_complete [OF da l(1) fresh nonce_c])
  have "c_string uri" using texts(3) by (auto simp: quotable_def c_string_def)
  then have "check_counter True am unesc c da1 realm user password None (render ?a) left nonce = Some (Auth_yes, c\<lparr>nnc := x\<rparr>)"
    by (rule check_counter_complete [OF d(1) vals(4) plain counter(1) vals(5,6) uri(1) _ uri(2) x])
  moreover have "strncmp_eq (DIGEST_BASE @ render ?a) DIGEST_BASE (length DIGEST_BASE)" by (rule strncmp_prefix) (simp add: DIGEST_BASE_def)
  ultimately have "MHD_digest_auth_check2 True am unesc now m' s' c realm user password timeout algo = Some (Auth_yes, c\<lparr>nnc := x\<rparr>)"
    using d(2) vals(1-3) hdr sound_small [OF da]
    by (simp add: MHD_digest_auth_check2_def digest_auth_check_all_def left_def [symmetric])
  then show ?thesis using ch by blast
qed

theorem digest_challenge_answered_witness:
  "\<exists>c'. MHD_digest_auth_check2 True True (\<lambda>s. s) 1 empty_md5 empty_sha256 answering ''r'' ''u'' ''p'' 300 MHD_DIGEST_ALG_MD5 = Some (Auth_yes, c')"
proof -
  have ctx: "length (buffer empty_md5) = 64" "length (block empty_sha256) = 64" by (simp_all add: empty_md5_def empty_sha256_def)
  have h: "hash_of MHD_DIGEST_ALG_MD5 = md5_hash" by (simp add: hash_of_def)
  obtain resp' conn' where sent: "MHD_queue_auth_fail_response2 True (True, True, True) quiet_daemon [] empty_md5 empty_sha256
     [\<lparr>nn_nc = 0, nn_nmask = 0, nn_nonce = []\<rparr>] challenged ''r'' ''o'' (Some zero_response) False MHD_DIGEST_ALG_MD5 =
     Some (nnc (sample_request 0), True, resp', conn')"
    using sample_challenge by blast
  have req: "nnc answering = nnc (sample_request 0)" "cmethod answering = ''GET''" "curl answering = ''/''" "digest_auth_random answering = []"
    "req_method challenged = Some ''GET''" "req_url challenged = Some ''/''" "monotonic_sec quiet_daemon = 0"
    by (simp_all add: answering_def sample_request_def challenged_def quiet_daemon_def)
  have hdr: "MHD_lookup_connection_value (Some answering) MHD_HEADER_KIND (Some MHD_HTTP_HEADER_AUTHORIZATION) =
    Some (DIGEST_BASE @ render (answer ''u'' ''r'' sample_nonce ''/'' ''1'' ''c'' ''7d3fcafc94f10e0e0ed91e870e884888''))"
    by code_simp
  have vals: "MHD_strx_to_uint64_n (Some ''1'') (length ''1'') True = (length ''1'', Some 1)" "path_of ''/'' = ''/''" "args_of ''/'' = []"
    "check_argument_match True (\<lambda>s. s) answering (args_of ''/'')"
    "length (render (answer ''u'' ''r'' sample_nonce ''/'' ''1'' ''c'' ''7d3fcafc94f10e0e0ed91e870e884888'')) \<le> 32 * 1024"
    by code_simp+
  from digest_challenge_answered [OF ctx ctx sent, where c = answering and nonce = sample_nonce and user = "''u''" and uri = "''/''" and nc = "''1''"
      and cnonce = "''c''" and password = "''p''" and n = 1 and unesc = "\<lambda>s. s" and am = True and now = 1 and timeout = 300, unfolded h req(2-4) sample_response]
  show ?thesis
    using req hdr vals sample_server_nonce
    by (simp add: quotable_def MAX_USERNAME_LENGTH_def MAX_REALM_LENGTH_def MAX_NONCE_LENGTH_def)
qed

end
