(* ===== verification/Request_Body.thy ===== *)
theory Request_Body
  imports Connection
begin

text \<open>
  The body of a request (\<^verbatim>\<open>process_request_body\<close> of \<^verbatim>\<open>connection.c\<close>): the data of the chunked transfer coding, or as many bytes as
  the content length says, are offered to the handler of the application.

  The bytes behind \<^verbatim>\<open>buffer_head\<close> that are available are a list. The code also looks at the byte behind them for a semicolon,
  but then does nothing that depends on it.
\<close>

section \<open>The parser\<close>

text \<open>One round of the loop: leave the function, leave the loop or try again, with what is left in the buffer.\<close>

datatype 'c body_step = Body_return 'c | Body_break 'c string | Body_retry 'c string

abbreviation is_eol :: "char \<Rightarrow> bool" where
  "is_eol c \<equiv> c = CR \<or> c = LF"

text \<open>The line end behind the data of a chunk: the number of bytes to skip.\<close>

definition skip_eol :: "string \<Rightarrow> nat" where
  "skip_eol data =
     (let i = (if is_eol (data ! 0) then 1 else 0) in if is_eol (data ! i) then i + 1 else i)"

text \<open>The end of the digits of a chunk size: at most 16 characters up to a line end or a semicolon.\<close>

definition size_end :: "string \<Rightarrow> nat" where
  "size_end data = length (takeWhile (\<lambda>c. \<not> (is_eol c \<or> c = CHR '';'')) (take 16 data))"

text \<open>A chunk extension is skipped up to the line end.\<close>

definition extension_end :: "string \<Rightarrow> nat" where
  "extension_end data =
     (let i = size_end data in
      if i < length data \<and> data ! i = CHR '';'' then i + length (takeWhile (\<lambda>c. \<not> is_eol c) (drop i data)) else i)"

definition chunk_header :: "'a MHD_Daemon \<Rightarrow> 'a MHD_Connection \<Rightarrow> string \<Rightarrow> 'a MHD_Connection body_step" where
  "chunk_header daemon connection data =
     (let end_size = size_end data; i = extension_end data in
      if i + 1 \<ge> length data \<and> \<not> (i = 1 \<and> length data = 2 \<and> data ! 0 = CHR ''0'') then Body_break connection data
      else
        let i = i + 1;
            (num_dig, val) = (if end_size \<ge> 16 then (0, None) else MHD_strx_to_uint64_n (Some data) end_size True);
            c = (case val of None \<Rightarrow> connection | Some n \<Rightarrow> connection\<lparr>current_chunk_size := n\<rparr>) in
        if end_size \<ge> 16 \<or> end_size \<noteq> num_dig then Body_return (CONNECTION_CLOSE_ERROR daemon c)
        else
          let i = (if i < length data \<and> is_eol (data ! i) then i + 1 else i);
              data = drop i data;
              c = c\<lparr>current_chunk_offset := 0\<rparr> in
          if current_chunk_size c = 0 then Body_break (c\<lparr>remaining_upload_size := 0\<rparr>) data
          else if data \<noteq> [] then Body_retry c data
          else Body_break c data)"

text \<open>Offering \<open>n\<close> bytes to the application.\<close>

definition offer_data ::
  "'a MHD_Daemon \<Rightarrow> 'a MHD_Connection \<Rightarrow> string \<Rightarrow> nat \<Rightarrow> bool \<Rightarrow> 'a MHD_Connection body_step option" where
  "offer_data daemon connection data to_be_processed instant_retry =
     (case call_application daemon connection (Some (take to_be_processed data)) to_be_processed of
        (ok, left_unprocessed, c) \<Rightarrow>
          if \<not> ok then Some (Body_return (CONNECTION_CLOSE_ERROR daemon c))
          else if left_unprocessed > to_be_processed then None
          else
            let processed_size = to_be_processed - left_unprocessed;
                c = (if have_chunked_upload c
                     then c\<lparr>current_chunk_offset := current_chunk_offset c + word_of_nat processed_size\<rparr> else c);
                c = (if remaining_upload_size c \<noteq> MHD_SIZE_UNKNOWN
                     then c\<lparr>remaining_upload_size := remaining_upload_size c - word_of_nat processed_size\<rparr> else c);
                data = drop processed_size data in
            if instant_retry \<and> left_unprocessed = 0 then Some (Body_retry c data) else Some (Body_break c data))"

definition skip_chunk_end ::
  "'a MHD_Daemon \<Rightarrow> 'a MHD_Connection \<Rightarrow> string \<Rightarrow> ('a MHD_Connection \<times> string) option" where
  "skip_chunk_end daemon connection data =
     (if current_chunk_offset connection = current_chunk_size connection \<and> current_chunk_offset connection \<noteq> 0 \<and> length data \<ge> 2
      then if skip_eol data = 0 then None
           else Some (connection\<lparr>current_chunk_offset := 0, current_chunk_size := 0\<rparr>, drop (skip_eol data) data)
      else Some (connection, data))"

definition body_step :: "'a MHD_Daemon \<Rightarrow> 'a MHD_Connection \<Rightarrow> string \<Rightarrow> 'a MHD_Connection body_step option" where
  "body_step daemon connection data =
     (if have_chunked_upload connection \<and> remaining_upload_size connection = MHD_SIZE_UNKNOWN
      then (case skip_chunk_end daemon connection data of
              None \<Rightarrow> Some (Body_return (CONNECTION_CLOSE_ERROR daemon connection))
            | Some (c, data) \<Rightarrow>
                if current_chunk_offset c < current_chunk_size c
                then let cur_chunk_left = unat (current_chunk_size c - current_chunk_offset c) in
                     if cur_chunk_left > length data then offer_data daemon c data (length data) False
                     else offer_data daemon c data cur_chunk_left (length data > cur_chunk_left)
                else Some (chunk_header daemon c data))
      else
        let rem = remaining_upload_size connection in
        if rem \<noteq> 0 \<and> rem \<noteq> MHD_SIZE_UNKNOWN \<and> unat rem < length data
        then offer_data daemon connection data (unat rem) False
        else offer_data daemon connection data (length data) False)"

lemma offer_data_shorter:
  "offer_data daemon c data n retry = Some (Body_retry c' data') \<Longrightarrow> 0 < n \<Longrightarrow> n \<le> length data \<Longrightarrow> length data' < length data"
  by (auto simp: offer_data_def Let_def split: prod.splits if_splits)

lemma chunk_header_shorter:
  "chunk_header daemon c data = Body_retry c' data' \<Longrightarrow> length data' < length data"
  by (auto simp: chunk_header_def Let_def split: prod.splits if_splits option.splits)

lemma offer_data_no_retry [simp]:
  "offer_data daemon c data n False \<noteq> Some (Body_retry c' data')"
  by (auto simp: offer_data_def Let_def split: prod.splits if_splits)

lemma body_step_shorter:
  assumes "body_step daemon c data = Some (Body_retry c' data')"
  shows "length data' < length data"
proof (cases "have_chunked_upload c \<and> remaining_upload_size c = MHD_SIZE_UNKNOWN")
  case True
  then obtain c1 data1 where s: "skip_chunk_end daemon c data = Some (c1, data1)"
    using assms by (auto simp: body_step_def split: option.splits)
  have "length data1 \<le> length data" using s by (auto simp: skip_chunk_end_def split: if_splits)
  moreover have "length data' < length data1"
  proof (cases "current_chunk_offset c1 < current_chunk_size c1")
    case lt: True
    let ?n = "unat (current_chunk_size c1 - current_chunk_offset c1)"
    have "0 < ?n" using lt by (simp add: word_less_nat_alt unat_sub_if')
    then show ?thesis using assms True s lt offer_data_shorter [of daemon c1 data1 ?n]
      by (auto simp: body_step_def Let_def split: if_splits)
  next
    case False
    then show ?thesis using assms True s chunk_header_shorter by (auto simp: body_step_def)
  qed
  ultimately show ?thesis by simp
next
  case False
  then show ?thesis using assms by (auto simp: body_step_def Let_def split: if_splits)
qed

text \<open>The loop: the connection after a return, or the connection and the rest of the buffer.\<close>

function body_loop ::
  "'a MHD_Daemon \<Rightarrow> 'a MHD_Connection \<Rightarrow> string \<Rightarrow> ('a MHD_Connection \<times> string option) option" where
  "body_loop daemon connection data =
     (case body_step daemon connection data of
        None \<Rightarrow> None
      | Some (Body_return c) \<Rightarrow> Some (c, None)
      | Some (Body_break c rest) \<Rightarrow> Some (c, Some rest)
      | Some (Body_retry c rest) \<Rightarrow> body_loop daemon c rest)"
  by pat_completeness auto
termination
  by (relation "measure (\<lambda>(daemon, connection, data). length data)") (auto dest: body_step_shorter)

declare body_loop.simps [simp del]

definition process_request_body :: "'a MHD_Daemon \<Rightarrow> 'a MHD_Connection \<Rightarrow> 'a MHD_Connection option" where
  "process_request_body daemon connection =
     (if response connection \<noteq> None then Some connection
      else (case body_loop daemon connection (read_buffer connection) of
              None \<Rightarrow> None
            | Some (c, None) \<Rightarrow> Some c
            | Some (c, Some rest) \<Rightarrow> Some (c\<lparr>read_buffer := rest\<rparr>)))"

end
