(* ===== verification/Chunked_Body.thy ===== *)
theory Chunked_Body
  imports Request_Body
begin

text \<open>
  The chunked transfer coding: a body that is sent in chunks is offered to the application byte for byte, in whatever pieces the
  bytes arrive and however much the application takes at a time.
\<close>

section \<open>The coding\<close>

text \<open>A chunk: the digits of its size, a chunk extension, and its data.\<close>

record chunk =
  digits :: string
  extension :: string
  cdata :: string

definition size_line :: "string \<Rightarrow> string \<Rightarrow> bool" where
  "size_line ds ext \<longleftrightarrow> ds \<noteq> [] \<and> length ds < 16 \<and> (\<forall>c \<in> set ds. 0 \<le> toxdigitvalue c)
     \<and> (ext = [] \<or> hd ext = CHR '';'' \<and> (\<forall>c \<in> set ext. \<not> is_eol c))"

definition chunk_ok :: "chunk \<Rightarrow> bool" where
  "chunk_ok k \<longleftrightarrow> size_line (digits k) (extension k) \<and> cdata k \<noteq> []
     \<and> acc_value 16 toxdigitvalue 0 (digits k) = length (cdata k)"

definition chunk_text :: "chunk \<Rightarrow> string" where
  "chunk_text k = digits k @ extension k @ [CR, LF] @ cdata k @ [CR, LF]"

definition last_ok :: "chunk \<Rightarrow> bool" where
  "last_ok k \<longleftrightarrow> size_line (digits k) (extension k) \<and> acc_value 16 toxdigitvalue 0 (digits k) = 0"

text \<open>The chunks, the last chunk without its data, and what follows it.\<close>

definition coded :: "chunk list \<Rightarrow> chunk \<Rightarrow> string \<Rightarrow> string" where
  "coded ks k0 trailer = concat (map chunk_text ks) @ digits k0 @ extension k0 @ [CR, LF] @ trailer"

definition decoded :: "chunk list \<Rightarrow> string" where
  "decoded ks = concat (map cdata ks)"

section \<open>A size line in the buffer\<close>

lemma digit_plain: "0 \<le> toxdigitvalue c \<Longrightarrow> \<not> (is_eol c \<or> c = CHR '';'')"
  by (auto simp: toxdigitvalue_def isasciidigit_code)

lemma takeWhile_stop:
  "(\<forall>c \<in> set xs. P c) \<Longrightarrow> ys = [] \<or> \<not> P (hd ys) \<Longrightarrow> takeWhile P (xs @ ys) = xs"
  by (cases ys) (auto simp: takeWhile_append2)

lemma size_end_line:
  assumes "size_line ds ext" "data @ future = ds @ ext @ CR # onward"
  shows "size_end data = min (length data) (length ds)"
proof -
  let ?P = "\<lambda>c. \<not> (is_eol c \<or> c = CHR '';'')"
  have ds: "\<forall>c \<in> set ds. ?P c" "length ds < 16" using assms(1) digit_plain by (auto simp: size_line_def)
  show ?thesis
  proof (cases "length data \<le> length ds")
    case True
    then have "data = take (length data) ds" using arg_cong [OF assms(2), of "take (length data)"] by simp
    then have "\<forall>c \<in> set data. ?P c" using ds(1) by (metis in_set_takeD)
    then show ?thesis using True ds(2) by (simp add: size_end_def takeWhile_eq_all_conv [THEN iffD2])
  next
    case False
    then obtain r where r: "data = ds @ r" "r \<noteq> []"
      using assms(2) by (metis append_eq_append_conv_if append_take_drop_id drop_eq_Nil le_cases)
    have "hd r = hd (ext @ [CR])"
      using assms(2) r by (cases r; cases ext) auto
    then have "\<not> ?P (hd r)" using assms(1) by (auto simp: size_line_def hd_append)
    then have "takeWhile ?P (ds @ take (16 - length ds) r) = ds"
      using ds r(2) by (intro takeWhile_stop) (auto simp: hd_take)
    then show ?thesis using r ds(2) by (simp add: size_end_def)
  qed
qed

lemma extension_end_line:
  assumes "size_line ds ext" "data @ future = ds @ ext @ CR # onward"
  shows "extension_end data = min (length data) (length ds + length ext)"
proof (cases "length data \<le> length ds")
  case True
  then show ?thesis using size_end_line [OF assms] by (simp add: extension_end_def)
next
  case False
  let ?P = "\<lambda>c. \<not> is_eol c"
  obtain r where r: "data = ds @ r" "r \<noteq> []"
    using False assms(2) by (metis append_eq_append_conv_if append_take_drop_id drop_eq_Nil le_cases)
  then have ro: "r @ future = ext @ CR # onward" using assms(2) by simp
  have h: "data ! length ds = hd r" using r by (simp add: hd_conv_nth nth_append)
  have se: "size_end data = length ds" using size_end_line [OF assms] r by simp
  show ?thesis
  proof (cases "ext = []")
    case True
    then have "hd r = CR" using ro r(2) by (cases r) auto
    then show ?thesis using se h r True by (simp add: extension_end_def)
  next
    case ne: False
    then have "hd r = CHR '';''" using ro r(2) assms(1) by (cases r; cases ext) (auto simp: size_line_def)
    then have e: "extension_end data = length ds + length (takeWhile ?P r)" using se h r by (simp add: extension_end_def)
    have ext: "\<forall>c \<in> set ext. ?P c" using assms(1) ne by (simp add: size_line_def)
    show ?thesis
    proof (cases "length r \<le> length ext")
      case True
      then have "r = take (length r) ext" using arg_cong [OF ro, of "take (length r)"] by simp
      then have "\<forall>c \<in> set r. ?P c" using ext by (metis in_set_takeD)
      then show ?thesis using e r True by (simp add: takeWhile_eq_all_conv [THEN iffD2])
    next
      case longer: False
      then obtain q where q: "r = ext @ q" "q \<noteq> []"
        using ro by (metis append_eq_append_conv_if append_take_drop_id drop_eq_Nil le_cases)
      then have "hd q = CR" using ro by (cases q) auto
      then have "takeWhile ?P (ext @ q) = ext" using ext by (intro takeWhile_stop) auto
      then show ?thesis using e r q by simp
    qed
  qed
qed

lemma size_value:
  assumes "size_line ds ext"
  shows "acc_value 16 toxdigitvalue 0 ds < 2 ^ 60"
proof -
  have "acc_value 16 toxdigitvalue 0 ds < 16 ^ length ds" using hex.acc_value_less [of 0 ds] by simp
  also have "\<dots> \<le> 16 ^ 15" using assms by (intro power_increasing) (auto simp: size_line_def)
  finally show ?thesis by simp
qed

lemma size_parsed:
  assumes "size_line ds ext"
  shows "MHD_strx_to_uint64_n (Some (ds @ r)) (length ds) True = (length ds, Some (word_of_nat (acc_value 16 toxdigitvalue 0 ds)))"
proof -
  have "takeWhile (\<lambda>c. 0 \<le> toxdigitvalue c) ds = ds" "ds \<noteq> []"
    using assms by (auto simp: size_line_def takeWhile_eq_all_conv)
  then show ?thesis using size_value [OF assms]
    by (simp add: strx_ref parse_digits_def Let_def takeWhile_eq_all_conv [THEN iffD2])
qed

section \<open>What the application gets\<close>

text \<open>The bytes that a call of the handler takes.\<close>

fun taken :: "app_call \<Rightarrow> string" where
  "taken (Handler_call (Some d) left) = take (length d - left) d"
| "taken _ = []"

definition delivered :: "'a MHD_Connection \<Rightarrow> string" where
  "delivered c = concat (map taken (calls c))"

text \<open>An offer of no bytes is the sign for the end of the body and must not happen before it.\<close>

definition no_empty_offer :: "'a MHD_Connection \<Rightarrow> bool" where
  "no_empty_offer c \<longleftrightarrow> (\<forall>left. Handler_call (Some []) left \<notin> set (calls c))"

definition handler_ok :: "'a MHD_Daemon \<Rightarrow> bool" where
  "handler_ok d \<longleftrightarrow> (\<forall>c x n. hr_ok (default_handler d c x n) \<and> hr_left (default_handler d c x n) \<le> n)"

definition takes_all :: "'a MHD_Daemon \<Rightarrow> bool" where
  "takes_all d \<longleftrightarrow> (\<forall>c x n. hr_left (default_handler d c x n) = 0)"

section \<open>The invariant\<close>

definition uploading :: "'a MHD_Connection \<Rightarrow> bool" where
  "uploading c \<longleftrightarrow> cstate c = MHD_CONNECTION_CONTINUE_SENT \<and> response c = None \<and> have_chunked_upload c"

text \<open>The data that is still to come of the current chunk, if there is one.\<close>

definition cur_ok :: "'a MHD_Connection \<Rightarrow> string option \<Rightarrow> bool" where
  "cur_ok c cur = (case cur of
     None \<Rightarrow> current_chunk_offset c = 0 \<and> current_chunk_size c = 0
   | Some dat \<Rightarrow> current_chunk_size c \<noteq> 0 \<and> current_chunk_offset c \<le> current_chunk_size c
       \<and> unat (current_chunk_size c - current_chunk_offset c) = length dat)"

definition stream_of :: "string option \<Rightarrow> chunk list \<Rightarrow> chunk \<Rightarrow> string \<Rightarrow> string" where
  "stream_of cur ks k0 trailer = (case cur of None \<Rightarrow> [] | Some dat \<Rightarrow> dat @ [CR, LF]) @ coded ks k0 trailer"

definition rest_of :: "string option \<Rightarrow> chunk list \<Rightarrow> string" where
  "rest_of cur ks = (case cur of None \<Rightarrow> [] | Some dat \<Rightarrow> dat) @ decoded ks"

text \<open>The bytes to come are \<open>S\<close>, and \<open>W\<close> is the whole body.\<close>

definition in_body :: "chunk \<Rightarrow> string \<Rightarrow> string \<Rightarrow> 'a MHD_Connection \<Rightarrow> string \<Rightarrow> bool" where
  "in_body k0 trailer W c S \<longleftrightarrow> uploading c \<and> remaining_upload_size c = MHD_SIZE_UNKNOWN \<and> no_empty_offer c
     \<and> (\<exists>cur ks. cur_ok c cur \<and> (\<forall>k \<in> set ks. chunk_ok k) \<and> S = stream_of cur ks k0 trailer \<and> W = delivered c @ rest_of cur ks)"

definition body_done :: "string \<Rightarrow> string \<Rightarrow> 'a MHD_Connection \<Rightarrow> string \<Rightarrow> bool" where
  "body_done trailer W c S \<longleftrightarrow> uploading c \<and> remaining_upload_size c = 0 \<and> no_empty_offer c
     \<and> (S = trailer \<or> S = LF # trailer) \<and> W = delivered c"

lemma call_application_upload:
  assumes "cstate c = MHD_CONNECTION_CONTINUE_SENT"
  obtains k s where "call_application d c (Some x) n =
    (let r = default_handler d (c\<lparr>client_aware := True\<rparr>) (Some x) n in
     (hr_ok r, hr_left r, c\<lparr>client_aware := True, client_context := k, calls := calls c @ [Handler_call (Some x) (hr_left r)],
        suspended := s\<rparr>))"
proof -
  let ?r = "default_handler d (c\<lparr>client_aware := True\<rparr>) (Some x) n"
  show thesis
    by (rule that [where k = "hr_context ?r" and s = "hr_suspend ?r \<or> suspended c"])
      (use assms in \<open>auto simp: call_application_def MHD_queue_response_def Let_def split: option.splits\<close>)
qed

lemma offer_chunk:
  assumes "handler_ok d" "uploading c" "remaining_upload_size c = MHD_SIZE_UNKNOWN" "no_empty_offer c"
    and "cur_ok c (Some (x @ y))" "x \<noteq> []" "data = x @ z" "n = length x"
  obtains c' m where "m \<le> length x" "takes_all d \<longrightarrow> m = length x"
    "offer_data d c data n retry = Some (if retry \<and> m = length x then Body_retry c' (drop m data) else Body_break c' (drop m data))"
    "uploading c'" "remaining_upload_size c' = MHD_SIZE_UNKNOWN" "no_empty_offer c'"
    "cur_ok c' (Some (drop m x @ y))" "delivered c' = delivered c @ take m x"
proof -
  let ?r = "default_handler d (c\<lparr>client_aware := True\<rparr>) (Some x) n"
  obtain k s where call: "call_application d c (Some x) n = (hr_ok ?r, hr_left ?r,
      c\<lparr>client_aware := True, client_context := k, calls := calls c @ [Handler_call (Some x) (hr_left ?r)], suspended := s\<rparr>)"
    using call_application_upload [of c d x n] assms(2) unfolding uploading_def Let_def by blast
  have h: "hr_ok ?r" "hr_left ?r \<le> n" using assms(1) by (auto simp: handler_ok_def)
  define m where "m = n - hr_left ?r"
  define c' where "c' = c\<lparr>client_aware := True, client_context := k, calls := calls c @ [Handler_call (Some x) (hr_left ?r)],
      suspended := s, current_chunk_offset := current_chunk_offset c + word_of_nat m\<rparr>"
  have m: "m \<le> length x" "takes_all d \<longrightarrow> m = length x" "hr_left ?r = 0 \<longleftrightarrow> m = length x"
    using h(2) assms(8) by (auto simp: m_def takes_all_def)
  have "offer_data d c data n retry = Some (if retry \<and> m = length x then Body_retry c' (drop m data) else Body_break c' (drop m data))"
    using call h assms(2,3,7,8) m(3) by (simp add: offer_data_def uploading_def c'_def m_def Let_def)
  moreover have "cur_ok c' (Some (drop m x @ y))"
  proof -
    let ?o = "current_chunk_offset c" and ?sz = "current_chunk_size c"
    have o: "?sz \<noteq> 0" "?o \<le> ?sz" "unat (?sz - ?o) = length x + length y" using assms(5) by (simp_all add: cur_ok_def)
    have sub: "unat ?sz - unat ?o = length x + length y" using o by (simp add: unat_sub)
    have le: "unat ?o + m \<le> unat ?sz" using sub m(1) o(2) by (simp add: word_le_nat_alt)
    have "unat ?o + m < 2 ^ 64" using le unsigned_less [of ?sz, where ?'a = nat] by simp
    then have "unat (?o + word_of_nat m) = unat ?o + m" by (simp add: unat_word_ariths unat_of_nat)
    then show ?thesis using o(1) le sub m(1) by (simp add: cur_ok_def c'_def word_le_nat_alt unat_sub)
  qed
  moreover have "uploading c'" "remaining_upload_size c' = MHD_SIZE_UNKNOWN" "no_empty_offer c'"
    "delivered c' = delivered c @ take m x"
    using assms(2-4,6,8) by (simp_all add: c'_def uploading_def no_empty_offer_def delivered_def m_def)
  ultimately show thesis using m(1,2) that by blast
qed

lemma skip_eol_CRLF: "data = CR # LF # r \<Longrightarrow> skip_eol data = 2"
  by (simp add: skip_eol_def)

text \<open>A complete size line at the start of the buffer.\<close>

lemma chunk_header_line:
  assumes "size_line ds ext" "data = ds @ ext @ CR # LF # r" "n = acc_value 16 toxdigitvalue 0 ds"
  shows "chunk_header d c data =
    (let c' = c\<lparr>current_chunk_size := word_of_nat n, current_chunk_offset := 0\<rparr> in
     if n = 0 then Body_break (c'\<lparr>remaining_upload_size := 0\<rparr>) r
     else if r \<noteq> [] then Body_retry c' r else Body_break c' r)"
proof -
  have e: "size_end data = length ds" "extension_end data = length ds + length ext"
    using size_end_line [of ds ext data "[]"] extension_end_line [of ds ext data "[]"] assms(1,2) by simp_all
  have len: "length ds < 16" using assms(1) by (simp add: size_line_def)
  have p: "MHD_strx_to_uint64_n (Some data) (length ds) True = (length ds, Some (word_of_nat n))"
    using size_parsed [OF assms(1)] assms(2,3) by simp
  have eol: "data ! Suc (length ds + length ext) = LF" using assms(2) by (simp add: nth_append)
  have dr: "drop (Suc (Suc (length ds + length ext))) data = r" using assms(2) by simp
  have z: "(word_of_nat n :: u64) = 0 \<longleftrightarrow> n = 0"
    using size_value [OF assms(1)] assms(3) by (auto simp: word_of_nat_eq_0_iff dest: dvd_imp_le)
  have "length data = length ds + length ext + 2 + length r" using assms(2) by simp
  then show ?thesis
    unfolding chunk_header_def Let_def e p using len eol dr z by (simp add: prod.case)
qed

text \<open>A size line that is not complete yet: the parser waits, except for a lone \<open>0\<close> with a carriage return.\<close>

lemma chunk_header_partial:
  assumes "size_line ds ext" "data @ future = ds @ ext @ CR # LF # r" "length data < length ds + length ext + 2"
  shows "chunk_header d c data = Body_break c data
    \<or> data = [CHR ''0'', CR] \<and> ds = ''0'' \<and> ext = [] \<and> future = LF # r
       \<and> chunk_header d c data = Body_break (c\<lparr>current_chunk_size := 0, current_chunk_offset := 0, remaining_upload_size := 0\<rparr>) []"
proof (cases "extension_end data = 1 \<and> length data = 2 \<and> data ! 0 = CHR ''0''")
  case False
  have "length data \<le> extension_end data + 1" using extension_end_line [of ds ext data future] assms by simp
  then show ?thesis using False by (simp add: chunk_header_def)
next
  case True
  have ne: "ds \<noteq> []" using assms(1) by (simp add: size_line_def)
  have "min 2 (length ds + length ext) = 1" using extension_end_line [of ds ext data future] assms True by simp
  then have sum: "length ds + length ext = 1" by (simp add: min_def split: if_splits)
  have l1: "length ds = 1" using sum ne by (cases ds) auto
  have l2: "ext = []" using sum ne by (cases ds) auto
  obtain a b where ab: "data = [a, b]" using True by (auto simp: length_Suc_conv numeral_2_eq_2)
  obtain x where x: "ds = [x]" using l1 by (auto simp: length_Suc_conv)
  have "ds = [a]" "b = CR" "future = LF # r" using assms(2) x l2 ab by simp_all
  moreover have "a = CHR ''0''" using True ab by simp
  moreover have "chunk_header d c [CHR ''0'', CR] =
      Body_break (c\<lparr>current_chunk_size := 0, current_chunk_offset := 0, remaining_upload_size := 0\<rparr>) []"
    by (simp add: chunk_header_def extension_end_def size_end_def Let_def strx_ref parse_digits_def toxdigitvalue_def isasciidigit_code)
  ultimately show ?thesis using ab l2 by simp
qed

section \<open>One round of the loop\<close>

text \<open>
  Unless the body is complete, a round ends in a state of the same body. When the application takes everything, the loop
  is left only because bytes are missing.
\<close>

definition round_ok :: "'a MHD_Daemon \<Rightarrow> chunk \<Rightarrow> string \<Rightarrow> string \<Rightarrow> string \<Rightarrow> 'a MHD_Connection body_step \<Rightarrow> bool" where
  "round_ok d k0 trailer W future s = (case s of
     Body_return c' \<Rightarrow> False
   | Body_break c' data' \<Rightarrow> body_done trailer W c' (data' @ future)
       \<or> in_body k0 trailer W c' (data' @ future) \<and> (takes_all d \<longrightarrow> future \<noteq> [])
   | Body_retry c' data' \<Rightarrow> data' \<noteq> [] \<and> in_body k0 trailer W c' (data' @ future))"

lemma append_split_ge:
  assumes "data @ future = xs @ ys" "length xs \<le> length data"
  obtains r where "data = xs @ r" "r @ future = ys"
  using assms by (metis append_eq_append_conv_if append_eq_conv_conj append_take_drop_id append_assoc same_append_eq)

lemma append_split_le:
  assumes "data @ future = xs @ ys" "length data \<le> length xs"
  obtains r where "xs = data @ r" "future = r @ ys"
  using append_split_ge [of xs ys data future] assms by metis

lemma header_round:
  assumes "last_ok k0" "uploading c" "remaining_upload_size c = MHD_SIZE_UNKNOWN" "no_empty_offer c" "cur_ok c None"
    and "\<forall>k \<in> set ks. chunk_ok k" "data @ future = coded ks k0 trailer" "W = delivered c @ decoded ks"
  shows "round_ok d k0 trailer W future (chunk_header d c data)"
proof -
  define k where "k = (case ks of [] \<Rightarrow> k0 | a # _ \<Rightarrow> a)"
  define tail where "tail = (case ks of [] \<Rightarrow> trailer | a # as \<Rightarrow> cdata a @ [CR, LF] @ coded as k0 trailer)"
  define n where "n = acc_value 16 toxdigitvalue 0 (digits k)"
  have line: "size_line (digits k) (extension k)"
    using assms(1,6) by (cases ks) (auto simp: k_def last_ok_def chunk_ok_def)
  have eq: "data @ future = digits k @ extension k @ CR # LF # tail"
    using assms(7) by (cases ks) (simp_all add: k_def tail_def coded_def chunk_text_def)
  have stay: "in_body k0 trailer W c (data @ future)"
    unfolding in_body_def using assms(2-8) by (intro conjI exI [of _ None] exI [of _ ks]) (simp_all add: stream_of_def rest_of_def)
  show ?thesis
  proof (cases "length data < length (digits k) + length (extension k) + 2")
    case True
    have "future \<noteq> []" using arg_cong [OF eq, of length] True by auto
    moreover have "body_done trailer W (c\<lparr>current_chunk_size := 0, current_chunk_offset := 0, remaining_upload_size := 0\<rparr>) future"
      if zero: "digits k = ''0''" "future = LF # tail"
    proof -
      have "n = 0" using zero(1) by (simp add: n_def toxdigitvalue_def isasciidigit_code)
      then have "ks = []" using assms(6) by (cases ks) (auto simp: n_def k_def chunk_ok_def)
      then show ?thesis using assms(2,4,8) zero(2)
        by (simp add: body_done_def uploading_def no_empty_offer_def tail_def delivered_def decoded_def)
    qed
    ultimately show ?thesis using chunk_header_partial [OF line eq True, of d c] stay by (auto simp: round_ok_def)
  next
    case False
    obtain r where r: "data = (digits k @ extension k @ [CR, LF]) @ r" "r @ future = tail"
      using append_split_ge [of data future "digits k @ extension k @ [CR, LF]" tail] eq False by auto
    let ?c = "c\<lparr>current_chunk_size := word_of_nat n, current_chunk_offset := 0\<rparr>"
    have hd: "chunk_header d c data = (if n = 0 then Body_break (?c\<lparr>remaining_upload_size := 0\<rparr>) r
        else if r \<noteq> [] then Body_retry ?c r else Body_break ?c r)"
      using chunk_header_line [OF line, of data r n d c] r(1) by (simp add: n_def Let_def)
    show ?thesis
    proof (cases ks)
      case Nil
      then have "n = 0" using assms(1) by (simp add: n_def k_def last_ok_def)
      then show ?thesis using hd Nil r(2) assms(2,4,8)
        by (simp add: round_ok_def body_done_def uploading_def no_empty_offer_def tail_def delivered_def decoded_def)
    next
      case (Cons a as)
      have ka: "k = a" "chunk_ok a" using Cons assms(6) by (simp_all add: k_def)
      have nd: "n = length (cdata a)" "n \<noteq> 0" using ka by (auto simp: n_def chunk_ok_def)
      have un: "unat (word_of_nat n :: u64) = n" using size_value [OF line] by (simp add: n_def unat_of_nat)
      have "in_body k0 trailer W ?c (r @ future)"
        unfolding in_body_def
      proof (intro conjI exI)
        show "cur_ok ?c (Some (cdata a))" using nd un by (auto simp: cur_ok_def)
        show "r @ future = stream_of (Some (cdata a)) as k0 trailer" using r(2) Cons by (simp add: stream_of_def tail_def)
        show "W = delivered ?c @ rest_of (Some (cdata a)) as" using assms(8) Cons by (simp add: rest_of_def delivered_def decoded_def)
        show "\<forall>k \<in> set as. chunk_ok k" using assms(6) Cons by simp
      qed (use assms(2-4) in \<open>simp_all add: uploading_def no_empty_offer_def\<close>)
      moreover have "future \<noteq> []" if "r = []" using that r(2) Cons by (auto simp: tail_def)
      ultimately show ?thesis using hd nd(2) by (auto simp: round_ok_def)
    qed
  qed
qed

lemma data_round:
  assumes "handler_ok d" "uploading c" "remaining_upload_size c = MHD_SIZE_UNKNOWN" "no_empty_offer c" "cur_ok c (Some dat)"
    and "dat \<noteq> []" "\<forall>k \<in> set ks. chunk_ok k" "data \<noteq> []" "data @ future = dat @ [CR, LF] @ coded ks k0 trailer"
    and "W = delivered c @ dat @ decoded ks"
  shows "\<exists>s. body_step d c data = Some s \<and> round_ok d k0 trailer W future s"
proof -
  let ?next = "[CR, LF] @ coded ks k0 trailer"
  have lt: "current_chunk_offset c < current_chunk_size c" "unat (current_chunk_size c - current_chunk_offset c) = length dat"
    using assms(5,6) by (auto simp: cur_ok_def order.strict_iff_order)
  have step: "body_step d c data = (if length dat > length data then offer_data d c data (length data) False
      else offer_data d c data (length dat) (length data > length dat))"
    using assms(2,3) lt by (auto simp: body_step_def skip_chunk_end_def uploading_def Let_def)
  have keep: "in_body k0 trailer W c' (drop m x @ y @ ?next)"
    if "dat = x @ y" "uploading c'" "remaining_upload_size c' = MHD_SIZE_UNKNOWN" "no_empty_offer c'"
      "cur_ok c' (Some (drop m x @ y))" "delivered c' = delivered c @ take m x" for c' m x y
    unfolding in_body_def using that assms(7,10)
    by (intro conjI exI [of _ "Some (drop m x @ y)"] exI [of _ ks]) (simp_all add: stream_of_def rest_of_def)
  show ?thesis
  proof (cases "length dat > length data")
    case True
    obtain y where y: "dat = data @ y" "future = y @ ?next"
      using append_split_le [OF assms(9)] True by auto
    have p: "cur_ok c (Some (data @ y))" using assms(5) y(1) by simp
    obtain c' m where o: "offer_data d c data (length data) False = Some (if False \<and> m = length data
        then Body_retry c' (drop m data) else Body_break c' (drop m data))"
      "uploading c'" "remaining_upload_size c' = MHD_SIZE_UNKNOWN" "no_empty_offer c'"
      "cur_ok c' (Some (drop m data @ y))" "delivered c' = delivered c @ take m data"
      by (rule offer_chunk [OF assms(1-4) p assms(8) append_Nil2 [symmetric] refl, of False]) (rule that)
    show ?thesis using step o(1) keep [OF y(1) o(2-6)] y True by (auto simp: round_ok_def)
  next
    case False
    obtain z where z: "data = dat @ z" "z @ future = ?next"
      using append_split_ge [OF assms(9)] False by auto
    let ?retry = "length data > length dat"
    have p: "cur_ok c (Some (dat @ []))" using assms(5) by simp
    obtain c' m where o: "m \<le> length dat" "takes_all d \<longrightarrow> m = length dat"
      "offer_data d c data (length dat) ?retry = Some (if ?retry \<and> m = length dat then Body_retry c' (drop m data) else Body_break c' (drop m data))"
      "uploading c'" "remaining_upload_size c' = MHD_SIZE_UNKNOWN" "no_empty_offer c'"
      "cur_ok c' (Some (drop m dat @ []))" "delivered c' = delivered c @ take m dat"
      by (rule offer_chunk [OF assms(1-4) p assms(6) z(1) refl, of ?retry]) (rule that)
    have "in_body k0 trailer W c' (drop m data @ future)"
      using keep [of dat "[]" c' m] o(1,4-8) z by simp
    moreover have "future \<noteq> []" if "z = []" using that z(2) by auto
    ultimately show ?thesis using step o(1-3) z(1) False by (auto simp: round_ok_def)
  qed
qed

lemma chunk_end_round:
  assumes "last_ok k0" "uploading c" "remaining_upload_size c = MHD_SIZE_UNKNOWN" "no_empty_offer c" "cur_ok c (Some [])"
    and "\<forall>k \<in> set ks. chunk_ok k" "data \<noteq> []" "data @ future = [CR, LF] @ coded ks k0 trailer" "W = delivered c @ decoded ks"
  shows "\<exists>s. body_step d c data = Some s \<and> round_ok d k0 trailer W future s"
proof -
  have eq: "current_chunk_offset c = current_chunk_size c" "current_chunk_size c \<noteq> 0"
    using assms(5) by (auto simp: cur_ok_def unat_eq_zero)
  show ?thesis
  proof (cases "length data \<ge> 2")
    case True
    obtain r where r: "data = [CR, LF] @ r" "r @ future = coded ks k0 trailer"
      using append_split_ge [OF assms(8)] True by auto
    let ?c = "c\<lparr>current_chunk_offset := 0, current_chunk_size := 0\<rparr>"
    have "body_step d c data = Some (chunk_header d ?c r)"
      using assms(2,3) eq r(1) skip_eol_CRLF [of data r] by (simp add: body_step_def skip_chunk_end_def uploading_def)
    moreover have "round_ok d k0 trailer W future (chunk_header d ?c r)"
      using assms(1-4,6,9) r(2)
      by (intro header_round [where ks = ks]) (simp_all add: uploading_def no_empty_offer_def cur_ok_def delivered_def)
    ultimately show ?thesis by blast
  next
    case False
    then have d: "data = [CR]" "future = LF # coded ks k0 trailer" using assms(7,8) by (cases data; cases "tl data"; simp)+
    have "chunk_header d c [CR] = Body_break c [CR]"
      by (simp add: chunk_header_def extension_end_def size_end_def)
    then have "body_step d c data = Some (Body_break c data)"
      using assms(2,3) eq d(1) by (simp add: body_step_def skip_chunk_end_def uploading_def)
    moreover have "in_body k0 trailer W c (data @ future)"
      unfolding in_body_def using assms(2-6,8,9)
      by (intro conjI exI [of _ "Some []"] exI [of _ ks]) (simp_all add: stream_of_def rest_of_def)
    ultimately show ?thesis using d(2) by (auto simp: round_ok_def)
  qed
qed

lemma body_round:
  assumes "handler_ok d" "last_ok k0" "in_body k0 trailer W c (data @ future)" "data \<noteq> []"
  shows "\<exists>s. body_step d c data = Some s \<and> round_ok d k0 trailer W future s"
proof -
  obtain cur ks where b: "uploading c" "remaining_upload_size c = MHD_SIZE_UNKNOWN" "no_empty_offer c" "cur_ok c cur"
    "\<forall>k \<in> set ks. chunk_ok k" "data @ future = stream_of cur ks k0 trailer" "W = delivered c @ rest_of cur ks"
    using assms(3) unfolding in_body_def by blast
  show ?thesis
  proof (cases cur)
    case None
    have "body_step d c data = Some (chunk_header d c data)"
      using b(1,2,4) None by (simp add: body_step_def skip_chunk_end_def uploading_def cur_ok_def)
    then show ?thesis
      using header_round [OF assms(2) b(1-3), of ks data future trailer W d] b(4-7) None by (simp add: stream_of_def rest_of_def)
  next
    case (Some dat)
    then show ?thesis
      using data_round [OF assms(1) b(1-3), of dat ks data future k0 trailer W]
        chunk_end_round [OF assms(2) b(1-3), of ks data future trailer W d] b(4-7) assms(4)
      by (cases "dat = []") (simp_all add: stream_of_def rest_of_def)
  qed
qed

lemma body_loop_ok:
  assumes "handler_ok d" "last_ok k0" "in_body k0 trailer W c (data @ future)" "data \<noteq> []"
  shows "\<exists>c' rest. body_loop d c data = Some (c', Some rest)
    \<and> (body_done trailer W c' (rest @ future) \<or> in_body k0 trailer W c' (rest @ future) \<and> (takes_all d \<longrightarrow> future \<noteq> []))"
  using assms(1,3,4)
proof (induction d c data rule: body_loop.induct)
  case (1 d c data)
  obtain s where s: "body_step d c data = Some s" "round_ok d k0 trailer W future s"
    using body_round [OF 1(2) assms(2) 1(3,4)] by blast
  show ?case
  proof (cases s)
    case (Body_retry c' data')
    then have "data' \<noteq> []" "in_body k0 trailer W c' (data' @ future)" using s(2) by (simp_all add: round_ok_def)
    then show ?thesis using 1(1) [OF s(1) Body_retry 1(2)] s(1) Body_retry by (simp add: body_loop.simps [of d c data])
  qed (use s in \<open>simp_all add: round_ok_def body_loop.simps [of d c data]\<close>)
qed

section \<open>The whole body\<close>

text \<open>
  The body of a request as the event loop processes it: bytes that arrive are put behind those in the read buffer, and while
  the body is not complete they are processed.
\<close>

fun upload :: "'a MHD_Daemon \<Rightarrow> 'a MHD_Connection \<Rightarrow> string list \<Rightarrow> 'a MHD_Connection option" where
  "upload d c [] = Some c"
| "upload d c (p # ps) =
     (let c = c\<lparr>read_buffer := read_buffer c @ p\<rparr> in
      if cstate c = MHD_CONNECTION_CONTINUE_SENT \<and> remaining_upload_size c \<noteq> 0 \<and> read_buffer c \<noteq> []
      then (case process_request_body d c of None \<Rightarrow> None | Some c \<Rightarrow> upload d c ps)
      else upload d c ps)"

lemma cur_frame: "cur_ok (c\<lparr>read_buffer := b\<rparr>) cur = cur_ok c cur"
  by (simp add: cur_ok_def split: option.split)

lemma body_frame:
  "in_body k0 trailer W (c\<lparr>read_buffer := b\<rparr>) S = in_body k0 trailer W c S"
  "body_done trailer W (c\<lparr>read_buffer := b\<rparr>) S = body_done trailer W c S"
  by (simp_all add: in_body_def body_done_def uploading_def no_empty_offer_def cur_frame delivered_def)

lemma process_ok:
  assumes "handler_ok d" "last_ok k0" "in_body k0 trailer W c (read_buffer c @ future)" "read_buffer c \<noteq> []"
  shows "\<exists>c'. process_request_body d c = Some c' \<and> (body_done trailer W c' (read_buffer c' @ future)
    \<or> in_body k0 trailer W c' (read_buffer c' @ future) \<and> (takes_all d \<longrightarrow> future \<noteq> []))"
proof -
  have "response c = None" using assms(3) by (simp add: in_body_def uploading_def)
  then show ?thesis using body_loop_ok [OF assms] by (auto simp: process_request_body_def body_frame)
qed

lemma upload_done:
  assumes "body_done trailer W c (read_buffer c @ concat ps @ future)"
  shows "\<exists>c'. upload d c ps = Some c' \<and> body_done trailer W c' (read_buffer c' @ future)"
  using assms
proof (induction ps arbitrary: c)
  case (Cons p ps)
  then have "remaining_upload_size c = 0" by (simp add: body_done_def)
  moreover have "body_done trailer W (c\<lparr>read_buffer := read_buffer c @ p\<rparr>) ((read_buffer c @ p) @ concat ps @ future)"
    using Cons.prems by (simp add: body_frame)
  ultimately show ?case using Cons.IH [of "c\<lparr>read_buffer := read_buffer c @ p\<rparr>"] by simp
qed simp

lemma upload_ok:
  assumes "handler_ok d" "last_ok k0" "in_body k0 trailer W c (read_buffer c @ concat ps @ future)"
    and "takes_all d \<longrightarrow> future = [] \<longrightarrow> concat ps \<noteq> []"
  shows "\<exists>c'. upload d c ps = Some c' \<and> (body_done trailer W c' (read_buffer c' @ future)
    \<or> in_body k0 trailer W c' (read_buffer c' @ future) \<and> (takes_all d \<longrightarrow> future \<noteq> []))"
  using assms(3,4)
proof (induction ps arbitrary: c)
  case Nil
  then show ?case by auto
next
  case (Cons p ps)
  let ?c = "c\<lparr>read_buffer := read_buffer c @ p\<rparr>"
  have inv: "in_body k0 trailer W ?c (read_buffer ?c @ concat ps @ future)" using Cons.prems(1) by (simp add: body_frame)
  then have u: "cstate ?c = MHD_CONNECTION_CONTINUE_SENT" "remaining_upload_size ?c = MHD_SIZE_UNKNOWN"
    by (simp_all add: in_body_def uploading_def)
  show ?case
  proof (cases "read_buffer ?c = []")
    case True
    then show ?thesis using Cons.IH [OF inv] Cons.prems(2) by simp
  next
    case False
    obtain c' where c': "process_request_body d ?c = Some c'" "body_done trailer W c' (read_buffer c' @ concat ps @ future)
      \<or> in_body k0 trailer W c' (read_buffer c' @ concat ps @ future) \<and> (takes_all d \<longrightarrow> concat ps @ future \<noteq> [])"
      using process_ok [OF assms(1,2) inv False] by blast
    have up: "upload d c (p # ps) = upload d c' ps"
      using u False c'(1) by (simp add: MHD_SIZE_UNKNOWN_def)
    show ?thesis
    proof (cases "body_done trailer W c' (read_buffer c' @ concat ps @ future)")
      case True
      then show ?thesis using up upload_done by fastforce
    next
      case False
      then show ?thesis using up Cons.IH [of c'] c'(2) by auto
    qed
  qed
qed

text \<open>A connection that expects the first chunk.\<close>

definition expects_chunks :: "'a MHD_Connection \<Rightarrow> bool" where
  "expects_chunks c \<longleftrightarrow> cstate c = MHD_CONNECTION_CONTINUE_SENT \<and> response c = None \<and> have_chunked_upload c
     \<and> remaining_upload_size c = MHD_SIZE_UNKNOWN \<and> current_chunk_offset c = 0 \<and> current_chunk_size c = 0
     \<and> read_buffer c = [] \<and> (\<forall>x left. Handler_call (Some x) left \<notin> set (calls c))"

lemma nothing_taken: "\<forall>x left. Handler_call (Some x) left \<notin> set xs \<Longrightarrow> concat (map taken xs) = []"
proof (induction xs)
  case (Cons a xs)
  then show ?case by (cases a rule: taken.cases) auto
qed simp

text \<open>
  C8. A chunked body. Whatever sizes the chunks have and in whatever pieces their bytes arrive, and however many bytes the
  application takes at a time: it is offered the data of the chunks in order and without gaps, it is never offered zero bytes, the parser
  does not fail and leaves no byte of the body unread once the application takes everything.
\<close>
theorem chunked_body_delivered:
  assumes "handler_ok d" "expects_chunks c" "\<forall>k \<in> set ks. chunk_ok k" "last_ok k0" "concat ps @ future = coded ks k0 trailer"
  shows "\<exists>c'. upload d c ps = Some c' \<and> cstate c' = MHD_CONNECTION_CONTINUE_SENT \<and> no_empty_offer c'
    \<and> (\<exists>rest. decoded ks = delivered c' @ rest)
    \<and> (takes_all d \<and> future = [] \<longrightarrow> remaining_upload_size c' = 0 \<and> delivered c' = decoded ks
         \<and> read_buffer c' \<in> {trailer, LF # trailer})"
proof -
  have "in_body k0 trailer (decoded ks) c (read_buffer c @ concat ps @ future)"
    unfolding in_body_def using assms(2,3,5) nothing_taken [of "calls c"]
    by (intro conjI exI [of _ None] exI [of _ ks])
      (auto simp: expects_chunks_def uploading_def no_empty_offer_def cur_ok_def stream_of_def rest_of_def delivered_def)
  moreover have "coded ks k0 trailer \<noteq> []" by (simp add: coded_def)
  then have "future = [] \<longrightarrow> concat ps \<noteq> []" using assms(5) by (metis append_Nil2)
  ultimately obtain c' where c': "upload d c ps = Some c'" "body_done trailer (decoded ks) c' (read_buffer c' @ future)
      \<or> in_body k0 trailer (decoded ks) c' (read_buffer c' @ future) \<and> (takes_all d \<longrightarrow> future \<noteq> [])"
    using upload_ok [OF assms(1,4)] by blast
  then show ?thesis
    by (intro exI [of _ c']) (auto simp: body_done_def in_body_def uploading_def)
qed

theorem chunked_body_delivered_witness:
  "\<exists>c'. upload quiet_daemon (new_connection\<lparr>cstate := MHD_CONNECTION_CONTINUE_SENT, have_chunked_upload := True,
       remaining_upload_size := MHD_SIZE_UNKNOWN\<rparr>) [''3;x'' @ [CR], [LF] @ ''ab'', ''c'' @ [CR], [LF] @ ''0'' @ [CR], [LF, CR, LF]] = Some c'
     \<and> delivered c' = ''abc''"
proof -
  let ?one = "\<lparr>digits = ''3'', extension = '';x'', cdata = ''abc''\<rparr>" and ?last = "\<lparr>digits = ''0'', extension = [], cdata = []\<rparr>"
  have k: "\<forall>k \<in> set [?one]. chunk_ok k" "last_ok ?last"
    by (simp_all add: chunk_ok_def last_ok_def size_line_def toxdigitvalue_def isasciidigit_code)
  have d: "handler_ok quiet_daemon" "takes_all quiet_daemon" by (simp_all add: handler_ok_def takes_all_def quiet_daemon_def)
  have c: "expects_chunks (new_connection\<lparr>cstate := MHD_CONNECTION_CONTINUE_SENT, have_chunked_upload := True,
       remaining_upload_size := MHD_SIZE_UNKNOWN\<rparr>)"
    by (simp add: expects_chunks_def new_connection_def)
  show ?thesis
    using chunked_body_delivered [OF d(1) c k, of "[''3;x'' @ [CR], [LF] @ ''ab'', ''c'' @ [CR], [LF] @ ''0'' @ [CR], [LF, CR, LF]]"
        "[]" "[CR, LF]"] d(2)
    by (auto simp: coded_def chunk_text_def decoded_def)
qed

end
