(* ===== verification/Reply_Header.thy ===== *)
theory Reply_Header
  imports Connection
begin

text \<open>
  The header of a response, its footers and error responses (\<^verbatim>\<open>get_date_string\<close>, \<^verbatim>\<open>build_header_response\<close> and \<^verbatim>\<open>transmit_error_response\<close>
  of \<^verbatim>\<open>connection.c\<close>).
\<close>

section \<open>The date\<close>

text \<open>The conversions \<^verbatim>\<open>%02u\<close> and \<^verbatim>\<open>%04u\<close> of \<^verbatim>\<open>printf\<close>.\<close>

definition padded :: "nat \<Rightarrow> nat \<Rightarrow> string" where
  "padded w n = (let s = decimal n in replicate (w - length s) CHR ''0'' @ s)"

definition days :: "string list" where
  "days = [''Sun'', ''Mon'', ''Tue'', ''Wed'', ''Thu'', ''Fri'', ''Sat'']"

definition mons :: "string list" where
  "mons = [''Jan'', ''Feb'', ''Mar'', ''Apr'', ''May'', ''Jun'', ''Jul'', ''Aug'', ''Sep'', ''Oct'', ''Nov'', ''Dec'']"

abbreviation CRLF :: string where
  "CRLF \<equiv> [CR, LF]"

definition get_date_string :: "tm option \<Rightarrow> nat \<Rightarrow> string" where
  "get_date_string gmtime date_len =
     (case gmtime of
        None \<Rightarrow> []
      | Some now \<Rightarrow> take (date_len - 1)
          (''Date: '' @ days ! (tm_wday now mod 7) @ '', '' @ padded 2 (tm_mday now) @ '' '' @ mons ! (tm_mon now mod 12)
           @ '' '' @ padded 4 (1900 + tm_year now) @ '' '' @ padded 2 (tm_hour now) @ '':'' @ padded 2 (tm_min now)
           @ '':'' @ padded 2 (tm_sec now) @ '' GMT'' @ CRLF))"

section \<open>What the header contains\<close>

record reply_flags =
  must_add_close :: bool
  must_add_chunked_encoding :: bool
  must_add_keep_alive :: bool
  must_add_content_length :: bool
  response_has_close :: bool
  response_has_keepalive :: bool

definition MHD_check_response_header_s_token_ci :: "MHD_Response \<Rightarrow> string \<Rightarrow> string \<Rightarrow> bool" where
  "MHD_check_response_header_s_token_ci r key tkn = MHD_check_response_header_token_ci r (Some key) (Some tkn) (length tkn)"

text \<open>
  A response of unknown size: whether it must be ended by closing the connection, and whether the header for the chunked
  encoding is added.
\<close>

definition unknown_size :: "'a MHD_Connection \<Rightarrow> string \<Rightarrow> string option \<Rightarrow> bool \<times> bool \<times> 'a MHD_Connection" where
  "unknown_size c v have_encoding =
     (if keepalive_possible c \<and> MHD_str_equal_caseless MHD_HTTP_VERSION_1_1 v
      then (case have_encoding of
              None \<Rightarrow> (False, True, c\<lparr>have_chunked_upload := True\<rparr>)
            | Some e \<Rightarrow> if MHD_str_equal_caseless e ''identity'' then (True, False, c)
                        else (False, False, c\<lparr>have_chunked_upload := True\<rparr>))
      else (True, False, c))"

definition header_flags :: "'a MHD_Connection \<Rightarrow> MHD_Response \<Rightarrow> string \<Rightarrow> u32 \<Rightarrow> reply_flags \<times> 'a MHD_Connection" where
  "header_flags connection r v rc =
     (let rhc = MHD_check_response_header_s_token_ci r MHD_HTTP_HEADER_CONNECTION ''close'';
          rhk = MHD_check_response_header_s_token_ci r MHD_HTTP_HEADER_CONNECTION ''Keep-Alive'';
          crc = MHD_lookup_header_s_token_ci connection MHD_HTTP_HEADER_CONNECTION ''close'';
          c = (if flags r AND MHD_RF_HTTP_VERSION_1_0_ONLY \<noteq> 0 \<or> upgrade_handler r
               then connection\<lparr>keepalive := MHD_CONN_MUST_CLOSE\<rparr> else connection);
          c = c\<lparr>have_chunked_upload := False\<rparr>;
          have_encoding = MHD_get_response_header r (Some MHD_HTTP_HEADER_TRANSFER_ENCODING);
          may_add_content_length = (have_encoding = None);
          (mclose, mchunked, c) = (if total_size r = MHD_SIZE_UNKNOWN \<and> \<not> upgrade_handler r \<and> \<not> rhc \<and> \<not> crc
             then unknown_size c v have_encoding else (False, False, c));
          mclose = (mclose \<or> (crc \<or> read_closed c \<or> keepalive c = MHD_CONN_MUST_CLOSE) \<and> \<not> rhc \<and> \<not> upgrade_handler r
             \<and> flags r AND MHD_RF_HTTP_VERSION_1_0_ONLY = 0);
          mclose = (mclose \<or> \<not> may_add_content_length \<and> \<not> have_chunked_upload c \<and> \<not> rhc);
          mlen = (total_size r \<noteq> MHD_SIZE_UNKNOWN \<and> rc \<noteq> 204 \<and> rc \<noteq> 304 \<and> 200 \<le> rc
             \<and> MHD_get_response_header r (Some MHD_HTTP_HEADER_CONTENT_LENGTH) = None \<and> may_add_content_length
             \<and> (case req_method c of None \<Rightarrow> True | Some m \<Rightarrow> \<not> MHD_str_equal_caseless m ''CONNECT''));
          mkeep = (\<not> rhk \<and> \<not> rhc \<and> \<not> mclose \<and> keepalive c \<noteq> MHD_CONN_MUST_CLOSE \<and> \<not> upgrade_handler r
             \<and> keepalive_possible c)
      in (\<lparr>must_add_close = mclose, must_add_chunked_encoding = mchunked, must_add_keep_alive = mkeep,
           must_add_content_length = mlen, response_has_close = rhc, response_has_keepalive = rhk\<rparr>, c))"

definition no_flags :: reply_flags where
  "no_flags = \<lparr>must_add_close = False, must_add_chunked_encoding = False, must_add_keep_alive = False,
     must_add_content_length = False, response_has_close = False, response_has_keepalive = False\<rparr>"

definition update_keepalive :: "reply_flags \<Rightarrow> MHD_ConnKeepAlive \<Rightarrow> MHD_ConnKeepAlive" where
  "update_keepalive f k =
     (if k = MHD_CONN_MUST_CLOSE then k
      else if must_add_close f \<or> response_has_close f then MHD_CONN_MUST_CLOSE
      else if must_add_keep_alive f \<or> response_has_keepalive f then MHD_CONN_USE_KEEPALIVE
      else k)"

definition status_line :: "'a MHD_Connection \<Rightarrow> MHD_Response \<Rightarrow> string \<Rightarrow> u32 \<Rightarrow> string option" where
  "status_line c r v rc =
     (case MHD_get_reason_phrase_for rc of
        None \<Rightarrow> None
      | Some reason \<Rightarrow> Some (take 255
          ((if responseCode c AND MHD_ICY_FLAG \<noteq> 0 then ''ICY''
            else if MHD_str_equal_caseless MHD_HTTP_VERSION_1_0 v \<or> flags r AND MHD_RF_HTTP_VERSION_1_0_RESPONSE \<noteq> 0
            then MHD_HTTP_VERSION_1_0 else MHD_HTTP_VERSION_1_1)
           @ '' '' @ decimal (unat rc) @ '' '' @ reason @ CRLF)))"

definition content_length_line :: "u64 \<Rightarrow> string" where
  "content_length_line n = ''Content-Length: '' @ decimal (unat n) @ CRLF"

text \<open>The lines that the library adds, in their order.\<close>

definition added_lines :: "reply_flags \<Rightarrow> u64 \<Rightarrow> string" where
  "added_lines f n =
     (if must_add_close f then ''Connection: close'' @ CRLF else [])
     @ (if must_add_keep_alive f then ''Connection: Keep-Alive'' @ CRLF else [])
     @ (if must_add_chunked_encoding f then ''Transfer-Encoding: chunked'' @ CRLF else [])
     @ (if must_add_content_length f then content_length_line n else [])"

text \<open>The entries of the response that are printed.\<close>

definition printed :: "reply_flags \<Rightarrow> u32 \<Rightarrow> MHD_HTTP_Header \<Rightarrow> bool" where
  "printed f kind p \<longleftrightarrow> hkind p = kind
     \<and> \<not> (must_add_close f \<and> response_has_keepalive f \<and> MHD_str_equal_caseless (the (hname p)) MHD_HTTP_HEADER_CONNECTION
          \<and> MHD_str_equal_caseless (the (hvalue p)) ''Keep-Alive'')"

definition entry_size :: "MHD_HTTP_Header \<Rightarrow> nat" where
  "entry_size p = length (the (hname p)) + length (the (hvalue p)) + 4"

definition entry_line :: "MHD_HTTP_Header \<Rightarrow> string" where
  "entry_line p = the (hname p) @ '': '' @ the (hvalue p) @ CRLF"

text \<open>
  Printing the entries behind what is in the buffer already, with the space that is left in it; a line that does not fit
  would make the final length differ from the estimate.
\<close>

fun print_entries :: "nat \<Rightarrow> MHD_HTTP_Header list \<Rightarrow> string \<Rightarrow> string option" where
  "print_entries sz [] data = Some data"
| "print_entries sz (p # ps) data =
     (if length (entry_line p) < sz - length data then print_entries sz ps (data @ entry_line p) else None)"

section \<open>Building the header\<close>

text \<open>
  The buffer is filled with the first line, the added lines, the entries, the date and the final empty line, and its length
  is compared with the estimate. The result tells whether the memory was sufficient.
\<close>

definition fill_header ::
  "'a MHD_Connection \<Rightarrow> MHD_Response \<Rightarrow> u32 \<Rightarrow> reply_flags \<Rightarrow> string \<Rightarrow> string \<Rightarrow> (bool \<times> 'a MHD_Connection) option" where
  "fill_header c r kind f code date =
     (let entries = filter (printed f kind) (first_header r);
          sz = length code + 2 + length date + length (added_lines f (total_size r)) + sum_list (map entry_size entries) in
      if list_ex (\<lambda>p. hkind p = kind \<and> (hname p = None \<or> hvalue p = None)) (first_header r) then None
      else if must_add_close f \<and> must_add_keep_alive f \<or> must_add_chunked_encoding f \<and> must_add_content_length f then None
      else (case MHD_pool_allocate (pool c) (word_of_nat (sz + 1)) False of
         (None, p) \<Rightarrow> Some (False, c\<lparr>pool := p\<rparr>)
       | (at, p) \<Rightarrow>
           (case print_entries sz entries (code @ added_lines f (total_size r)) of
              None \<Rightarrow> None
            | Some data \<Rightarrow>
                let data = data @ date @ CRLF in
                if length data \<noteq> sz then None
                else Some (True, c\<lparr>pool := p, write_buffer := data @ [NUL], write_buffer_at := at, write_buffer_size := word_of_nat (sz + 1),
                       write_buffer_append_offset := sz, write_buffer_send_offset := 0\<rparr>))))"

definition build_header_response :: "'a MHD_Daemon \<Rightarrow> 'a MHD_Connection \<Rightarrow> (bool \<times> 'a MHD_Connection) option" where
  "build_header_response daemon connection =
     (case (req_version connection, response connection) of
        (Some v, Some r) \<Rightarrow>
          if peek v = NUL
          then (case MHD_pool_allocate (pool connection) 0 True of
                  (at, p) \<Rightarrow> Some (True, connection\<lparr>pool := p, write_buffer := [], write_buffer_at := at,
                     write_buffer_append_offset := 0, write_buffer_send_offset := 0, write_buffer_size := 0\<rparr>))
          else
            let rc = responseCode connection AND NOT MHD_ICY_FLAG in
            if cstate connection = MHD_CONNECTION_FOOTERS_RECEIVED
            then do {
              code \<leftarrow> status_line connection r v rc;
              let date = (if options daemon AND MHD_USE_SUPPRESS_DATE_NO_CLOCK = 0 \<and> MHD_get_response_header r (Some ''Date'') = None
                          then get_date_string (gm_time daemon) 128 else []);
              let (f, c) = header_flags connection r v rc;
              fill_header (c\<lparr>keepalive := update_keepalive f (keepalive c)\<rparr>) r MHD_HEADER_KIND f code date
            }
            else if cstate connection = MHD_CONNECTION_BODY_SENT
            then fill_header (connection\<lparr>keepalive := update_keepalive no_flags (keepalive connection)\<rparr>) r MHD_FOOTER_KIND
                   no_flags [] []
            else None
      | _ \<Rightarrow> None)"

text \<open>
  The response for an error is created by the library; its memory is the parameter \<^term>\<open>response_mem\<close>. Both references to it are
  given back when it is replaced or sent.
\<close>

definition transmit_error_response ::
  "'a MHD_Daemon \<Rightarrow> 'a MHD_Connection \<Rightarrow> u32 \<Rightarrow> string \<Rightarrow> 'a MHD_Connection option" where
  "transmit_error_response daemon connection status_code message =
     (let c = connection\<lparr>req_version := (case req_version connection of None \<Rightarrow> Some MHD_HTTP_VERSION_1_0 | Some v \<Rightarrow> Some v),
            cstate := MHD_CONNECTION_FOOTERS_RECEIVED, read_closed := True, response := None\<rparr> in
      case MHD_create_response_from_buffer (response_mem daemon) True (word_of_nat (length message))
             (Some (map byte_of_char message)) MHD_RESPMEM_PERSISTENT of
        None \<Rightarrow> Some (c\<lparr>cstate := MHD_CONNECTION_CLOSED\<rparr>)
      | Some r \<Rightarrow>
          (case MHD_queue_response daemon c status_code (Some r) of
             (False, c) \<Rightarrow> Some (CONNECTION_CLOSE_ERROR daemon c)
           | (True, c) \<Rightarrow>
               if response c = None then None
               else do {
                 (ok, c) \<leftarrow> build_header_response daemon (c\<lparr>keepalive := MHD_CONN_MUST_CLOSE\<rparr>);
                 Some (if ok then c\<lparr>cstate := MHD_CONNECTION_HEADERS_SENDING\<rparr> else CONNECTION_CLOSE_ERROR daemon c)
               }))"

definition try_grow_read_buffer :: "'a MHD_Daemon \<Rightarrow> 'a MHD_Connection \<Rightarrow> bool \<times> 'a MHD_Connection" where
  "try_grow_read_buffer daemon connection =
     (let new_size = (if read_buffer_size connection = 0 then pool_size daemon div 2
                      else read_buffer_size connection + MHD_BUF_INC_SIZE) in
      case MHD_pool_reallocate (pool connection) (read_buffer_at connection) (read_buffer_size connection) new_size of
        (None, p) \<Rightarrow> (False, connection\<lparr>pool := p\<rparr>)
      | (at, p) \<Rightarrow> (True, connection\<lparr>pool := p, read_buffer_at := at, read_buffer_size := new_size\<rparr>))"

end
