(* ===== verification/Request_Parse.thy ===== *)
theory Request_Parse
  imports Reply_Header
begin

text \<open>
  The parser of a request's first line, headers, cookies and footers (\<^verbatim>\<open>connection.c\<close>). A line is given as the list of its bytes without
  the line end, which the code overwrites with terminators. A line may contain null bytes: where the code
  uses it as a string, it ends at the first of them.
\<close>

section \<open>Lines\<close>

text \<open>The result is the line with its address and the number of bytes it took with its line end.\<close>

type_synonym header_line = "string \<times> ptr \<times> nat"

definition line_break :: "char \<Rightarrow> bool" where
  "line_break c \<longleftrightarrow> c = CR \<or> c = LF"

definition get_next_header_line ::
  "'a MHD_Daemon \<Rightarrow> 'a MHD_Connection \<Rightarrow> (header_line option \<times> 'a MHD_Connection) option" where
  "get_next_header_line daemon connection =
     (let rbuf = read_buffer connection;
          pos = length (takeWhile (\<lambda>c. \<not> line_break c) (take (length rbuf - 1) rbuf)) in
      if rbuf = [] then Some (None, connection)
      else if pos = length rbuf - 1 \<and> rbuf ! pos \<noteq> LF then
        (if word_of_nat (length rbuf) = read_buffer_size connection
         then (case try_grow_read_buffer daemon connection of
                 (True, c) \<Rightarrow> Some (None, c)
               | (False, c) \<Rightarrow> map_option (Pair None)
                   (transmit_error_response daemon c (if req_url c \<noteq> None then 431 else 414) REQUEST_TOO_BIG))
         else Some (None, connection))
      else
        let n = (if rbuf ! pos = CR \<and> rbuf ! (pos + 1) = LF then pos + 2 else pos + 1) in
        Some (Some (take pos rbuf, read_buffer_at connection, n),
          connection\<lparr>read_buffer := drop n rbuf, read_buffer_at := map_option (\<lambda>a. a + word_of_nat n) (read_buffer_at connection),
            read_buffer_size := read_buffer_size connection - word_of_nat n\<rparr>))"

definition connection_add_header ::
  "'a MHD_Daemon \<Rightarrow> 'a MHD_Connection \<Rightarrow> string option \<Rightarrow> string option \<Rightarrow> u32 \<Rightarrow> (bool \<times> 'a MHD_Connection) option" where
  "connection_add_header daemon connection key val kind =
     (case MHD_set_connection_value connection kind key val of
        (True, c) \<Rightarrow> Some (True, c)
      | (False, c) \<Rightarrow> map_option (Pair False) (transmit_error_response daemon c 431 REQUEST_TOO_BIG))"

section \<open>Cookies\<close>

definition strip_end :: "string \<Rightarrow> string" where
  "strip_end s = rev (dropWhile (\<lambda>c. c = CHR '' '') (rev s))"

text \<open>The length of the value: quotes protect commas and semicolons.\<close>

fun cookie_value_end :: "bool \<Rightarrow> string \<Rightarrow> nat" where
  "cookie_value_end quotes [] = 0"
| "cookie_value_end quotes (c # s) =
     (if \<not> quotes \<and> (c = CHR '';'' \<or> c = CHR '','') then 0
      else Suc (cookie_value_end (if c = CHR 0x22 then \<not> quotes else quotes) s))"

definition unquote :: "string \<Rightarrow> string" where
  "unquote v = (if v \<noteq> [] \<and> hd v = CHR 0x22 \<and> last v = CHR 0x22 then tl (butlast v) else v)"

text \<open>
  The key at the start of the text, and the value with what follows it. The code also reads the byte in front of an empty key, without
  using it.
\<close>

definition cookie_key_end :: "string \<Rightarrow> nat" where
  "cookie_key_end s = length (takeWhile (\<lambda>c. c \<noteq> CHR '','' \<and> c \<noteq> CHR '';'' \<and> c \<noteq> CHR ''='') s)"

lemma cookie_key_end_le: "cookie_key_end s \<le> length s"
  by (simp add: cookie_key_end_def length_takeWhile_le)

lemma cookie_rest_shorter:
  assumes "p = dropWhile Q tx" "cookie_key_end p \<noteq> length p"
  shows "length (drop (cookie_key_end p + 1) p) < length tx" "length (drop n (drop (cookie_key_end p + 1) p)) < length tx"
proof -
  have "length p \<le> length tx" using assms(1) by (simp add: dropWhile_length_le)
  moreover have "cookie_key_end p < length p" using assms(2) cookie_key_end_le [of p] by simp
  ultimately show "length (drop (cookie_key_end p + 1) p) < length tx"
    "length (drop n (drop (cookie_key_end p + 1) p)) < length tx" by simp_all
qed

function cookie_loop :: "'a MHD_Daemon \<Rightarrow> 'a MHD_Connection \<Rightarrow> string \<Rightarrow> (bool \<times> 'a MHD_Connection) option" where
  "cookie_loop daemon connection text =
     (let pos = dropWhile (\<lambda>c. c = CHR '' '') text;
          sce = cookie_key_end pos;
          key = strip_end (take sce pos) in
      if sce = length pos then connection_add_header daemon connection (Some key) (Some []) MHD_COOKIE_KIND
      else if pos ! sce \<noteq> CHR ''='' then
        (case connection_add_header daemon connection (Some key) (Some []) MHD_COOKIE_KIND of
           Some (True, c) \<Rightarrow> cookie_loop daemon c (drop (sce + 1) pos)
         | r \<Rightarrow> r)
      else
        let equals = drop (sce + 1) pos;
            n = cookie_value_end False equals in
        (case connection_add_header daemon connection (Some key) (Some (unquote (take n equals))) MHD_COOKIE_KIND of
           Some (True, c) \<Rightarrow> if n = length equals then Some (True, c) else cookie_loop daemon c (drop (n + 1) equals)
         | r \<Rightarrow> r))"
  by pat_completeness auto
termination
  by (relation "measure (\<lambda>(daemon, connection, text). length text)")
    (use cookie_rest_shorter in \<open>auto simp del: length_drop drop_drop\<close>)

declare cookie_loop.simps [simp del]

definition parse_cookie_header :: "'a MHD_Daemon \<Rightarrow> 'a MHD_Connection \<Rightarrow> (bool \<times> 'a MHD_Connection) option" where
  "parse_cookie_header daemon connection =
     (case MHD_lookup_connection_value (Some connection) MHD_HEADER_KIND (Some ''Cookie'') of
        None \<Rightarrow> Some (True, connection)
      | Some hdr \<Rightarrow>
          (case MHD_pool_allocate (pool connection) (word_of_nat (length hdr + 1)) True of
             (None, p) \<Rightarrow> map_option (Pair False) (transmit_error_response daemon (connection\<lparr>pool := p\<rparr>) 431 REQUEST_TOO_BIG)
           | (_, p) \<Rightarrow> cookie_loop daemon (connection\<lparr>pool := p\<rparr>) hdr))"

section \<open>The first line\<close>

definition memchr :: "string \<Rightarrow> char \<Rightarrow> nat option" where
  "memchr s c = (let n = length (takeWhile (\<lambda>x. x \<noteq> c) s) in if n < length s then Some n else None)"

text \<open>
  The URI and the version of what follows the method: the last space that is not at the end separates them, if it is not the first
  character.
\<close>

definition split_version :: "string \<Rightarrow> string \<times> string" where
  "split_version rest =
     (let body = rev (dropWhile (\<lambda>c. c = CHR '' '') (rev rest));
          h = length body - length (takeWhile (\<lambda>c. c \<noteq> CHR '' '') (rev body)) - 1 in
      if CHR '' '' \<in> set body \<and> 0 < h then (take h rest, drop (h + 1) rest) else (rest, []))"

text \<open>The log callback, the arguments behind the question mark and the path in front of it.\<close>

definition log_uri :: "'a MHD_Daemon \<Rightarrow> string option \<Rightarrow> 'a MHD_Connection \<Rightarrow> 'a MHD_Connection" where
  "log_uri daemon uri c =
     (case uri_log_callback daemon of
        None \<Rightarrow> c
      | Some f \<Rightarrow> c\<lparr>client_aware := True, client_context := f (map_option c_str uri),
          calls := calls c @ [Uri_log_call (map_option c_str uri)]\<rparr>)"

definition argument_cb ::
  "'a MHD_Daemon \<Rightarrow> 'a MHD_Connection option \<Rightarrow> string \<Rightarrow> string option \<Rightarrow> u32 \<Rightarrow> bool \<times> 'a MHD_Connection option" where
  "argument_cb daemon co key val kind =
     (case Option.bind co (\<lambda>c. connection_add_header daemon c (Some key) val kind) of
        None \<Rightarrow> (False, None)
      | Some (ok, c) \<Rightarrow> (ok, Some c))"

definition add_arguments :: "'a MHD_Daemon \<Rightarrow> string option \<Rightarrow> 'a MHD_Connection \<Rightarrow> 'a MHD_Connection option" where
  "add_arguments daemon uri c =
     (case Option.bind uri (\<lambda>u. memchr u CHR ''?'') of
        None \<Rightarrow> Some c
      | Some q \<Rightarrow> fst (snd (MHD_parse_arguments (unescape_cb daemon) (Some c) MHD_GET_ARGUMENT_KIND
           (Some (c_str (drop (q + 1) (the uri)))) (argument_cb daemon))))"

definition request_path :: "'a MHD_Daemon \<Rightarrow> string option \<Rightarrow> string" where
  "request_path daemon uri =
     (case uri of None \<Rightarrow> []
      | Some u \<Rightarrow> unescape_cb daemon (c_str (case memchr u CHR ''?'' of None \<Rightarrow> u | Some q \<Rightarrow> take q u)))"

definition parse_initial_message_line ::
  "'a MHD_Daemon \<Rightarrow> 'a MHD_Connection \<Rightarrow> string \<Rightarrow> (bool \<times> 'a MHD_Connection) option" where
  "parse_initial_message_line daemon connection line =
     (case memchr line CHR '' '' of
        None \<Rightarrow> Some (False, connection)
      | Some k \<Rightarrow>
          let rest = dropWhile (\<lambda>c. c = CHR '' '') (drop (k + 1) line);
              (uri, version) = (if rest = [] then (None, []) else map_prod Some id (split_version rest));
              c = connection\<lparr>req_method := Some (c_str (take k line)), req_version := Some (c_str version)\<rparr> in
          if 1 \<le> strict_for_client daemon \<and> (case uri of None \<Rightarrow> False | Some u \<Rightarrow> CHR '' '' \<in> set u) then Some (False, c)
          else map_option (\<lambda>c. (True, c\<lparr>req_url := Some (request_path daemon uri)\<rparr>)) (add_arguments daemon uri (log_uri daemon uri c)))"

section \<open>Header lines\<close>

abbreviation blank :: "char \<Rightarrow> bool" where
  "blank c \<equiv> c = CHR '' '' \<or> c = TAB"

definition before :: "nat option \<Rightarrow> nat \<Rightarrow> bool" where
  "before i k = (case i of None \<Rightarrow> False | Some j \<Rightarrow> j < k)"

definition process_header_line ::
  "'a MHD_Daemon \<Rightarrow> 'a MHD_Connection \<Rightarrow> string \<Rightarrow> ptr \<Rightarrow> bool \<times> 'a MHD_Connection" where
  "process_header_line daemon connection line at =
     (case strchr line CHR '':'' of
        None \<Rightarrow> (False, CONNECTION_CLOSE_ERROR daemon connection)
      | Some k \<Rightarrow>
          if strict_for_client daemon \<le> -1 \<and> (before (strchr line CHR '' '') k \<or> before (strchr line TAB) k)
          then (False, connection)
          else (True, connection\<lparr>last_line := Some (take k line), last_at := at,
                  colon := Some (dropWhile blank (drop (k + 1) line))\<rparr>))"

definition process_broken_line ::
  "'a MHD_Daemon \<Rightarrow> 'a MHD_Connection \<Rightarrow> string \<Rightarrow> ptr \<Rightarrow> u32 \<Rightarrow> (bool \<times> 'a MHD_Connection) option" where
  "process_broken_line daemon connection line at kind =
     (case last_line connection of
        None \<Rightarrow> None
      | Some lst \<Rightarrow>
          if blank (peek line) then
            let tmp = dropWhile blank line in
            (case MHD_pool_reallocate (pool connection) (last_at connection) (word_of_nat (length lst + 1))
                    (word_of_nat (length lst + length tmp + 1)) of
               (None, p) \<Rightarrow> map_option (Pair False) (transmit_error_response daemon (connection\<lparr>pool := p\<rparr>) 431 REQUEST_TOO_BIG)
             | (a, p) \<Rightarrow> Some (True, connection\<lparr>pool := p, last_line := Some (lst @ tmp), last_at := a\<rparr>))
          else
            (case colon connection of
               None \<Rightarrow> None
             | Some val \<Rightarrow> do {
                 (ok, c) \<leftarrow> connection_add_header daemon connection (Some lst) (Some val) kind;
                 if \<not> ok then map_option (Pair False) (transmit_error_response daemon c 431 REQUEST_TOO_BIG)
                 else if line = [] then Some (True, c)
                 else (case process_header_line daemon c line at of
                         (True, c) \<Rightarrow> Some (True, c)
                       | (False, c) \<Rightarrow> map_option (Pair False) (transmit_error_response daemon c 400 REQUEST_MALFORMED))
               }))"

section \<open>What the headers say\<close>

definition lacks_host :: "'a MHD_Daemon \<Rightarrow> 'a MHD_Connection \<Rightarrow> bool" where
  "lacks_host daemon c \<longleftrightarrow> 1 \<le> strict_for_client daemon
     \<and> (case req_version c of None \<Rightarrow> False | Some v \<Rightarrow> MHD_str_equal_caseless MHD_HTTP_VERSION_1_1 v)
     \<and> MHD_lookup_connection_value (Some c) MHD_HEADER_KIND (Some ''Host'') = None"

definition refuse_without_host :: "'a MHD_Daemon \<Rightarrow> 'a MHD_Connection \<Rightarrow> 'a MHD_Connection option" where
  "refuse_without_host daemon connection =
     (let c = connection\<lparr>cstate := MHD_CONNECTION_FOOTERS_RECEIVED, read_closed := True\<rparr> in
      if response c \<noteq> None then None
      else (case MHD_create_response_from_buffer (response_mem daemon) True (word_of_nat (length REQUEST_LACKS_HOST))
              (Some (map byte_of_char REQUEST_LACKS_HOST)) MHD_RESPMEM_PERSISTENT of
         None \<Rightarrow> Some (CONNECTION_CLOSE_ERROR daemon c)
       | Some r \<Rightarrow>
           (case MHD_queue_response daemon c 400 (Some r) of
              (True, c) \<Rightarrow> Some c
            | (False, c) \<Rightarrow> Some (CONNECTION_CLOSE_ERROR daemon c))))"

definition upload_size :: "'a MHD_Daemon \<Rightarrow> 'a MHD_Connection \<Rightarrow> 'a MHD_Connection" where
  "upload_size daemon connection =
     (let c = connection\<lparr>remaining_upload_size := 0\<rparr> in
      case MHD_lookup_connection_value (Some c) MHD_HEADER_KIND (Some MHD_HTTP_HEADER_TRANSFER_ENCODING) of
        Some coding \<Rightarrow> c\<lparr>remaining_upload_size := MHD_SIZE_UNKNOWN,
            have_chunked_upload := have_chunked_upload c \<or> MHD_str_equal_caseless coding ''chunked''\<rparr>
      | None \<Rightarrow>
          (case MHD_lookup_connection_value (Some c) MHD_HEADER_KIND (Some MHD_HTTP_HEADER_CONTENT_LENGTH) of
             None \<Rightarrow> c
           | Some clen \<Rightarrow>
               (case MHD_str_to_uint64 (Some clen) True of
                  (n, val) \<Rightarrow>
                    let c = (case val of None \<Rightarrow> c | Some v \<Rightarrow> c\<lparr>remaining_upload_size := v\<rparr>) in
                    if n = 0 \<or> peek (drop n clen) \<noteq> NUL
                    then CONNECTION_CLOSE_ERROR daemon (c\<lparr>remaining_upload_size := 0\<rparr>) else c)))"

definition parse_connection_headers :: "'a MHD_Daemon \<Rightarrow> 'a MHD_Connection \<Rightarrow> 'a MHD_Connection option" where
  "parse_connection_headers daemon connection = do {
     (_, c) \<leftarrow> parse_cookie_header daemon connection;
     if lacks_host daemon c then refuse_without_host daemon c else Some (upload_size daemon c)
   }"

end
