(* ===== verification/Reply_Body.thy ===== *)
theory Reply_Body
  imports Reply_Header
begin

text \<open>
  The body of a response and the write handler (\<^verbatim>\<open>try_ready_normal_body\<close>, \<^verbatim>\<open>try_ready_chunked_body\<close>, \<^verbatim>\<open>check_write_done\<close> and
  \<^verbatim>\<open>MHD_connection_handle_write\<close> of \<^verbatim>\<open>connection.c\<close>). What the socket accepted is recorded in \<^const>\<open>sent\<close>. The content reader is a callback of
  the application; a result it is not allowed to give is a failure of the model.
\<close>

section \<open>Readers\<close>

text \<open>The result of the content reader: the end of the stream, an error, or at most \<open>mx\<close> bytes.\<close>

definition read_content ::
  "'a MHD_Daemon \<Rightarrow> 'a MHD_Connection \<Rightarrow> u64 \<Rightarrow> nat \<Rightarrow> (int \<times> byte list) option" where
  "read_content daemon connection at mx =
     (case content_reader_cb daemon connection at mx of
        (n, bs) \<Rightarrow>
          if n = MHD_CONTENT_READER_END_OF_STREAM \<or> n = MHD_CONTENT_READER_END_WITH_ERROR then Some (n, [])
          else if n = int (length bs) \<and> length bs \<le> mx then Some (n, bs)
          else None)"

definition try_ready_normal_body :: "'a MHD_Daemon \<Rightarrow> 'a MHD_Connection \<Rightarrow> (bool \<times> 'a MHD_Connection) option" where
  "try_ready_normal_body daemon connection =
     (case response connection of
        None \<Rightarrow> None
      | Some r \<Rightarrow>
          let at = response_write_position connection in
          if crc r = No_reader \<or> total_size r = 0 \<or> at = total_size r
             \<or> data_start r \<le> at \<and> data_size r + data_start r > at
          then Some (True, connection)
          else do {
            (n, bs) \<leftarrow> read_content daemon connection at (unat (min (data_buffer_size r) (total_size r - at)));
            if n = MHD_CONTENT_READER_END_OF_STREAM
            then Some (False, MHD_connection_close daemon connection MHD_REQUEST_TERMINATED_COMPLETED_OK)
            else if n = MHD_CONTENT_READER_END_WITH_ERROR then Some (False, CONNECTION_CLOSE_ERROR daemon connection)
            else
              let c = connection\<lparr>response := Some (r\<lparr>data_start := at, data_size := word_of_int n,
                    rdata := bs @ drop (length bs) (rdata r)\<rparr>)\<rparr> in
              Some (if n = 0 then (False, c\<lparr>cstate := MHD_CONNECTION_NORMAL_BODY_UNREADY\<rparr>) else (True, c))
          })"

section \<open>Chunks\<close>

text \<open>The conversion \<^verbatim>\<open>%X\<close> of \<^verbatim>\<open>printf\<close>.\<close>

fun hexadecimal :: "nat \<Rightarrow> string" where
  "hexadecimal n = (if n < 16 then [hex_digit n] else hexadecimal (n div 16) @ [hex_digit (n mod 16)])"

declare hexadecimal.simps [simp del]

text \<open>The buffer for chunks: half of the pool, or less if that much is not free.\<close>

function chunk_buffer :: "MemoryPool \<Rightarrow> nat \<Rightarrow> (ptr \<times> nat) \<times> MemoryPool" where
  "chunk_buffer p n =
     (if n div 2 < 128 then ((None, 0), p)
      else (case MHD_pool_allocate p (word_of_nat (n div 2)) False of
              (None, p) \<Rightarrow> chunk_buffer p (n div 2)
            | (at, p) \<Rightarrow> ((at, n div 2), p)))"
  by pat_completeness auto
termination
  by (relation "measure snd") auto

declare chunk_buffer.simps [simp del]

definition cbuf_size :: nat where
  "cbuf_size = 10"

text \<open>The bytes for the chunk and their number, or the end of the stream or an error.\<close>

definition chunk_content ::
  "'a MHD_Daemon \<Rightarrow> 'a MHD_Connection \<Rightarrow> MHD_Response \<Rightarrow> nat \<Rightarrow> (int \<times> byte list) option" where
  "chunk_content daemon c r mx =
     (let at = response_write_position c in
      if total_size r = 0 then Some (0, [])
      else if data_start r \<le> at \<and> data_start r + data_size r > at
      then let off = unat (at - data_start r); n = min (unat (data_size r) - off) mx in
           if off + n \<le> length (rdata r) then Some (int n, take n (drop off (rdata r))) else None
      else read_content daemon c at mx)"

definition fill_chunk :: "'a MHD_Connection \<Rightarrow> byte list \<Rightarrow> nat \<Rightarrow> 'a MHD_Connection option" where
  "fill_chunk c bs n =
     (let cb = hexadecimal n @ CRLF in
      if length cb \<ge> cbuf_size then None
      else do {
        mem \<leftarrow> blit (write_buffer c) cbuf_size (map char_of_byte bs);
        mem \<leftarrow> blit mem (cbuf_size - length cb) cb;
        mem \<leftarrow> blit mem (cbuf_size + n) CRLF;
        Some (c\<lparr>write_buffer := mem, response_write_position := response_write_position c + word_of_nat n,
          write_buffer_send_offset := cbuf_size - length cb, write_buffer_append_offset := cbuf_size + n + 2\<rparr>)
      })"

definition last_chunk :: "'a MHD_Connection \<Rightarrow> MHD_Response \<Rightarrow> 'a MHD_Connection option" where
  "last_chunk c r = do {
     mem \<leftarrow> blit (write_buffer c) 0 (''0'' @ CRLF);
     Some (c\<lparr>write_buffer := mem, write_buffer_append_offset := 3, write_buffer_send_offset := 0,
       response := Some (r\<lparr>total_size := response_write_position c\<rparr>)\<rparr>)
   }"

definition try_ready_chunked_body :: "'a MHD_Daemon \<Rightarrow> 'a MHD_Connection \<Rightarrow> (bool \<times> 'a MHD_Connection) option" where
  "try_ready_chunked_body daemon connection =
     (case response connection of
        None \<Rightarrow> None
      | Some r \<Rightarrow>
          if crc r = No_reader then Some (True, connection)
          else
            let (mem, c) = (if write_buffer_size connection = 0
                  then (case chunk_buffer (pool connection) (unat (min (pool_size daemon) (2 * (0xFFFFFF + 10 + 2)))) of
                          ((None, _), p) \<Rightarrow> (False, connection\<lparr>pool := p\<rparr>)
                        | ((at, n), p) \<Rightarrow> (True, connection\<lparr>pool := p, write_buffer := replicate n NUL, write_buffer_at := at,
                              write_buffer_size := word_of_nat n\<rparr>))
                  else (True, connection)) in
            if \<not> mem then Some (False, CONNECTION_CLOSE_ERROR daemon c)
            else do {
              (n, bs) \<leftarrow> chunk_content daemon c r (length (write_buffer c) - cbuf_size - 2);
              if n = MHD_CONTENT_READER_END_WITH_ERROR then Some (False, CONNECTION_CLOSE_ERROR daemon c)
              else if n = MHD_CONTENT_READER_END_OF_STREAM \<or> total_size r = 0 then map_option (Pair True) (last_chunk c r)
              else if n = 0 then Some (False, c\<lparr>cstate := MHD_CONNECTION_CHUNKED_BODY_UNREADY\<rparr>)
              else map_option (Pair True) (fill_chunk c bs (min (nat n) 0xFFFFFF))
            })"

section \<open>Writing\<close>

definition check_write_done :: "'a MHD_Connection \<Rightarrow> MHD_CONNECTION_STATE \<Rightarrow> 'a MHD_Connection" where
  "check_write_done connection next_state =
     (if write_buffer_append_offset connection \<noteq> write_buffer_send_offset connection then connection
      else connection\<lparr>write_buffer_append_offset := 0, write_buffer_send_offset := 0, cstate := next_state,
             pool := snd (MHD_pool_reallocate (pool connection) (write_buffer_at connection) (write_buffer_size connection) 0),
             write_buffer := [], write_buffer_at := None, write_buffer_size := 0\<rparr>)"

text \<open>What the socket says: the number of bytes it would take, that it is busy, or an error.\<close>

datatype send_result = Sent nat | Send_again | Send_error

text \<open>Sending \<open>data\<close>: the number of bytes that were taken, if the connection goes on.\<close>

definition send_data ::
  "'a MHD_Daemon \<Rightarrow> 'a MHD_Connection \<Rightarrow> send_result \<Rightarrow> string \<Rightarrow> nat option \<times> 'a MHD_Connection" where
  "send_data daemon connection res data =
     (case res of
        Sent n \<Rightarrow> (Some (min n (length data)), connection\<lparr>sent := sent connection @ take n data\<rparr>)
      | Send_again \<Rightarrow> (None, connection)
      | Send_error \<Rightarrow> (None, CONNECTION_CLOSE_ERROR daemon connection))"

text \<open>Sending from the write buffer; the next state is entered when all of it has been taken.\<close>

definition write_from_buffer ::
  "'a MHD_Daemon \<Rightarrow> 'a MHD_Connection \<Rightarrow> send_result \<Rightarrow> MHD_CONNECTION_STATE \<Rightarrow> 'a MHD_Connection option" where
  "write_from_buffer daemon connection res next_state =
     (let off = write_buffer_send_offset connection; app = write_buffer_append_offset connection in
      if \<not> (off \<le> app \<and> app \<le> length (write_buffer connection)) then None
      else (case send_data daemon connection res (take (app - off) (drop off (write_buffer connection))) of
              (None, c) \<Rightarrow> Some c
            | (Some n, c) \<Rightarrow>
                let c = MHD_update_last_activity daemon (c\<lparr>write_buffer_send_offset := off + n\<rparr>) in
                Some (check_write_done c next_state)))"

definition write_normal_body :: "'a MHD_Daemon \<Rightarrow> 'a MHD_Connection \<Rightarrow> send_result \<Rightarrow> 'a MHD_Connection option" where
  "write_normal_body daemon connection res =
     (let finish = (\<lambda>c. case response c of
            None \<Rightarrow> None
          | Some r \<Rightarrow> Some (if response_write_position c = total_size r then c\<lparr>cstate := MHD_CONNECTION_FOOTERS_SENT\<rparr> else c)) in
      case response connection of
        None \<Rightarrow> None
      | Some r \<Rightarrow>
          if response_write_position connection < total_size r
          then do {
            (ready, c) \<leftarrow> try_ready_normal_body daemon connection;
            if \<not> ready then Some c
            else do {
              r \<leftarrow> response c;
              let off = unat (response_write_position c - data_start r);
              if \<not> (off \<le> unat (data_size r) \<and> unat (data_size r) \<le> length (rdata r)) then None
              else (case send_data daemon c res (map char_of_byte (take (unat (data_size r) - off) (drop off (rdata r)))) of
                      (None, c) \<Rightarrow> Some c
                    | (Some n, c) \<Rightarrow> finish (MHD_update_last_activity daemon
                        (c\<lparr>response_write_position := response_write_position c + word_of_nat n\<rparr>)))
            }
          }
          else finish connection)"

definition MHD_connection_handle_write ::
  "'a MHD_Daemon \<Rightarrow> 'a MHD_Connection \<Rightarrow> send_result \<Rightarrow> 'a MHD_Connection option" where
  "MHD_connection_handle_write daemon connection res =
     (if suspended connection then Some connection
      else (case cstate connection of
         MHD_CONNECTION_HEADERS_PROCESSED \<Rightarrow> Some connection
       | MHD_CONNECTION_CONTINUE_SENDING \<Rightarrow>
           (case send_data daemon connection res (drop (continue_message_write_offset connection) HTTP_100_CONTINUE) of
              (None, c) \<Rightarrow> Some c
            | (Some n, c) \<Rightarrow> Some (MHD_update_last_activity daemon
                (c\<lparr>continue_message_write_offset := continue_message_write_offset c + n\<rparr>)))
       | MHD_CONNECTION_HEADERS_SENDING \<Rightarrow> write_from_buffer daemon connection res MHD_CONNECTION_HEADERS_SENT
       | MHD_CONNECTION_HEADERS_SENT \<Rightarrow> Some connection
       | MHD_CONNECTION_NORMAL_BODY_READY \<Rightarrow> write_normal_body daemon connection res
       | MHD_CONNECTION_CHUNKED_BODY_READY \<Rightarrow>
           (case response connection of
              None \<Rightarrow> None
            | Some r \<Rightarrow> write_from_buffer daemon connection res
                (if total_size r = response_write_position connection then MHD_CONNECTION_BODY_SENT
                 else MHD_CONNECTION_CHUNKED_BODY_UNREADY))
       | MHD_CONNECTION_FOOTERS_SENDING \<Rightarrow> write_from_buffer daemon connection res MHD_CONNECTION_FOOTERS_SENT
       | MHD_CONNECTION_CLOSED \<Rightarrow> Some connection
       | _ \<Rightarrow> None))"

end
