(* ===== verification/Connection_Idle.thy ===== *)
theory Connection_Idle
  imports Request_Parse Request_Body Reply_Body
begin

text \<open>
  The state machine of a connection (\<^verbatim>\<open>MHD_connection_handle_idle\<close>, \<^verbatim>\<open>MHD_connection_handle_read\<close>, \<^verbatim>\<open>MHD_connection_update_event_loop_info\<close> of
  \<^verbatim>\<open>connection.c\<close>) and its event handler \<^verbatim>\<open>call_handlers\<close> of \<^verbatim>\<open>daemon.c\<close>. Each case of the switch of the idle handler is a
  definition; its result says whether the loop goes on, is left, or the function returns.
\<close>

section \<open>The cases of the idle handler\<close>

datatype 'c idle_step = Idle_again 'c | Idle_leave 'c | Idle_return bool 'c

text \<open>There is no complete line: an error changed the state, or the rest of the line has to be read.\<close>

definition no_line :: "'a MHD_Daemon \<Rightarrow> MHD_CONNECTION_STATE \<Rightarrow> 'a MHD_Connection \<Rightarrow> 'a MHD_Connection idle_step" where
  "no_line daemon st c =
     (if cstate c \<noteq> st then Idle_again c
      else if read_closed c then Idle_again (CONNECTION_CLOSE_ERROR daemon c)
      else Idle_leave c)"

definition idle_init :: "'a MHD_Daemon \<Rightarrow> 'a MHD_Connection \<Rightarrow> 'a MHD_Connection idle_step option" where
  "idle_init daemon connection = do {
     (l, c) \<leftarrow> get_next_header_line daemon connection;
     (case l of
        None \<Rightarrow> Some (no_line daemon MHD_CONNECTION_INIT c)
      | Some (line, at, n) \<Rightarrow>
          if peek line = NUL then Some (no_line daemon MHD_CONNECTION_INIT c)
          else do {
            (ok, c) \<leftarrow> parse_initial_message_line daemon c line;
            Some (Idle_again (if ok then c\<lparr>cstate := MHD_CONNECTION_URL_RECEIVED\<rparr> else CONNECTION_CLOSE_ERROR daemon c))
          })
   }"

text \<open>The first line of the headers, or of the footers.\<close>

definition idle_first_line ::
  "'a MHD_Daemon \<Rightarrow> 'a MHD_Connection \<Rightarrow> MHD_CONNECTION_STATE \<Rightarrow> (nat \<Rightarrow> 'a MHD_Connection \<Rightarrow> 'a MHD_Connection idle_step)
     \<Rightarrow> 'a MHD_Connection idle_step option" where
  "idle_first_line daemon connection part finish = do {
     (l, c) \<leftarrow> get_next_header_line daemon connection;
     (case l of
        None \<Rightarrow> Some (no_line daemon (cstate connection) c)
      | Some (line, at, n) \<Rightarrow>
          if peek line = NUL then Some (finish n c)
          else (case process_header_line daemon c (c_str line) at of
                  (True, c) \<Rightarrow> Some (Idle_again (c\<lparr>cstate := part\<rparr>))
                | (False, c) \<Rightarrow> map_option Idle_leave (transmit_error_response daemon c 400 REQUEST_MALFORMED)))
   }"

text \<open>
  A further line. Whether it was empty is read from its first byte after it was processed, where the parser has put a terminator over the
  colon of a line that starts with one.
\<close>

definition idle_next_line ::
  "'a MHD_Daemon \<Rightarrow> 'a MHD_Connection \<Rightarrow> u32 \<Rightarrow> (nat \<Rightarrow> 'a MHD_Connection \<Rightarrow> 'a MHD_Connection idle_step)
     \<Rightarrow> 'a MHD_Connection idle_step option" where
  "idle_next_line daemon connection kind finish = do {
     (l, c) \<leftarrow> get_next_header_line daemon connection;
     (case l of
        None \<Rightarrow> Some (no_line daemon (cstate connection) c)
      | Some (line, at, n) \<Rightarrow> do {
          (ok, c) \<leftarrow> process_broken_line daemon c (c_str line) at kind;
          Some (if ok \<and> (peek line = NUL \<or> peek line = CHR '':'') then finish n c else Idle_again c)
        })
   }"

text \<open>The end of the headers; the size of the header is computed as the distance of the line from the read buffer behind it.\<close>

definition headers_end :: "nat \<Rightarrow> 'a MHD_Connection \<Rightarrow> 'a MHD_Connection idle_step" where
  "headers_end n c = Idle_again (c\<lparr>cstate := MHD_CONNECTION_HEADERS_RECEIVED, header_size := - word_of_nat n\<rparr>)"

definition go_on :: "'a MHD_Connection \<Rightarrow> 'a MHD_Connection idle_step" where
  "go_on c = (if suspended c then Idle_leave c else Idle_again c)"

definition footers_end :: "nat \<Rightarrow> 'a MHD_Connection \<Rightarrow> 'a MHD_Connection idle_step" where
  "footers_end n c = go_on (c\<lparr>cstate := MHD_CONNECTION_FOOTERS_RECEIVED\<rparr>)"

definition idle_headers_received :: "'a MHD_Daemon \<Rightarrow> 'a MHD_Connection \<Rightarrow> 'a MHD_Connection idle_step option" where
  "idle_headers_received daemon connection = do {
     c \<leftarrow> parse_connection_headers daemon connection;
     Some (if cstate c = MHD_CONNECTION_CLOSED then Idle_again c else go_on (c\<lparr>cstate := MHD_CONNECTION_HEADERS_PROCESSED\<rparr>))
   }"

definition idle_headers_processed :: "'a MHD_Daemon \<Rightarrow> 'a MHD_Connection \<Rightarrow> 'a MHD_Connection idle_step option" where
  "idle_headers_processed daemon connection =
     (let c = call_connection_handler daemon connection in
      if cstate c = MHD_CONNECTION_CLOSED then Some (Idle_again c)
      else if need_100_continue c then Some (Idle_leave (c\<lparr>cstate := MHD_CONNECTION_CONTINUE_SENDING\<rparr>))
      else if response c \<noteq> None \<and> req_method c = None then None
      else
        let c = (if response c \<noteq> None \<and> is_upload (req_method c) then c\<lparr>remaining_upload_size := 0, read_closed := True\<rparr> else c);
            c = c\<lparr>cstate := (if remaining_upload_size c = 0 then MHD_CONNECTION_FOOTERS_RECEIVED else MHD_CONNECTION_CONTINUE_SENT)\<rparr>
        in Some (go_on c))"

definition idle_continue_sending :: "'a MHD_Connection \<Rightarrow> 'a MHD_Connection idle_step" where
  "idle_continue_sending c =
     (if continue_message_write_offset c = length HTTP_100_CONTINUE then Idle_again (c\<lparr>cstate := MHD_CONNECTION_CONTINUE_SENT\<rparr>)
      else Idle_leave c)"

definition idle_continue_sent :: "'a MHD_Daemon \<Rightarrow> 'a MHD_Connection \<Rightarrow> 'a MHD_Connection idle_step option" where
  "idle_continue_sent daemon connection = do {
     c \<leftarrow> (if read_buffer connection \<noteq> [] then process_request_body daemon connection else Some connection);
     Some (if cstate c = MHD_CONNECTION_CLOSED then Idle_again c
       else if remaining_upload_size c = 0
          \<or> remaining_upload_size c = MHD_SIZE_UNKNOWN \<and> read_buffer c = [] \<and> read_closed c
       then go_on (c\<lparr>cstate := (if have_chunked_upload c \<and> \<not> read_closed c then MHD_CONNECTION_BODY_RECEIVED
                                 else MHD_CONNECTION_FOOTERS_RECEIVED)\<rparr>)
       else Idle_leave c)
   }"

definition idle_footers_received :: "'a MHD_Daemon \<Rightarrow> 'a MHD_Connection \<Rightarrow> 'a MHD_Connection idle_step option" where
  "idle_footers_received daemon connection =
     (let c = call_connection_handler daemon connection in
      if cstate c = MHD_CONNECTION_CLOSED then Some (Idle_again c)
      else if response c = None then Some (Idle_leave c)
      else do {
        (ok, c) \<leftarrow> build_header_response daemon c;
        Some (if ok then Idle_leave (c\<lparr>cstate := MHD_CONNECTION_HEADERS_SENDING\<rparr>) else Idle_again (CONNECTION_CLOSE_ERROR daemon c))
      })"

text \<open>
  Handing the socket over to the application is a parameter: whether it succeeds. The connection is then suspended, and the bytes in the read
  buffer go to the application.
\<close>

definition idle_headers_sent :: "bool \<Rightarrow> 'a MHD_Daemon \<Rightarrow> 'a MHD_Connection \<Rightarrow> 'a MHD_Connection idle_step option" where
  "idle_headers_sent upgraded daemon c =
     (case response c of
        None \<Rightarrow> None
      | Some r \<Rightarrow>
          if upgrade_handler r
          then Some (Idle_again (if upgraded then c\<lparr>cstate := MHD_CONNECTION_UPGRADE, suspended := True, read_buffer := [], response := None\<rparr>
                 else CONNECTION_CLOSE_ERROR daemon (c\<lparr>cstate := MHD_CONNECTION_UPGRADE\<rparr>)))
          else Some (Idle_again (c\<lparr>cstate := (if have_chunked_upload c then MHD_CONNECTION_CHUNKED_BODY_UNREADY
                 else MHD_CONNECTION_NORMAL_BODY_UNREADY)\<rparr>)))"

definition idle_normal_unready :: "'a MHD_Daemon \<Rightarrow> 'a MHD_Connection \<Rightarrow> 'a MHD_Connection idle_step option" where
  "idle_normal_unready daemon c =
     (case response c of
        None \<Rightarrow> None
      | Some r \<Rightarrow>
          if total_size r = 0 then Some (Idle_again (c\<lparr>cstate := MHD_CONNECTION_BODY_SENT\<rparr>))
          else do {
            (ready, c) \<leftarrow> try_ready_normal_body daemon c;
            Some (Idle_leave (if ready then c\<lparr>cstate := MHD_CONNECTION_NORMAL_BODY_READY\<rparr> else c))
          })"

definition idle_chunked_unready :: "'a MHD_Daemon \<Rightarrow> 'a MHD_Connection \<Rightarrow> 'a MHD_Connection idle_step option" where
  "idle_chunked_unready daemon c =
     (case response c of
        None \<Rightarrow> None
      | Some r \<Rightarrow>
          if total_size r = 0 \<or> response_write_position c = total_size r then Some (Idle_again (c\<lparr>cstate := MHD_CONNECTION_BODY_SENT\<rparr>))
          else do {
            (ready, c) \<leftarrow> try_ready_chunked_body daemon c;
            Some (if ready then Idle_again (c\<lparr>cstate := MHD_CONNECTION_CHUNKED_BODY_READY\<rparr>) else Idle_leave c)
          })"

definition idle_body_sent :: "'a MHD_Daemon \<Rightarrow> 'a MHD_Connection \<Rightarrow> 'a MHD_Connection idle_step option" where
  "idle_body_sent daemon connection = do {
     (ok, c) \<leftarrow> build_header_response daemon connection;
     Some (Idle_again (if \<not> ok then CONNECTION_CLOSE_ERROR daemon c
       else c\<lparr>cstate := (if \<not> have_chunked_upload c \<or> write_buffer_send_offset c = write_buffer_append_offset c
              then MHD_CONNECTION_FOOTERS_SENT else MHD_CONNECTION_FOOTERS_SENDING)\<rparr>))
   }"

text \<open>The fields that are cleared when a request has ended.\<close>

definition clear_request :: "'a MHD_Connection \<Rightarrow> 'a MHD_Connection" where
  "clear_request c = c\<lparr>client_context := None, continue_message_write_offset := 0, responseCode := 0, headers_received := [],
     response_write_position := 0, have_chunked_upload := False, current_chunk_size := 0, current_chunk_offset := 0,
     req_method := None, req_url := None, write_buffer := [], write_buffer_at := None, write_buffer_size := 0,
     write_buffer_send_offset := 0, write_buffer_append_offset := 0\<rparr>"

definition keep_alive :: "'a MHD_Daemon \<Rightarrow> 'a MHD_Connection \<Rightarrow> 'a MHD_Connection" where
  "keep_alive daemon c =
     (case MHD_pool_reset (pool c) (read_buffer_at c) (word_of_nat (length (read_buffer c))) (pool_size daemon div 2) of
        (at, p) \<Rightarrow> c\<lparr>req_version := None, cstate := MHD_CONNECTION_INIT, last_line := None, last_at := None, colon := None, header_size := 0,
          keepalive := MHD_CONN_KEEPALIVE_UNKOWN, pool := p, read_buffer_at := at, read_buffer_size := pool_size daemon div 2\<rparr>)"

definition idle_footers_sent :: "'a MHD_Daemon \<Rightarrow> 'a MHD_Connection \<Rightarrow> 'a MHD_Connection idle_step" where
  "idle_footers_sent daemon connection =
     (if responseCode connection = 102
      then Idle_again (connection\<lparr>cstate := MHD_CONNECTION_HEADERS_PROCESSED, response := None\<rparr>)
      else
        let c = notify_end daemon (connection\<lparr>response := None\<rparr>) MHD_REQUEST_TERMINATED_COMPLETED_OK;
            c = (if keepalive c \<noteq> MHD_CONN_USE_KEEPALIVE \<or> read_closed c
                 then (MHD_connection_close daemon c MHD_REQUEST_TERMINATED_COMPLETED_OK)\<lparr>read_buffer := [], read_buffer_at := None,
                        read_buffer_size := 0\<rparr>
                 else keep_alive daemon c)
        in Idle_again (clear_request c))"

definition idle_case :: "bool \<Rightarrow> 'a MHD_Daemon \<Rightarrow> 'a MHD_Connection \<Rightarrow> 'a MHD_Connection idle_step option" where
  "idle_case upgraded daemon c = (case cstate c of
     MHD_CONNECTION_INIT \<Rightarrow> idle_init daemon c
   | MHD_CONNECTION_URL_RECEIVED \<Rightarrow> idle_first_line daemon c MHD_CONNECTION_HEADER_PART_RECEIVED headers_end
   | MHD_CONNECTION_HEADER_PART_RECEIVED \<Rightarrow> idle_next_line daemon c MHD_HEADER_KIND headers_end
   | MHD_CONNECTION_HEADERS_RECEIVED \<Rightarrow> idle_headers_received daemon c
   | MHD_CONNECTION_HEADERS_PROCESSED \<Rightarrow> idle_headers_processed daemon c
   | MHD_CONNECTION_CONTINUE_SENDING \<Rightarrow> Some (idle_continue_sending c)
   | MHD_CONNECTION_CONTINUE_SENT \<Rightarrow> idle_continue_sent daemon c
   | MHD_CONNECTION_BODY_RECEIVED \<Rightarrow> idle_first_line daemon c MHD_CONNECTION_FOOTER_PART_RECEIVED footers_end
   | MHD_CONNECTION_FOOTER_PART_RECEIVED \<Rightarrow> idle_next_line daemon c MHD_FOOTER_KIND footers_end
   | MHD_CONNECTION_FOOTERS_RECEIVED \<Rightarrow> idle_footers_received daemon c
   | MHD_CONNECTION_HEADERS_SENDING \<Rightarrow> Some (Idle_leave c)
   | MHD_CONNECTION_HEADERS_SENT \<Rightarrow> idle_headers_sent upgraded daemon c
   | MHD_CONNECTION_NORMAL_BODY_READY \<Rightarrow> Some (Idle_leave c)
   | MHD_CONNECTION_NORMAL_BODY_UNREADY \<Rightarrow> idle_normal_unready daemon c
   | MHD_CONNECTION_CHUNKED_BODY_READY \<Rightarrow> Some (Idle_leave c)
   | MHD_CONNECTION_CHUNKED_BODY_UNREADY \<Rightarrow> idle_chunked_unready daemon c
   | MHD_CONNECTION_BODY_SENT \<Rightarrow> idle_body_sent daemon c
   | MHD_CONNECTION_FOOTERS_SENDING \<Rightarrow> Some (Idle_leave c)
   | MHD_CONNECTION_FOOTERS_SENT \<Rightarrow> Some (idle_footers_sent daemon c)
   | MHD_CONNECTION_CLOSED \<Rightarrow> Some (Idle_return False (c\<lparr>response := None, suspended := False\<rparr>))
   | MHD_CONNECTION_UPGRADE \<Rightarrow> Some (Idle_return True c))"

section \<open>What the connection waits for\<close>

text \<open>The second part of the result: an error changed the state, which is looked at again.\<close>

definition event_info :: "'a MHD_Daemon \<Rightarrow> 'a MHD_Connection \<Rightarrow> ('a MHD_Connection \<times> bool) option" where
  "event_info daemon c =
     (let full = (word_of_nat (length (read_buffer c)) = read_buffer_size c);
          wait = (\<lambda>i c. Some (c\<lparr>event_loop_info := i\<rparr>, False));
          receive = (\<lambda>c. wait (if read_closed c then MHD_EVENT_LOOP_INFO_BLOCK else MHD_EVENT_LOOP_INFO_READ) c);
          fail = (\<lambda>code msg c. map_option (\<lambda>c. (c, True)) (transmit_error_response daemon c code msg)) in
      case cstate c of
        MHD_CONNECTION_INIT \<Rightarrow>
          (case (if full then try_grow_read_buffer daemon c else (True, c)) of
             (True, c) \<Rightarrow> receive c | (False, c) \<Rightarrow> fail (if req_url c \<noteq> None then 431 else 414) REQUEST_TOO_BIG c)
      | MHD_CONNECTION_URL_RECEIVED \<Rightarrow>
          (case (if full then try_grow_read_buffer daemon c else (True, c)) of
             (True, c) \<Rightarrow> receive c | (False, c) \<Rightarrow> fail (if req_url c \<noteq> None then 431 else 414) REQUEST_TOO_BIG c)
      | MHD_CONNECTION_HEADER_PART_RECEIVED \<Rightarrow>
          (case (if full then try_grow_read_buffer daemon c else (True, c)) of
             (True, c) \<Rightarrow> receive c | (False, c) \<Rightarrow> fail (if req_url c \<noteq> None then 431 else 414) REQUEST_TOO_BIG c)
      | MHD_CONNECTION_CONTINUE_SENDING \<Rightarrow> wait MHD_EVENT_LOOP_INFO_WRITE c
      | MHD_CONNECTION_CONTINUE_SENT \<Rightarrow>
          (case (if full then try_grow_read_buffer daemon c else (True, c)) of
             (False, c) \<Rightarrow>
               if options daemon AND MHD_USE_INTERNAL_POLLING_THREAD \<noteq> 0 then fail 500 INTERNAL_ERROR c
               else wait MHD_EVENT_LOOP_INFO_BLOCK c
           | (True, c) \<Rightarrow>
               wait (if word_of_nat (length (read_buffer c)) < read_buffer_size c \<and> \<not> read_closed c
                     then MHD_EVENT_LOOP_INFO_READ else MHD_EVENT_LOOP_INFO_BLOCK) c)
      | MHD_CONNECTION_BODY_RECEIVED \<Rightarrow>
          if read_closed c then Some (CONNECTION_CLOSE_ERROR daemon c, True) else wait MHD_EVENT_LOOP_INFO_READ c
      | MHD_CONNECTION_FOOTER_PART_RECEIVED \<Rightarrow>
          if read_closed c then Some (CONNECTION_CLOSE_ERROR daemon c, True) else wait MHD_EVENT_LOOP_INFO_READ c
      | MHD_CONNECTION_FOOTERS_RECEIVED \<Rightarrow> wait MHD_EVENT_LOOP_INFO_BLOCK c
      | MHD_CONNECTION_HEADERS_SENDING \<Rightarrow> wait MHD_EVENT_LOOP_INFO_WRITE c
      | MHD_CONNECTION_NORMAL_BODY_READY \<Rightarrow> wait MHD_EVENT_LOOP_INFO_WRITE c
      | MHD_CONNECTION_NORMAL_BODY_UNREADY \<Rightarrow> wait MHD_EVENT_LOOP_INFO_BLOCK c
      | MHD_CONNECTION_CHUNKED_BODY_READY \<Rightarrow> wait MHD_EVENT_LOOP_INFO_WRITE c
      | MHD_CONNECTION_CHUNKED_BODY_UNREADY \<Rightarrow> wait MHD_EVENT_LOOP_INFO_BLOCK c
      | MHD_CONNECTION_FOOTERS_SENDING \<Rightarrow> wait MHD_EVENT_LOOP_INFO_WRITE c
      | MHD_CONNECTION_CLOSED \<Rightarrow> wait MHD_EVENT_LOOP_INFO_CLEANUP c
      | _ \<Rightarrow> None)"

partial_function (option) event_info_loop :: "'a MHD_Daemon \<Rightarrow> 'a MHD_Connection \<Rightarrow> 'a MHD_Connection option" where
  [code]: "event_info_loop daemon c = do {
     (c, again) \<leftarrow> event_info daemon c;
     if again then event_info_loop daemon c else Some c
   }"

definition MHD_connection_update_event_loop_info :: "'a MHD_Daemon \<Rightarrow> 'a MHD_Connection \<Rightarrow> 'a MHD_Connection option" where
  "MHD_connection_update_event_loop_info daemon c = (if suspended c then Some c else event_info_loop daemon c)"

section \<open>The handlers\<close>

partial_function (option) idle_loop ::
  "bool \<Rightarrow> 'a MHD_Daemon \<Rightarrow> 'a MHD_Connection \<Rightarrow> (bool option \<times> 'a MHD_Connection) option" where
  [code]: "idle_loop upgraded daemon c =
     (if suspended c then Some (None, c)
      else do {
        s \<leftarrow> idle_case upgraded daemon c;
        (case s of
           Idle_again c \<Rightarrow> idle_loop upgraded daemon c
         | Idle_leave c \<Rightarrow> Some (None, c)
         | Idle_return ret c \<Rightarrow> Some (Some ret, c))
      })"

definition MHD_connection_handle_idle ::
  "bool \<Rightarrow> 'a MHD_Daemon \<Rightarrow> 'a MHD_Connection \<Rightarrow> (bool \<times> 'a MHD_Connection) option" where
  "MHD_connection_handle_idle upgraded daemon connection = do {
     (r, c) \<leftarrow> idle_loop upgraded daemon connection;
     (case r of
        Some ret \<Rightarrow> Some (ret, c)
      | None \<Rightarrow>
          if \<not> suspended c \<and> connection_timeout c \<noteq> 0 \<and> connection_timeout c < monotonic_sec daemon - last_activity c
          then Some (True, MHD_connection_close daemon c MHD_REQUEST_TERMINATED_TIMEOUT_REACHED)
          else map_option (Pair True) (MHD_connection_update_event_loop_info daemon c))
   }"

text \<open>What the socket gives: bytes, of which there are none when the client has closed the connection, nothing yet, or an error.\<close>

datatype recv_result = Received string | Recv_again | Recv_error

definition after_read :: "'a MHD_Daemon \<Rightarrow> 'a MHD_Connection \<Rightarrow> 'a MHD_Connection option" where
  "after_read daemon c =
     (if cstate c \<in> {MHD_CONNECTION_INIT, MHD_CONNECTION_URL_RECEIVED, MHD_CONNECTION_HEADER_PART_RECEIVED,
          MHD_CONNECTION_HEADERS_RECEIVED, MHD_CONNECTION_HEADERS_PROCESSED, MHD_CONNECTION_CONTINUE_SENDING,
          MHD_CONNECTION_CONTINUE_SENT, MHD_CONNECTION_BODY_RECEIVED, MHD_CONNECTION_FOOTER_PART_RECEIVED}
      then Some (if read_closed c then MHD_connection_close daemon c MHD_REQUEST_TERMINATED_READ_ERROR else c)
      else if cstate c = MHD_CONNECTION_CLOSED then Some c
      else if cstate c = MHD_CONNECTION_UPGRADE then None
      else Some (c\<lparr>pool := snd (MHD_pool_reallocate (pool c) (read_buffer_at c) (read_buffer_size c + 1)
             (word_of_nat (length (read_buffer c))))\<rparr>))"

definition MHD_connection_handle_read ::
  "'a MHD_Daemon \<Rightarrow> 'a MHD_Connection \<Rightarrow> recv_result \<Rightarrow> 'a MHD_Connection option" where
  "MHD_connection_handle_read daemon connection res =
     (if cstate connection = MHD_CONNECTION_CLOSED \<or> suspended connection then Some connection
      else
        let c = (if word_of_nat (length (read_buffer connection)) + pool_increment daemon > read_buffer_size connection
                 then snd (try_grow_read_buffer daemon connection) else connection);
            room = read_buffer_size c - word_of_nat (length (read_buffer c)) in
        if room = 0 then Some c
        else (case res of
           Recv_again \<Rightarrow> Some c
         | Recv_error \<Rightarrow> Some (CONNECTION_CLOSE_ERROR daemon c)
         | Received [] \<Rightarrow> Some (MHD_connection_close daemon (c\<lparr>read_closed := True\<rparr>) MHD_REQUEST_TERMINATED_CLIENT_ABORT)
         | Received bs \<Rightarrow> after_read daemon
             (MHD_update_last_activity daemon (c\<lparr>read_buffer := read_buffer c @ take (unat room) bs\<rparr>))))"

text \<open>
  The event handler: what the socket is ready for, and what it then gives. The fast track writes at once in the states in
  which a response is ready.
\<close>

definition write_and_idle ::
  "bool \<Rightarrow> 'a MHD_Daemon \<Rightarrow> send_result \<Rightarrow> bool \<times> 'a MHD_Connection \<Rightarrow> (bool \<times> 'a MHD_Connection) option" where
  "write_and_idle upgraded daemon res rc = do {
     c \<leftarrow> MHD_connection_handle_write daemon (snd rc) res;
     MHD_connection_handle_idle upgraded daemon c
   }"

text \<open>Reading and writing if the connection waits for it; the first part of the result says whether the idle handler has run.\<close>

definition read_event ::
  "bool \<Rightarrow> 'a MHD_Daemon \<Rightarrow> 'a MHD_Connection \<Rightarrow> recv_result option \<Rightarrow> (bool \<times> bool \<times> 'a MHD_Connection) option" where
  "read_event upgraded daemon con read_ready =
     (case read_ready of
        None \<Rightarrow> Some (False, True, con)
      | Some res \<Rightarrow>
          if event_loop_info con = MHD_EVENT_LOOP_INFO_READ
          then do {
            c \<leftarrow> MHD_connection_handle_read daemon con res;
            rc \<leftarrow> MHD_connection_handle_idle upgraded daemon c;
            Some (True, rc)
          }
          else Some (False, True, con))"

definition write_event ::
  "bool \<Rightarrow> 'a MHD_Daemon \<Rightarrow> bool \<times> bool \<times> 'a MHD_Connection \<Rightarrow> send_result option \<Rightarrow> (bool \<times> bool \<times> 'a MHD_Connection) option" where
  "write_event upgraded daemon prc write_ready =
     (case (prc, write_ready) of
        ((_, rc), Some res) \<Rightarrow>
          if event_loop_info (snd rc) = MHD_EVENT_LOOP_INFO_WRITE
          then map_option (Pair True) (write_and_idle upgraded daemon res rc)
          else Some prc
      | _ \<Rightarrow> Some prc)"

definition fast_track ::
  "bool \<Rightarrow> 'a MHD_Daemon \<Rightarrow> (nat \<Rightarrow> send_result) \<Rightarrow> bool \<times> 'a MHD_Connection \<Rightarrow> (bool \<times> 'a MHD_Connection) option" where
  "fast_track upgraded daemon send rc = do {
     rc \<leftarrow> (if cstate (snd rc) = MHD_CONNECTION_HEADERS_SENDING then write_and_idle upgraded daemon (send 0) rc else Some rc);
     (if cstate (snd rc) = MHD_CONNECTION_NORMAL_BODY_READY \<or> cstate (snd rc) = MHD_CONNECTION_CHUNKED_BODY_READY
      then write_and_idle upgraded daemon (send 1) rc else Some rc)
   }"

definition call_handlers ::
  "bool \<Rightarrow> 'a MHD_Daemon \<Rightarrow> 'a MHD_Connection \<Rightarrow> recv_result option \<Rightarrow> send_result option \<Rightarrow> (nat \<Rightarrow> send_result) \<Rightarrow> bool \<Rightarrow> bool
     \<Rightarrow> (bool \<times> 'a MHD_Connection) option" where
  "call_handlers upgraded daemon con read_ready write_ready send sk_nonblck force_close =
     (if force_close
      then MHD_connection_handle_idle upgraded daemon (MHD_connection_close daemon con MHD_REQUEST_TERMINATED_WITH_ERROR)
      else do {
        let on_fasttrack = (cstate con = MHD_CONNECTION_INIT);
        prc \<leftarrow> read_event upgraded daemon con read_ready;
        (states_info_processed, rc) \<leftarrow> write_event upgraded daemon prc write_ready;
        if \<not> states_info_processed then MHD_connection_handle_idle upgraded daemon (snd rc)
        else if on_fasttrack \<and> sk_nonblck then fast_track upgraded daemon send rc
        else Some rc
      })"

end
