(* ===== verification/Connection_Safe.thy ===== *)
theory Connection_Safe
  imports Connection_Idle
begin

text \<open>
  No event makes a connection fail: with an application that keeps its part of the contract, the event handler never
  panics, never uses a null pointer, never violates an assertion and always ends, in every state that a
  sequence of events can lead to.
\<close>

section \<open>The contract of the application\<close>

definition response_ok :: "MHD_Response \<Rightarrow> bool" where
  "response_ok r \<longleftrightarrow> list_all (\<lambda>p. hname p \<noteq> None \<and> hvalue p \<noteq> None) (first_header r)
     \<and> unat (data_size r) \<le> length (rdata r)
     \<and> (crc r = No_reader \<and> \<not> upgrade_handler r \<longrightarrow> data_start r = 0 \<and> data_size r = total_size r)"

text \<open>
  The handler leaves at most the data it was given and queues proper responses, the content reader gives at most the bytes it was
  asked for or one of the two codes, the daemon is not shut down and does not insist on a host header.
\<close>

definition well_behaved :: "'a MHD_Daemon \<Rightarrow> bool" where
  "well_behaved daemon \<longleftrightarrow> \<not> shutdown daemon \<and> strict_for_client daemon < 1
     \<and> (\<forall>c data n. hr_left (default_handler daemon c data n) \<le> n)
     \<and> (\<forall>c data n code r. hr_queue (default_handler daemon c data n) = Some (code, r) \<longrightarrow> response_ok r)
     \<and> (\<forall>c at mx n bs. content_reader_cb daemon c at mx = (n, bs) \<longrightarrow>
          n = MHD_CONTENT_READER_END_OF_STREAM \<or> n = MHD_CONTENT_READER_END_WITH_ERROR
          \<or> n = int (length bs) \<and> length bs \<le> mx)"

text \<open>Responses that are created from memory of the given size are proper, and stay so when headers are added.\<close>

lemma response_ok_data:
  "MHD_create_response_from_data mem copy_mem len d must_free must_copy = Some r \<Longrightarrow>
   (\<And>bs. d = Some bs \<Longrightarrow> unat len \<le> length bs) \<Longrightarrow> response_ok r"
  by (cases d) (auto simp: MHD_create_response_from_data_def response_ok_def zero_response_def Let_def word_gt_0 split: if_splits)

lemma response_ok_buffer:
  "MHD_create_response_from_buffer mem copy_mem (word_of_nat (length bs)) (Some bs) mode = Some r \<Longrightarrow> response_ok r"
  unfolding MHD_create_response_from_buffer_def
  by (erule response_ok_data) (simp add: unsigned_of_nat take_bit_nat_less_eq_self)

lemma response_ok_callback:
  "MHD_create_response_from_callback mem len bs reader fr = Some r \<Longrightarrow> response_ok r"
  by (auto simp: MHD_create_response_from_callback_def response_ok_def zero_response_def split: if_splits)

lemma response_ok_header:
  "MHD_add_response_header mem (Some r) h c = Some (res, Some r') \<Longrightarrow> response_ok r \<Longrightarrow> response_ok r'"
  by (auto simp: MHD_add_response_header_def add_response_entry_def response_ok_def split: if_splits option.splits)

lemma response_ok_increment [simp]: "response_ok (MHD_increment_response_rc r) = response_ok r"
  by (simp add: response_ok_def MHD_increment_response_rc_def)

section \<open>The invariant\<close>

definition named :: "'a MHD_Connection \<Rightarrow> bool" where
  "named c \<longleftrightarrow> req_version c \<noteq> None \<and> req_method c \<noteq> None"

definition replying :: "'a MHD_Connection \<Rightarrow> bool" where
  "replying c \<longleftrightarrow> response c \<noteq> None \<and> req_version c \<noteq> None \<and> (req_method c = None \<longrightarrow> responseCode c \<noteq> 102)"

definition with_body :: "'a MHD_Connection \<Rightarrow> bool" where
  "with_body c \<longleftrightarrow> (\<forall>r. response c = Some r \<longrightarrow> \<not> upgrade_handler r)"

definition buffer_ok :: "'a MHD_Connection \<Rightarrow> bool" where
  "buffer_ok c \<longleftrightarrow> write_buffer_send_offset c \<le> write_buffer_append_offset c
     \<and> write_buffer_append_offset c \<le> length (write_buffer c)"

definition buffer_empty :: "'a MHD_Connection \<Rightarrow> bool" where
  "buffer_empty c \<longleftrightarrow> write_buffer_send_offset c = 0 \<and> write_buffer_append_offset c = 0"

definition chunk_space :: "'a MHD_Connection \<Rightarrow> bool" where
  "chunk_space c \<longleftrightarrow> write_buffer_size c = 0 \<or> 128 \<le> length (write_buffer c)"

definition state_ok :: "'a MHD_Connection \<Rightarrow> bool" where
  "state_ok c = (case cstate c of
     MHD_CONNECTION_INIT \<Rightarrow> True
   | MHD_CONNECTION_URL_RECEIVED \<Rightarrow> named c
   | MHD_CONNECTION_HEADER_PART_RECEIVED \<Rightarrow> named c \<and> last_line c \<noteq> None \<and> colon c \<noteq> None
   | MHD_CONNECTION_HEADERS_RECEIVED \<Rightarrow> named c
   | MHD_CONNECTION_HEADERS_PROCESSED \<Rightarrow> named c
   | MHD_CONNECTION_CONTINUE_SENDING \<Rightarrow> named c
   | MHD_CONNECTION_CONTINUE_SENT \<Rightarrow> named c
   | MHD_CONNECTION_BODY_RECEIVED \<Rightarrow> named c
   | MHD_CONNECTION_FOOTER_PART_RECEIVED \<Rightarrow> named c \<and> last_line c \<noteq> None \<and> colon c \<noteq> None
   | MHD_CONNECTION_FOOTERS_RECEIVED \<Rightarrow> named c
   | MHD_CONNECTION_HEADERS_SENDING \<Rightarrow> replying c \<and> buffer_ok c
   | MHD_CONNECTION_HEADERS_SENT \<Rightarrow> replying c \<and> buffer_empty c \<and> chunk_space c
   | MHD_CONNECTION_NORMAL_BODY_READY \<Rightarrow> replying c \<and> with_body c
   | MHD_CONNECTION_NORMAL_BODY_UNREADY \<Rightarrow> replying c \<and> with_body c
   | MHD_CONNECTION_CHUNKED_BODY_READY \<Rightarrow> replying c \<and> with_body c \<and> buffer_ok c
   | MHD_CONNECTION_CHUNKED_BODY_UNREADY \<Rightarrow> replying c \<and> with_body c \<and> buffer_empty c \<and> chunk_space c
   | MHD_CONNECTION_BODY_SENT \<Rightarrow> replying c
   | MHD_CONNECTION_FOOTERS_SENDING \<Rightarrow> replying c \<and> buffer_ok c
   | MHD_CONNECTION_FOOTERS_SENT \<Rightarrow> replying c
   | MHD_CONNECTION_CLOSED \<Rightarrow> True
   | MHD_CONNECTION_UPGRADE \<Rightarrow> suspended c)"

definition conn_ok :: "'a MHD_Connection \<Rightarrow> bool" where
  "conn_ok c \<longleftrightarrow> (\<forall>r. response c = Some r \<longrightarrow> response_ok r) \<and> state_ok c"

lemmas ok_defs = conn_ok_def state_ok_def named_def replying_def with_body_def buffer_ok_def buffer_empty_def chunk_space_def

text \<open>The invariant does not depend on the pool, on the values of the request and on the read buffer.\<close>

lemma conn_ok_irrelevant [simp]:
  "conn_ok (c\<lparr>pool := p\<rparr>) = conn_ok c" "conn_ok (c\<lparr>headers_received := hs\<rparr>) = conn_ok c" "conn_ok (c\<lparr>read_buffer := s\<rparr>) = conn_ok c"
  "conn_ok (c\<lparr>read_buffer_at := at\<rparr>) = conn_ok c" "conn_ok (c\<lparr>read_buffer_size := n\<rparr>) = conn_ok c"
  "conn_ok (c\<lparr>last_activity := t\<rparr>) = conn_ok c" "conn_ok (c\<lparr>event_loop_info := i\<rparr>) = conn_ok c"
  by (cases "cstate c"; simp add: ok_defs)+

section \<open>Closing\<close>

lemma notify_end_fields [simp]:
  "cstate (notify_end d c k) = cstate c" "response (notify_end d c k) = response c" "read_buffer (notify_end d c k) = read_buffer c"
  "suspended (notify_end d c k) = suspended c" "req_version (notify_end d c k) = req_version c"
  "req_method (notify_end d c k) = req_method c" "event_loop_info (notify_end d c k) = event_loop_info c"
  "read_closed (notify_end d c k) = read_closed c" "keepalive (notify_end d c k) = keepalive c"
  by (auto simp: notify_end_def split: option.splits)

lemma close_fields [simp]:
  "cstate (MHD_connection_close d c k) = MHD_CONNECTION_CLOSED" "response (MHD_connection_close d c k) = None"
  "event_loop_info (MHD_connection_close d c k) = MHD_EVENT_LOOP_INFO_CLEANUP"
  "read_buffer (MHD_connection_close d c k) = read_buffer c" "suspended (MHD_connection_close d c k) = suspended c"
  "req_version (MHD_connection_close d c k) = req_version c" "req_method (MHD_connection_close d c k) = req_method c"
  by (simp_all add: MHD_connection_close_def MHD_connection_mark_closed_def)

lemma close_error_fields [simp]:
  "cstate (CONNECTION_CLOSE_ERROR d c) = MHD_CONNECTION_CLOSED" "response (CONNECTION_CLOSE_ERROR d c) = None"
  "event_loop_info (CONNECTION_CLOSE_ERROR d c) = MHD_EVENT_LOOP_INFO_CLEANUP"
  "read_buffer (CONNECTION_CLOSE_ERROR d c) = read_buffer c" "suspended (CONNECTION_CLOSE_ERROR d c) = suspended c"
  "req_version (CONNECTION_CLOSE_ERROR d c) = req_version c" "req_method (CONNECTION_CLOSE_ERROR d c) = req_method c"
  by (simp_all add: CONNECTION_CLOSE_ERROR_def)

lemma closed_ok: "cstate c = MHD_CONNECTION_CLOSED \<Longrightarrow> response c = None \<Longrightarrow> conn_ok c"
  by (simp add: ok_defs)

lemma close_ok [simp, intro]: "conn_ok (MHD_connection_close d c k)" "conn_ok (CONNECTION_CLOSE_ERROR d c)"
  by (simp_all add: closed_ok)

lemma last_activity_fields [simp]:
  "cstate (MHD_update_last_activity d c) = cstate c" "read_buffer (MHD_update_last_activity d c) = read_buffer c"
  "suspended (MHD_update_last_activity d c) = suspended c" "event_loop_info (MHD_update_last_activity d c) = event_loop_info c"
  "response (MHD_update_last_activity d c) = response c"
  "req_version (MHD_update_last_activity d c) = req_version c" "req_method (MHD_update_last_activity d c) = req_method c"
  "responseCode (MHD_update_last_activity d c) = responseCode c"
  by (simp_all add: MHD_update_last_activity_def)

lemma last_activity_ok [simp]: "conn_ok (MHD_update_last_activity d c) = conn_ok c"
  by (simp add: MHD_update_last_activity_def)

section \<open>Building the header\<close>

text \<open>The parts of a connection that building a header does not change.\<close>

definition untouched :: "'a MHD_Connection \<Rightarrow> 'a MHD_Connection \<Rightarrow> bool" where
  "untouched c c' \<longleftrightarrow> response c' = response c \<and> cstate c' = cstate c \<and> req_version c' = req_version c
     \<and> req_method c' = req_method c \<and> responseCode c' = responseCode c \<and> read_buffer c' = read_buffer c
     \<and> suspended c' = suspended c \<and> event_loop_info c' = event_loop_info c"

lemma header_flags_fields:
  assumes "header_flags c r v rc = (f, c')"
  shows "\<not> (must_add_close f \<and> must_add_keep_alive f)" "\<not> (must_add_chunked_encoding f \<and> must_add_content_length f)"
    "untouched c c'"
  using assms
  by (auto simp: header_flags_def unknown_size_def untouched_def Let_def split: if_splits option.splits)

lemma print_entries_total:
  "length data + sum_list (map entry_size ps) < sz \<Longrightarrow>
   print_entries sz ps data = Some (data @ concat (map entry_line ps))"
  by (induction ps arbitrary: data) (auto simp: entry_size_def entry_line_def)

lemma entries_length: "length (concat (map entry_line ps)) = sum_list (map entry_size ps)"
  by (induction ps) (simp_all add: entry_size_def entry_line_def)

text \<open>What the write buffer holds when there was enough memory.\<close>

definition header_block :: "MHD_Response \<Rightarrow> u32 \<Rightarrow> reply_flags \<Rightarrow> string \<Rightarrow> string \<Rightarrow> string" where
  "header_block r kind f code date =
     code @ added_lines f (total_size r) @ concat (map entry_line (filter (printed f kind) (first_header r))) @ date @ CRLF"

lemma fill_header_total:
  assumes "response_ok r" "\<not> (must_add_close f \<and> must_add_keep_alive f)" "\<not> (must_add_chunked_encoding f \<and> must_add_content_length f)"
  shows "(\<exists>p. fill_header c r kind f code date = Some (False, c\<lparr>pool := p\<rparr>))
    \<or> (\<exists>p at. fill_header c r kind f code date = Some (True, c\<lparr>pool := p, write_buffer := header_block r kind f code date @ [NUL],
         write_buffer_at := at, write_buffer_size := word_of_nat (length (header_block r kind f code date) + 1),
         write_buffer_append_offset := length (header_block r kind f code date), write_buffer_send_offset := 0\<rparr>))"
proof -
  define es where "es = filter (printed f kind) (first_header r)"
  define h where "h = header_block r kind f code date"
  define sz where "sz = length code + 2 + length date + length (added_lines f (total_size r)) + sum_list (map entry_size es)"
  have some: "\<not> list_ex (\<lambda>p. hkind p = kind \<and> (hname p = None \<or> hvalue p = None)) (first_header r)"
    using assms(1) by (auto simp: response_ok_def list_ex_iff list_all_iff)
  have pr: "print_entries sz es (code @ added_lines f (total_size r)) = Some ((code @ added_lines f (total_size r)) @ concat (map entry_line es))"
    by (rule print_entries_total) (simp add: sz_def)
  have h: "((code @ added_lines f (total_size r)) @ concat (map entry_line es)) @ date @ CRLF = h"
    by (simp add: h_def header_block_def es_def)
  have len: "length h = sz"
    by (simp add: h_def header_block_def sz_def flip: es_def) (simp add: entries_length)
  have "fill_header c r kind f code date = (case MHD_pool_allocate (pool c) (word_of_nat (sz + 1)) False of
      (None, p) \<Rightarrow> Some (False, c\<lparr>pool := p\<rparr>)
    | (at, p) \<Rightarrow> Some (True, c\<lparr>pool := p, write_buffer := h @ [NUL], write_buffer_at := at, write_buffer_size := word_of_nat (sz + 1),
        write_buffer_append_offset := sz, write_buffer_send_offset := 0\<rparr>))"
    unfolding fill_header_def Let_def es_def [symmetric] sz_def [symmetric] pr option.case h len
    using some assms(2,3) by (auto split: option.split prod.split)
  then show ?thesis
    unfolding h_def [symmetric] len
    by (cases "MHD_pool_allocate (pool c) (word_of_nat (sz + 1)) False") (auto split: option.splits)
qed


lemma build_header_total:
  assumes "response c = Some r" "response_ok r" "req_version c = Some v"
    "cstate c = MHD_CONNECTION_FOOTERS_RECEIVED \<or> cstate c = MHD_CONNECTION_BODY_SENT"
  shows "\<exists>ok c'. build_header_response d c = Some (ok, c') \<and> (ok \<longrightarrow> buffer_ok c') \<and> untouched c c'"
proof -
  have fill: "\<exists>ok c'. fill_header c1 r kind f code date = Some (ok, c') \<and> (ok \<longrightarrow> buffer_ok c') \<and> untouched c c'"
    if "\<not> (must_add_close f \<and> must_add_keep_alive f)" "\<not> (must_add_chunked_encoding f \<and> must_add_content_length f)" "untouched c c1"
    for c1 kind f code date
    using fill_header_total [OF assms(2) that(1,2), of c1 kind code date] that(3) by (auto simp: buffer_ok_def untouched_def)
  consider "peek v = NUL" | "peek v \<noteq> NUL" "cstate c = MHD_CONNECTION_FOOTERS_RECEIVED" | "peek v \<noteq> NUL" "cstate c = MHD_CONNECTION_BODY_SENT"
    using assms(4) by blast
  then show ?thesis
  proof cases
    case 1
    then show ?thesis
      using assms(1,3) by (cases "MHD_pool_allocate (pool c) 0 True") (auto simp: build_header_response_def buffer_ok_def untouched_def)
  next
    case 2
    let ?rc = "responseCode c AND NOT MHD_ICY_FLAG"
    obtain code where code: "status_line c r v ?rc = Some code"
      using reason_phrase_total [of ?rc] by (auto simp: status_line_def)
    obtain f c1 where f: "header_flags c r v ?rc = (f, c1)" by fastforce
    note fl = header_flags_fields [OF f]
    have "untouched c (c1\<lparr>keepalive := update_keepalive f (keepalive c1)\<rparr>)" using fl(3) by (simp add: untouched_def)
    from fill [OF fl(1,2) this] show ?thesis
      using 2 assms(1,3) code f by (simp add: build_header_response_def Let_def)
  next
    case 3
    have "untouched c (c\<lparr>keepalive := update_keepalive no_flags (keepalive c)\<rparr>)" by (simp add: untouched_def)
    from fill [OF _ _ this, of no_flags MHD_FOOTER_KIND "[]" "[]"] show ?thesis
      using 3 assms(1,3) by (simp add: build_header_response_def Let_def no_flags_def)
  qed
qed

section \<open>Error responses\<close>

text \<open>What an error leaves: the reply is being sent or the connection is closed.\<close>

definition failed :: "'a MHD_Connection \<Rightarrow> 'a MHD_Connection \<Rightarrow> bool" where
  "failed c c' \<longleftrightarrow> conn_ok c' \<and> (cstate c' = MHD_CONNECTION_HEADERS_SENDING \<or> cstate c' = MHD_CONNECTION_CLOSED)
     \<and> read_buffer c' = read_buffer c \<and> suspended c' = suspended c
     \<and> (req_method c \<noteq> None \<longrightarrow> named c')"

lemma queue_error_response:
  assumes "\<not> shutdown d" "response c = None" "cstate c = MHD_CONNECTION_FOOTERS_RECEIVED" "\<not> upgrade_handler r"
  shows "\<exists>c'. MHD_queue_response d c code (Some r) = (True, c') \<and> response c' = Some (MHD_increment_response_rc r)
    \<and> cstate c' = cstate c \<and> responseCode c' = code \<and> read_buffer c' = read_buffer c \<and> suspended c' = suspended c
    \<and> req_version c' = req_version c \<and> req_method c' = req_method c"
  using assms by (auto simp: MHD_queue_response_def Let_def)

lemma error_body_ok:
  "MHD_create_response_from_buffer mem True (word_of_nat (length msg)) (Some (map byte_of_char msg)) mode = Some r \<Longrightarrow>
   response_ok r \<and> \<not> upgrade_handler r"
  using response_ok_buffer [of mem True "map byte_of_char msg" mode r]
  by (auto simp: MHD_create_response_from_buffer_def MHD_create_response_from_data_def zero_response_def Let_def split: if_splits)

lemma transmit_error_total:
  assumes "\<not> shutdown d" "code \<noteq> 102"
  shows "\<exists>c'. transmit_error_response d c code msg = Some c' \<and> failed c c'"
proof -
  define c1 where "c1 = c\<lparr>req_version := (case req_version c of None \<Rightarrow> Some MHD_HTTP_VERSION_1_0 | Some v \<Rightarrow> Some v),
            cstate := MHD_CONNECTION_FOOTERS_RECEIVED, read_closed := True, response := None\<rparr>"
  obtain v where v: "req_version c1 = Some v" by (cases "req_version c") (simp_all add: c1_def)
  have c1: "cstate c1 = MHD_CONNECTION_FOOTERS_RECEIVED" "response c1 = None" "read_buffer c1 = read_buffer c"
    "suspended c1 = suspended c" "req_method c1 = req_method c" by (simp_all add: c1_def)
  show ?thesis
  proof (cases "MHD_create_response_from_buffer (response_mem d) True (word_of_nat (length msg)) (Some (map byte_of_char msg)) MHD_RESPMEM_PERSISTENT")
    case None
    then show ?thesis using c1 v
      by (simp add: transmit_error_response_def failed_def ok_defs flip: c1_def)
  next
    case (Some r)
    note r = error_body_ok [OF Some]
    obtain c2 where c2: "MHD_queue_response d c1 code (Some r) = (True, c2)" "response c2 = Some (MHD_increment_response_rc r)"
      "cstate c2 = cstate c1" "responseCode c2 = code" "read_buffer c2 = read_buffer c1" "suspended c2 = suspended c1"
      "req_version c2 = req_version c1" "req_method c2 = req_method c1"
      using queue_error_response [OF assms(1) c1(2,1) conjunct2 [OF r]] by blast
    let ?c = "c2\<lparr>keepalive := MHD_CONN_MUST_CLOSE\<rparr>"
    have "\<exists>ok c'. build_header_response d ?c = Some (ok, c') \<and> (ok \<longrightarrow> buffer_ok c') \<and> untouched ?c c'"
      using r c1 c2 v by (intro build_header_total [where r = "MHD_increment_response_rc r" and v = v]) simp_all
    then obtain ok c3 where c3: "build_header_response d ?c = Some (ok, c3)" "ok \<longrightarrow> buffer_ok c3" "untouched ?c c3" by blast
    show ?thesis
      using Some c1 c2 c3 r v assms(2)
      by (auto simp: transmit_error_response_def failed_def ok_defs untouched_def simp flip: c1_def)
  qed
qed

section \<open>Receiving the request\<close>

lemma grow_fields:
  assumes "try_grow_read_buffer d c = (ok, c')"
  shows "cstate c' = cstate c" "read_buffer c' = read_buffer c" "suspended c' = suspended c" "conn_ok c' = conn_ok c"
    "req_method c' = req_method c" "read_closed c' = read_closed c"
  using assms
  by (auto simp: try_grow_read_buffer_def Let_def split: prod.splits option.splits)

text \<open>A line is taken from the read buffer.\<close>

definition consumed :: "'a MHD_Connection \<Rightarrow> 'a MHD_Connection \<Rightarrow> bool" where
  "consumed c c' \<longleftrightarrow> (\<exists>rest a sz. length rest < length (read_buffer c)
     \<and> c' = c\<lparr>read_buffer := rest, read_buffer_at := a, read_buffer_size := sz\<rparr>)"

lemma consumedI: "length rest < length (read_buffer c) \<Longrightarrow> consumed c (c\<lparr>read_buffer := rest, read_buffer_at := a, read_buffer_size := sz\<rparr>)"
  unfolding consumed_def by blast

lemma consumed_fields:
  assumes "consumed c c'"
  shows "cstate c' = cstate c" "length (read_buffer c') < length (read_buffer c)" "suspended c' = suspended c" "conn_ok c' = conn_ok c"
    "named c' = named c" "response c' = response c" "last_line c' = last_line c" "colon c' = colon c" "req_method c' = req_method c"
  using assms by (auto simp: consumed_def named_def)

text \<open>Either no line is complete and nothing changes but the buffer, or there was an error, or a line is taken.\<close>

definition line_result :: "'a MHD_Connection \<Rightarrow> header_line option \<Rightarrow> 'a MHD_Connection \<Rightarrow> bool" where
  "line_result c l c' = (case l of
     None \<Rightarrow> cstate c' = cstate c \<and> conn_ok c' \<and> read_buffer c' = read_buffer c \<and> suspended c' = suspended c \<or> failed c c'
   | Some h \<Rightarrow> consumed c c')"

lemma next_line_total:
  assumes "\<not> shutdown d" "conn_ok c"
  shows "\<exists>l c'. get_next_header_line d c = Some (l, c') \<and> line_result c l c'"
proof -
  obtain ok c1 where g: "try_grow_read_buffer d c = (ok, c1)" by fastforce
  have n: "(if req_url c1 \<noteq> None then 431 else 414 :: u32) \<noteq> 102" by simp
  obtain c2 where t: "transmit_error_response d c1 (if req_url c1 \<noteq> None then 431 else 414) REQUEST_TOO_BIG = Some c2" "failed c1 c2"
    using transmit_error_total [OF assms(1) n] by blast
  have f: "failed c c2" using t(2) grow_fields [OF g] by (simp add: failed_def)
  have taken: "consumed c (c\<lparr>read_buffer := drop k (read_buffer c), read_buffer_at := a, read_buffer_size := sz\<rparr>)"
    if "read_buffer c \<noteq> []" "0 < k" for k a sz
    using that by (intro consumedI) simp
  show ?thesis
    using assms(2) g t(1) f grow_fields(1-4) [OF g] taken
    by (cases ok) (simp_all add: get_next_header_line_def line_result_def Let_def)
qed

text \<open>Only the values of the request are changed.\<close>

definition valued :: "'a MHD_Connection \<Rightarrow> 'a MHD_Connection \<Rightarrow> bool" where
  "valued c c' \<longleftrightarrow> (\<exists>p hs. c' = c\<lparr>pool := p, headers_received := hs\<rparr>)"

lemma valued_refl [simp]: "valued c c"
  unfolding valued_def by (intro exI [of _ "pool c"] exI [of _ "headers_received c"]) simp

lemma valued_pool [simp]: "valued c (c\<lparr>pool := p\<rparr>)"
  unfolding valued_def by (intro exI [of _ p] exI [of _ "headers_received c"]) simp

lemma valued_both [simp]: "valued c (c\<lparr>pool := p, headers_received := hs\<rparr>)"
  unfolding valued_def by blast

lemma valued_trans: "valued c c1 \<Longrightarrow> valued c1 c2 \<Longrightarrow> valued c c2"
  unfolding valued_def by (elim exE, simp, intro exI, rule refl)

lemma valued_fields:
  assumes "valued c c'"
  shows "cstate c' = cstate c" "read_buffer c' = read_buffer c" "suspended c' = suspended c" "conn_ok c' = conn_ok c"
    "named c' = named c" "response c' = response c" "last_line c' = last_line c" "colon c' = colon c"
    "req_method c' = req_method c" "failed c' c2 = failed c c2"
  using assms by (auto simp: valued_def failed_def named_def)

definition added_or_failed :: "'a MHD_Connection \<Rightarrow> bool \<Rightarrow> 'a MHD_Connection \<Rightarrow> bool" where
  "added_or_failed c ok c' \<longleftrightarrow> (if ok then valued c c' else failed c c')"

lemma added_trans: "valued c c1 \<Longrightarrow> added_or_failed c1 ok c2 \<Longrightarrow> added_or_failed c ok c2"
  by (cases ok) (simp_all add: added_or_failed_def valued_fields(10), rule valued_trans)

lemma add_header_total:
  assumes "\<not> shutdown d"
  shows "\<exists>ok c'. connection_add_header d c key val kind = Some (ok, c') \<and> added_or_failed c ok c'"
proof -
  obtain ok c1 where s: "MHD_set_connection_value c kind key val = (ok, c1)" by fastforce
  then have v: "valued c c1"
    by (auto simp: MHD_set_connection_value_def split: prod.splits option.splits)
  obtain c2 where "transmit_error_response d c1 431 REQUEST_TOO_BIG = Some c2" "failed c1 c2"
    using transmit_error_total [OF assms, of 431 c1 REQUEST_TOO_BIG] by auto
  then show ?thesis using s v valued_fields(10) [OF v]
    by (cases ok) (auto simp: connection_add_header_def added_or_failed_def)
qed

text \<open>The continuation after a successful step keeps what the step reached.\<close>

lemma added_then:
  assumes "\<exists>ok c'. m = Some (ok, c') \<and> added_or_failed c ok c'"
    "\<And>c'. m = Some (True, c') \<Longrightarrow> valued c c' \<Longrightarrow> \<exists>ok c2. k c' = Some (ok, c2) \<and> added_or_failed c' ok c2"
  shows "\<exists>ok c'. (case m of Some (True, c') \<Rightarrow> k c' | r \<Rightarrow> r) = Some (ok, c') \<and> added_or_failed c ok c'"
proof -
  obtain ok c1 where m: "m = Some (ok, c1)" "added_or_failed c ok c1" using assms(1) by blast
  show ?thesis
  proof (cases ok)
    case True
    then have v: "valued c c1" using m(2) by (simp add: added_or_failed_def)
    obtain ok2 c2 where k: "k c1 = Some (ok2, c2)" "added_or_failed c1 ok2 c2" using assms(2) [OF _ v] m(1) True by blast
    show ?thesis using m(1) True k(1) added_trans [OF v k(2)] by simp
  next
    case False
    then show ?thesis using m by auto
  qed
qed

lemma cookie_loop_total:
  assumes "\<not> shutdown d"
  shows "\<exists>ok c'. cookie_loop d c tx = Some (ok, c') \<and> added_or_failed c ok c'"
  using assms
proof (induction d c tx rule: cookie_loop.induct)
  case (1 d c tx)
  let ?pos = "dropWhile (\<lambda>c. c = CHR '' '') tx"
  let ?sce = "cookie_key_end ?pos" and ?key = "strip_end (take (cookie_key_end ?pos) ?pos)"
  let ?equals = "drop (?sce + 1) ?pos"
  let ?n = "cookie_value_end False ?equals"
  note add = add_header_total [OF 1(3), of c "Some ?key"]
  consider "?sce = length ?pos" | "?sce \<noteq> length ?pos" "?pos ! ?sce \<noteq> CHR ''=''" | "?sce \<noteq> length ?pos" "?pos ! ?sce = CHR ''=''" by blast
  then show ?case
  proof cases
    case 1
    then show ?thesis using add by (simp add: cookie_loop.simps [of d c tx] Let_def)
  next
    case 2
    have "\<exists>ok c'. (case connection_add_header d c (Some ?key) (Some []) MHD_COOKIE_KIND of
        Some (True, c') \<Rightarrow> cookie_loop d c' (drop (?sce + 1) ?pos) | r \<Rightarrow> r) = Some (ok, c') \<and> added_or_failed c ok c'"
      by (rule added_then [OF add]) (use 1 2 in auto)
    then show ?thesis using 2 by (simp add: cookie_loop.simps [of d c tx] Let_def)
  next
    case 3
    have "\<exists>ok c'. (case connection_add_header d c (Some ?key) (Some (unquote (take ?n ?equals))) MHD_COOKIE_KIND of
        Some (True, c') \<Rightarrow> (if ?n = length ?equals then Some (True, c') else cookie_loop d c' (drop (?n + 1) ?equals)) | r \<Rightarrow> r)
        = Some (ok, c') \<and> added_or_failed c ok c'"
      by (rule added_then [OF add]) (use 1 3 in \<open>auto simp: added_or_failed_def\<close>)
    then show ?thesis unfolding cookie_loop.simps [of d c tx] Let_def using 3 by (simp only: if_False if_True simp_thms)
  qed
qed


lemma parse_cookie_total:
  assumes "\<not> shutdown d"
  shows "\<exists>ok c'. parse_cookie_header d c = Some (ok, c') \<and> added_or_failed c ok c'"
proof (cases "MHD_lookup_connection_value (Some c) MHD_HEADER_KIND (Some ''Cookie'')")
  case None
  then show ?thesis by (auto simp: parse_cookie_header_def added_or_failed_def)
next
  case (Some hdr)
  obtain a p where a: "MHD_pool_allocate (pool c) (word_of_nat (length hdr + 1)) True = (a, p)" by fastforce
  let ?c = "c\<lparr>pool := p\<rparr>"
  have v: "valued c ?c" by simp
  obtain c2 where t: "transmit_error_response d ?c 431 REQUEST_TOO_BIG = Some c2" "failed ?c c2"
    using transmit_error_total [OF assms, of 431 ?c REQUEST_TOO_BIG] by auto
  obtain ok c3 where l: "cookie_loop d ?c hdr = Some (ok, c3)" "added_or_failed ?c ok c3"
    using cookie_loop_total [OF assms] by blast
  show ?thesis
    using added_trans [OF v l(2)] Some a t l(1) valued_fields(10) [OF v]
    by (cases a) (auto simp: parse_cookie_header_def added_or_failed_def)
qed

lemma feed_total:
  assumes "\<not> shutdown d"
  shows "\<exists>ok c' m. feed (argument_cb d) kind kvs (Some c) n = (ok, Some c', m) \<and> added_or_failed c ok c'"
proof (induction kvs arbitrary: c n)
  case Nil
  show ?case by (auto simp: added_or_failed_def)
next
  case (Cons kv kvs)
  obtain ok c1 where a: "connection_add_header d c (Some (fst kv)) (snd kv) kind = Some (ok, c1)" "added_or_failed c ok c1"
    using add_header_total [OF assms] by blast
  have cb: "argument_cb d (Some c) (fst kv) (snd kv) kind = (ok, Some c1)" using a(1) by (simp add: argument_cb_def)
  show ?case
  proof (cases ok)
    case True
    then have "valued c c1" using a(2) by (simp add: added_or_failed_def)
    then show ?thesis using cb True Cons.IH [of c1 "n + 1"] added_trans by (cases kv) fastforce
  next
    case False
    then show ?thesis using cb a(2) by (cases kv) auto
  qed
qed

text \<open>The request line sets the method and the version; the state is changed only by an error.\<close>

definition line_parsed :: "'a MHD_Connection \<Rightarrow> 'a MHD_Connection \<Rightarrow> bool" where
  "line_parsed c c' \<longleftrightarrow> named c' \<and> (\<forall>r. response c' = Some r \<longrightarrow> response_ok r) \<and> read_buffer c' = read_buffer c
     \<and> suspended c' = suspended c"

lemma added_parsed:
  assumes "added_or_failed c1 ok c2" "named c1" "\<forall>r. response c1 = Some r \<longrightarrow> response_ok r"
  shows "line_parsed c1 c2"
proof (cases ok)
  case True
  then show ?thesis using assms valued_fields [of c1 c2] by (auto simp: added_or_failed_def line_parsed_def)
next
  case False
  then show ?thesis using assms by (auto simp: added_or_failed_def line_parsed_def failed_def conn_ok_def named_def)
qed

lemma arguments_total:
  assumes "\<not> shutdown d"
  shows "\<exists>ok c' m. MHD_parse_arguments (unescape_cb d) (Some c) kind (Some (c_str x)) (argument_cb d) = (ok, Some c', m)
    \<and> added_or_failed c ok c'"
  using feed_total [OF assms] by (simp add: MHD_parse_arguments_def parse_arguments_loop_correct c_str_props(1))

lemma add_arguments_total:
  assumes "\<not> shutdown d" "named c" "\<forall>r. response c = Some r \<longrightarrow> response_ok r"
  shows "\<exists>c'. add_arguments d uri c = Some c' \<and> line_parsed c c'"
proof (cases "Option.bind uri (\<lambda>u. memchr u CHR ''?'')")
  case None
  then show ?thesis using assms(2,3) by (simp add: add_arguments_def line_parsed_def)
next
  case (Some q)
  then show ?thesis
    using arguments_total [OF assms(1), of c MHD_GET_ARGUMENT_KIND "drop (q + 1) (the uri)"] added_parsed [OF _ assms(2,3)]
    by (auto simp: add_arguments_def)
qed

lemma parse_line_total:
  assumes "\<not> shutdown d" "conn_ok c"
  shows "\<exists>ok c'. parse_initial_message_line d c line = Some (ok, c') \<and> read_buffer c' = read_buffer c \<and> suspended c' = suspended c
    \<and> (ok \<longrightarrow> line_parsed c c')"
proof -
  have arg: "\<exists>c'. add_arguments d uri (log_uri d uri (c\<lparr>req_method := Some m, req_version := Some v\<rparr>)) = Some c'
      \<and> named c' \<and> (\<forall>r. response c' = Some r \<longrightarrow> response_ok r) \<and> read_buffer c' = read_buffer c \<and> suspended c' = suspended c" for uri m v
  proof -
    let ?c = "log_uri d uri (c\<lparr>req_method := Some m, req_version := Some v\<rparr>)"
    have "named ?c" "\<forall>r. response ?c = Some r \<longrightarrow> response_ok r" "read_buffer ?c = read_buffer c" "suspended ?c = suspended c"
      using assms(2) by (auto simp: log_uri_def named_def conn_ok_def split: option.split)
    then show ?thesis using add_arguments_total [OF assms(1), of ?c uri] by (auto simp: line_parsed_def)
  qed
  show ?thesis
  proof (cases "memchr line CHR '' ''")
    case None
    then show ?thesis by (auto simp: parse_initial_message_line_def)
  next
    case (Some k)
    obtain uri v where u: "(if dropWhile (\<lambda>c. c = CHR '' '') (drop (k + 1) line) = [] then (None, [])
        else map_prod Some id (split_version (dropWhile (\<lambda>c. c = CHR '' '') (drop (k + 1) line)))) = (uri, v)" by fastforce
    show ?thesis
      unfolding parse_initial_message_line_def Some option.case Let_def u prod.case
      using arg [where uri = uri and m = "c_str (take k line)" and v = "c_str v"] by (auto simp: line_parsed_def named_def)
  qed
qed

text \<open>A header line sets \<^verbatim>\<open>last\<close> and \<^verbatim>\<open>colon\<close>, or is refused.\<close>

definition header_set :: "'a MHD_Connection \<Rightarrow> 'a MHD_Connection \<Rightarrow> bool" where
  "header_set c c' \<longleftrightarrow> (\<exists>l a v. c' = c\<lparr>last_line := Some l, last_at := a, colon := Some v\<rparr>)"

lemma header_set_fields:
  assumes "header_set c c'"
  shows "last_line c' \<noteq> None" "colon c' \<noteq> None" "cstate c' = cstate c" "read_buffer c' = read_buffer c" "suspended c' = suspended c"
    "named c' = named c" "response c' = response c"
  using assms by (auto simp: header_set_def named_def)

lemma failed_same:
  "failed c1 c2 \<Longrightarrow> read_buffer c1 = read_buffer c \<Longrightarrow> suspended c1 = suspended c \<Longrightarrow> req_method c1 = req_method c \<Longrightarrow> failed c c2"
  by (simp add: failed_def)

lemma header_line_total:
  assumes "\<not> shutdown d"
  shows "\<exists>ok c'. process_header_line d c line at = (ok, c') \<and> (ok \<longrightarrow> header_set c c')
    \<and> (\<not> ok \<longrightarrow> (\<exists>c2. transmit_error_response d c' 400 REQUEST_MALFORMED = Some c2 \<and> failed c c2))"
proof -
  obtain ok c' where p: "process_header_line d c line at = (ok, c')" by fastforce
  obtain c2 where t: "transmit_error_response d c' 400 REQUEST_MALFORMED = Some c2" "failed c' c2"
    using transmit_error_total [OF assms, of 400 c' REQUEST_MALFORMED] by auto
  have "ok \<longrightarrow> header_set c c'" "read_buffer c' = read_buffer c" "suspended c' = suspended c" "req_method c' = req_method c"
    using p by (auto simp: process_header_line_def header_set_def split: option.splits if_splits)
  then show ?thesis using p t failed_same [OF t(2)] by auto
qed

text \<open>A further line: an error, or the line before it was added and it became the current one, if it is not empty.\<close>

lemma broken_line_total:
  assumes "\<not> shutdown d" "last_line c \<noteq> None" "colon c \<noteq> None" "conn_ok c" "named c"
  shows "\<exists>ok c'. process_broken_line d c line at kind = Some (ok, c') \<and> (\<not> ok \<longrightarrow> failed c c')
    \<and> (ok \<longrightarrow> last_line c' \<noteq> None \<and> colon c' \<noteq> None \<and> cstate c' = cstate c \<and> read_buffer c' = read_buffer c
         \<and> suspended c' = suspended c \<and> named c' \<and> response c' = response c)"
proof -
  obtain lst val where l: "last_line c = Some lst" "colon c = Some val" using assms(2,3) by blast
  show ?thesis
  proof (cases "blank (peek line)")
    case True
    define tmp where "tmp = dropWhile blank line"
    obtain a p where a: "MHD_pool_reallocate (pool c) (last_at c) (word_of_nat (length lst + 1)) (word_of_nat (length lst + length tmp + 1)) = (a, p)"
      by fastforce
    obtain c2 where t: "transmit_error_response d (c\<lparr>pool := p\<rparr>) 431 REQUEST_TOO_BIG = Some c2" "failed (c\<lparr>pool := p\<rparr>) c2"
      using transmit_error_total [OF assms(1), of 431 "c\<lparr>pool := p\<rparr>" REQUEST_TOO_BIG] by auto
    have eq: "process_broken_line d c line at kind = (case a of
        None \<Rightarrow> map_option (Pair False) (transmit_error_response d (c\<lparr>pool := p\<rparr>) 431 REQUEST_TOO_BIG)
      | Some _ \<Rightarrow> Some (True, c\<lparr>pool := p, last_line := Some (lst @ tmp), last_at := a\<rparr>))"
      unfolding process_broken_line_def l option.case Let_def tmp_def [symmetric] a prod.case using True by (cases a) simp_all
    show ?thesis
      using eq t assms(5) l failed_same [OF t(2), of c] by (cases a) (auto simp: named_def)
  next
    case False
    obtain ok c1 where ad: "connection_add_header d c (Some lst) (Some val) kind = Some (ok, c1)" "added_or_failed c ok c1"
      using add_header_total [OF assms(1)] by blast
    obtain ok2 c2 where h: "process_header_line d c1 line at = (ok2, c2)" "ok2 \<longrightarrow> header_set c1 c2"
      "\<not> ok2 \<longrightarrow> (\<exists>c3. transmit_error_response d c2 400 REQUEST_MALFORMED = Some c3 \<and> failed c1 c3)"
      using header_line_total [OF assms(1)] by blast
    obtain c4 where t: "transmit_error_response d c1 431 REQUEST_TOO_BIG = Some c4" "failed c1 c4"
      using transmit_error_total [OF assms(1), of 431 c1 REQUEST_TOO_BIG] by auto
    have eq: "process_broken_line d c line at kind = (if \<not> ok then Some (False, c4) else if line = [] then Some (True, c1)
        else (if ok2 then Some (True, c2) else map_option (Pair False) (transmit_error_response d c2 400 REQUEST_MALFORMED)))"
      using False l ad(1) t(1) h(1) by (simp add: process_broken_line_def split: bool.split)
    show ?thesis
    proof (cases ok)
      case True
      then have v: "valued c c1" using ad(2) by (simp add: added_or_failed_def)
      show ?thesis
        using True eq h(2,3) valued_fields [OF v] header_set_fields [of c1 c2] l assms(5) by auto
    next
      case ok: False
      then have "failed c c1" using ad(2) by (simp add: added_or_failed_def)
      then have "failed c c4" using t(2) assms(5) by (auto simp: failed_def named_def)
      then show ?thesis using ok eq by auto
    qed
  qed
qed

lemma upload_size_fields:
  "named (upload_size d c) = named c" "read_buffer (upload_size d c) = read_buffer c" "suspended (upload_size d c) = suspended c"
  "response (upload_size d c) = None \<or> response (upload_size d c) = response c"
  by (auto simp: upload_size_def named_def Let_def split: option.splits prod.splits if_splits)

lemma parse_headers_total:
  assumes "well_behaved d" "conn_ok c" "named c"
  shows "\<exists>c'. parse_connection_headers d c = Some c' \<and> named c' \<and> (\<forall>r. response c' = Some r \<longrightarrow> response_ok r)
    \<and> read_buffer c' = read_buffer c \<and> suspended c' = suspended c"
proof -
  have d: "\<not> shutdown d" "\<not> lacks_host d c'" for c' using assms(1) by (auto simp: well_behaved_def lacks_host_def)
  obtain ok c1 where p: "parse_cookie_header d c = Some (ok, c1)" "added_or_failed c ok c1"
    using parse_cookie_total [OF d(1)] by blast
  have "line_parsed c c1" using added_parsed [OF p(2) assms(3)] assms(2) by (simp add: conn_ok_def)
  then show ?thesis
    using p(1) d(2) upload_size_fields [of d c1]
    by (auto simp: parse_connection_headers_def line_parsed_def)
qed

section \<open>Calling the application\<close>

lemma queue_fields:
  assumes "MHD_queue_response d c code (Some r) = (ok, c')" "response_ok r" "\<forall>r. response c = Some r \<longrightarrow> response_ok r"
  shows "cstate c' = cstate c \<or> cstate c = MHD_CONNECTION_HEADERS_PROCESSED \<and> cstate c' = MHD_CONNECTION_FOOTERS_RECEIVED"
    "named c' = named c" "read_buffer c' = read_buffer c" "suspended c' = suspended c" "\<forall>r. response c' = Some r \<longrightarrow> response_ok r"
    "req_method c' = req_method c"
  using assms by (auto simp: MHD_queue_response_def Let_def named_def split: if_splits)

lemma call_application_total:
  assumes "well_behaved d" "\<forall>r. response c = Some r \<longrightarrow> response_ok r"
  shows "\<exists>ok left c'. call_application d c data n = (ok, left, c') \<and> left \<le> n
    \<and> (cstate c' = cstate c \<or> cstate c = MHD_CONNECTION_HEADERS_PROCESSED \<and> cstate c' = MHD_CONNECTION_FOOTERS_RECEIVED)
    \<and> named c' = named c \<and> read_buffer c' = read_buffer c \<and> (\<forall>r. response c' = Some r \<longrightarrow> response_ok r) \<and> req_method c' = req_method c"
proof -
  define r where "r = default_handler d (c\<lparr>client_aware := True\<rparr>) data n"
  define c1 where "c1 = c\<lparr>client_aware := True, client_context := hr_context r, calls := calls (c\<lparr>client_aware := True\<rparr>) @ [Handler_call data (hr_left r)]\<rparr>"
  have r: "hr_left r \<le> n" "\<And>code x. hr_queue r = Some (code, x) \<Longrightarrow> response_ok x"
    using assms(1) unfolding r_def well_behaved_def by blast+
  have c1: "cstate c1 = cstate c" "named c1 = named c" "read_buffer c1 = read_buffer c" "\<forall>r. response c1 = Some r \<longrightarrow> response_ok r"
    "req_method c1 = req_method c"
    using assms(2) by (simp_all add: c1_def named_def)
  define c2 where "c2 = (case hr_queue r of None \<Rightarrow> c1 | Some (code, resp) \<Rightarrow> snd (MHD_queue_response d c1 code (Some resp)))"
  have c2: "cstate c2 = cstate c \<or> cstate c = MHD_CONNECTION_HEADERS_PROCESSED \<and> cstate c2 = MHD_CONNECTION_FOOTERS_RECEIVED"
    "named c2 = named c" "read_buffer c2 = read_buffer c" "\<forall>r. response c2 = Some r \<longrightarrow> response_ok r" "req_method c2 = req_method c"
    unfolding c2_def using c1 queue_fields [OF prod.collapse [symmetric] _ c1(4)] r(2) by (auto split: option.splits prod.splits)
  have "call_application d c data n = (hr_ok r, hr_left r, if hr_suspend r then c2\<lparr>suspended := True\<rparr> else c2)"
    unfolding call_application_def Let_def c2_def c1_def r_def by (rule refl)
  then show ?thesis using r(1) c2 by (auto simp: named_def)
qed

lemma call_handler_total:
  assumes "well_behaved d" "conn_ok c" "named c" "c' = call_connection_handler d c"
  shows "cstate c' = cstate c \<or> cstate c = MHD_CONNECTION_HEADERS_PROCESSED \<and> cstate c' = MHD_CONNECTION_FOOTERS_RECEIVED \<or> cstate c' = MHD_CONNECTION_CLOSED"
    "named c'" "read_buffer c' = read_buffer c" "\<forall>r. response c' = Some r \<longrightarrow> response_ok r"
proof -
  obtain ok left c1 where "call_application d c None 0 = (ok, left, c1)"
    "cstate c1 = cstate c \<or> cstate c = MHD_CONNECTION_HEADERS_PROCESSED \<and> cstate c1 = MHD_CONNECTION_FOOTERS_RECEIVED"
    "named c1 = named c" "read_buffer c1 = read_buffer c" "\<forall>r. response c1 = Some r \<longrightarrow> response_ok r"
    using call_application_total [OF assms(1), of c None 0] assms(2) by (auto simp: conn_ok_def)
  then show "cstate c' = cstate c \<or> cstate c = MHD_CONNECTION_HEADERS_PROCESSED \<and> cstate c' = MHD_CONNECTION_FOOTERS_RECEIVED \<or> cstate c' = MHD_CONNECTION_CLOSED"
    "named c'" "read_buffer c' = read_buffer c" "\<forall>r. response c' = Some r \<longrightarrow> response_ok r"
    using assms(2-4) by (auto simp: call_connection_handler_def conn_ok_def named_def)
qed

section \<open>The body of the request\<close>

text \<open>What the parts of the body parser keep: the state of the request, unless the connection is closed.\<close>

definition body_kept :: "'a MHD_Connection \<Rightarrow> 'a MHD_Connection \<Rightarrow> bool" where
  "body_kept c c' \<longleftrightarrow> (cstate c' = cstate c \<or> cstate c' = MHD_CONNECTION_CLOSED) \<and> named c' = named c
     \<and> read_buffer c' = read_buffer c \<and> (\<forall>r. response c' = Some r \<longrightarrow> response_ok r)"

fun step_conn :: "'c body_step \<Rightarrow> 'c" where
  "step_conn (Body_return c) = c" | "step_conn (Body_break c s) = c" | "step_conn (Body_retry c s) = c"

fun step_rest :: "'c body_step \<Rightarrow> string" where
  "step_rest (Body_return c) = []" | "step_rest (Body_break c s) = s" | "step_rest (Body_retry c s) = s"

definition step_kept :: "'a MHD_Connection \<Rightarrow> 'a MHD_Connection body_step \<Rightarrow> bool" where
  "step_kept c s \<longleftrightarrow> body_kept c (step_conn s) \<and> (case s of Body_return _ \<Rightarrow> True | _ \<Rightarrow> cstate (step_conn s) = cstate c)"

lemma offer_data_total:
  assumes "well_behaved d" "\<forall>r. response c = Some r \<longrightarrow> response_ok r" "cstate c = MHD_CONNECTION_CONTINUE_SENT"
  shows "\<exists>s. offer_data d c data n retry = Some s \<and> step_kept c s \<and> length (step_rest s) \<le> length data"
proof -
  obtain ok left c1 where a: "call_application d c (Some (take n data)) n = (ok, left, c1)" "left \<le> n"
    "cstate c1 = cstate c \<or> cstate c = MHD_CONNECTION_HEADERS_PROCESSED \<and> cstate c1 = MHD_CONNECTION_FOOTERS_RECEIVED"
    "named c1 = named c" "read_buffer c1 = read_buffer c" "\<forall>r. response c1 = Some r \<longrightarrow> response_ok r"
    using call_application_total [OF assms(1,2), of "Some (take n data)" n] by blast
  show ?thesis
    using a assms(3) by (auto simp: offer_data_def step_kept_def body_kept_def named_def Let_def)
qed

lemma chunk_header_kept:
  assumes "\<forall>r. response c = Some r \<longrightarrow> response_ok r"
  shows "step_kept c (chunk_header d c data)" "length (step_rest (chunk_header d c data)) \<le> length data"
  using assms by (auto simp: chunk_header_def step_kept_def body_kept_def named_def Let_def split: prod.splits option.splits if_splits)

lemma body_step_total:
  assumes "well_behaved d" "\<forall>r. response c = Some r \<longrightarrow> response_ok r" "cstate c = MHD_CONNECTION_CONTINUE_SENT"
  shows "\<exists>s. body_step d c data = Some s \<and> step_kept c s \<and> length (step_rest s) \<le> length data"
proof (cases "have_chunked_upload c \<and> remaining_upload_size c = MHD_SIZE_UNKNOWN")
  case True
  show ?thesis
  proof (cases "skip_chunk_end d c data")
    case None
    then show ?thesis using True assms(2) by (simp add: body_step_def step_kept_def body_kept_def named_def)
  next
    case (Some cd)
    obtain c1 data1 where cd: "cd = (c1, data1)" by fastforce
    have s: "length data1 \<le> length data" "cstate c1 = cstate c" "named c1 = named c" "response c1 = response c"
      "read_buffer c1 = read_buffer c"
      using Some cd by (auto simp: skip_chunk_end_def named_def split: if_splits)
    have r1: "\<forall>r. response c1 = Some r \<longrightarrow> response_ok r" using assms(2) s(4) by simp
    have keep: "step_kept c x = step_kept c1 x" for x using s by (simp add: step_kept_def body_kept_def split: body_step.split)
    let ?n = "unat (current_chunk_size c1 - current_chunk_offset c1)"
    have off: "\<exists>x. offer_data d c1 data1 k b = Some x \<and> step_kept c x \<and> length (step_rest x) \<le> length data" for k b
      using offer_data_total [OF assms(1) r1, of data1 k b] assms(3) s keep by force
    show ?thesis
      using True Some cd s off chunk_header_kept [OF r1, of d data1] keep
      by (auto simp: body_step_def Let_def)
  qed
next
  case False
  show ?thesis
    using False offer_data_total [OF assms, of data] by (auto simp: body_step_def Let_def)
qed

lemma body_loop_total:
  assumes "well_behaved d" "\<forall>r. response c = Some r \<longrightarrow> response_ok r" "cstate c = MHD_CONNECTION_CONTINUE_SENT"
  shows "\<exists>c' r. body_loop d c data = Some (c', r) \<and> body_kept c c' \<and> (\<forall>rest. r = Some rest \<longrightarrow> length rest \<le> length data)"
  using assms
proof (induction d c data rule: body_loop.induct)
  case (1 d c data)
  obtain s where s: "body_step d c data = Some s" "step_kept c s" "length (step_rest s) \<le> length data"
    using body_step_total [OF 1(2-4)] by blast
  show ?case
  proof (cases s)
    case (Body_retry c1 rest)
    then have c1: "cstate c1 = cstate c" "\<forall>r. response c1 = Some r \<longrightarrow> response_ok r" "named c1 = named c" "read_buffer c1 = read_buffer c"
      using s(2) by (simp_all add: step_kept_def body_kept_def)
    obtain c2 r where "body_loop d c1 rest = Some (c2, r)" "body_kept c1 c2" "\<forall>x. r = Some x \<longrightarrow> length x \<le> length rest"
      using 1(1) [OF s(1) Body_retry 1(2) c1(2)] c1(1) 1(4) by auto
    then show ?thesis
      using s Body_retry c1 by (intro exI [of _ c2] exI [of _ r]) (auto simp: body_loop.simps [of d c data] body_kept_def)
  qed (use s in \<open>auto simp: body_loop.simps [of d c data] step_kept_def\<close>)
qed

lemma request_body_total:
  assumes "well_behaved d" "conn_ok c" "cstate c = MHD_CONNECTION_CONTINUE_SENT"
  shows "\<exists>c'. process_request_body d c = Some c' \<and> conn_ok c' \<and> length (read_buffer c') \<le> length (read_buffer c)
    \<and> (cstate c' = cstate c \<or> cstate c' = MHD_CONNECTION_CLOSED)"
proof -
  have r: "\<forall>r. response c = Some r \<longrightarrow> response_ok r" "named c" using assms(2,3) by (simp_all add: conn_ok_def state_ok_def)
  show ?thesis
  proof (cases "response c")
    case None
    obtain c1 rest where b: "body_loop d c (read_buffer c) = Some (c1, rest)" "body_kept c c1"
      "\<forall>x. rest = Some x \<longrightarrow> length x \<le> length (read_buffer c)"
      using body_loop_total [OF assms(1) r(1) assms(3)] by blast
    have ok: "conn_ok c1" "cstate c1 = cstate c \<or> cstate c1 = MHD_CONNECTION_CLOSED" "read_buffer c1 = read_buffer c"
      using b(2) r(2) assms(3) by (auto simp: body_kept_def conn_ok_def state_ok_def)
    have "conn_ok (c1\<lparr>read_buffer := x\<rparr>)" for x
      using ok(1,2) assms(3) by (auto simp: ok_defs)
    then show ?thesis
      using None b(1,3) ok by (cases rest) (auto simp: process_request_body_def)
  qed (use assms in \<open>auto simp: process_request_body_def\<close>)
qed

section \<open>The body of the reply\<close>

text \<open>The reader contract as the result of \<^const>\<open>read_content\<close>.\<close>

lemma read_content_total:
  assumes "well_behaved d"
  shows "\<exists>n bs. read_content d c at mx = Some (n, bs) \<and> (n = MHD_CONTENT_READER_END_OF_STREAM \<or> n = MHD_CONTENT_READER_END_WITH_ERROR
     \<or> n = int (length bs) \<and> length bs \<le> mx)"
proof -
  obtain n bs where r: "content_reader_cb d c at mx = (n, bs)" by fastforce
  then have "n = MHD_CONTENT_READER_END_OF_STREAM \<or> n = MHD_CONTENT_READER_END_WITH_ERROR \<or> n = int (length bs) \<and> length bs \<le> mx"
    using assms unfolding well_behaved_def by blast
  then show ?thesis using r by (auto simp: read_content_def)
qed

text \<open>The body is sent from a response whose data covers the position.\<close>

definition position_ok :: "'a MHD_Connection \<Rightarrow> bool" where
  "position_ok c \<longleftrightarrow> (\<exists>r. response c = Some r \<and> (response_write_position c < total_size r \<longrightarrow>
     unat (response_write_position c - data_start r) \<le> unat (data_size r)))"

lemma inside_data:
  fixes at start n :: u64
  assumes "start \<le> at" "n + start > at"
  shows "at - start < n"
proof -
  have "unat at < unat n + unat start"
    using assms(2) by (simp add: word_less_nat_alt unat_word_ariths)
  then show ?thesis using assms(1) by (simp add: word_less_nat_alt word_le_nat_alt unat_sub)
qed

lemma ready_normal_total:
  assumes "well_behaved d" "conn_ok c" "replying c" "with_body c"
  shows "\<exists>ok c'. try_ready_normal_body d c = Some (ok, c') \<and> read_buffer c' = read_buffer c \<and> suspended c' = suspended c
    \<and> (ok \<longrightarrow> replying c' \<and> with_body c' \<and> position_ok c' \<and> cstate c' = cstate c \<and> (\<forall>r. response c' = Some r \<longrightarrow> response_ok r)
         \<and> response_write_position c' = response_write_position c \<and> map_option total_size (response c') = map_option total_size (response c))
    \<and> (\<not> ok \<longrightarrow> conn_ok c' \<and> (cstate c' = MHD_CONNECTION_CLOSED \<or> cstate c' = MHD_CONNECTION_NORMAL_BODY_UNREADY))"
proof -
  obtain r where r: "response c = Some r" "response_ok r" "\<not> upgrade_handler r"
    using assms(2-4) by (auto simp: replying_def conn_ok_def with_body_def)
  let ?at = "response_write_position c"
  show ?thesis
  proof (cases "crc r = No_reader \<or> total_size r = 0 \<or> ?at = total_size r \<or> data_start r \<le> ?at \<and> data_size r + data_start r > ?at")
    case True
    have "position_ok c"
      using True r inside_data [of "data_start r" ?at "data_size r"]
      by (auto simp: position_ok_def response_ok_def word_less_nat_alt intro: less_imp_le)
    then show ?thesis using True r assms(2-4) by (auto simp: try_ready_normal_body_def Let_def conn_ok_def)
  next
    case False
    let ?mx = "unat (min (data_buffer_size r) (total_size r - ?at))"
    obtain n bs where n: "read_content d c ?at ?mx = Some (n, bs)" "n = MHD_CONTENT_READER_END_OF_STREAM \<or> n = MHD_CONTENT_READER_END_WITH_ERROR
     \<or> n = int (length bs) \<and> length bs \<le> ?mx"
      using read_content_total [OF assms(1)] by blast
    show ?thesis
    proof (cases "n = MHD_CONTENT_READER_END_OF_STREAM \<or> n = MHD_CONTENT_READER_END_WITH_ERROR")
      case stop: True
      then show ?thesis
        using False n r by (auto simp: try_ready_normal_body_def Let_def)
    next
      case go: False
      then have len: "n = int (length bs)" "length bs \<le> ?mx" using n(2) by auto
      have "length bs < 2 ^ 64" using len(2) unsigned_less [of "min (data_buffer_size r) (total_size r - ?at)", where ?'a = nat]
        by simp
      then have un: "unat (word_of_nat (length bs) :: u64) = length bs" by (simp add: unsigned_of_nat take_bit_nat_eq_self)
      let ?r = "r\<lparr>data_start := ?at, data_size := word_of_int n, rdata := bs @ drop (length bs) (rdata r)\<rparr>"
      have rok: "response_ok ?r" "\<not> upgrade_handler ?r"
        using r(2,3) False len(1) un by (auto simp: response_ok_def)
      let ?c = "c\<lparr>response := Some ?r\<rparr>"
      have eq: "try_ready_normal_body d c
          = Some (if n = 0 then (False, ?c\<lparr>cstate := MHD_CONNECTION_NORMAL_BODY_UNREADY\<rparr>) else (True, ?c))"
        unfolding try_ready_normal_body_def r(1) option.case Let_def using False go n(1) by auto
      have "position_ok ?c" "replying ?c" "with_body ?c" "conn_ok (?c\<lparr>cstate := MHD_CONNECTION_NORMAL_BODY_UNREADY\<rparr>)"
        using rok assms(3) by (simp_all add: position_ok_def ok_defs)
      then show ?thesis using eq rok(1) r(1) by (cases "n = 0") auto
    qed
  qed
qed

lemma hexadecimal_length: "n < 16 ^ k \<Longrightarrow> 0 < k \<Longrightarrow> length (hexadecimal n) \<le> k"
proof (induction n arbitrary: k rule: hexadecimal.induct)
  case (1 n)
  show ?case
  proof (cases "n < 16")
    case False
    have k: "1 < k" using False 1(2,3) by (cases k; cases "k - 1") auto
    then have "n div 16 < 16 ^ (k - 1)" using 1(2) by (cases k) (auto simp: less_mult_imp_div_less mult.commute)
    then have "length (hexadecimal (n div 16)) \<le> k - 1" using 1(1) [OF False] k by simp
    then show ?thesis using False k by (simp add: hexadecimal.simps [of n])
  qed (use 1(3) in \<open>simp add: hexadecimal.simps [of n]\<close>)
qed

lemma fill_chunk_total:
  assumes "12 + length bs \<le> length (write_buffer c)" "n \<le> length bs" "n \<le> 0xFFFFFF"
  shows "\<exists>mem k m. fill_chunk c bs n = Some (c\<lparr>write_buffer := mem, response_write_position := k, write_buffer_send_offset := m,
      write_buffer_append_offset := 12 + n\<rparr>) \<and> m \<le> 12 + n \<and> 12 + n \<le> length mem"
proof -
  let ?cb = "hexadecimal n @ CRLF"
  have len: "length ?cb < cbuf_size" using hexadecimal_length [of n 6] assms(3) by (simp add: cbuf_size_def)
  obtain m1 where m1: "blit (write_buffer c) cbuf_size (map char_of_byte bs) = Some m1" "length m1 = length (write_buffer c)"
    using blit_total [of cbuf_size "map char_of_byte bs" "write_buffer c"] assms(1) by (auto simp: cbuf_size_def)
  obtain m2 where m2: "blit m1 (cbuf_size - length ?cb) ?cb = Some m2" "length m2 = length m1"
    using blit_total [of "cbuf_size - length ?cb" ?cb m1] assms(1) m1(2) len by (auto simp: cbuf_size_def)
  obtain m3 where m3: "blit m2 (cbuf_size + n) CRLF = Some m3" "length m3 = length m2"
    using blit_total [of "cbuf_size + n" CRLF m2] assms(1,2) m1(2) m2(2) by (auto simp: cbuf_size_def)
  have "fill_chunk c bs n = Some (c\<lparr>write_buffer := m3, response_write_position := response_write_position c + word_of_nat n,
      write_buffer_send_offset := cbuf_size - length ?cb, write_buffer_append_offset := cbuf_size + n + 2\<rparr>)"
    unfolding fill_chunk_def Let_def m1(1) using len m2(1) m3(1) by simp
  then show ?thesis using assms(1,2) m1(2) m2(2) m3(2) len
    by (intro exI [of _ m3] exI [of _ "response_write_position c + word_of_nat n"] exI [of _ "cbuf_size - length ?cb"])
      (simp add: cbuf_size_def)
qed

lemma chunk_content_total:
  assumes "well_behaved d" "response_ok r"
  shows "\<exists>n bs. chunk_content d c r mx = Some (n, bs) \<and> (n = MHD_CONTENT_READER_END_OF_STREAM \<or> n = MHD_CONTENT_READER_END_WITH_ERROR
     \<or> n = int (length bs) \<and> length bs \<le> mx)"
proof -
  let ?at = "response_write_position c"
  consider "total_size r = 0" | "total_size r \<noteq> 0" "data_start r \<le> ?at \<and> data_start r + data_size r > ?at"
    | "total_size r \<noteq> 0" "\<not> (data_start r \<le> ?at \<and> data_start r + data_size r > ?at)" by blast
  then show ?thesis
  proof cases
    case 2
    have "?at - data_start r < data_size r" using 2 inside_data [of "data_start r" ?at "data_size r"] by (simp add: add.commute)
    then have "unat (?at - data_start r) \<le> unat (data_size r)" by (simp add: word_less_nat_alt)
    then have "unat (?at - data_start r) + min (unat (data_size r) - unat (?at - data_start r)) mx \<le> length (rdata r)"
      using assms(2) by (auto simp: response_ok_def)
    then show ?thesis using 2 by (auto simp: chunk_content_def Let_def)
  next
    case 3
    then show ?thesis using read_content_total [OF assms(1), of c ?at mx] by (auto simp: chunk_content_def Let_def)
  qed (auto simp: chunk_content_def Let_def)
qed

lemma chunk_buffer_size: "chunk_buffer p n = ((Some a, k), p') \<Longrightarrow> 128 \<le> k \<and> k \<le> n"
proof (induction p n rule: chunk_buffer.induct)
  case (1 p n)
  show ?case
  proof (cases "n div 2 < 128")
    case False
    obtain x q where x: "MHD_pool_allocate p (word_of_nat (n div 2)) False = (x, q)" by fastforce
    show ?thesis
    proof (cases x)
      case None
      then have "chunk_buffer q (n div 2) = ((Some a, k), p')" using 1(2) x False by (simp add: chunk_buffer.simps [of p n])
      then show ?thesis using 1(1) [OF False x [symmetric]] None div_le_dividend [of n 2] by (auto simp del: div_le_dividend)
    next
      case (Some y)
      then show ?thesis using 1(2) x False by (auto simp: chunk_buffer.simps [of p n])
    qed
  qed (use 1(2) in \<open>simp add: chunk_buffer.simps [of p n]\<close>)
qed

text \<open>The buffer for the chunk is there, or cannot be allocated.\<close>

definition chunk_memory :: "'a MHD_Daemon \<Rightarrow> 'a MHD_Connection \<Rightarrow> bool \<times> 'a MHD_Connection" where
  "chunk_memory d c = (if write_buffer_size c = 0
     then (case chunk_buffer (pool c) (unat (min (pool_size d) (2 * (0xFFFFFF + 10 + 2)))) of
             ((None, _), p) \<Rightarrow> (False, c\<lparr>pool := p\<rparr>)
           | ((at, n), p) \<Rightarrow> (True, c\<lparr>pool := p, write_buffer := replicate n NUL, write_buffer_at := at,
                 write_buffer_size := word_of_nat n\<rparr>))
     else (True, c))"

lemma chunk_memory_fields:
  assumes "chunk_memory d c = (mem, c1)" "conn_ok c" "cstate c = MHD_CONNECTION_CHUNKED_BODY_UNREADY"
  shows "cstate c1 = cstate c" "read_buffer c1 = read_buffer c" "suspended c1 = suspended c" "response c1 = response c"
    "replying c1" "with_body c1" "buffer_empty c1" "mem \<longrightarrow> 128 \<le> length (write_buffer c1)"
  using assms chunk_buffer_size
  by (fastforce simp: chunk_memory_def ok_defs split: if_splits option.splits prod.splits)+

lemma ready_chunked_total:
  assumes "well_behaved d" "conn_ok c" "cstate c = MHD_CONNECTION_CHUNKED_BODY_UNREADY"
  shows "\<exists>ok c'. try_ready_chunked_body d c = Some (ok, c') \<and> read_buffer c' = read_buffer c \<and> suspended c' = suspended c
    \<and> (ok \<longrightarrow> replying c' \<and> with_body c' \<and> buffer_ok c' \<and> (\<forall>r. response c' = Some r \<longrightarrow> response_ok r))
    \<and> (\<not> ok \<longrightarrow> conn_ok c' \<and> (cstate c' = MHD_CONNECTION_CLOSED \<or> cstate c' = MHD_CONNECTION_CHUNKED_BODY_UNREADY))"
proof -
  obtain r where r: "response c = Some r" "response_ok r" "\<not> upgrade_handler r"
    using assms(2,3) by (auto simp: ok_defs)
  obtain mem c1 where m: "chunk_memory d c = (mem, c1)" by fastforce
  note c1 = chunk_memory_fields [OF m assms(2,3)]
  define mx where "mx = length (write_buffer c1) - cbuf_size - 2"
  obtain n bs where n: "chunk_content d c1 r mx = Some (n, bs)" "n = MHD_CONTENT_READER_END_OF_STREAM \<or> n = MHD_CONTENT_READER_END_WITH_ERROR
     \<or> n = int (length bs) \<and> length bs \<le> mx"
    using chunk_content_total [OF assms(1) r(2)] by blast
  consider "crc r = No_reader" | "crc r \<noteq> No_reader" "\<not> mem" | "crc r \<noteq> No_reader" "mem" by blast
  then show ?thesis
  proof cases
    case 1
    then show ?thesis using r assms(2,3) by (auto simp: try_ready_chunked_body_def ok_defs)
  next
    case 2
    then have "try_ready_chunked_body d c = Some (False, CONNECTION_CLOSE_ERROR d c1)"
      using r(1) m by (simp add: try_ready_chunked_body_def Let_def flip: chunk_memory_def)
    then show ?thesis using c1 by auto
  next
    case 3
    have eq: "try_ready_chunked_body d c =
        (if n = MHD_CONTENT_READER_END_WITH_ERROR then Some (False, CONNECTION_CLOSE_ERROR d c1)
         else if n = MHD_CONTENT_READER_END_OF_STREAM \<or> total_size r = 0 then map_option (Pair True) (last_chunk c1 r)
         else if n = 0 then Some (False, c1\<lparr>cstate := MHD_CONNECTION_CHUNKED_BODY_UNREADY\<rparr>)
         else map_option (Pair True) (fill_chunk c1 bs (min (nat n) 0xFFFFFF)))"
      unfolding try_ready_chunked_body_def r(1) option.case Let_def chunk_memory_def [symmetric] m prod.case mx_def [symmetric]
      using 3 n(1) by simp
    have w: "128 \<le> length (write_buffer c1)" using c1(8) 3 by simp
    consider "n = MHD_CONTENT_READER_END_WITH_ERROR" | "n \<noteq> MHD_CONTENT_READER_END_WITH_ERROR" "n = MHD_CONTENT_READER_END_OF_STREAM \<or> total_size r = 0"
      | "n = 0" "n \<noteq> MHD_CONTENT_READER_END_WITH_ERROR" "\<not> (n = MHD_CONTENT_READER_END_OF_STREAM \<or> total_size r = 0)"
      | "n \<noteq> 0" "n \<noteq> MHD_CONTENT_READER_END_WITH_ERROR" "\<not> (n = MHD_CONTENT_READER_END_OF_STREAM \<or> total_size r = 0)" by blast
    then show ?thesis
    proof cases
      case 1
      then show ?thesis using eq c1 by auto
    next
      case 2
      have "\<exists>mm. last_chunk c1 r = Some (c1\<lparr>write_buffer := mm, write_buffer_append_offset := 3, write_buffer_send_offset := 0,
          response := Some (r\<lparr>total_size := response_write_position c1\<rparr>)\<rparr>) \<and> 3 \<le> length mm"
        using w blit_total [of 0 "''0'' @ CRLF" "write_buffer c1"] by (auto simp: last_chunk_def)
      then show ?thesis using 2 eq c1 r 3 by (auto simp: ok_defs response_ok_def)
    next
      case 3
      then show ?thesis using eq c1 r w by (auto simp: ok_defs)
    next
      case 4
      then have len: "n = int (length bs)" "length bs \<le> mx" using n(2) by auto
      have "12 + length bs \<le> length (write_buffer c1)" using len(2) w by (simp add: mx_def cbuf_size_def)
      then obtain mm k q where "fill_chunk c1 bs (min (nat n) 0xFFFFFF) = Some (c1\<lparr>write_buffer := mm, response_write_position := k,
          write_buffer_send_offset := q, write_buffer_append_offset := 12 + min (nat n) 0xFFFFFF\<rparr>)"
        "q \<le> 12 + min (nat n) 0xFFFFFF" "12 + min (nat n) 0xFFFFFF \<le> length mm"
        using fill_chunk_total [of bs c1 "min (nat n) 0xFFFFFF"] len(1) by auto
      then show ?thesis using 4 eq c1 r by (auto simp: ok_defs)
    qed
  qed
qed

end
