(* ===== verification/Connection_Run.thy ===== *)
theory Connection_Run
  imports Connection_Safe
begin

text \<open>
  The handlers of a connection and its runs. The idle loop ends because each round either takes bytes from the read buffer or
  moves on in an order of the states; with the invariant of the previous theory this makes every event handler return.
\<close>

section \<open>The write handler\<close>

lemma send_data_cases:
  assumes "send_data d c res data = (n, c')"
  shows "(\<exists>k. n = Some k \<and> k \<le> length data \<and> c' = c\<lparr>sent := sent c @ take k data\<rparr>) \<or> n = None \<and> (c' = c \<or> c' = CONNECTION_CLOSE_ERROR d c)"
  using assms by (auto simp: send_data_def min_def split: send_result.splits)

definition writable :: "MHD_CONNECTION_STATE \<Rightarrow> bool" where
  "writable st \<longleftrightarrow> st \<in> {MHD_CONNECTION_HEADERS_PROCESSED, MHD_CONNECTION_CONTINUE_SENDING, MHD_CONNECTION_HEADERS_SENDING,
     MHD_CONNECTION_HEADERS_SENT, MHD_CONNECTION_NORMAL_BODY_READY, MHD_CONNECTION_CHUNKED_BODY_READY, MHD_CONNECTION_FOOTERS_SENDING,
     MHD_CONNECTION_CLOSED}"

lemma write_from_buffer_total:
  fixes c :: "'a MHD_Connection"
  assumes "buffer_ok c" "replying c" "conn_ok c"
    "\<And>c' :: 'a MHD_Connection. buffer_empty c' \<Longrightarrow> chunk_space c' \<Longrightarrow> replying c' \<Longrightarrow> response c' = response c \<Longrightarrow> cstate c' = st \<Longrightarrow> conn_ok c'"
    "\<And>c' :: 'a MHD_Connection. buffer_ok c' \<Longrightarrow> replying c' \<Longrightarrow> response c' = response c \<Longrightarrow> cstate c' = cstate c \<Longrightarrow> conn_ok c'"
  shows "\<exists>c'. write_from_buffer d c res st = Some c' \<and> conn_ok c' \<and> read_buffer c' = read_buffer c \<and> suspended c' = suspended c"
proof -
  let ?off = "write_buffer_send_offset c" and ?app = "write_buffer_append_offset c"
  let ?data = "take (?app - ?off) (drop ?off (write_buffer c))"
  have b: "?off \<le> ?app \<and> ?app \<le> length (write_buffer c)" using assms(1) by (simp add: buffer_ok_def)
  obtain n c1 where s: "send_data d c res ?data = (n, c1)" by fastforce
  show ?thesis
  proof (cases n)
    case None
    then have "write_from_buffer d c res st = Some c1" using b s by (simp add: write_from_buffer_def Let_def)
    then show ?thesis using None send_data_cases [OF s] assms(3) by auto
  next
    case (Some k)
    then have k: "k \<le> length ?data" "c1 = c\<lparr>sent := sent c @ take k ?data\<rparr>" using send_data_cases [OF s] by auto
    let ?c = "MHD_update_last_activity d (c1\<lparr>write_buffer_send_offset := ?off + k\<rparr>)"
    have w: "write_from_buffer d c res st = Some (check_write_done ?c st)"
      using b s Some by (simp add: write_from_buffer_def Let_def)
    have f: "write_buffer_send_offset ?c = ?off + k" "write_buffer_append_offset ?c = ?app" "write_buffer ?c = write_buffer c"
      by (simp_all add: MHD_update_last_activity_def k(2))
    have r: "replying ?c" "response ?c = response c" "read_buffer ?c = read_buffer c" "suspended ?c = suspended c" "cstate ?c = cstate c"
      using assms(2) by (simp_all add: k(2) replying_def)
    show ?thesis
    proof (cases "?off + k = ?app")
      case True
      have "conn_ok (check_write_done ?c st)"
        by (rule assms(4)) (use True f r in \<open>simp_all add: check_write_done_def buffer_empty_def chunk_space_def replying_def\<close>)
      then show ?thesis using w True f r by (simp add: check_write_done_def)
    next
      case False
      have "?off + k \<le> ?app" using b k(1) by (auto simp: le_diff_conv2)
      then have "conn_ok ?c"
        by (intro assms(5)) (use b f r in \<open>simp_all add: buffer_ok_def\<close>)
      then show ?thesis using w False f r by (simp add: check_write_done_def)
    qed
  qed
qed

lemma write_normal_total:
  fixes c :: "'a MHD_Connection"
  assumes "well_behaved d" "conn_ok c" "cstate c = MHD_CONNECTION_NORMAL_BODY_READY"
  shows "\<exists>c'. write_normal_body d c res = Some c' \<and> conn_ok c' \<and> read_buffer c' = read_buffer c \<and> suspended c' = suspended c"
proof -
  have c: "replying c" "with_body c" using assms(2,3) by (simp_all add: conn_ok_def state_ok_def)
  obtain r where r: "response c = Some r" using c(1) by (auto simp: replying_def)
  have fin: "\<exists>c'. (case response c1 of None \<Rightarrow> None
       | Some r \<Rightarrow> Some (if response_write_position c1 = total_size r then c1\<lparr>cstate := MHD_CONNECTION_FOOTERS_SENT\<rparr> else c1)) = Some c'
       \<and> conn_ok c' \<and> read_buffer c' = read_buffer c1 \<and> suspended c' = suspended c1"
    if "replying c1" "with_body c1" "\<forall>r. response c1 = Some r \<longrightarrow> response_ok r" "cstate c1 = MHD_CONNECTION_NORMAL_BODY_READY" for c1 :: "'a MHD_Connection"
    using that by (auto simp: ok_defs)
  show ?thesis
  proof (cases "response_write_position c < total_size r")
    case True
    obtain ok c1 where t: "try_ready_normal_body d c = Some (ok, c1)" "read_buffer c1 = read_buffer c" "suspended c1 = suspended c"
      "ok \<longrightarrow> replying c1 \<and> with_body c1 \<and> position_ok c1 \<and> cstate c1 = cstate c \<and> (\<forall>r. response c1 = Some r \<longrightarrow> response_ok r)
         \<and> response_write_position c1 = response_write_position c \<and> map_option total_size (response c1) = map_option total_size (response c)"
      "\<not> ok \<longrightarrow> conn_ok c1"
      using ready_normal_total [OF assms(1,2) c] by blast
    show ?thesis
    proof (cases ok)
      case ok: True
      obtain r1 where r1: "response c1 = Some r1" "response_ok r1" using t(4) ok by (auto simp: replying_def)
      let ?off = "unat (response_write_position c1 - data_start r1)"
      have off: "?off \<le> unat (data_size r1) \<and> unat (data_size r1) \<le> length (rdata r1)"
        using t(4) ok r1 r True by (auto simp: position_ok_def response_ok_def)
      let ?data = "map char_of_byte (take (unat (data_size r1) - ?off) (drop ?off (rdata r1)))"
      obtain n c2 where s: "send_data d c1 res ?data = (n, c2)" by fastforce
      let ?c = "\<lambda>k. MHD_update_last_activity d (c2\<lparr>response_write_position := response_write_position c2 + word_of_nat k\<rparr>)"
      have eq: "write_normal_body d c res = (case n of None \<Rightarrow> Some c2 | Some k \<Rightarrow> (case response (?c k) of None \<Rightarrow> None
          | Some r \<Rightarrow> Some (if response_write_position (?c k) = total_size r then (?c k)\<lparr>cstate := MHD_CONNECTION_FOOTERS_SENT\<rparr> else ?c k)))"
        unfolding write_normal_body_def Let_def r option.case t(1) using True ok r1(1) off s by (simp add: Let_def split: option.split)
      show ?thesis
      proof (cases n)
        case None
        then show ?thesis using eq send_data_cases [OF s] t ok assms(3) by (auto simp: conn_ok_def state_ok_def)
      next
        case (Some k)
        then have c2: "c2 = c1\<lparr>sent := sent c1 @ take k ?data\<rparr>" using send_data_cases [OF s] by auto
        have "replying (?c k)" "with_body (?c k)" "\<forall>r. response (?c k) = Some r \<longrightarrow> response_ok r" "cstate (?c k) = MHD_CONNECTION_NORMAL_BODY_READY"
          using t(4) ok assms(3) by (simp_all add: c2 replying_def with_body_def)
        from fin [OF this] show ?thesis using eq Some t(2,3) by (simp add: c2)
      qed
    next
      case False
      then show ?thesis using t r True by (auto simp: write_normal_body_def)
    qed
  next
    case False
    then show ?thesis using fin [of c] r c assms(2,3) by (auto simp: write_normal_body_def conn_ok_def)
  qed
qed

lemma write_total:
  assumes "well_behaved d" "conn_ok c" "suspended c \<or> writable (cstate c)"
  shows "\<exists>c'. MHD_connection_handle_write d c res = Some c' \<and> conn_ok c' \<and> suspended c' = suspended c"
proof (cases "suspended c")
  case True
  then show ?thesis using assms(2) by (simp add: MHD_connection_handle_write_def)
next
  case go: False
  note wfb = write_from_buffer_total [of c _ d res]
  show ?thesis
  proof (cases "cstate c")
    case MHD_CONNECTION_CONTINUE_SENDING
    obtain n c1 where s: "send_data d c res (drop (continue_message_write_offset c) HTTP_100_CONTINUE) = (n, c1)" by fastforce
    then show ?thesis
      using send_data_cases [OF s] go MHD_CONNECTION_CONTINUE_SENDING assms(2)
      by (cases n) (auto simp: MHD_connection_handle_write_def ok_defs)
  next
    case MHD_CONNECTION_HEADERS_SENDING
    then have "\<exists>c'. write_from_buffer d c res MHD_CONNECTION_HEADERS_SENT = Some c' \<and> conn_ok c' \<and> read_buffer c' = read_buffer c \<and> suspended c' = suspended c"
      using assms(2) by (intro wfb) (simp_all add: conn_ok_def state_ok_def)
    then show ?thesis using go MHD_CONNECTION_HEADERS_SENDING by (auto simp: MHD_connection_handle_write_def)
  next
    case MHD_CONNECTION_NORMAL_BODY_READY
    then show ?thesis using write_normal_total [OF assms(1,2), of res] go by (auto simp: MHD_connection_handle_write_def)
  next
    case MHD_CONNECTION_CHUNKED_BODY_READY
    then obtain r where r: "response c = Some r" using assms(2) by (auto simp: conn_ok_def state_ok_def replying_def)
    define st where "st = (if total_size r = response_write_position c then MHD_CONNECTION_BODY_SENT else MHD_CONNECTION_CHUNKED_BODY_UNREADY)"
    have "\<exists>c'. write_from_buffer d c res st = Some c' \<and> conn_ok c' \<and> read_buffer c' = read_buffer c \<and> suspended c' = suspended c"
      using assms(2) MHD_CONNECTION_CHUNKED_BODY_READY
      by (intro wfb) (auto simp: conn_ok_def state_ok_def st_def with_body_def)
    then show ?thesis using go MHD_CONNECTION_CHUNKED_BODY_READY r by (auto simp: MHD_connection_handle_write_def st_def)
  next
    case MHD_CONNECTION_FOOTERS_SENDING
    then have "\<exists>c'. write_from_buffer d c res MHD_CONNECTION_FOOTERS_SENT = Some c' \<and> conn_ok c' \<and> read_buffer c' = read_buffer c \<and> suspended c' = suspended c"
      using assms(2) by (intro wfb) (simp_all add: conn_ok_def state_ok_def)
    then show ?thesis using go MHD_CONNECTION_FOOTERS_SENDING by (auto simp: MHD_connection_handle_write_def)
  qed (use go assms in \<open>auto simp: MHD_connection_handle_write_def writable_def\<close>)
qed

section \<open>The rounds of the idle loop\<close>

text \<open>The order of the states: a round that takes nothing from the read buffer goes down.\<close>

fun rank :: "MHD_CONNECTION_STATE \<Rightarrow> nat" where
  "rank MHD_CONNECTION_HEADERS_SENT = 12"
| "rank MHD_CONNECTION_NORMAL_BODY_UNREADY = 11"
| "rank MHD_CONNECTION_CHUNKED_BODY_UNREADY = 11"
| "rank MHD_CONNECTION_BODY_SENT = 10"
| "rank MHD_CONNECTION_FOOTERS_SENT = 9"
| "rank MHD_CONNECTION_HEADERS_RECEIVED = 8"
| "rank MHD_CONNECTION_HEADERS_PROCESSED = 7"
| "rank MHD_CONNECTION_CONTINUE_SENDING = 6"
| "rank MHD_CONNECTION_CONTINUE_SENT = 5"
| "rank MHD_CONNECTION_BODY_RECEIVED = 4"
| "rank MHD_CONNECTION_FOOTER_PART_RECEIVED = 4"
| "rank MHD_CONNECTION_FOOTERS_RECEIVED = 3"
| "rank MHD_CONNECTION_INIT = 2"
| "rank MHD_CONNECTION_URL_RECEIVED = 2"
| "rank MHD_CONNECTION_HEADER_PART_RECEIVED = 2"
| "rank MHD_CONNECTION_CLOSED = 0"
| "rank _ = 1"

definition later :: "'a MHD_Connection \<Rightarrow> 'a MHD_Connection \<Rightarrow> bool" where
  "later c c' \<longleftrightarrow> length (read_buffer c') < length (read_buffer c)
     \<or> length (read_buffer c') = length (read_buffer c) \<and> rank (cstate c') < rank (cstate c)"

text \<open>The states in which the loop is left.\<close>

definition waiting :: "MHD_CONNECTION_STATE \<Rightarrow> bool" where
  "waiting st \<longleftrightarrow> st \<in> {MHD_CONNECTION_INIT, MHD_CONNECTION_URL_RECEIVED, MHD_CONNECTION_HEADER_PART_RECEIVED,
     MHD_CONNECTION_CONTINUE_SENDING, MHD_CONNECTION_CONTINUE_SENT, MHD_CONNECTION_BODY_RECEIVED, MHD_CONNECTION_FOOTER_PART_RECEIVED,
     MHD_CONNECTION_FOOTERS_RECEIVED, MHD_CONNECTION_HEADERS_SENDING, MHD_CONNECTION_NORMAL_BODY_READY,
     MHD_CONNECTION_NORMAL_BODY_UNREADY, MHD_CONNECTION_CHUNKED_BODY_READY, MHD_CONNECTION_CHUNKED_BODY_UNREADY,
     MHD_CONNECTION_FOOTERS_SENDING, MHD_CONNECTION_CLOSED}"

definition round_ok :: "'a MHD_Connection \<Rightarrow> 'a MHD_Connection idle_step \<Rightarrow> bool" where
  "round_ok c s = (case s of
     Idle_again c' \<Rightarrow> conn_ok c' \<and> later c c'
   | Idle_leave c' \<Rightarrow> conn_ok c' \<and> (suspended c' \<or> waiting (cstate c'))
   | Idle_return r c' \<Rightarrow> conn_ok c' \<and> cstate c' = MHD_CONNECTION_CLOSED)"

lemma round_simps [simp]:
  "round_ok c (Idle_again c') = (conn_ok c' \<and> later c c')"
  "round_ok c (Idle_leave c') = (conn_ok c' \<and> (suspended c' \<or> waiting (cstate c')))"
  "round_ok c (Idle_return r c') = (conn_ok c' \<and> cstate c' = MHD_CONNECTION_CLOSED)"
  by (simp_all add: round_ok_def)

lemma go_on_ok: "conn_ok c' \<Longrightarrow> later c c' \<Longrightarrow> round_ok c (go_on c')"
  by (simp add: go_on_def)

lemma consumed_later: "consumed c c1 \<Longrightarrow> read_buffer c' = read_buffer c1 \<Longrightarrow> later c c'"
  using consumed_fields(2) [of c c1] by (simp add: later_def)

lemma no_line_ok:
  assumes "line_result c None c'" "rank (cstate c) \<in> {2, 4}" "waiting (cstate c)"
  shows "round_ok c (no_line d (cstate c) c')"
proof -
  have "cstate c \<noteq> MHD_CONNECTION_HEADERS_SENDING" "cstate c \<noteq> MHD_CONNECTION_CLOSED" using assms(2) by auto
  then show ?thesis
    using assms by (auto simp: line_result_def no_line_def later_def failed_def)
qed

lemma init_ok:
  assumes "well_behaved d" "conn_ok c" "cstate c = MHD_CONNECTION_INIT"
  shows "\<exists>s. idle_init d c = Some s \<and> round_ok c s"
proof -
  have d: "\<not> shutdown d" using assms(1) by (simp add: well_behaved_def)
  obtain l c1 where l: "get_next_header_line d c = Some (l, c1)" "line_result c l c1" using next_line_total [OF d assms(2)] by blast
  show ?thesis
  proof (cases l)
    case None
    then show ?thesis using l no_line_ok [of c c1 d] assms(3) by (simp add: idle_init_def waiting_def)
  next
    case (Some h)
    obtain line at n where h: "h = (line, at, n)" by (cases h)
    have con: "consumed c c1" using l(2) Some by (simp add: line_result_def)
    note cf = consumed_fields [OF con]
    show ?thesis
    proof (cases "peek line = NUL")
      case True
      then show ?thesis using l Some h cf assms(2,3) consumed_later [OF con]
        by (auto simp: idle_init_def no_line_def waiting_def)
    next
      case False
      have "conn_ok c1" using cf assms(2) by simp
      then obtain ok c2 where p: "parse_initial_message_line d c1 line = Some (ok, c2)" "read_buffer c2 = read_buffer c1"
        "ok \<longrightarrow> line_parsed c1 c2"
        using parse_line_total [OF d] by blast
      have "later c (c2\<lparr>cstate := st\<rparr>)" "later c (CONNECTION_CLOSE_ERROR d c2)" for st
        using consumed_later [OF con] p(2) by simp_all
      moreover have "ok \<longrightarrow> conn_ok (c2\<lparr>cstate := MHD_CONNECTION_URL_RECEIVED\<rparr>)"
        using p(3) by (simp add: line_parsed_def conn_ok_def state_ok_def named_def)
      ultimately show ?thesis using l Some h p False by (simp add: idle_init_def)
    qed
  qed
qed

text \<open>What the end of the headers or of the footers needs.\<close>

definition ends_ok :: "'a MHD_Connection \<Rightarrow> (nat \<Rightarrow> 'a MHD_Connection \<Rightarrow> 'a MHD_Connection idle_step) \<Rightarrow> bool" where
  "ends_ok c finish \<longleftrightarrow> (\<forall>n c'. length (read_buffer c') < length (read_buffer c) \<and> named c'
     \<and> (\<forall>r. response c' = Some r \<longrightarrow> response_ok r) \<longrightarrow> round_ok c (finish n c'))"

lemma headers_end_ok: "ends_ok c headers_end"
  by (auto simp: ends_ok_def headers_end_def later_def conn_ok_def state_ok_def named_def)

lemma footers_end_ok: "ends_ok c footers_end"
  by (auto simp: ends_ok_def footers_end_def go_on_def later_def conn_ok_def state_ok_def named_def)

lemma failed_leave: "failed c1 c2 \<Longrightarrow> round_ok c (Idle_leave c2)"
  by (auto simp: failed_def waiting_def)

lemma first_line_ok:
  assumes "\<not> shutdown d" "conn_ok c" "named c" "rank (cstate c) \<in> {2, 4}" "waiting (cstate c)" "ends_ok c finish"
    "part = MHD_CONNECTION_HEADER_PART_RECEIVED \<or> part = MHD_CONNECTION_FOOTER_PART_RECEIVED"
  shows "\<exists>s. idle_first_line d c part finish = Some s \<and> round_ok c s"
proof -
  obtain l c1 where l: "get_next_header_line d c = Some (l, c1)" "line_result c l c1" using next_line_total [OF assms(1,2)] by blast
  show ?thesis
  proof (cases l)
    case None
    then show ?thesis using l no_line_ok [of c c1 d] assms(4,5) by (simp add: idle_first_line_def)
  next
    case (Some h)
    obtain line at n where h: "h = (line, at, n)" by (cases h)
    have con: "consumed c c1" using l(2) Some by (simp add: line_result_def)
    note cf = consumed_fields [OF con]
    have r1: "\<forall>r. response c1 = Some r \<longrightarrow> response_ok r" using assms(2) cf(6) by (simp add: conn_ok_def)
    show ?thesis
    proof (cases "peek line = NUL")
      case True
      have "round_ok c (finish n c1)" using assms(3,6) cf r1 by (simp add: ends_ok_def)
      then show ?thesis using l Some h True by (simp add: idle_first_line_def)
    next
      case False
      obtain ok c2 where p: "process_header_line d c1 (c_str line) at = (ok, c2)" "ok \<longrightarrow> header_set c1 c2"
        "\<not> ok \<longrightarrow> (\<exists>c3. transmit_error_response d c2 400 REQUEST_MALFORMED = Some c3 \<and> failed c1 c3)"
        using header_line_total [OF assms(1)] by blast
      show ?thesis
      proof (cases ok)
        case True
        then have hs: "header_set c1 c2" using p(2) by simp
        note hf = header_set_fields [OF hs]
        have "later c (c2\<lparr>cstate := part\<rparr>)" using consumed_later [OF con] hf(4) by simp
        moreover have "conn_ok (c2\<lparr>cstate := part\<rparr>)"
          using hf r1 cf assms(3,7) by (auto simp: conn_ok_def state_ok_def named_def)
        ultimately show ?thesis using l(1) Some h False p(1) True by (simp add: idle_first_line_def)
      next
        case bad: False
        then obtain c3 where t: "transmit_error_response d c2 400 REQUEST_MALFORMED = Some c3" "failed c1 c3" using p(3) by blast
        show ?thesis using l(1) Some h False p(1) bad t(1) failed_leave [OF t(2)] by (auto simp: idle_first_line_def)
      qed
    qed
  qed
qed

lemma next_line_ok:
  assumes "\<not> shutdown d" "conn_ok c" "named c" "last_line c \<noteq> None" "colon c \<noteq> None" "ends_ok c finish"
    "cstate c = MHD_CONNECTION_HEADER_PART_RECEIVED \<or> cstate c = MHD_CONNECTION_FOOTER_PART_RECEIVED"
  shows "\<exists>s. idle_next_line d c kind finish = Some s \<and> round_ok c s"
proof -
  obtain l c1 where l: "get_next_header_line d c = Some (l, c1)" "line_result c l c1" using next_line_total [OF assms(1,2)] by blast
  show ?thesis
  proof (cases l)
    case None
    have "rank (cstate c) \<in> {2, 4}" "waiting (cstate c)" using assms(7) by (auto simp: waiting_def)
    then show ?thesis using None l no_line_ok [of c c1 d] by (simp add: idle_next_line_def)
  next
    case (Some h)
    obtain line at n where h: "h = (line, at, n)" by (cases h)
    have con: "consumed c c1" using l(2) Some by (simp add: line_result_def)
    note cf = consumed_fields [OF con]
    have r1: "\<forall>r. response c1 = Some r \<longrightarrow> response_ok r" using assms(2) cf(6) by (simp add: conn_ok_def)
    obtain ok c2 where p: "process_broken_line d c1 (c_str line) at kind = Some (ok, c2)" "\<not> ok \<longrightarrow> failed c1 c2"
      "ok \<longrightarrow> last_line c2 \<noteq> None \<and> colon c2 \<noteq> None \<and> cstate c2 = cstate c1 \<and> read_buffer c2 = read_buffer c1
         \<and> suspended c2 = suspended c1 \<and> named c2 \<and> response c2 = response c1"
      using broken_line_total [OF assms(1), of c1 "c_str line" at kind] cf assms(2-5) by auto
    have eq: "idle_next_line d c kind finish
        = Some (if ok \<and> (peek line = NUL \<or> peek line = CHR '':'') then finish n c2 else Idle_again c2)"
      using l(1) Some h p(1) by (simp add: idle_next_line_def)
    show ?thesis
    proof (cases ok)
      case True
      then have "round_ok c (finish n c2)" using p(3) assms(6) cf r1 by (simp add: ends_ok_def)
      moreover have "later c c2" using p(3) True consumed_later [OF con] by simp
      moreover have "conn_ok c2" using p(3) True r1 cf(1) assms(7) by (auto simp: conn_ok_def state_ok_def)
      ultimately show ?thesis using eq by simp
    next
      case False
      then have "failed c1 c2" using p(2) by simp
      then have "conn_ok c2" "later c c2" using consumed_later [OF con] by (simp_all add: failed_def)
      then show ?thesis using eq False by simp
    qed
  qed
qed

lemma headers_received_ok:
  assumes "well_behaved d" "conn_ok c" "cstate c = MHD_CONNECTION_HEADERS_RECEIVED"
  shows "\<exists>s. idle_headers_received d c = Some s \<and> round_ok c s"
proof -
  have "named c" using assms(2,3) by (simp add: conn_ok_def state_ok_def)
  then obtain c1 where c1: "parse_connection_headers d c = Some c1" "named c1" "\<forall>r. response c1 = Some r \<longrightarrow> response_ok r"
    "read_buffer c1 = read_buffer c"
    using parse_headers_total [OF assms(1,2)] by blast
  have "conn_ok (c1\<lparr>cstate := MHD_CONNECTION_HEADERS_PROCESSED\<rparr>)" "later c (c1\<lparr>cstate := MHD_CONNECTION_HEADERS_PROCESSED\<rparr>)"
    using c1 assms(3) by (simp_all add: conn_ok_def state_ok_def named_def later_def)
  moreover have "cstate c1 = MHD_CONNECTION_CLOSED \<longrightarrow> conn_ok c1 \<and> later c c1"
    using c1 assms(3) by (auto simp: conn_ok_def state_ok_def later_def)
  ultimately show ?thesis using c1(1) go_on_ok by (auto simp: idle_headers_received_def)
qed

lemma headers_processed_ok:
  assumes "well_behaved d" "conn_ok c" "cstate c = MHD_CONNECTION_HEADERS_PROCESSED"
  shows "\<exists>s. idle_headers_processed d c = Some s \<and> round_ok c s"
proof -
  define c1 where "c1 = call_connection_handler d c"
  have "named c" using assms(2,3) by (simp add: conn_ok_def state_ok_def)
  note c1 = call_handler_total [OF assms(1,2) this c1_def]
  define c2 where "c2 = (if response c1 \<noteq> None \<and> is_upload (req_method c1) then c1\<lparr>remaining_upload_size := 0, read_closed := True\<rparr> else c1)"
  define c3 where "c3 = c2\<lparr>cstate := (if remaining_upload_size c2 = 0 then MHD_CONNECTION_FOOTERS_RECEIVED else MHD_CONNECTION_CONTINUE_SENT)\<rparr>"
  have c2: "named c2" "read_buffer c2 = read_buffer c1" "response c2 = response c1" using c1(2) by (auto simp: c2_def named_def)
  have ok: "conn_ok c3" "later c c3" using c2 c1 assms(3) by (auto simp: c3_def conn_ok_def state_ok_def named_def later_def)
  have cl: "cstate c1 = MHD_CONNECTION_CLOSED \<longrightarrow> conn_ok c1 \<and> later c c1" using c1 assms(3) by (auto simp: conn_ok_def state_ok_def later_def)
  have co: "conn_ok (c1\<lparr>cstate := MHD_CONNECTION_CONTINUE_SENDING\<rparr>)" using c1 by (auto simp: conn_ok_def state_ok_def named_def)
  have "idle_headers_processed d c = Some (if cstate c1 = MHD_CONNECTION_CLOSED then Idle_again c1
      else if need_100_continue c1 then Idle_leave (c1\<lparr>cstate := MHD_CONNECTION_CONTINUE_SENDING\<rparr>) else go_on c3)"
    unfolding idle_headers_processed_def Let_def c1_def [symmetric] c2_def [symmetric] c3_def [symmetric]
    using c1(2) by (auto simp: named_def)
  then show ?thesis using ok cl co go_on_ok by (auto simp: waiting_def)
qed

lemma continue_sent_ok:
  assumes "well_behaved d" "conn_ok c" "cstate c = MHD_CONNECTION_CONTINUE_SENT"
  shows "\<exists>s. idle_continue_sent d c = Some s \<and> round_ok c s"
proof -
  obtain c1 where c1: "(if read_buffer c \<noteq> [] then process_request_body d c else Some c) = Some c1" "conn_ok c1"
    "length (read_buffer c1) \<le> length (read_buffer c)" "cstate c1 = cstate c \<or> cstate c1 = MHD_CONNECTION_CLOSED"
    using request_body_total [OF assms] assms(2) by (cases "read_buffer c = []") auto
  let ?c = "c1\<lparr>cstate := (if have_chunked_upload c1 \<and> \<not> read_closed c1 then MHD_CONNECTION_BODY_RECEIVED else MHD_CONNECTION_FOOTERS_RECEIVED)\<rparr>"
  have cl: "cstate c1 = MHD_CONNECTION_CLOSED \<longrightarrow> later c c1" using c1(3) assms(3) by (auto simp: later_def)
  have "cstate c1 \<noteq> MHD_CONNECTION_CLOSED \<longrightarrow> conn_ok ?c \<and> later c ?c"
    using c1 assms(3) by (auto simp: conn_ok_def state_ok_def named_def later_def)
  moreover have "cstate c1 \<noteq> MHD_CONNECTION_CLOSED \<longrightarrow> waiting (cstate c1)" using c1(4) assms(3) by (auto simp: waiting_def)
  ultimately show ?thesis using c1(1,2) cl go_on_ok [of ?c c] unfolding idle_continue_sent_def by auto
qed

lemma footers_received_ok:
  assumes "well_behaved d" "conn_ok c" "cstate c = MHD_CONNECTION_FOOTERS_RECEIVED"
  shows "\<exists>s. idle_footers_received d c = Some s \<and> round_ok c s"
proof -
  define c1 where "c1 = call_connection_handler d c"
  have "named c" using assms(2,3) by (simp add: conn_ok_def state_ok_def)
  note c1 = call_handler_total [OF assms(1,2) this c1_def]
  consider "cstate c1 = MHD_CONNECTION_CLOSED" | "cstate c1 = MHD_CONNECTION_FOOTERS_RECEIVED" "response c1 = None"
    | r where "cstate c1 = MHD_CONNECTION_FOOTERS_RECEIVED" "response c1 = Some r" using c1(1) assms(3) by auto
  then show ?thesis
  proof cases
    case 1
    then have "conn_ok c1" "later c c1" using c1 assms(3) by (auto simp: conn_ok_def state_ok_def later_def)
    then show ?thesis using 1 by (simp add: idle_footers_received_def Let_def flip: c1_def)
  next
    case 2
    then have "conn_ok c1" using c1 by (simp add: conn_ok_def state_ok_def)
    then show ?thesis using 2 by (simp add: idle_footers_received_def waiting_def Let_def flip: c1_def)
  next
    case 3
    obtain v where v: "req_version c1 = Some v" using c1(2) by (auto simp: named_def)
    have "response_ok r" using 3 c1(4) by blast
    then obtain ok c2 where b: "build_header_response d c1 = Some (ok, c2)" "ok \<longrightarrow> buffer_ok c2" "untouched c1 c2"
      using build_header_total [OF 3(2) _ v, of d] 3(1) by blast
    have ok: "ok \<longrightarrow> conn_ok (c2\<lparr>cstate := MHD_CONNECTION_HEADERS_SENDING\<rparr>)"
      using b(2,3) c1(2,4) 3 by (auto simp: untouched_def ok_defs)
    have "later c (CONNECTION_CLOSE_ERROR d c2)" using b(3) c1(3) assms(3) by (simp add: later_def untouched_def)
    then show ?thesis using 3 b(1) ok by (simp add: idle_footers_received_def waiting_def Let_def flip: c1_def)
  qed
qed

lemma sending_body_ok:
  assumes "well_behaved d" "conn_ok c"
  shows "cstate c = MHD_CONNECTION_NORMAL_BODY_UNREADY \<Longrightarrow> \<exists>s. idle_normal_unready d c = Some s \<and> round_ok c s"
    "cstate c = MHD_CONNECTION_CHUNKED_BODY_UNREADY \<Longrightarrow> \<exists>s. idle_chunked_unready d c = Some s \<and> round_ok c s"
proof -
  assume st: "cstate c = MHD_CONNECTION_NORMAL_BODY_UNREADY"
  then have c: "replying c" "with_body c" using assms(2) by (simp_all add: conn_ok_def state_ok_def)
  then obtain r where r: "response c = Some r" by (auto simp: replying_def)
  obtain ok c1 where t: "try_ready_normal_body d c = Some (ok, c1)"
    "ok \<longrightarrow> replying c1 \<and> with_body c1 \<and> (\<forall>r. response c1 = Some r \<longrightarrow> response_ok r)"
    "\<not> ok \<longrightarrow> conn_ok c1 \<and> (cstate c1 = MHD_CONNECTION_CLOSED \<or> cstate c1 = MHD_CONNECTION_NORMAL_BODY_UNREADY)"
    using ready_normal_total [OF assms c] by blast
  have "ok \<longrightarrow> conn_ok (c1\<lparr>cstate := MHD_CONNECTION_NORMAL_BODY_READY\<rparr>)" using t(2) by (auto simp: ok_defs)
  moreover have "conn_ok (c\<lparr>cstate := MHD_CONNECTION_BODY_SENT\<rparr>)" using c assms(2) by (auto simp: ok_defs)
  ultimately show "\<exists>s. idle_normal_unready d c = Some s \<and> round_ok c s"
    using r t st by (cases ok) (auto simp: idle_normal_unready_def later_def waiting_def)
next
  assume st: "cstate c = MHD_CONNECTION_CHUNKED_BODY_UNREADY"
  then have c: "replying c" "with_body c" using assms(2) by (simp_all add: conn_ok_def state_ok_def)
  then obtain r where r: "response c = Some r" by (auto simp: replying_def)
  obtain ok c1 where t: "try_ready_chunked_body d c = Some (ok, c1)" "read_buffer c1 = read_buffer c"
    "ok \<longrightarrow> replying c1 \<and> with_body c1 \<and> buffer_ok c1 \<and> (\<forall>r. response c1 = Some r \<longrightarrow> response_ok r)"
    "\<not> ok \<longrightarrow> conn_ok c1 \<and> (cstate c1 = MHD_CONNECTION_CLOSED \<or> cstate c1 = MHD_CONNECTION_CHUNKED_BODY_UNREADY)"
    using ready_chunked_total [OF assms st] by blast
  have "ok \<longrightarrow> conn_ok (c1\<lparr>cstate := MHD_CONNECTION_CHUNKED_BODY_READY\<rparr>)" using t(3) by (auto simp: ok_defs)
  moreover have "conn_ok (c\<lparr>cstate := MHD_CONNECTION_BODY_SENT\<rparr>)" using c assms(2) by (auto simp: ok_defs)
  ultimately show "\<exists>s. idle_chunked_unready d c = Some s \<and> round_ok c s"
    using r t st by (cases ok) (auto simp: idle_chunked_unready_def later_def waiting_def)
qed

lemma body_sent_ok:
  assumes "conn_ok c" "cstate c = MHD_CONNECTION_BODY_SENT"
  shows "\<exists>s. idle_body_sent d c = Some s \<and> round_ok c s"
proof -
  obtain r v where r: "response c = Some r" "response_ok r" "req_version c = Some v" "replying c"
    using assms by (auto simp: ok_defs)
  then obtain ok c1 where b: "build_header_response d c = Some (ok, c1)" "ok \<longrightarrow> buffer_ok c1" "untouched c c1"
    using build_header_total [OF r(1-3)] assms(2) by blast
  have "replying c1" using b(3) r(4) by (auto simp: untouched_def replying_def)
  then have "ok \<longrightarrow> conn_ok (c1\<lparr>cstate := MHD_CONNECTION_FOOTERS_SENT\<rparr>) \<and> conn_ok (c1\<lparr>cstate := MHD_CONNECTION_FOOTERS_SENDING\<rparr>)"
    using b(2,3) r(1,2) by (auto simp: untouched_def ok_defs)
  moreover have "later c (c1\<lparr>cstate := MHD_CONNECTION_FOOTERS_SENT\<rparr>)" "later c (c1\<lparr>cstate := MHD_CONNECTION_FOOTERS_SENDING\<rparr>)"
    "later c (CONNECTION_CLOSE_ERROR d c1)"
    using b(3) assms(2) by (simp_all add: untouched_def later_def)
  ultimately show ?thesis using b(1) by (simp add: idle_body_sent_def)
qed

lemma headers_sent_ok:
  assumes "conn_ok c" "cstate c = MHD_CONNECTION_HEADERS_SENT"
  shows "\<exists>s. idle_headers_sent upgraded d c = Some s \<and> round_ok c s"
proof -
  obtain r where r: "response c = Some r" "response_ok r" using assms by (auto simp: ok_defs)
  have "conn_ok (c\<lparr>cstate := MHD_CONNECTION_UPGRADE, suspended := True, read_buffer := [], response := None\<rparr>)"
    by (simp add: ok_defs)
  moreover have "\<not> upgrade_handler r \<longrightarrow> conn_ok (c\<lparr>cstate := MHD_CONNECTION_CHUNKED_BODY_UNREADY\<rparr>)
      \<and> conn_ok (c\<lparr>cstate := MHD_CONNECTION_NORMAL_BODY_UNREADY\<rparr>)"
    using assms r by (auto simp: ok_defs)
  moreover have "later c (c\<lparr>cstate := MHD_CONNECTION_UPGRADE, suspended := True, read_buffer := [], response := None\<rparr>)"
    "later c (c\<lparr>cstate := MHD_CONNECTION_CHUNKED_BODY_UNREADY\<rparr>)" "later c (c\<lparr>cstate := MHD_CONNECTION_NORMAL_BODY_UNREADY\<rparr>)"
    "later c (CONNECTION_CLOSE_ERROR d (c\<lparr>cstate := MHD_CONNECTION_UPGRADE\<rparr>))"
    using assms(2) by (auto simp: later_def)
  ultimately show ?thesis using r(1) by (auto simp: idle_headers_sent_def)
qed

lemma footers_sent_ok:
  assumes "conn_ok c" "cstate c = MHD_CONNECTION_FOOTERS_SENT"
  shows "round_ok c (idle_footers_sent d c)"
proof (cases "responseCode c = 102")
  case True
  then show ?thesis using assms by (auto simp: idle_footers_sent_def later_def ok_defs)
next
  case False
  define c1 where "c1 = notify_end d (c\<lparr>response := None\<rparr>) MHD_REQUEST_TERMINATED_COMPLETED_OK"
  define c2 where "c2 = (if keepalive c1 \<noteq> MHD_CONN_USE_KEEPALIVE \<or> read_closed c1
      then (MHD_connection_close d c1 MHD_REQUEST_TERMINATED_COMPLETED_OK)\<lparr>read_buffer := [], read_buffer_at := None, read_buffer_size := 0\<rparr>
      else keep_alive d c1)"
  have c1: "response c1 = None" "read_buffer c1 = read_buffer c" by (simp_all add: c1_def)
  have c2: "cstate c2 = MHD_CONNECTION_CLOSED \<or> cstate c2 = MHD_CONNECTION_INIT" "response c2 = None"
    "length (read_buffer c2) \<le> length (read_buffer c)"
    using c1 by (auto simp: c2_def keep_alive_def split: prod.splits)
  have eq: "idle_footers_sent d c = Idle_again (clear_request c2)"
    using False by (simp add: idle_footers_sent_def c2_def c1_def Let_def)
  have "conn_ok (clear_request c2)" using c2(1,2) by (auto simp: clear_request_def conn_ok_def state_ok_def)
  moreover have "later c (clear_request c2)" using c2(1,3) assms(2) by (auto simp: clear_request_def later_def)
  ultimately show ?thesis using eq by simp
qed

text \<open>Every round returns, keeps the invariant and makes progress.\<close>

lemma idle_case_ok:
  assumes "well_behaved d" "conn_ok c" "\<not> suspended c"
  shows "\<exists>s. idle_case upgraded d c = Some s \<and> round_ok c s"
proof -
  have d: "\<not> shutdown d" using assms(1) by (simp add: well_behaved_def)
  have n: "named c" if "cstate c = MHD_CONNECTION_URL_RECEIVED \<or> cstate c = MHD_CONNECTION_HEADER_PART_RECEIVED
      \<or> cstate c = MHD_CONNECTION_BODY_RECEIVED \<or> cstate c = MHD_CONNECTION_FOOTER_PART_RECEIVED"
    using that assms(2) by (auto simp: conn_ok_def state_ok_def)
  have l: "last_line c \<noteq> None" "colon c \<noteq> None" if "cstate c = MHD_CONNECTION_HEADER_PART_RECEIVED \<or> cstate c = MHD_CONNECTION_FOOTER_PART_RECEIVED"
    using that assms(2) by (auto simp: conn_ok_def state_ok_def)
  show ?thesis
  proof (cases "cstate c")
    case MHD_CONNECTION_URL_RECEIVED
    then show ?thesis
      using first_line_ok [OF d assms(2) n _ _ headers_end_ok, of MHD_CONNECTION_HEADER_PART_RECEIVED] by (simp add: idle_case_def waiting_def)
  next
    case MHD_CONNECTION_HEADER_PART_RECEIVED
    then show ?thesis using next_line_ok [OF d assms(2) n l headers_end_ok] by (simp add: idle_case_def)
  next
    case MHD_CONNECTION_BODY_RECEIVED
    then show ?thesis
      using first_line_ok [OF d assms(2) n _ _ footers_end_ok, of MHD_CONNECTION_FOOTER_PART_RECEIVED] by (simp add: idle_case_def waiting_def)
  next
    case MHD_CONNECTION_FOOTER_PART_RECEIVED
    then show ?thesis using next_line_ok [OF d assms(2) n l footers_end_ok] by (simp add: idle_case_def)
  next
    case MHD_CONNECTION_CONTINUE_SENDING
    then show ?thesis using assms(2)
      by (auto simp: idle_case_def idle_continue_sending_def waiting_def later_def conn_ok_def state_ok_def named_def)
  next
    case MHD_CONNECTION_CLOSED
    then show ?thesis by (simp add: idle_case_def conn_ok_def state_ok_def)
  next
    case MHD_CONNECTION_UPGRADE
    then show ?thesis using assms(2,3) by (simp add: conn_ok_def state_ok_def)
  qed (use assms init_ok headers_received_ok headers_processed_ok continue_sent_ok footers_received_ok sending_body_ok
      body_sent_ok headers_sent_ok footers_sent_ok in \<open>simp_all add: idle_case_def waiting_def\<close>)
qed

section \<open>The loops\<close>

definition round_measure :: "'a MHD_Connection \<Rightarrow> nat" where
  "round_measure c = 13 * length (read_buffer c) + rank (cstate c)"

lemma rank_less: "rank st < 13"
  by (cases st) simp_all

lemma later_less: "later c c' \<Longrightarrow> round_measure c' < round_measure c"
  using rank_less [of "cstate c'"] by (auto simp: later_def round_measure_def)

lemma idle_loop_total:
  assumes "well_behaved d" "conn_ok c"
  shows "\<exists>r c'. idle_loop upgraded d c = Some (r, c') \<and> conn_ok c'
    \<and> (r = None \<longrightarrow> suspended c' \<or> waiting (cstate c')) \<and> (r \<noteq> None \<longrightarrow> cstate c' = MHD_CONNECTION_CLOSED)"
  using assms(2)
proof (induction "round_measure c" arbitrary: c rule: less_induct)
  case less
  show ?case
  proof (cases "suspended c")
    case True
    then show ?thesis using less(2) by (simp add: idle_loop.simps)
  next
    case False
    obtain s where s: "idle_case upgraded d c = Some s" "round_ok c s" using idle_case_ok [OF assms(1) less(2) False] by blast
    show ?thesis
    proof (cases s)
      case (Idle_again c1)
      then have "conn_ok c1" "round_measure c1 < round_measure c" using s(2) later_less by auto
      then show ?thesis using less(1) s(1) False Idle_again by (simp add: idle_loop.simps [of upgraded d c])
    qed (use s False in \<open>auto simp: idle_loop.simps [of upgraded d c]\<close>)
  qed
qed

text \<open>An event that is waited for fits the state.\<close>

definition event_ok :: "'a MHD_Connection \<Rightarrow> bool" where
  "event_ok c \<longleftrightarrow> suspended c \<or> (event_loop_info c = MHD_EVENT_LOOP_INFO_WRITE \<longrightarrow> writable (cstate c))"

lemma event_info_total:
  assumes "\<not> shutdown d" "conn_ok c" "waiting (cstate c)"
  shows "\<exists>c' again. event_info d c = Some (c', again) \<and> conn_ok c'
    \<and> (again \<longrightarrow> cstate c' = MHD_CONNECTION_HEADERS_SENDING \<or> cstate c' = MHD_CONNECTION_CLOSED) \<and> (\<not> again \<longrightarrow> event_ok c')"
proof -
  obtain ok c1 where g: "(if word_of_nat (length (read_buffer c)) = read_buffer_size c then try_grow_read_buffer d c else (True, c)) = (ok, c1)"
    by fastforce
  have g1: "cstate c1 = cstate c" "conn_ok c1" using g grow_fields [of d c ok c1] assms(2) by (auto split: if_splits)
  have t: "\<exists>c2. transmit_error_response d c1 code msg = Some c2 \<and> conn_ok c2
      \<and> (cstate c2 = MHD_CONNECTION_HEADERS_SENDING \<or> cstate c2 = MHD_CONNECTION_CLOSED)" if "code \<noteq> 102" for code msg
    using transmit_error_total [OF assms(1) that, of c1 msg] by (auto simp: failed_def)
  have u: "(if req_url c1 \<noteq> None then 431 else 414 :: u32) \<noteq> 102" by simp
  note ev = event_info_def [of d c] event_ok_def writable_def
  show ?thesis
  proof (cases "cstate c")
    case MHD_CONNECTION_INIT
    then show ?thesis using g g1 t [OF u, of REQUEST_TOO_BIG] by (cases ok) (auto simp: ev Let_def)
  next
    case MHD_CONNECTION_URL_RECEIVED
    then show ?thesis using g g1 t [OF u, of REQUEST_TOO_BIG] by (cases ok) (auto simp: ev Let_def)
  next
    case MHD_CONNECTION_HEADER_PART_RECEIVED
    then show ?thesis using g g1 t [OF u, of REQUEST_TOO_BIG] by (cases ok) (auto simp: ev Let_def)
  next
    case MHD_CONNECTION_CONTINUE_SENT
    then show ?thesis using g g1 t [of 500 INTERNAL_ERROR] by (cases ok) (auto simp: ev Let_def)
  qed (use assms(2,3) in \<open>simp_all add: waiting_def\<close>, auto simp: ev Let_def)
qed

lemma event_loop_total:
  assumes "\<not> shutdown d" "conn_ok c" "suspended c \<or> waiting (cstate c)"
  shows "\<exists>c'. MHD_connection_update_event_loop_info d c = Some c' \<and> conn_ok c' \<and> event_ok c'"
proof (cases "suspended c")
  case True
  then show ?thesis using assms(2) by (simp add: MHD_connection_update_event_loop_info_def event_ok_def)
next
  case False
  then have w: "waiting (cstate c)" using assms(3) by simp
  obtain c1 again where e: "event_info d c = Some (c1, again)" "conn_ok c1"
    "again \<longrightarrow> cstate c1 = MHD_CONNECTION_HEADERS_SENDING \<or> cstate c1 = MHD_CONNECTION_CLOSED" "\<not> again \<longrightarrow> event_ok c1"
    using event_info_total [OF assms(1,2) w] by blast
  have once: "\<exists>c'. event_info_loop d c1 = Some c' \<and> conn_ok c' \<and> event_ok c'" if again
    using that e(2,3) by (auto simp: event_info_loop.simps [of d c1] event_info_def [of d c1] event_ok_def writable_def Let_def)
  show ?thesis
    using e False once by (cases again) (auto simp: MHD_connection_update_event_loop_info_def event_info_loop.simps [of d c])
qed

section \<open>The handlers\<close>

lemma idle_total:
  assumes "well_behaved d" "conn_ok c"
  shows "\<exists>ret c'. MHD_connection_handle_idle upgraded d c = Some (ret, c') \<and> conn_ok c' \<and> event_ok c'"
proof -
  have d: "\<not> shutdown d" using assms(1) by (simp add: well_behaved_def)
  obtain r c1 where l: "idle_loop upgraded d c = Some (r, c1)" "conn_ok c1" "r = None \<longrightarrow> suspended c1 \<or> waiting (cstate c1)"
    "r \<noteq> None \<longrightarrow> cstate c1 = MHD_CONNECTION_CLOSED"
    using idle_loop_total [OF assms] by blast
  show ?thesis
  proof (cases r)
    case None
    then obtain c2 where u: "MHD_connection_update_event_loop_info d c1 = Some c2" "conn_ok c2" "event_ok c2"
      using event_loop_total [OF d l(2)] l(3) by blast
    then show ?thesis
      using l(1) None by (auto simp: MHD_connection_handle_idle_def event_ok_def)
  next
    case (Some ret)
    then show ?thesis using l by (simp add: MHD_connection_handle_idle_def event_ok_def writable_def)
  qed
qed

lemma read_total:
  assumes "conn_ok c"
  shows "\<exists>c'. MHD_connection_handle_read d c res = Some c' \<and> conn_ok c'"
proof (cases "cstate c = MHD_CONNECTION_CLOSED \<or> suspended c")
  case True
  then show ?thesis using assms by (auto simp: MHD_connection_handle_read_def)
next
  case False
  define c1 where "c1 = (if word_of_nat (length (read_buffer c)) + pool_increment d > read_buffer_size c
      then snd (try_grow_read_buffer d c) else c)"
  have c1: "cstate c1 = cstate c" "conn_ok c1" "suspended c1 = suspended c"
    using grow_fields [of d c "fst (try_grow_read_buffer d c)" "snd (try_grow_read_buffer d c)"] assms by (auto simp: c1_def)
  have up: "cstate c1 \<noteq> MHD_CONNECTION_UPGRADE" using c1 False assms by (auto simp: conn_ok_def state_ok_def)
  have after: "\<exists>c'. after_read d x = Some c' \<and> conn_ok c'" if "conn_ok x" "cstate x \<noteq> MHD_CONNECTION_UPGRADE" for x :: "'a MHD_Connection"
    using that by (auto simp: after_read_def)
  show ?thesis
    using False c1(2) up
    by (auto simp: MHD_connection_handle_read_def Let_def simp flip: c1_def split: recv_result.split list.split intro!: after)
qed

lemma write_idle_total:
  assumes "well_behaved d" "conn_ok (snd rc)" "suspended (snd rc) \<or> writable (cstate (snd rc))"
  shows "\<exists>ret c'. write_and_idle upgraded d res rc = Some (ret, c') \<and> conn_ok c' \<and> event_ok c'"
  using write_total [OF assms, of res] idle_total [OF assms(1)] by (auto simp: write_and_idle_def)

definition after_event :: "'a MHD_Connection \<Rightarrow> bool" where
  "after_event c \<longleftrightarrow> conn_ok c \<and> event_ok c"

lemma idle_event:
  "well_behaved d \<Longrightarrow> conn_ok c \<Longrightarrow> \<exists>rc. MHD_connection_handle_idle upgraded d c = Some rc \<and> after_event (snd rc)"
  using idle_total [of d c upgraded] by (auto simp: after_event_def)

lemma write_idle_event:
  "well_behaved d \<Longrightarrow> conn_ok (snd rc) \<Longrightarrow> suspended (snd rc) \<or> writable (cstate (snd rc)) \<Longrightarrow>
   \<exists>rc'. write_and_idle upgraded d res rc = Some rc' \<and> after_event (snd rc')"
  using write_idle_total [of d rc upgraded res] by (auto simp: after_event_def)

lemma read_event_total:
  assumes "well_behaved d" "after_event c"
  shows "\<exists>p rc. read_event upgraded d c ready = Some (p, rc) \<and> after_event (snd rc)"
proof -
  show ?thesis
  proof (cases "\<exists>res. ready = Some res \<and> event_loop_info c = MHD_EVENT_LOOP_INFO_READ")
    case True
    then obtain res where res: "ready = Some res" "event_loop_info c = MHD_EVENT_LOOP_INFO_READ" by blast
    obtain x where x: "MHD_connection_handle_read d c res = Some x" "conn_ok x"
      using read_total [of c d res] assms(2) by (auto simp: after_event_def)
    obtain rc where "MHD_connection_handle_idle upgraded d x = Some rc" "after_event (snd rc)" using idle_event [OF assms(1) x(2)] by blast
    then show ?thesis using res x(1) by (auto simp: read_event_def)
  next
    case False
    then show ?thesis using assms(2) by (auto simp: read_event_def split: option.split)
  qed
qed

lemma write_event_total:
  assumes "well_behaved d" "after_event (snd rc)"
  shows "\<exists>p' rc'. write_event upgraded d (p, rc) ready = Some (p', rc') \<and> after_event (snd rc')"
proof (cases "\<exists>res. ready = Some res \<and> event_loop_info (snd rc) = MHD_EVENT_LOOP_INFO_WRITE")
  case True
  then obtain res where res: "ready = Some res" "event_loop_info (snd rc) = MHD_EVENT_LOOP_INFO_WRITE" by blast
  then obtain rc' where "write_and_idle upgraded d res rc = Some rc'" "after_event (snd rc')"
    using write_idle_event [OF assms(1), of rc upgraded res] assms(2) by (auto simp: after_event_def event_ok_def)
  then show ?thesis using res by (auto simp: write_event_def)
next
  case False
  then show ?thesis using assms(2) by (cases rc) (auto simp: write_event_def split: option.split)
qed

lemma fast_track_total:
  assumes "well_behaved d" "after_event (snd rc)"
  shows "\<exists>rc'. fast_track upgraded d send rc = Some rc' \<and> after_event (snd rc')"
proof -
  obtain rc1 where r1: "(if cstate (snd rc) = MHD_CONNECTION_HEADERS_SENDING then write_and_idle upgraded d (send 0) rc else Some rc) = Some rc1"
    "after_event (snd rc1)"
  proof (cases "cstate (snd rc) = MHD_CONNECTION_HEADERS_SENDING")
    case True
    then show thesis using that write_idle_event [OF assms(1), of rc upgraded "send 0"] assms(2) by (auto simp: after_event_def writable_def)
  qed (use that assms(2) in simp)
  then have "conn_ok (snd rc1)" by (simp add: after_event_def)
  then show ?thesis
    using write_idle_event [OF assms(1), of rc1 upgraded "send 1"] r1 by (cases rc1) (auto simp: fast_track_def writable_def)
qed

lemma call_handlers_total:
  assumes "well_behaved d" "after_event c"
  shows "\<exists>rc. call_handlers upgraded d c read_ready write_ready send nonblocking force_close = Some rc \<and> after_event (snd rc)"
proof (cases force_close)
  case True
  then show ?thesis using idle_event [OF assms(1) close_ok(1)] by (simp add: call_handlers_def)
next
  case False
  obtain p1 rc1 where r: "read_event upgraded d c read_ready = Some (p1, rc1)" "after_event (snd rc1)"
    using read_event_total [OF assms] by blast
  obtain p2 rc2 where w: "write_event upgraded d (p1, rc1) write_ready = Some (p2, rc2)" "after_event (snd rc2)"
    using write_event_total [OF assms(1) r(2)] by blast
  have "conn_ok (snd rc2)" using w(2) by (simp add: after_event_def)
  then show ?thesis
    using False r w fast_track_total [OF assms(1) w(2), of upgraded send] idle_event [OF assms(1), of "snd rc2" upgraded]
    by (cases rc2) (auto simp: call_handlers_def)
qed

section \<open>Runs\<close>

text \<open>
  A connection that was accepted, the events of its socket, and the end of a suspension. The last one is restricted: a suspended connection
  keeps what it waited for before, and the daemon uses that for the next event.
\<close>

inductive reachable :: "bool \<Rightarrow> 'a MHD_Daemon \<Rightarrow> 'a MHD_Connection \<Rightarrow> bool" for upgraded daemon where
  accepted: "cstate c = MHD_CONNECTION_INIT \<Longrightarrow> response c = None \<Longrightarrow> event_loop_info c = MHD_EVENT_LOOP_INFO_READ \<Longrightarrow>
     calls c = [] \<Longrightarrow> \<not> client_aware c \<Longrightarrow> reachable upgraded daemon c"
| event: "reachable upgraded daemon c \<Longrightarrow>
     call_handlers upgraded daemon c read_ready write_ready send nonblocking force_close = Some (ret, c') \<Longrightarrow> reachable upgraded daemon c'"
| resumed: "reachable upgraded daemon c \<Longrightarrow> suspended c \<Longrightarrow> cstate c \<noteq> MHD_CONNECTION_UPGRADE \<Longrightarrow>
     event_loop_info c \<noteq> MHD_EVENT_LOOP_INFO_WRITE \<Longrightarrow> reachable upgraded daemon (c\<lparr>suspended := False, last_activity := t\<rparr>)"

lemma reachable_ok:
  assumes "well_behaved d" "reachable upgraded d c"
  shows "after_event c"
  using assms(2)
proof (induction rule: reachable.induct)
  case (accepted c)
  then show ?case by (simp add: after_event_def event_ok_def conn_ok_def state_ok_def)
next
  case (event c read_ready write_ready send nonblocking force_close ret c')
  then show ?case using call_handlers_total [OF assms(1), of c upgraded read_ready write_ready send nonblocking force_close] by simp
next
  case (resumed c t)
  then have "conn_ok (c\<lparr>suspended := False\<rparr>)"
    by (cases "cstate c") (simp_all add: after_event_def ok_defs)
  then show ?case using resumed(4) by (simp add: after_event_def event_ok_def)
qed



end
