(* ===== verification/Connection_Notify.thy ===== *)
theory Connection_Notify
  imports Connection_Run
begin

text \<open>
  The protocol of the calls of the application: a request that the application has seen is completed exactly once, and a
  request it has not seen is never completed.
\<close>

section \<open>The protocol\<close>

text \<open>
  The calls as an automaton: whether the application is aware of a request that was not completed. A completion without one is a violation.
\<close>

fun follow :: "bool \<Rightarrow> app_call list \<Rightarrow> bool option" where
  "follow a [] = Some a"
| "follow a (Handler_call s n # cs) = follow True cs"
| "follow a (Uri_log_call s # cs) = follow True cs"
| "follow a (Completed_call k # cs) = (if a then follow False cs else None)"

lemma follow_append: "follow a (cs @ ds) = Option.bind (follow a cs) (\<lambda>b. follow b ds)"
  by (induction a cs rule: follow.induct) auto

definition notified :: "'a MHD_Daemon \<Rightarrow> 'a MHD_Connection \<Rightarrow> bool" where
  "notified d c \<longleftrightarrow> notify_completed d \<noteq> None \<and> response_mem d \<longrightarrow> follow False (calls c) = Some (client_aware c)"

definition settled :: "'a MHD_Daemon \<Rightarrow> 'a MHD_Connection \<Rightarrow> bool" where
  "settled d c \<longleftrightarrow> notified d c \<and> (response_mem d \<and> cstate c = MHD_CONNECTION_CLOSED \<longrightarrow> \<not> client_aware c)"

lemma settledI: "notified d c \<Longrightarrow> cstate c \<noteq> MHD_CONNECTION_CLOSED \<Longrightarrow> settled d c"
  by (simp add: settled_def)

lemma settledD: "settled d c \<Longrightarrow> notified d c"
  by (simp add: settled_def)

text \<open>Only the calls, the awareness and a closed state matter.\<close>

lemma notified_upd [simp]:
  "notified d (c\<lparr>pool := xpool\<rparr>) = notified d c"
  "notified d (c\<lparr>headers_received := xheadersreceived\<rparr>) = notified d c"
  "notified d (c\<lparr>response := xresponse\<rparr>) = notified d c"
  "notified d (c\<lparr>req_method := xreqmethod\<rparr>) = notified d c" "notified d (c\<lparr>req_url := xrequrl\<rparr>) = notified d c"
  "notified d (c\<lparr>req_version := xreqversion\<rparr>) = notified d c"
  "notified d (c\<lparr>keepalive := xkeepalive\<rparr>) = notified d c"
  "notified d (c\<lparr>read_buffer := xreadbuffer\<rparr>) = notified d c"
  "notified d (c\<lparr>read_buffer_at := xreadbufferat\<rparr>) = notified d c"
  "notified d (c\<lparr>read_buffer_size := xreadbuffersize\<rparr>) = notified d c"
  "notified d (c\<lparr>write_buffer := xwritebuffer\<rparr>) = notified d c"
  "notified d (c\<lparr>write_buffer_at := xwritebufferat\<rparr>) = notified d c"
  "notified d (c\<lparr>write_buffer_size := xwritebuffersize\<rparr>) = notified d c"
  "notified d (c\<lparr>write_buffer_send_offset := xwritebuffersendoffset\<rparr>) = notified d c"
  "notified d (c\<lparr>write_buffer_append_offset := xwritebufferappendoffset\<rparr>) = notified d c"
  "notified d (c\<lparr>last_line := xlastline\<rparr>) = notified d c" "notified d (c\<lparr>last_at := xlastat\<rparr>) = notified d c"
  "notified d (c\<lparr>colon := xcolon\<rparr>) = notified d c" "notified d (c\<lparr>header_size := xheadersize\<rparr>) = notified d c"
  "notified d (c\<lparr>remaining_upload_size := xremaininguploadsize\<rparr>) = notified d c"
  "notified d (c\<lparr>response_write_position := xresponsewriteposition\<rparr>) = notified d c"
  "notified d (c\<lparr>continue_message_write_offset := xcontinuemessagewriteoffset\<rparr>) = notified d c"
  "notified d (c\<lparr>last_activity := xlastactivity\<rparr>) = notified d c"
  "notified d (c\<lparr>read_closed := xreadclosed\<rparr>) = notified d c"
  "notified d (c\<lparr>suspended := xsuspended\<rparr>) = notified d c"
  "notified d (c\<lparr>event_loop_info := xeventloopinfo\<rparr>) = notified d c"
  "notified d (c\<lparr>responseCode := xresponseCode\<rparr>) = notified d c"
  "notified d (c\<lparr>have_chunked_upload := xhavechunkedupload\<rparr>) = notified d c"
  "notified d (c\<lparr>current_chunk_size := xcurrentchunksize\<rparr>) = notified d c"
  "notified d (c\<lparr>current_chunk_offset := xcurrentchunkoffset\<rparr>) = notified d c"
  "notified d (c\<lparr>client_context := xclientcontext\<rparr>) = notified d c"
  "notified d (c\<lparr>sent := xsent\<rparr>) = notified d c"
  "notified d (c\<lparr>cstate := st\<rparr>) = notified d c"
  by (simp_all add: notified_def)

lemma settled_upd [simp]:
  "settled d (c\<lparr>pool := xpool\<rparr>) = settled d c"
  "settled d (c\<lparr>headers_received := xheadersreceived\<rparr>) = settled d c"
  "settled d (c\<lparr>response := xresponse\<rparr>) = settled d c" "settled d (c\<lparr>req_method := xreqmethod\<rparr>) = settled d c"
  "settled d (c\<lparr>req_url := xrequrl\<rparr>) = settled d c" "settled d (c\<lparr>req_version := xreqversion\<rparr>) = settled d c"
  "settled d (c\<lparr>keepalive := xkeepalive\<rparr>) = settled d c"
  "settled d (c\<lparr>read_buffer := xreadbuffer\<rparr>) = settled d c"
  "settled d (c\<lparr>read_buffer_at := xreadbufferat\<rparr>) = settled d c"
  "settled d (c\<lparr>read_buffer_size := xreadbuffersize\<rparr>) = settled d c"
  "settled d (c\<lparr>write_buffer := xwritebuffer\<rparr>) = settled d c"
  "settled d (c\<lparr>write_buffer_at := xwritebufferat\<rparr>) = settled d c"
  "settled d (c\<lparr>write_buffer_size := xwritebuffersize\<rparr>) = settled d c"
  "settled d (c\<lparr>write_buffer_send_offset := xwritebuffersendoffset\<rparr>) = settled d c"
  "settled d (c\<lparr>write_buffer_append_offset := xwritebufferappendoffset\<rparr>) = settled d c"
  "settled d (c\<lparr>last_line := xlastline\<rparr>) = settled d c" "settled d (c\<lparr>last_at := xlastat\<rparr>) = settled d c"
  "settled d (c\<lparr>colon := xcolon\<rparr>) = settled d c" "settled d (c\<lparr>header_size := xheadersize\<rparr>) = settled d c"
  "settled d (c\<lparr>remaining_upload_size := xremaininguploadsize\<rparr>) = settled d c"
  "settled d (c\<lparr>response_write_position := xresponsewriteposition\<rparr>) = settled d c"
  "settled d (c\<lparr>continue_message_write_offset := xcontinuemessagewriteoffset\<rparr>) = settled d c"
  "settled d (c\<lparr>last_activity := xlastactivity\<rparr>) = settled d c"
  "settled d (c\<lparr>read_closed := xreadclosed\<rparr>) = settled d c"
  "settled d (c\<lparr>suspended := xsuspended\<rparr>) = settled d c"
  "settled d (c\<lparr>event_loop_info := xeventloopinfo\<rparr>) = settled d c"
  "settled d (c\<lparr>responseCode := xresponseCode\<rparr>) = settled d c"
  "settled d (c\<lparr>have_chunked_upload := xhavechunkedupload\<rparr>) = settled d c"
  "settled d (c\<lparr>current_chunk_size := xcurrentchunksize\<rparr>) = settled d c"
  "settled d (c\<lparr>current_chunk_offset := xcurrentchunkoffset\<rparr>) = settled d c"
  "settled d (c\<lparr>client_context := xclientcontext\<rparr>) = settled d c" "settled d (c\<lparr>sent := xsent\<rparr>) = settled d c"
  by (simp_all add: settled_def)

lemma settled_state [simp]: "st \<noteq> MHD_CONNECTION_CLOSED \<Longrightarrow> settled d (c\<lparr>cstate := st\<rparr>) = notified d c"
  by (simp add: settled_def)

lemmas settled_notified [dest] = settledD

text \<open>No call was made.\<close>

definition silent :: "'a MHD_Connection \<Rightarrow> 'a MHD_Connection \<Rightarrow> bool" where
  "silent c c' \<longleftrightarrow> calls c' = calls c \<and> client_aware c' = client_aware c"

lemma silent_notified: "silent c c' \<Longrightarrow> notified d c' = notified d c"
  by (simp add: silent_def notified_def)

lemma silent_settled: "silent c c' \<Longrightarrow> cstate c' = cstate c \<Longrightarrow> settled d c' = settled d c"
  by (simp add: silent_def settled_def notified_def)

lemma close_settled [simp]:
  "notified d c \<Longrightarrow> settled d (MHD_connection_close d c k)"
  "notified d c \<Longrightarrow> settled d (CONNECTION_CLOSE_ERROR d c)"
  by (auto simp: settled_def notified_def MHD_connection_close_def CONNECTION_CLOSE_ERROR_def MHD_connection_mark_closed_def notify_end_def
      follow_append split: option.splits)

lemma notify_end_notified [simp]: "notified d c \<Longrightarrow> notified d (notify_end d c k)"
  by (auto simp: notified_def notify_end_def follow_append split: option.splits)

section \<open>Building replies\<close>

lemma queue_silent: "MHD_queue_response d c code r = (ok, c') \<Longrightarrow> silent c c'"
  by (auto simp: MHD_queue_response_def MHD_update_last_activity_def silent_def Let_def split: option.splits if_splits)

lemma queue_open: "MHD_queue_response d c code r = (ok, c') \<Longrightarrow> cstate c \<noteq> MHD_CONNECTION_CLOSED \<Longrightarrow> cstate c' \<noteq> MHD_CONNECTION_CLOSED"
  by (auto simp: MHD_queue_response_def Let_def split: option.splits if_splits)

lemma fill_header_silent: "fill_header c r kind f code date = Some (ok, c') \<Longrightarrow> silent c c' \<and> cstate c' = cstate c"
  by (auto simp: fill_header_def silent_def Let_def split: option.splits if_splits prod.splits)

lemma header_flags_silent: "header_flags c r v rc = (f, c') \<Longrightarrow> silent c c' \<and> cstate c' = cstate c"
  by (auto simp: header_flags_def unknown_size_def silent_def Let_def split: if_splits option.splits)

lemma build_header_silent:
  assumes "build_header_response d c = Some (ok, c')"
  shows "silent c c' \<and> cstate c' = cstate c"
proof -
  obtain v r where vr: "req_version c = Some v" "response c = Some r"
    using assms by (auto simp: build_header_response_def split: option.splits)
  have fill: "silent c c'" "cstate c' = cstate c" if "fill_header c1 r kind f code date = Some (ok, c')" "silent c c1" "cstate c1 = cstate c"
    for c1 kind f code date
    using fill_header_silent [OF that(1)] that(2,3) by (auto simp: silent_def)
  obtain f c1 where f: "header_flags c r v (responseCode c AND NOT MHD_ICY_FLAG) = (f, c1)" by fastforce
  note fs = header_flags_silent [OF f]
  consider "peek v = NUL" | "peek v \<noteq> NUL" "cstate c = MHD_CONNECTION_FOOTERS_RECEIVED"
    | "peek v \<noteq> NUL" "cstate c = MHD_CONNECTION_BODY_SENT"
    using assms vr by (auto simp: build_header_response_def Let_def split: if_splits)
  then show ?thesis
  proof cases
    case 1
    then show ?thesis using assms vr by (auto simp: build_header_response_def silent_def split: prod.splits)
  next
    case 2
    have "silent c (c1\<lparr>keepalive := update_keepalive f (keepalive c1)\<rparr>)" "cstate (c1\<lparr>keepalive := update_keepalive f (keepalive c1)\<rparr>) = cstate c"
      using fs by (simp_all add: silent_def)
    from fill [OF _ this] show ?thesis
      using assms vr 2 f by (auto simp: build_header_response_def Let_def bind_eq_Some_conv)
  next
    case 3
    have "silent c (c\<lparr>keepalive := update_keepalive no_flags (keepalive c)\<rparr>)" "cstate (c\<lparr>keepalive := update_keepalive no_flags (keepalive c)\<rparr>) = cstate c"
      by (simp_all add: silent_def)
    from fill [OF _ this] show ?thesis
      using assms vr 3 by (simp add: build_header_response_def Let_def)
  qed
qed

lemma transmit_error_settled:
  assumes "transmit_error_response d c code msg = Some c'" "notified d c"
  shows "settled d c'"
proof -
  define c1 where "c1 = c\<lparr>req_version := (case req_version c of None \<Rightarrow> Some MHD_HTTP_VERSION_1_0 | Some v \<Rightarrow> Some v),
            cstate := MHD_CONNECTION_FOOTERS_RECEIVED, read_closed := True, response := None\<rparr>"
  have n1: "notified d c1" using assms(2) by (simp add: c1_def notified_def)
  show ?thesis
  proof (cases "MHD_create_response_from_buffer (response_mem d) True (word_of_nat (length msg)) (Some (map byte_of_char msg)) MHD_RESPMEM_PERSISTENT")
    case None
    then have "\<not> response_mem d" by (auto simp: MHD_create_response_from_buffer_def MHD_create_response_from_data_def Let_def)
    then show ?thesis by (simp add: settled_def notified_def)
  next
    case (Some r)
    obtain ok c2 where q: "MHD_queue_response d c1 code (Some r) = (ok, c2)" by fastforce
    then have n2: "notified d c2" using n1 silent_notified [OF queue_silent] by blast
    show ?thesis
    proof (cases ok)
      case True
      then obtain ok3 c3 where b: "build_header_response d (c2\<lparr>keepalive := MHD_CONN_MUST_CLOSE\<rparr>) = Some (ok3, c3)"
        "c' = (if ok3 then c3\<lparr>cstate := MHD_CONNECTION_HEADERS_SENDING\<rparr> else CONNECTION_CLOSE_ERROR d c3)"
        using assms(1) Some q by (auto simp: transmit_error_response_def bind_eq_Some_conv simp flip: c1_def split: if_splits)
      have "notified d c3" using n2 build_header_silent [OF b(1)] by (simp add: silent_def notified_def)
      then show ?thesis using b(2) by simp
    next
      case False
      then show ?thesis using assms(1) Some q n2 by (auto simp: transmit_error_response_def simp flip: c1_def)
    qed
  qed
qed

section \<open>Receiving\<close>

lemma next_line_settled:
  assumes "get_next_header_line d c = Some (l, c')" "settled d c"
  shows "settled d c'"
proof -
  obtain ok c1 where g: "try_grow_read_buffer d c = (ok, c1)" by fastforce
  then have c1: "silent c c1" "cstate c1 = cstate c"
    by (auto simp: try_grow_read_buffer_def silent_def Let_def split: prod.splits option.splits)
  then have "settled d c1" using assms(2) silent_settled by blast
  moreover have "settled d (c\<lparr>read_buffer := x, read_buffer_at := a, read_buffer_size := n\<rparr>)" for x a n
    using assms(2) by (simp add: settled_def notified_def)
  ultimately show ?thesis
    using assms g transmit_error_settled [of d c1 _ REQUEST_TOO_BIG c'] settledD [of d c1]
    by (cases ok) (auto simp: get_next_header_line_def Let_def split: if_splits)
qed

lemma add_header_settled:
  assumes "connection_add_header d c key val kind = Some (ok, c')" "settled d c"
  shows "settled d c'"
proof -
  obtain ok c1 where s: "MHD_set_connection_value c kind key val = (ok, c1)" by fastforce
  then have "silent c c1" "cstate c1 = cstate c"
    by (auto simp: MHD_set_connection_value_def silent_def split: prod.splits option.splits)
  then have "settled d c1" using assms(2) silent_settled by blast
  then show ?thesis using assms(1) s transmit_error_settled [OF _ settledD]
    by (cases ok) (auto simp: connection_add_header_def)
qed

lemma then_settled:
  assumes "(case m of Some (True, x) \<Rightarrow> k x | r \<Rightarrow> r) = Some (ok, c')" "\<And>ok x. m = Some (ok, x) \<Longrightarrow> settled d x"
    "\<And>x. m = Some (True, x) \<Longrightarrow> settled d x \<Longrightarrow> k x = Some (ok, c') \<Longrightarrow> settled d c'"
  shows "settled d c'"
  using assms by (auto split: option.splits prod.splits bool.splits)

lemma cookie_loop_settled: "cookie_loop d c tx = Some (ok, c') \<Longrightarrow> settled d c \<Longrightarrow> settled d c'"
proof (induction d c tx rule: cookie_loop.induct)
  case (1 d c tx)
  let ?pos = "dropWhile (\<lambda>c. c = CHR '' '') tx"
  let ?sce = "cookie_key_end ?pos" and ?key = "strip_end (take (cookie_key_end ?pos) ?pos)"
  let ?equals = "drop (?sce + 1) ?pos"
  let ?n = "cookie_value_end False ?equals"
  note add = add_header_settled [OF _ 1(4)]
  note eq = 1(3) [unfolded cookie_loop.simps [of d c tx] Let_def]
  consider "?sce = length ?pos" | "?sce \<noteq> length ?pos" "?pos ! ?sce \<noteq> CHR ''=''" | "?sce \<noteq> length ?pos" "?pos ! ?sce = CHR ''=''" by blast
  then show ?case
  proof cases
    case 1
    then show ?thesis using eq add by simp
  next
    case 2
    have "(case connection_add_header d c (Some ?key) (Some []) MHD_COOKIE_KIND of
        Some (True, c) \<Rightarrow> cookie_loop d c (drop (?sce + 1) ?pos) | r \<Rightarrow> r) = Some (ok, c')"
      using eq 2 by (simp only: if_False if_True simp_thms)
    then show ?thesis by (rule then_settled) (use add 1 2 in auto)
  next
    case 3
    have "(case connection_add_header d c (Some ?key) (Some (unquote (take ?n ?equals))) MHD_COOKIE_KIND of
        Some (True, c) \<Rightarrow> (if ?n = length ?equals then Some (True, c) else cookie_loop d c (drop (?n + 1) ?equals)) | r \<Rightarrow> r) = Some (ok, c')"
      using eq 3 by (simp only: if_False if_True simp_thms)
    then show ?thesis by (rule then_settled) (use add 1 3 in \<open>auto split: if_splits\<close>)
  qed
qed

lemma parse_cookie_settled:
  assumes "parse_cookie_header d c = Some (ok, c')" "settled d c"
  shows "settled d c'"
proof -
  have "settled d (c\<lparr>pool := p\<rparr>)" for p using assms(2) by (simp add: settled_def notified_def)
  then show ?thesis
    using assms cookie_loop_settled [of d] transmit_error_settled [OF _ settledD, of d]
    by (auto simp: parse_cookie_header_def split: option.splits prod.splits)
qed

lemma feed_settled: "feed (argument_cb d) kind kvs (Some c) n = (ok, Some c', m) \<Longrightarrow> settled d c \<Longrightarrow> settled d c'"
proof (induction kvs arbitrary: c n)
  case (Cons kv kvs)
  show ?case
  proof (cases "connection_add_header d c (Some (fst kv)) (snd kv) kind")
    case None
    then show ?thesis using Cons(2) by (cases kv) (simp add: argument_cb_def)
  next
    case (Some x)
    obtain ok1 c1 where x: "x = (ok1, c1)" by fastforce
    then have "settled d c1" using Some add_header_settled Cons(3) by blast
    then show ?thesis using Cons(1,2) Some x by (cases kv; cases ok1) (auto simp: argument_cb_def)
  qed
qed simp

lemma add_arguments_settled:
  assumes "add_arguments d uri c = Some c'" "settled d c"
  shows "settled d c'"
proof (cases "Option.bind uri (\<lambda>u. memchr u CHR ''?'')")
  case (Some q)
  let ?x = "c_str (drop (q + 1) (the uri))"
  obtain ok n where "feed (argument_cb d) MHD_GET_ARGUMENT_KIND (map (arg_pair (unescape_cb d)) (arg_pieces ?x)) (Some c) 0 = (ok, Some c', n)"
    using assms(1) Some by (cases "feed (argument_cb d) MHD_GET_ARGUMENT_KIND (map (arg_pair (unescape_cb d)) (arg_pieces ?x)) (Some c) 0")
      (auto simp: add_arguments_def MHD_parse_arguments_def parse_arguments_loop_correct c_str_props(1))
  then show ?thesis using feed_settled assms(2) by blast
qed (use assms in \<open>simp add: add_arguments_def\<close>)

lemma parse_line_settled:
  assumes "parse_initial_message_line d c line = Some (ok, c')" "settled d c" "cstate c \<noteq> MHD_CONNECTION_CLOSED"
  shows "settled d c'"
proof -
  have "settled d (log_uri d uri (c\<lparr>req_method := m, req_version := v\<rparr>))" "settled d (c\<lparr>req_method := m, req_version := v\<rparr>)" for uri m v
    using assms(2,3) by (auto simp: log_uri_def settled_def notified_def follow_append split: option.split)
  moreover have "settled d (x\<lparr>req_url := u\<rparr>) = settled d x" for x u by (simp add: settled_def notified_def)
  ultimately show ?thesis
    using assms(1,2) add_arguments_settled [of d]
    by (auto simp: parse_initial_message_line_def Let_def split: option.splits if_splits prod.splits)
qed

lemma header_line_settled:
  assumes "process_header_line d c line at = (ok, c')" "settled d c"
  shows "settled d c'"
  using assms settledD [OF assms(2)] by (auto simp: process_header_line_def split: option.splits if_splits)

lemma broken_line_settled:
  assumes "process_broken_line d c line at kind = Some (ok, c')" "settled d c"
  shows "settled d c'"
proof -
  have "settled d (c\<lparr>pool := p\<rparr>)" "settled d (c\<lparr>pool := p, last_line := l, last_at := a\<rparr>)" for p l a
    using assms(2) by (simp_all add: settled_def notified_def)
  then show ?thesis
    using assms transmit_error_settled [OF _ settledD, of d] add_header_settled [of d] header_line_settled [of d]
    by (auto simp: process_broken_line_def Let_def bind_eq_Some_conv split: option.splits if_splits prod.splits bool.splits)
qed

lemma parse_headers_settled:
  assumes "parse_connection_headers d c = Some c'" "settled d c" "strict_for_client d < 1"
  shows "settled d c'"
proof -
  have up: "settled d (upload_size d x)" if "settled d x" for x
    using that settledD [OF that] by (auto simp: upload_size_def Let_def split: option.splits if_splits prod.splits)
  have "\<not> lacks_host d x" for x using assms(3) by (simp add: lacks_host_def)
  then show ?thesis
    using assms(1) up parse_cookie_settled [OF _ assms(2)] by (auto simp: parse_connection_headers_def bind_eq_Some_conv split: prod.splits)
qed

section \<open>Calling the application\<close>

lemma call_application_notified:
  assumes "call_application d c data n = (ok, left, c')" "notified d c" "cstate c \<noteq> MHD_CONNECTION_CLOSED"
  shows "notified d c'" "cstate c' \<noteq> MHD_CONNECTION_CLOSED"
proof -
  define r where "r = default_handler d (c\<lparr>client_aware := True\<rparr>) data n"
  define c1 where "c1 = c\<lparr>client_aware := True, client_context := hr_context r, calls := calls (c\<lparr>client_aware := True\<rparr>) @ [Handler_call data (hr_left r)]\<rparr>"
  define c2 where "c2 = (case hr_queue r of None \<Rightarrow> c1 | Some (code, resp) \<Rightarrow> snd (MHD_queue_response d c1 code (Some resp)))"
  have c1: "notified d c1" "cstate c1 = cstate c" using assms(2) by (auto simp: c1_def notified_def follow_append)
  have st: "MHD_queue_response d c1 code (Some x) = (b, c2) \<Longrightarrow> silent c1 c2 \<and> cstate c2 \<noteq> MHD_CONNECTION_CLOSED" for code x b c2
    using queue_silent queue_open c1(2) assms(3) by metis
  have c2: "notified d c2 \<and> cstate c2 \<noteq> MHD_CONNECTION_CLOSED"
  proof (cases "hr_queue r")
    case (Some cx)
    obtain code x where cx: "cx = (code, x)" by fastforce
    then have "c2 = snd (MHD_queue_response d c1 code (Some x))" using Some by (simp add: c2_def)
    then have "silent c1 c2 \<and> cstate c2 \<noteq> MHD_CONNECTION_CLOSED" using st [of code x "fst (MHD_queue_response d c1 code (Some x))" c2] by simp
    then show ?thesis using c1(1) silent_notified by blast
  qed (use c1 assms(3) in \<open>simp add: c2_def\<close>)
  have "call_application d c data n = (hr_ok r, hr_left r, if hr_suspend r then c2\<lparr>suspended := True\<rparr> else c2)"
    unfolding call_application_def Let_def c2_def c1_def r_def by (rule refl)
  then show "notified d c'" "cstate c' \<noteq> MHD_CONNECTION_CLOSED" using assms(1) c2 by auto
qed

lemma call_handler_settled:
  assumes "settled d c" "cstate c \<noteq> MHD_CONNECTION_CLOSED"
  shows "settled d (call_connection_handler d c)"
  using call_application_notified [OF _ settledD [OF assms(1)] assms(2)] assms
  by (auto simp: call_connection_handler_def split: prod.splits intro: settledI)

fun step_settled :: "'a MHD_Daemon \<Rightarrow> 'a MHD_Connection body_step \<Rightarrow> bool" where
  "step_settled d (Body_return c) = settled d c"
| "step_settled d (Body_break c s) = (notified d c \<and> cstate c \<noteq> MHD_CONNECTION_CLOSED)"
| "step_settled d (Body_retry c s) = (notified d c \<and> cstate c \<noteq> MHD_CONNECTION_CLOSED)"

lemma offer_settled:
  assumes "offer_data d c data n retry = Some s" "notified d c" "cstate c \<noteq> MHD_CONNECTION_CLOSED"
  shows "step_settled d s"
  using assms(1) call_application_notified [OF _ assms(2,3)]
  by (auto simp: offer_data_def Let_def split: prod.splits if_splits)

lemma chunk_header_settled:
  assumes "notified d c" "cstate c \<noteq> MHD_CONNECTION_CLOSED"
  shows "step_settled d (chunk_header d c data)"
  using assms by (auto simp: chunk_header_def Let_def split: prod.splits option.splits if_splits)

lemma body_step_settled:
  assumes "body_step d c data = Some s" "notified d c" "cstate c \<noteq> MHD_CONNECTION_CLOSED"
  shows "step_settled d s"
proof -
  have sk: "notified d x \<and> cstate x \<noteq> MHD_CONNECTION_CLOSED" if "skip_chunk_end d c data = Some (x, rest)" for x rest
    using that assms(2,3) by (auto simp: skip_chunk_end_def split: if_splits)
  show ?thesis
    using assms offer_settled [of d] sk chunk_header_settled [of d]
    by (fastforce simp: body_step_def Let_def split: if_splits option.splits prod.splits)
qed

lemma body_loop_settled:
  "body_loop d c data = Some (c', r) \<Longrightarrow> notified d c \<Longrightarrow> cstate c \<noteq> MHD_CONNECTION_CLOSED \<Longrightarrow> settled d c'"
proof (induction d c data rule: body_loop.induct)
  case (1 d c data)
  obtain s where s: "body_step d c data = Some s" using 1(2) by (auto simp: body_loop.simps [of d c data] split: option.splits)
  note st = body_step_settled [OF s 1(3,4)]
  show ?case using 1 s st by (cases s) (auto simp: body_loop.simps [of d c data] intro: settledI)
qed

lemma request_body_settled:
  assumes "process_request_body d c = Some c'" "settled d c" "cstate c \<noteq> MHD_CONNECTION_CLOSED"
  shows "settled d c'"
  using assms body_loop_settled [OF _ settledD [OF assms(2)] assms(3)]
  by (auto simp: process_request_body_def split: if_splits option.splits prod.splits)

section \<open>Sending\<close>

lemma ready_normal_settled:
  assumes "try_ready_normal_body d c = Some (ok, c')" "settled d c" "cstate c \<noteq> MHD_CONNECTION_CLOSED"
  shows "settled d c'" "ok \<Longrightarrow> notified d c'"
  using assms settledD [OF assms(2)]
  by (auto simp: try_ready_normal_body_def Let_def bind_eq_Some_conv split: option.splits if_splits prod.splits)

lemma fill_chunk_silent: "fill_chunk c bs n = Some c' \<Longrightarrow> silent c c' \<and> cstate c' = cstate c"
  by (auto simp: fill_chunk_def silent_def Let_def bind_eq_Some_conv split: if_splits)

lemma last_chunk_silent: "last_chunk c r = Some c' \<Longrightarrow> silent c c' \<and> cstate c' = cstate c"
  by (auto simp: last_chunk_def silent_def bind_eq_Some_conv)

lemma chunk_memory_silent: "chunk_memory d c = (mem, c') \<Longrightarrow> silent c c' \<and> cstate c' = cstate c"
  by (auto simp: chunk_memory_def silent_def split: if_splits option.splits prod.splits)

lemma ready_chunked_settled:
  assumes "try_ready_chunked_body d c = Some (ok, c')" "settled d c" "cstate c \<noteq> MHD_CONNECTION_CLOSED"
  shows "settled d c'"
proof (cases "\<exists>r. response c = Some r \<and> crc r \<noteq> No_reader")
  case True
  then obtain r where r: "response c = Some r" "crc r \<noteq> No_reader" by blast
  obtain mem c1 where m: "chunk_memory d c = (mem, c1)" by fastforce
  note cm = chunk_memory_silent [OF m]
  have c1: "settled d c1" "cstate c1 \<noteq> MHD_CONNECTION_CLOSED" using cm assms(2,3) silent_settled by auto
  have eq: "try_ready_chunked_body d c = (if \<not> mem then Some (False, CONNECTION_CLOSE_ERROR d c1)
      else do { (n, bs) \<leftarrow> chunk_content d c1 r (length (write_buffer c1) - cbuf_size - 2);
        if n = MHD_CONTENT_READER_END_WITH_ERROR then Some (False, CONNECTION_CLOSE_ERROR d c1)
        else if n = MHD_CONTENT_READER_END_OF_STREAM \<or> total_size r = 0 then map_option (Pair True) (last_chunk c1 r)
        else if n = 0 then Some (False, c1\<lparr>cstate := MHD_CONNECTION_CHUNKED_BODY_UNREADY\<rparr>)
        else map_option (Pair True) (fill_chunk c1 bs (min (nat n) 0xFFFFFF)) })"
    unfolding try_ready_chunked_body_def r(1) option.case Let_def chunk_memory_def [symmetric] m prod.case using r(2) by simp
  have "settled d x" if "last_chunk c1 r = Some x \<or> fill_chunk c1 bs n = Some x" for x bs n
    using that c1(1) last_chunk_silent [of c1 r x] fill_chunk_silent [of c1 bs n x] silent_settled by auto
  then show ?thesis
    using assms(1) c1 settledD [OF c1(1)] unfolding eq by (auto simp: bind_eq_Some_conv split: if_splits prod.splits)
next
  case False
  then show ?thesis using assms by (auto simp: try_ready_chunked_body_def split: option.splits if_splits)
qed

lemma activity_settled [simp]:
  "settled d (MHD_update_last_activity d c) = settled d c" "notified d (MHD_update_last_activity d c) = notified d c"
  by (simp_all add: MHD_update_last_activity_def)

lemma send_settled:
  assumes "send_data d c res data = (n, c')" "settled d c"
  shows "settled d c'"
  using assms settledD [OF assms(2)] by (auto simp: send_data_def split: send_result.splits)

lemma write_buffer_settled:
  assumes "write_from_buffer d c res st = Some c'" "settled d c" "st \<noteq> MHD_CONNECTION_CLOSED"
  shows "settled d c'"
proof -
  have fin: "settled d (check_write_done x st)" if "settled d x" for x
    using that assms(3) settledD [OF that] by (simp add: check_write_done_def)
  show ?thesis
    using assms(1) send_settled [OF _ assms(2)] fin by (auto simp: write_from_buffer_def Let_def split: if_splits prod.splits option.splits)
qed

lemma write_normal_settled:
  assumes "write_normal_body d c res = Some c'" "settled d c" "cstate c \<noteq> MHD_CONNECTION_CLOSED"
  shows "settled d c'"
proof -
  have fin: "settled d x" if "(case response y of None \<Rightarrow> None
       | Some r \<Rightarrow> Some (if response_write_position y = total_size r then y\<lparr>cstate := MHD_CONNECTION_FOOTERS_SENT\<rparr> else y)) = Some x"
    "settled d y" for x y using that settledD [OF that(2)] by (auto split: option.splits if_splits)
  obtain r where r: "response c = Some r" using assms(1) by (auto simp: write_normal_body_def split: option.splits)
  show ?thesis
  proof (cases "response_write_position c < total_size r")
    case True
    obtain ok c1 where t: "try_ready_normal_body d c = Some (ok, c1)" using assms(1) r True by (auto simp: write_normal_body_def bind_eq_Some_conv)
    note s1 = ready_normal_settled(1) [OF t assms(2,3)]
    show ?thesis
      using assms(1) r True t s1 send_settled [OF _ s1] settledD [OF send_settled [OF _ s1]]
      by (auto simp: write_normal_body_def Let_def bind_eq_Some_conv split: if_splits prod.splits option.splits intro: fin)
  next
    case False
    then show ?thesis using assms(1,2) r fin [of c c'] by (simp add: write_normal_body_def Let_def)
  qed
qed

lemma write_settled:
  assumes "MHD_connection_handle_write d c res = Some c'" "settled d c"
  shows "settled d c'"
  using assms send_settled [OF _ assms(2)] write_buffer_settled [OF _ assms(2)] write_normal_settled [OF _ assms(2)]
  by (auto simp: MHD_connection_handle_write_def split: if_splits MHD_CONNECTION_STATE.splits prod.splits option.splits)

section \<open>The state machine\<close>

fun idle_settled :: "'a MHD_Daemon \<Rightarrow> 'a MHD_Connection idle_step \<Rightarrow> bool" where
  "idle_settled d (Idle_again c) = settled d c"
| "idle_settled d (Idle_leave c) = settled d c"
| "idle_settled d (Idle_return r c) = settled d c"

lemma go_on_settled [simp]: "idle_settled d (go_on c) = settled d c"
  by (simp add: go_on_def)

lemma no_line_settled: "settled d c \<Longrightarrow> idle_settled d (no_line d st c)"
  using settledD [of d c] by (simp add: no_line_def)

lemma first_line_settled:
  assumes "idle_first_line d c part finish = Some s" "settled d c" "part \<noteq> MHD_CONNECTION_CLOSED"
    "\<And>n x. settled d x \<Longrightarrow> idle_settled d (finish n x)"
  shows "idle_settled d s"
proof -
  obtain l c1 where l: "get_next_header_line d c = Some (l, c1)" using assms(1) by (auto simp: idle_first_line_def bind_eq_Some_conv)
  note c1 = next_line_settled [OF l assms(2)]
  show ?thesis
  proof (cases l)
    case None
    then show ?thesis using assms(1) l no_line_settled [OF c1] by (auto simp: idle_first_line_def)
  next
    case (Some h)
    obtain line at n where h: "h = (line, at, n)" by (cases h)
    obtain ok c2 where p: "process_header_line d c1 (c_str line) at = (ok, c2)" by fastforce
    note c2 = header_line_settled [OF p c1]
    show ?thesis
      using assms(1,3,4) l Some h p c1 c2 settledD [OF c2] transmit_error_settled [OF _ settledD [OF c2]]
      by (cases ok) (auto simp: idle_first_line_def split: if_splits)
  qed
qed

lemma next_line_idle_settled:
  assumes "idle_next_line d c kind finish = Some s" "settled d c" "\<And>n x. settled d x \<Longrightarrow> idle_settled d (finish n x)"
  shows "idle_settled d s"
proof -
  obtain l c1 where l: "get_next_header_line d c = Some (l, c1)" using assms(1) by (auto simp: idle_next_line_def bind_eq_Some_conv)
  note c1 = next_line_settled [OF l assms(2)]
  show ?thesis
  proof (cases l)
    case None
    then show ?thesis using assms(1) l no_line_settled [OF c1] by (auto simp: idle_next_line_def)
  next
    case (Some h)
    obtain line at n where h: "h = (line, at, n)" by (cases h)
    show ?thesis
      using assms(1,3) l Some h broken_line_settled [OF _ c1]
      by (auto simp: idle_next_line_def bind_eq_Some_conv split: if_splits)
  qed
qed

lemma init_settled:
  assumes "idle_init d c = Some s" "settled d c" "cstate c = MHD_CONNECTION_INIT"
  shows "idle_settled d s"
proof -
  obtain l c1 where l: "get_next_header_line d c = Some (l, c1)" using assms(1) by (auto simp: idle_init_def bind_eq_Some_conv)
  note c1 = next_line_settled [OF l assms(2)]
  show ?thesis
  proof (cases l)
    case None
    then show ?thesis using assms(1) l no_line_settled [OF c1] by (auto simp: idle_init_def)
  next
    case (Some h)
    obtain line at n where h: "h = (line, at, n)" by (cases h)
    have st: "cstate c1 \<noteq> MHD_CONNECTION_CLOSED"
      using l Some assms(3) by (auto simp: get_next_header_line_def Let_def split: if_splits prod.splits bool.splits)
    show ?thesis
      using assms(1) l Some h no_line_settled [OF c1] parse_line_settled [OF _ c1 st] settledD [OF parse_line_settled [OF _ c1 st]]
      by (auto simp: idle_init_def bind_eq_Some_conv split: if_splits)
  qed
qed

lemma footers_sent_settled:
  assumes "settled d c"
  shows "idle_settled d (idle_footers_sent d c)"
proof -
  have "settled d (clear_request x)" if "settled d x" for x using that by (simp add: clear_request_def)
  moreover have "settled d (keep_alive d x)" if "notified d x" for x using that by (simp add: keep_alive_def split: prod.split)
  ultimately show ?thesis using settledD [OF assms] by (auto simp: idle_footers_sent_def Let_def)
qed

lemma idle_case_settled:
  assumes "idle_case upgraded d c = Some s" "settled d c" "strict_for_client d < 1"
  shows "idle_settled d s"
proof (cases "cstate c")
  case MHD_CONNECTION_INIT
  then show ?thesis using assms init_settled by (simp add: idle_case_def)
next
  case MHD_CONNECTION_URL_RECEIVED
  then show ?thesis using assms(1) first_line_settled [OF _ assms(2)] by (fastforce simp: idle_case_def headers_end_def)
next
  case MHD_CONNECTION_HEADER_PART_RECEIVED
  then show ?thesis using assms(1) next_line_idle_settled [OF _ assms(2)] by (fastforce simp: idle_case_def headers_end_def)
next
  case MHD_CONNECTION_BODY_RECEIVED
  then show ?thesis using assms(1) first_line_settled [OF _ assms(2)] by (fastforce simp: idle_case_def footers_end_def)
next
  case MHD_CONNECTION_FOOTER_PART_RECEIVED
  then show ?thesis using assms(1) next_line_idle_settled [OF _ assms(2)] by (fastforce simp: idle_case_def footers_end_def)
next
  case MHD_CONNECTION_HEADERS_RECEIVED
  then show ?thesis using assms(1) parse_headers_settled [OF _ assms(2,3)]
    by (auto simp: idle_case_def idle_headers_received_def bind_eq_Some_conv split: if_splits)
next
  case MHD_CONNECTION_HEADERS_PROCESSED
  then show ?thesis using assms(1) call_handler_settled [OF assms(2)] settledD [OF call_handler_settled [OF assms(2)]]
    by (auto simp: idle_case_def idle_headers_processed_def Let_def split: if_splits)
next
  case MHD_CONNECTION_CONTINUE_SENT
  then show ?thesis using assms(1,2) request_body_settled [OF _ assms(2)] settledD [OF assms(2)]
    by (auto simp: idle_case_def idle_continue_sent_def bind_eq_Some_conv split: if_splits)
next
  case MHD_CONNECTION_FOOTERS_RECEIVED
  then show ?thesis using assms(1) call_handler_settled [OF assms(2)] build_header_silent silent_notified
    by (fastforce simp: idle_case_def idle_footers_received_def Let_def bind_eq_Some_conv split: if_splits prod.splits)
next
  case MHD_CONNECTION_NORMAL_BODY_UNREADY
  then show ?thesis using assms(1) ready_normal_settled [OF _ assms(2)] settledD [OF assms(2)]
    by (auto simp: idle_case_def idle_normal_unready_def bind_eq_Some_conv split: option.splits if_splits prod.splits)
next
  case MHD_CONNECTION_CHUNKED_BODY_UNREADY
  then show ?thesis using assms(1) ready_chunked_settled [OF _ assms(2)] settledD [OF assms(2)] settledD [OF ready_chunked_settled [OF _ assms(2)]]
    by (auto simp: idle_case_def idle_chunked_unready_def bind_eq_Some_conv split: option.splits if_splits prod.splits)
next
  case MHD_CONNECTION_BODY_SENT
  then show ?thesis using assms(1) build_header_silent silent_notified settledD [OF assms(2)]
    by (fastforce simp: idle_case_def idle_body_sent_def bind_eq_Some_conv split: if_splits prod.splits)
next
  case MHD_CONNECTION_HEADERS_SENT
  then show ?thesis using assms(1) settledD [OF assms(2)]
    by (auto simp: idle_case_def idle_headers_sent_def split: option.splits if_splits)
next
  case MHD_CONNECTION_FOOTERS_SENT
  then show ?thesis using assms(1) footers_sent_settled [OF assms(2)] by (auto simp: idle_case_def)
qed (use assms settledD [OF assms(2)] in \<open>auto simp: idle_case_def idle_continue_sending_def\<close>)

lemma idle_loop_settled:
  assumes "idle_loop upgraded d c = Some rc" "settled d c" "strict_for_client d < 1"
  shows "settled d (snd rc)"
proof -
  have "settled d c \<and> strict_for_client d < 1 \<longrightarrow> settled d (snd rc)"
    using assms(1)
  proof (rule idle_loop.raw_induct [where P = "\<lambda>u d c y. settled d c \<and> strict_for_client d < 1 \<longrightarrow> settled d (snd y)", rotated])
    fix loop :: "bool \<Rightarrow> 'a MHD_Daemon \<Rightarrow> 'a MHD_Connection \<Rightarrow> (bool option \<times> 'a MHD_Connection) option" and u d c y
    assume IH: "\<And>u d c y. loop u d c = Some y \<Longrightarrow> settled d c \<and> strict_for_client d < 1 \<longrightarrow> settled d (snd y)"
      and eq: "(if suspended c then Some (None, c)
        else do { s \<leftarrow> idle_case u d c;
          (case s of Idle_again c \<Rightarrow> loop u d c | Idle_leave c \<Rightarrow> Some (None, c) | Idle_return ret c \<Rightarrow> Some (Some ret, c)) }) = Some y"
    show "settled d c \<and> strict_for_client d < 1 \<longrightarrow> settled d (snd y)"
    proof (cases "suspended c")
      case False
      then obtain s where s: "idle_case u d c = Some s" using eq by (auto simp: bind_eq_Some_conv)
      show ?thesis using eq False s IH idle_case_settled [OF s] by (cases s) auto
    qed (use eq in auto)
  qed
  then show ?thesis using assms(2,3) by blast
qed

lemma grow_settled: "try_grow_read_buffer d c = (ok, x) \<Longrightarrow> settled d x = settled d c"
  by (auto simp: try_grow_read_buffer_def Let_def split: prod.splits option.splits)

lemma event_info_settled:
  assumes "event_info d c = Some (c', again)" "settled d c"
  shows "settled d c'"
proof -
  have g: "settled d x" if "try_grow_read_buffer d c = (ok, x)" for ok x using grow_settled [OF that] assms(2) by simp
  show ?thesis
    using assms(1) settledD [OF assms(2)] assms(2) g transmit_error_settled [OF _ settledD [OF g]]
    unfolding event_info_def Let_def
    by (cases "cstate c") (auto split: if_splits prod.splits bool.splits)
qed

lemma event_loop_settled: "event_info_loop d c = Some c' \<Longrightarrow> settled d c \<longrightarrow> settled d c'"
proof (rule event_info_loop.raw_induct [where P = "\<lambda>d c c'. settled d c \<longrightarrow> settled d c'", rotated])
  fix loop :: "'a MHD_Daemon \<Rightarrow> 'a MHD_Connection \<Rightarrow> 'a MHD_Connection option" and d c y
  assume IH: "\<And>d c y. loop d c = Some y \<Longrightarrow> settled d c \<longrightarrow> settled d y"
    and eq: "(do { (c, again) \<leftarrow> event_info d c; if again then loop d c else Some c }) = Some y"
  show "settled d c \<longrightarrow> settled d y"
    using eq IH event_info_settled by (auto simp: bind_eq_Some_conv split: if_splits prod.splits) blast+
qed

lemma idle_settled:
  assumes "MHD_connection_handle_idle upgraded d c = Some rc" "settled d c" "strict_for_client d < 1"
  shows "settled d (snd rc)"
proof -
  obtain r c1 where l: "idle_loop upgraded d c = Some (r, c1)" using assms(1) by (auto simp: MHD_connection_handle_idle_def bind_eq_Some_conv)
  have c1: "settled d c1" using idle_loop_settled [OF l assms(2,3)] by simp
  show ?thesis
    using assms(1) l c1 settledD [OF c1] event_loop_settled [of d c1]
    by (auto simp: MHD_connection_handle_idle_def MHD_connection_update_event_loop_info_def split: option.splits if_splits)
qed

lemma read_settled:
  assumes "MHD_connection_handle_read d c res = Some c'" "settled d c"
  shows "settled d c'"
proof -
  define c1 where "c1 = (if word_of_nat (length (read_buffer c)) + pool_increment d > read_buffer_size c
      then snd (try_grow_read_buffer d c) else c)"
  have c1: "settled d c1"
    using assms(2) grow_settled [of d c "fst (try_grow_read_buffer d c)" "snd (try_grow_read_buffer d c)"] by (simp add: c1_def)
  have af: "settled d y" if "after_read d x = Some y" "settled d x" for x y
    using that settledD [OF that(2)] by (auto simp: after_read_def split: if_splits)
  show ?thesis
    using assms c1 settledD [OF c1]
    by (auto simp: MHD_connection_handle_read_def Let_def simp flip: c1_def split: if_splits recv_result.splits list.splits intro: af)
qed

lemma write_idle_settled:
  assumes "write_and_idle upgraded d res rc = Some rc'" "settled d (snd rc)" "strict_for_client d < 1"
  shows "settled d (snd rc')"
proof -
  obtain c where c: "MHD_connection_handle_write d (snd rc) res = Some c" "MHD_connection_handle_idle upgraded d c = Some rc'"
    using assms(1) by (auto simp: write_and_idle_def bind_eq_Some_conv)
  show ?thesis by (rule idle_settled [OF c(2) write_settled [OF c(1) assms(2)] assms(3)])
qed

lemma call_handlers_settled:
  assumes "call_handlers upgraded d c read_ready write_ready send nonblocking force_close = Some rc" "settled d c" "strict_for_client d < 1"
  shows "settled d (snd rc)"
proof (cases force_close)
  case True
  then show ?thesis using assms idle_settled [OF _ close_settled(1) [OF settledD [OF assms(2)]]] by (simp add: call_handlers_def)
next
  case False
  obtain p1 rc1 where r: "read_event upgraded d c read_ready = Some (p1, rc1)"
    using assms(1) False by (auto simp: call_handlers_def bind_eq_Some_conv)
  have s1: "settled d (snd rc1)"
    using r assms(2,3) read_settled idle_settled by (auto simp: read_event_def bind_eq_Some_conv split: option.splits if_splits) blast
  obtain p2 rc2 where w: "write_event upgraded d (p1, rc1) write_ready = Some (p2, rc2)"
    using assms(1) False r by (auto simp: call_handlers_def bind_eq_Some_conv)
  have s2: "settled d (snd rc2)"
    using w s1 assms(3) write_idle_settled [OF _ s1] by (auto simp: write_event_def split: option.splits if_splits)
  have ft: "settled d (snd x)" if f: "fast_track upgraded d send rc2 = Some x" for x
  proof -
    obtain y where y: "(if cstate (snd rc2) = MHD_CONNECTION_HEADERS_SENDING then write_and_idle upgraded d (send 0) rc2 else Some rc2) = Some y"
      using f unfolding fast_track_def bind_eq_Some_conv by blast
    then have "settled d (snd y)" using s2 write_idle_settled [OF _ s2 assms(3)] by (auto split: if_splits)
    then show ?thesis using f y write_idle_settled [OF _ _ assms(3)] by (auto simp: fast_track_def split: if_splits)
  qed
  show ?thesis
    using assms(1) False r w s2 ft idle_settled [OF _ s2 assms(3)] by (auto simp: call_handlers_def split: if_splits)
qed



end
