(* ===== verification/Dll.thy ===== *)
theory Dll
  imports Prelude
begin

text \<open>
  The doubly linked lists of \<^verbatim>\<open>internal.h\<close> (\<^verbatim>\<open>DLL_insert\<close>, \<^verbatim>\<open>DLL_remove\<close> and their copies with an \<^verbatim>\<open>X\<close>, which differ only in the
  fields they use). The fields \<^verbatim>\<open>next\<close> and \<^verbatim>\<open>prev\<close> of all elements are two functions from elements to pointers; several lists may
  share them, as the connections of a daemon do. A failed assertion or the use of a null pointer is \<open>None\<close>.
\<close>

section \<open>The macros\<close>

record 'e links =
  nextp :: "'e \<Rightarrow> 'e option"
  prevp :: "'e \<Rightarrow> 'e option"

record 'e dll =
  head :: "'e option"
  tail :: "'e option"

definition DLL_insert :: "'e links \<Rightarrow> 'e dll \<Rightarrow> 'e \<Rightarrow> ('e links \<times> 'e dll) option" where
  "DLL_insert s l element =
     (if nextp s element \<noteq> None \<or> prevp s element \<noteq> None then None
      else
        let s = s\<lparr>nextp := (nextp s)(element := head l), prevp := (prevp s)(element := None)\<rparr> in
        if tail l = None then Some (s, l\<lparr>tail := Some element, head := Some element\<rparr>)
        else (case head l of
                None \<Rightarrow> None
              | Some h \<Rightarrow> Some (s\<lparr>prevp := (prevp s)(h := Some element)\<rparr>, l\<lparr>head := Some element\<rparr>)))"

definition DLL_remove :: "'e links \<Rightarrow> 'e dll \<Rightarrow> 'e \<Rightarrow> ('e links \<times> 'e dll) option" where
  "DLL_remove s l element =
     (if nextp s element = None \<and> tail l \<noteq> Some element \<or> prevp s element = None \<and> head l \<noteq> Some element then None
      else
        let (s, l) = (case prevp s element of
               None \<Rightarrow> (s, l\<lparr>head := nextp s element\<rparr>)
             | Some p \<Rightarrow> (s\<lparr>nextp := (nextp s)(p := nextp s element)\<rparr>, l));
            (s, l) = (case nextp s element of
               None \<Rightarrow> (s, l\<lparr>tail := prevp s element\<rparr>)
             | Some n \<Rightarrow> (s\<lparr>prevp := (prevp s)(n := prevp s element)\<rparr>, l))
        in Some (s\<lparr>nextp := (nextp s)(element := None), prevp := (prevp s)(element := None)\<rparr>, l))"

section \<open>Lists of elements\<close>

definition first_or :: "'e option \<Rightarrow> 'e list \<Rightarrow> 'e option" where
  "first_or q xs = (case xs of [] \<Rightarrow> q | x # _ \<Rightarrow> Some x)"

definition last_or :: "'e option \<Rightarrow> 'e list \<Rightarrow> 'e option" where
  "last_or p xs = (if xs = [] then p else Some (last xs))"

lemma end_simps [simp]:
  "first_or q [] = q" "first_or q (x # xs) = Some x" "first_or q (xs @ ys) = first_or (first_or q ys) xs"
  "last_or p [] = p" "last_or p (x # xs) = last_or (Some x) xs" "last_or p (xs @ ys) = last_or (last_or p xs) ys"
  by (auto simp: first_or_def last_or_def split: list.splits)

lemma end_None [simp]: "first_or None xs = None \<longleftrightarrow> xs = []" "last_or None xs = None \<longleftrightarrow> xs = []"
  by (auto simp: first_or_def last_or_def split: list.splits)

lemma first_or_in: "first_or q xs = Some x \<Longrightarrow> xs \<noteq> [] \<Longrightarrow> x \<in> set xs"
  by (cases xs) auto

lemma last_or_in: "last_or p xs = Some x \<Longrightarrow> xs \<noteq> [] \<Longrightarrow> x \<in> set xs"
  by (auto simp: last_or_def)

text \<open>The elements \<open>xs\<close> are linked in this order, between \<open>p\<close> and \<open>q\<close>.\<close>

fun linked :: "'e links \<Rightarrow> 'e option \<Rightarrow> 'e list \<Rightarrow> 'e option \<Rightarrow> bool" where
  "linked s p [] q = True"
| "linked s p (x # xs) q \<longleftrightarrow> prevp s x = p \<and> nextp s x = first_or q xs \<and> linked s (Some x) xs q"

definition dll_rep :: "'e links \<Rightarrow> 'e dll \<Rightarrow> 'e list \<Rightarrow> bool" where
  "dll_rep s l xs \<longleftrightarrow> distinct xs \<and> head l = first_or None xs \<and> tail l = last_or None xs \<and> linked s None xs None"

definition unlinked :: "'e links \<Rightarrow> 'e \<Rightarrow> bool" where
  "unlinked s e \<longleftrightarrow> nextp s e = None \<and> prevp s e = None"

lemma linked_append [simp]:
  "linked s p (xs @ ys) q \<longleftrightarrow> linked s p xs (first_or q ys) \<and> linked s (last_or p xs) ys q"
  by (induction xs arbitrary: p) auto

lemma linked_cong:
  assumes "\<And>x. x \<in> set xs \<Longrightarrow> nextp s' x = nextp s x \<and> prevp s' x = prevp s x"
  shows "linked s' p xs q = linked s p xs q"
  using assms by (induction xs arbitrary: p) auto

lemma linked_new_next:
  assumes "linked s p xs q" "distinct xs" "\<And>x. prevp s' x = prevp s x"
    "\<And>x. x \<in> set xs \<Longrightarrow> nextp s' x = (if last_or p xs = Some x then q' else nextp s x)"
  shows "linked s' p xs q'"
  using assms
proof (induction xs arbitrary: p)
  case (Cons x xs)
  show ?case
  proof (cases xs)
    case Nil
    then show ?thesis using Cons.prems by auto
  next
    case (Cons y ys)
    then have "last_or (Some x) xs \<noteq> Some x" using Cons.prems(2) by (auto simp: last_or_def)
    then show ?thesis using Cons.IH [of "Some x"] Cons.prems Cons by auto
  qed
qed simp

lemma linked_new_prev:
  assumes "linked s p xs q" "distinct xs" "\<And>x. nextp s' x = nextp s x"
    "\<And>x. x \<in> set xs \<Longrightarrow> prevp s' x = (if first_or q xs = Some x then p' else prevp s x)"
  shows "linked s' p' xs q"
proof (cases xs)
  case (Cons x ys)
  have "linked s' (Some x) ys q = linked s (Some x) ys q"
    using assms Cons by (intro linked_cong) auto
  then show ?thesis using assms Cons by simp
qed simp

section \<open>The macros on lists\<close>

lemma insert_rep:
  assumes "dll_rep s l xs" "unlinked s e" "e \<notin> set xs"
  shows "\<exists>s' l'. DLL_insert s l e = Some (s', l') \<and> dll_rep s' l' (e # xs)
     \<and> (\<forall>x. x \<noteq> e \<longrightarrow> x \<notin> set xs \<longrightarrow> nextp s' x = nextp s x \<and> prevp s' x = prevp s x)"
proof (cases xs)
  case Nil
  then show ?thesis using assms by (auto simp: DLL_insert_def dll_rep_def unlinked_def)
next
  case (Cons y ys)
  let ?s = "s\<lparr>nextp := (nextp s)(e := Some y), prevp := ((prevp s)(e := None))(y := Some e)\<rparr>"
  have "linked s (Some y) ys None" "e \<notin> set ys" "y \<notin> set ys" "y \<noteq> e" "nextp s y = first_or None ys"
    using assms Cons by (auto simp: dll_rep_def)
  then have "linked ?s (Some y) ys None" using linked_cong [of ys ?s s "Some y" None] by fastforce
  moreover have "last_or (Some y) ys \<noteq> None" by (simp add: last_or_def)
  ultimately show ?thesis using assms Cons \<open>nextp s y = first_or None ys\<close>
    by (auto simp: DLL_insert_def dll_rep_def unlinked_def Let_def)
qed

text \<open>The pointers after an element was taken out.\<close>

lemma remove_pointers:
  assumes "dll_rep s l (as @ e # bs)"
  obtains s' l' where "DLL_remove s l e = Some (s', l')"
    "\<And>x. nextp s' x = (if x = e then None else if last_or None as = Some x then first_or None bs else nextp s x)"
    "\<And>x. prevp s' x = (if x = e then None else if first_or None bs = Some x then last_or None as else prevp s x)"
    "head l' = first_or None (as @ bs)" "tail l' = last_or None (as @ bs)"
proof -
  let ?s1 = "case last_or None as of None \<Rightarrow> s | Some x \<Rightarrow> s\<lparr>nextp := (nextp s)(x := first_or None bs)\<rparr>"
  let ?s2 = "case first_or None bs of None \<Rightarrow> ?s1 | Some x \<Rightarrow> ?s1\<lparr>prevp := (prevp ?s1)(x := last_or None as)\<rparr>"
  let ?s = "?s2\<lparr>nextp := (nextp ?s2)(e := None), prevp := (prevp ?s2)(e := None)\<rparr>"
  let ?l1 = "case last_or None as of None \<Rightarrow> l\<lparr>head := first_or None bs\<rparr> | Some x \<Rightarrow> l"
  let ?l = "case first_or None bs of None \<Rightarrow> ?l1\<lparr>tail := last_or None as\<rparr> | Some x \<Rightarrow> ?l1"
  have p: "prevp s e = last_or None as" and n: "nextp s e = first_or None bs" and e: "e \<notin> set as" "e \<notin> set bs"
    using assms by (auto simp: dll_rep_def)
  then have "last_or None as \<noteq> Some e" "first_or None bs \<noteq> Some e"
    by (auto simp: last_or_def first_or_def split: list.splits if_splits)
  then have "DLL_remove s l e = Some (?s, ?l)"
    using assms p n by (auto simp: DLL_remove_def dll_rep_def Let_def split: option.splits prod.splits)
  moreover have "nextp ?s x = (if x = e then None else if last_or None as = Some x then first_or None bs else nextp s x)" for x
    by (auto split: option.splits)
  moreover have "prevp ?s x = (if x = e then None else if first_or None bs = Some x then last_or None as else prevp s x)" for x
    by (auto split: option.splits)
  moreover have "head ?l = first_or None (as @ bs)"
    using assms by (cases as; cases bs) (auto simp: dll_rep_def last_or_def)
  moreover have "tail ?l = last_or None (as @ bs)"
    using assms by (cases as; cases bs) (auto simp: dll_rep_def last_or_def)
  ultimately show ?thesis by (rule that)
qed

lemma remove_rep:
  assumes "dll_rep s l xs" "e \<in> set xs"
  shows "\<exists>s' l'. DLL_remove s l e = Some (s', l') \<and> dll_rep s' l' (remove1 e xs) \<and> unlinked s' e
     \<and> (\<forall>x. x \<notin> set xs \<longrightarrow> nextp s' x = nextp s x \<and> prevp s' x = prevp s x)"
proof -
  obtain as bs where xs: "xs = as @ e # bs" using assms(2) by (auto dest: split_list)
  have d: "distinct as" "distinct bs" "e \<notin> set as" "e \<notin> set bs" "set as \<inter> set bs = {}"
    and la: "linked s None as (Some e)" and lb: "linked s (Some e) bs None"
    using assms(1) xs by (auto simp: dll_rep_def)
  have rep: "dll_rep s l (as @ e # bs)" using assms(1) xs by simp
  obtain s' l' where r: "DLL_remove s l e = Some (s', l')"
    and nx: "\<And>x. nextp s' x = (if x = e then None else if last_or None as = Some x then first_or None bs else nextp s x)"
    and pv: "\<And>x. prevp s' x = (if x = e then None else if first_or None bs = Some x then last_or None as else prevp s x)"
    and ends: "head l' = first_or None (as @ bs)" "tail l' = last_or None (as @ bs)"
    by (rule remove_pointers [OF rep]) (rule that; assumption)
  have la_in: "last_or None as = Some x \<Longrightarrow> x \<in> set as" for x by (cases "as = []") (auto dest: last_or_in)
  have fb_in: "first_or None bs = Some x \<Longrightarrow> x \<in> set bs" for x by (cases bs) auto
  have "linked s' None as (first_or None bs)"
  proof (rule linked_new_next [of "s\<lparr>prevp := prevp s'\<rparr>" None as "Some e"])
    have "prevp s' x = prevp s x" if "x \<in> set as" for x using that d fb_in unfolding pv by auto
    then show "linked (s\<lparr>prevp := prevp s'\<rparr>) None as (Some e)"
      using la linked_cong [of as "s\<lparr>prevp := prevp s'\<rparr>" s] by simp
  qed (use d nx in auto)
  moreover have "linked s' (last_or None as) bs None"
  proof (rule linked_new_prev [of "s\<lparr>nextp := nextp s'\<rparr>" "Some e" bs None])
    have "nextp s' x = nextp s x" if "x \<in> set bs" for x using that d la_in unfolding nx by auto
    then show "linked (s\<lparr>nextp := nextp s'\<rparr>) (Some e) bs None"
      using lb linked_cong [of bs "s\<lparr>nextp := nextp s'\<rparr>" s] by simp
  qed (use d pv in auto)
  moreover have "nextp s' x = nextp s x \<and> prevp s' x = prevp s x" if "x \<notin> set xs" for x
    using that xs la_in fb_in unfolding nx pv by auto
  ultimately show ?thesis using r ends xs d nx pv by (auto simp: dll_rep_def remove1_append unlinked_def)
qed

lemma rep_frame:
  assumes "dll_rep s l xs" "\<And>x. x \<in> set xs \<Longrightarrow> nextp s' x = nextp s x \<and> prevp s' x = prevp s x"
  shows "dll_rep s' l xs"
  using assms linked_cong [of xs s' s] by (auto simp: dll_rep_def)

section \<open>The contract of the lists\<close>

text \<open>
  What the daemon relies on: an element that is in no list can be put in front of one, an element of a list can be taken out of it and is
  in no list then; the lists that share the fields and none of the elements stay as they are.
\<close>

locale linked_lists =
  fixes ins rem :: "'s \<Rightarrow> 'l \<Rightarrow> 'e \<Rightarrow> ('s \<times> 'l) option"
    and rep :: "'s \<Rightarrow> 'l \<Rightarrow> 'e list \<Rightarrow> bool"
    and free :: "'s \<Rightarrow> 'e \<Rightarrow> bool"
  assumes rep_distinct: "rep s l xs \<Longrightarrow> distinct xs"
    and ins_rep: "rep s l xs \<Longrightarrow> free s e \<Longrightarrow> e \<notin> set xs \<Longrightarrow>
      \<exists>s' l'. ins s l e = Some (s', l') \<and> rep s' l' (e # xs)
        \<and> (\<forall>m ys. rep s m ys \<longrightarrow> e \<notin> set ys \<longrightarrow> set xs \<inter> set ys = {} \<longrightarrow> rep s' m ys)
        \<and> (\<forall>x. x \<noteq> e \<longrightarrow> x \<notin> set xs \<longrightarrow> free s x \<longrightarrow> free s' x)"
    and rem_rep: "rep s l xs \<Longrightarrow> e \<in> set xs \<Longrightarrow>
      \<exists>s' l'. rem s l e = Some (s', l') \<and> rep s' l' (remove1 e xs) \<and> free s' e
        \<and> (\<forall>m ys. rep s m ys \<longrightarrow> set xs \<inter> set ys = {} \<longrightarrow> rep s' m ys)
        \<and> (\<forall>x. x \<notin> set xs \<longrightarrow> free s x \<longrightarrow> free s' x)"
begin

text \<open>Several lists over the same fields, which have no element in common; every other element is in none of them.\<close>

definition family :: "'s \<Rightarrow> ('l \<times> 'e list) list \<Rightarrow> bool" where
  "family s ps \<longleftrightarrow> (\<forall>i < length ps. rep s (fst (ps ! i)) (snd (ps ! i)))
     \<and> (\<forall>i < length ps. \<forall>j < length ps. i \<noteq> j \<longrightarrow> set (snd (ps ! i)) \<inter> set (snd (ps ! j)) = {})
     \<and> (\<forall>e. (\<forall>i < length ps. e \<notin> set (snd (ps ! i))) \<longrightarrow> free s e)"

lemma family_rep: "family s ps \<Longrightarrow> i < length ps \<Longrightarrow> rep s (fst (ps ! i)) (snd (ps ! i))"
  by (simp add: family_def)

lemma family_distinct: "family s ps \<Longrightarrow> i < length ps \<Longrightarrow> distinct (snd (ps ! i))"
  by (rule rep_distinct [OF family_rep])

lemma family_disjoint:
  "family s ps \<Longrightarrow> i < length ps \<Longrightarrow> j < length ps \<Longrightarrow> i \<noteq> j \<Longrightarrow> e \<in> set (snd (ps ! i)) \<Longrightarrow> e \<notin> set (snd (ps ! j))"
  by (auto simp: family_def)

lemma family_free: "family s ps \<Longrightarrow> (\<And>i. i < length ps \<Longrightarrow> e \<notin> set (snd (ps ! i))) \<Longrightarrow> free s e"
  by (simp add: family_def)

lemma family_insert:
  assumes "family s ps" "i < length ps" "\<forall>p \<in> set ps. e \<notin> set (snd p)"
  shows "\<exists>s' l'. ins s (fst (ps ! i)) e = Some (s', l') \<and> family s' (ps[i := (l', e # snd (ps ! i))])"
proof -
  obtain s' l' where n: "ins s (fst (ps ! i)) e = Some (s', l')" "rep s' l' (e # snd (ps ! i))"
    "\<And>m ys. rep s m ys \<Longrightarrow> e \<notin> set ys \<Longrightarrow> set (snd (ps ! i)) \<inter> set ys = {} \<Longrightarrow> rep s' m ys"
    "\<And>x. x \<noteq> e \<Longrightarrow> x \<notin> set (snd (ps ! i)) \<Longrightarrow> free s x \<Longrightarrow> free s' x"
    using ins_rep [OF family_rep [OF assms(1,2)] family_free [OF assms(1)]] assms(2,3) nth_mem by metis
  let ?ps = "ps[i := (l', e # snd (ps ! i))]"
  have "rep s' (fst (?ps ! j)) (snd (?ps ! j))" if "j < length ps" for j
    using that n(2,3) family_rep [OF assms(1)] assms by (auto simp: nth_list_update family_def)
  moreover have "set (snd (?ps ! j)) \<inter> set (snd (?ps ! k)) = {}" if "j < length ps" "k < length ps" "j \<noteq> k" for j k
    using that assms by (auto simp: nth_list_update family_def)
  moreover have "free s' x" if x: "\<And>j. j < length ps \<Longrightarrow> x \<notin> set (snd (?ps ! j))" for x
  proof -
    have "x \<noteq> e" "x \<notin> set (snd (ps ! i))" using x [OF assms(2)] assms(2) by auto
    moreover have "x \<notin> set (snd (ps ! j))" if "j < length ps" for j
      using that x [of j] calculation by (cases "j = i") auto
    ultimately show ?thesis using n(4) family_free [OF assms(1)] by blast
  qed
  ultimately show ?thesis using n(1) by (auto simp: family_def)
qed

lemma family_remove:
  assumes "family s ps" "i < length ps" "e \<in> set (snd (ps ! i))"
  shows "\<exists>s' l'. rem s (fst (ps ! i)) e = Some (s', l') \<and> family s' (ps[i := (l', remove1 e (snd (ps ! i)))])"
proof -
  obtain s' l' where n: "rem s (fst (ps ! i)) e = Some (s', l')" "rep s' l' (remove1 e (snd (ps ! i)))" "free s' e"
    "\<And>m ys. rep s m ys \<Longrightarrow> set (snd (ps ! i)) \<inter> set ys = {} \<Longrightarrow> rep s' m ys"
    "\<And>x. x \<notin> set (snd (ps ! i)) \<Longrightarrow> free s x \<Longrightarrow> free s' x"
    using rem_rep [OF family_rep [OF assms(1,2)] assms(3)] by blast
  let ?ps = "ps[i := (l', remove1 e (snd (ps ! i)))]"
  have set: "set (remove1 e (snd (ps ! i))) = set (snd (ps ! i)) - {e}"
    by (rule set_remove1_eq [OF family_distinct [OF assms(1,2)]])
  have "rep s' (fst (?ps ! j)) (snd (?ps ! j))" if "j < length ps" for j
    using that n(2,4) family_rep [OF assms(1)] assms by (auto simp: nth_list_update family_def)
  moreover have "set (snd (?ps ! j)) \<inter> set (snd (?ps ! k)) = {}" if "j < length ps" "k < length ps" "j \<noteq> k" for j k
  proof -
    have "set (snd (ps ! j)) \<inter> set (snd (ps ! k)) = {}" using that assms(1) by (simp add: family_def)
    then show ?thesis using that set by (cases "j = i"; cases "k = i") auto
  qed
  moreover have "free s' x" if x: "\<And>j. j < length ps \<Longrightarrow> x \<notin> set (snd (?ps ! j))" for x
  proof (cases "x = e")
    case False
    then have "x \<notin> set (snd (ps ! j))" if "j < length ps" for j
      using that x [of j] set by (cases "j = i") auto
    then show ?thesis using n(5) family_free [OF assms(1)] assms(2) by blast
  qed (simp add: n(3))
  ultimately show ?thesis using n(1) by (auto simp: family_def)
qed

end

interpretation dll: linked_lists DLL_insert DLL_remove dll_rep unlinked
proof
  fix s :: "'a links" and l :: "'a dll" and xs e
  assume rep: "dll_rep s l xs"
  then show "distinct xs" by (simp add: dll_rep_def)
next
  fix s :: "'a links" and l :: "'a dll" and xs e
  assume rep: "dll_rep s l xs" and e: "unlinked s e" "e \<notin> set xs"
  show "\<exists>s' l'. DLL_insert s l e = Some (s', l') \<and> dll_rep s' l' (e # xs)
      \<and> (\<forall>m ys. dll_rep s m ys \<longrightarrow> e \<notin> set ys \<longrightarrow> set xs \<inter> set ys = {} \<longrightarrow> dll_rep s' m ys)
      \<and> (\<forall>x. x \<noteq> e \<longrightarrow> x \<notin> set xs \<longrightarrow> unlinked s x \<longrightarrow> unlinked s' x)"
  proof -
    obtain s' l' where i: "DLL_insert s l e = Some (s', l')" "dll_rep s' l' (e # xs)"
      "\<forall>x. x \<noteq> e \<longrightarrow> x \<notin> set xs \<longrightarrow> nextp s' x = nextp s x \<and> prevp s' x = prevp s x"
      using insert_rep [OF rep e] by blast
    have "dll_rep s' m ys" if "dll_rep s m ys" "e \<notin> set ys" "set xs \<inter> set ys = {}" for m ys
    proof (rule rep_frame [OF that(1)])
      fix x assume "x \<in> set ys"
      then have "x \<noteq> e" "x \<notin> set xs" using that(2,3) by auto
      then show "nextp s' x = nextp s x \<and> prevp s' x = prevp s x" using i(3) by simp
    qed
    moreover have "unlinked s' x" if "x \<noteq> e" "x \<notin> set xs" "unlinked s x" for x
      using that i(3) by (simp add: unlinked_def)
    ultimately show ?thesis using i(1,2) by blast
  qed
next
  fix s :: "'a links" and l :: "'a dll" and xs e
  assume rep: "dll_rep s l xs" and e: "e \<in> set xs"
  show "\<exists>s' l'. DLL_remove s l e = Some (s', l') \<and> dll_rep s' l' (remove1 e xs) \<and> unlinked s' e
      \<and> (\<forall>m ys. dll_rep s m ys \<longrightarrow> set xs \<inter> set ys = {} \<longrightarrow> dll_rep s' m ys)
      \<and> (\<forall>x. x \<notin> set xs \<longrightarrow> unlinked s x \<longrightarrow> unlinked s' x)"
  proof -
    obtain s' l' where i: "DLL_remove s l e = Some (s', l')" "dll_rep s' l' (remove1 e xs)" "unlinked s' e"
      "\<forall>x. x \<notin> set xs \<longrightarrow> nextp s' x = nextp s x \<and> prevp s' x = prevp s x"
      using remove_rep [OF rep e] by blast
    have "dll_rep s' m ys" if "dll_rep s m ys" "set xs \<inter> set ys = {}" for m ys
    proof (rule rep_frame [OF that(1)])
      fix x assume "x \<in> set ys"
      then have "x \<notin> set xs" using that(2) by auto
      then show "nextp s' x = nextp s x \<and> prevp s' x = prevp s x" using i(4) by simp
    qed
    moreover have "unlinked s' x" if "x \<notin> set xs" "unlinked s x" for x
      using that i(4) by (simp add: unlinked_def)
    ultimately show ?thesis using i(1-3) by blast
  qed
qed

end
