(* ===== verification/Daemon_Lists.thy ===== *)
theory Daemon_Lists
  imports Dll Connection_Idle Ip_Limit
begin

text \<open>
  The connections of a daemon (\<^verbatim>\<open>daemon.c\<close>, the upgrade of \<^verbatim>\<open>response.c\<close>, and the operations of \<^verbatim>\<open>connection.c\<close> that move a connection between
  lists): accepting, suspending and resuming, closing and freeing them, and their timeouts.

  A connection is in one of the lists of active, suspended and closed connections, which share the fields \<^verbatim>\<open>next\<close> and \<^verbatim>\<open>prev\<close>; an active one is
  also in one of the two lists ordered by activity, which share \<^verbatim>\<open>nextX\<close> and \<^verbatim>\<open>prevX\<close>. The build has no threads, TLS and epoll. A pointer to a connection is a number;
  the connections that are allocated are a map, and the use of another pointer, a failed assertion or a panic is \<open>None\<close>. What the operating system
  and the allocator say is a parameter. Closed sockets and the notifications about connections
  are recorded in order, as for an application that set a function for the notifications.
\<close>

section \<open>State\<close>

definition MHD_USE_TLS :: u32 where "MHD_USE_TLS = 2"
definition MHD_USE_POLL :: u32 where "MHD_USE_POLL = 64"
definition MHD_USE_EPOLL :: u32 where "MHD_USE_EPOLL = 512"
definition MHD_TEST_ALLOW_SUSPEND_RESUME :: u32 where "MHD_TEST_ALLOW_SUSPEND_RESUME = 8192"
definition MHD_INVALID_SOCKET :: int where "MHD_INVALID_SOCKET = - 1"
definition FD_SETSIZE :: int where "FD_SETSIZE = 1024"

type_synonym cid = nat

record upgrade_handle =
  was_closed :: bool
  clean_ready :: bool

record 'a client =
  conn :: "'a MHD_Connection"
  sockaddr :: "byte list"
  socket_fd :: int
  sk_nonblck :: bool
  resuming :: bool
  in_cleanup :: bool
  urh :: "upgrade_handle option"

datatype notification = MHD_CONNECTION_NOTIFY_STARTED | MHD_CONNECTION_NOTIFY_CLOSED

record 'a server =
  config :: "'a MHD_Daemon"
  clients :: "cid \<Rightarrow> 'a client option"
  links :: "cid links"
  xlinks :: "cid links"
  active_list :: "cid dll"
  suspended_list :: "cid dll"
  cleanup_list :: "cid dll"
  normal_timeout :: "cid dll"
  manual_timeout :: "cid dll"
  connections :: u32
  connection_limit :: u32
  default_timeout :: nat
  any_resuming :: bool
  at_limit :: bool
  data_already_pending :: bool
  was_quiesced :: bool
  listen_fd :: int
  apc :: "(byte list \<Rightarrow> bool) option"
  ip_counts :: ip_daemon
  notifications :: "(notification \<times> cid) list"
  closed_sockets :: "int list"

section \<open>Fields of a connection and its lists\<close>

definition modify_client :: "'a server \<Rightarrow> cid \<Rightarrow> ('a client \<Rightarrow> 'a client) \<Rightarrow> 'a server" where
  "modify_client s c f = s\<lparr>clients := (clients s)(c := map_option f (clients s c))\<rparr>"

definition modify_conn :: "'a server \<Rightarrow> cid \<Rightarrow> ('a MHD_Connection \<Rightarrow> 'a MHD_Connection) \<Rightarrow> 'a server" where
  "modify_conn s c f = modify_client s c (\<lambda>x. x\<lparr>conn := f (conn x)\<rparr>)"

definition active_insert :: "'a server \<Rightarrow> cid \<Rightarrow> 'a server option" where
  "active_insert s c = map_option (\<lambda>(k, l). s\<lparr>links := k, active_list := l\<rparr>) (DLL_insert (links s) (active_list s) c)"

definition active_remove :: "'a server \<Rightarrow> cid \<Rightarrow> 'a server option" where
  "active_remove s c = map_option (\<lambda>(k, l). s\<lparr>links := k, active_list := l\<rparr>) (DLL_remove (links s) (active_list s) c)"

definition suspended_insert :: "'a server \<Rightarrow> cid \<Rightarrow> 'a server option" where
  "suspended_insert s c = map_option (\<lambda>(k, l). s\<lparr>links := k, suspended_list := l\<rparr>) (DLL_insert (links s) (suspended_list s) c)"

definition suspended_remove :: "'a server \<Rightarrow> cid \<Rightarrow> 'a server option" where
  "suspended_remove s c = map_option (\<lambda>(k, l). s\<lparr>links := k, suspended_list := l\<rparr>) (DLL_remove (links s) (suspended_list s) c)"

definition cleanup_insert :: "'a server \<Rightarrow> cid \<Rightarrow> 'a server option" where
  "cleanup_insert s c = map_option (\<lambda>(k, l). s\<lparr>links := k, cleanup_list := l\<rparr>) (DLL_insert (links s) (cleanup_list s) c)"

definition cleanup_remove :: "'a server \<Rightarrow> cid \<Rightarrow> 'a server option" where
  "cleanup_remove s c = map_option (\<lambda>(k, l). s\<lparr>links := k, cleanup_list := l\<rparr>) (DLL_remove (links s) (cleanup_list s) c)"

text \<open>The list ordered by activity that a connection with timeout \<open>tmo\<close> is in.\<close>

definition timeout_insert :: "'a server \<Rightarrow> cid \<Rightarrow> nat \<Rightarrow> 'a server option" where
  "timeout_insert s c tmo =
     (if tmo = default_timeout s
      then map_option (\<lambda>(k, l). s\<lparr>xlinks := k, normal_timeout := l\<rparr>) (DLL_insert (xlinks s) (normal_timeout s) c)
      else map_option (\<lambda>(k, l). s\<lparr>xlinks := k, manual_timeout := l\<rparr>) (DLL_insert (xlinks s) (manual_timeout s) c))"

definition timeout_remove :: "'a server \<Rightarrow> cid \<Rightarrow> nat \<Rightarrow> 'a server option" where
  "timeout_remove s c tmo =
     (if tmo = default_timeout s
      then map_option (\<lambda>(k, l). s\<lparr>xlinks := k, normal_timeout := l\<rparr>) (DLL_remove (xlinks s) (normal_timeout s) c)
      else map_option (\<lambda>(k, l). s\<lparr>xlinks := k, manual_timeout := l\<rparr>) (DLL_remove (xlinks s) (manual_timeout s) c))"

section \<open>Accepting a connection\<close>

definition MHD_socket_close :: "'a server \<Rightarrow> int \<Rightarrow> 'a server" where
  "MHD_socket_close s sock = s\<lparr>closed_sockets := closed_sockets s @ [sock]\<rparr>"

definition notify_connection :: "'a server \<Rightarrow> cid \<Rightarrow> notification \<Rightarrow> 'a server" where
  "notify_connection s c n = s\<lparr>notifications := notifications s @ [(n, c)]\<rparr>"

text \<open>The counter of the address is given back.\<close>

definition ip_release :: "'a server \<Rightarrow> byte list \<Rightarrow> 'a server option" where
  "ip_release s sa = (case ip_limit_del (ip_counts s) sa (length sa) of Inl _ \<Rightarrow> None | Inr ip \<Rightarrow> Some (s\<lparr>ip_counts := ip\<rparr>))"

definition zero_connection :: "MemoryPool \<Rightarrow> 'a MHD_Connection" where
  "zero_connection p = \<lparr>pool = p, headers_received = [],
     response = None, client_context = None, req_method = None, req_url = None, req_version = None,
     keepalive = MHD_CONN_KEEPALIVE_UNKOWN, read_buffer = [], read_buffer_at = None, read_buffer_size = 0,
     write_buffer = [], write_buffer_at = None, write_buffer_size = 0, write_buffer_send_offset = 0,
     write_buffer_append_offset = 0, last_line = None, last_at = None, colon = None, header_size = 0,
     remaining_upload_size = 0, response_write_position = 0, continue_message_write_offset = 0, last_activity = 0,
     connection_timeout = 0, client_aware = False, read_closed = False, suspended = False, cstate = MHD_CONNECTION_INIT,
     event_loop_info = MHD_EVENT_LOOP_INFO_READ, responseCode = 0, have_chunked_upload = False, current_chunk_size = 0,
     current_chunk_offset = 0, calls = [], sent = []\<rparr>"

text \<open>What the allocators say: for the key and the node of the address counter, the connection, its pool and its copy of the address.\<close>

record accept_memory =
  am_key :: bool
  am_node :: bool
  am_connection :: "cid option"
  am_pool :: "bool \<times> byte list option \<times> byte list option"
  am_addr :: bool

text \<open>The label \<^verbatim>\<open>cleanup\<close>; the connection is taken out of the lists and freed.\<close>

definition add_cleanup :: "'a server \<Rightarrow> cid \<Rightarrow> int \<Rightarrow> byte list \<Rightarrow> (bool \<times> 'a server) option" where
  "add_cleanup s c client_socket sa = do {
     let s = MHD_socket_close (notify_connection s c MHD_CONNECTION_NOTIFY_CLOSED) client_socket;
     s \<leftarrow> ip_release s sa;
     s \<leftarrow> timeout_remove s c (default_timeout s);
     s \<leftarrow> active_remove s c;
     Some (False, s\<lparr>clients := (clients s)(c := None)\<rparr>)
   }"

text \<open>The connection is counted and put into the lists.\<close>

definition add_client :: "'a server \<Rightarrow> cid \<Rightarrow> 'a client \<Rightarrow> (bool \<times> 'a server) option" where
  "add_client s c x = do {
     let s = s\<lparr>clients := (clients s)(c \<mapsto> x)\<rparr>;
     if options (config s) AND MHD_USE_TLS \<noteq> 0 then add_cleanup s c (socket_fd x) (sockaddr x)
     else if connections s \<ge> connection_limit s then add_cleanup s c (socket_fd x) (sockaddr x)
     else do {
       let s = s\<lparr>connections := connections s + 1\<rparr>;
       s \<leftarrow> timeout_insert s c (default_timeout s);
       s \<leftarrow> active_insert s c;
       Some (True, notify_connection s c MHD_CONNECTION_NOTIFY_STARTED)
     }
   }"

definition internal_add_connection ::
  "accept_memory \<Rightarrow> 'a server \<Rightarrow> int \<Rightarrow> byte list \<Rightarrow> bool \<Rightarrow> (bool \<times> 'a server) option" where
  "internal_add_connection mem s client_socket sa non_blck =
     (let refuse = (\<lambda>s. map_option (Pair False) (ip_release (MHD_socket_close s client_socket) sa)) in
      if \<not> client_socket < FD_SETSIZE \<and> options (config s) AND (MHD_USE_POLL OR MHD_USE_EPOLL) = 0
      then Some (False, MHD_socket_close s client_socket)
      else if connections s = connection_limit s then Some (False, MHD_socket_close s client_socket)
      else (case ip_limit_add (am_key mem) (am_node mem) (ip_counts s) sa (length sa) of
        (False, ip) \<Rightarrow> Some (False, MHD_socket_close (s\<lparr>ip_counts := ip\<rparr>) client_socket)
      | (True, ip) \<Rightarrow>
          let s = s\<lparr>ip_counts := ip\<rparr> in
          if (case apc s of None \<Rightarrow> False | Some accepts \<Rightarrow> \<not> accepts sa) then refuse s
          else (case am_connection mem of
            None \<Rightarrow> refuse s
          | Some c \<Rightarrow>
              (case am_pool mem of (struct_ok, mmap_mem, malloc_mem) \<Rightarrow>
               case MHD_pool_create struct_ok mmap_mem malloc_mem (pool_size (config s)) of
                 None \<Rightarrow> refuse s
               | Some p \<Rightarrow>
                   if \<not> am_addr mem then refuse s
                   else add_client s c
                     \<lparr>conn = (zero_connection p)\<lparr>connection_timeout := default_timeout s, last_activity := monotonic_sec (config s)\<rparr>,
                      sockaddr = sa, socket_fd = client_socket, sk_nonblck = non_blck, resuming = False, in_cleanup = False, urh = None\<rparr>))))"

text \<open>
  Accepting from the listen socket: the system gives a socket with the address of the client, or an error, which may say
  that the system is out of resources.
\<close>

datatype accept_result = Accepted int "byte list" bool | Accept_error bool

definition MHD_accept_connection :: "accept_memory \<Rightarrow> 'a server \<Rightarrow> accept_result \<Rightarrow> (bool \<times> 'a server) option" where
  "MHD_accept_connection mem s res =
     (if listen_fd s = MHD_INVALID_SOCKET \<or> was_quiesced s then Some (False, s)
      else (case res of
        Accept_error low_resources \<Rightarrow>
          Some (False, if low_resources \<and> connections s \<noteq> 0 then s\<lparr>at_limit := True\<rparr> else s)
      | Accepted sock sa nonblocking \<Rightarrow>
          map_option (\<lambda>(_, s). (True, s)) (internal_add_connection mem s sock sa nonblocking)))"

definition MHD_add_connection :: "accept_memory \<Rightarrow> 'a server \<Rightarrow> int \<Rightarrow> byte list \<Rightarrow> bool \<Rightarrow> (bool \<times> 'a server) option" where
  "MHD_add_connection mem s client_socket sa sk_nonbl = internal_add_connection mem s client_socket sa sk_nonbl"

section \<open>Activity and timeouts\<close>

definition update_last_activity :: "'a server \<Rightarrow> cid \<Rightarrow> 'a server option" where
  "update_last_activity s c = do {
     x \<leftarrow> clients s c;
     if connection_timeout (conn x) = 0 \<or> suspended (conn x) then Some s
     else do {
       let s = modify_conn s c (MHD_update_last_activity (config s));
       if connection_timeout (conn x) \<noteq> default_timeout s then Some s
       else do {
         s \<leftarrow> timeout_remove s c (default_timeout s);
         timeout_insert s c (default_timeout s)
       }
     }
   }"

definition set_connection_timeout :: "'a server \<Rightarrow> cid \<Rightarrow> nat \<Rightarrow> 'a server option" where
  "set_connection_timeout s c tmo = do {
     x \<leftarrow> clients s c;
     let s = (if connection_timeout (conn x) = 0 then modify_conn s c (last_activity_update (\<lambda>_. monotonic_sec (config s))) else s);
     s \<leftarrow> (if suspended (conn x) then Some s else timeout_remove s c (connection_timeout (conn x)));
     let s = modify_conn s c (connection_timeout_update (\<lambda>_. tmo));
     if suspended (conn x) then Some s else timeout_insert s c tmo
   }"

text \<open>The deadline of the connections with a timeout of their own, starting at \<open>at\<close>.\<close>

partial_function (option) manual_deadline :: "'a server \<Rightarrow> cid option \<Rightarrow> int option \<Rightarrow> int option option" where
  "manual_deadline s at deadline =
     (case at of
        None \<Rightarrow> Some deadline
      | Some c \<Rightarrow> do {
          x \<leftarrow> clients s c;
          let last = int (last_activity (conn x));
          let tmo = int (connection_timeout (conn x));
          let prev = prevp (xlinks s) c;
          if tmo = 0 then manual_deadline s prev deadline
          else manual_deadline s prev
            (case deadline of None \<Rightarrow> Some (last + tmo) | Some e \<Rightarrow> Some (if e - last > tmo then last + tmo else e))
        })"

definition MHD_get_timeout :: "'a server \<Rightarrow> u64 option option" where
  "MHD_get_timeout s =
     (if data_already_pending s then Some (Some 0)
      else do {
        deadline \<leftarrow> manual_deadline s (tail (manual_timeout s)) None;
        deadline \<leftarrow> (case tail (normal_timeout s) of
           None \<Rightarrow> Some deadline
         | Some c \<Rightarrow> do {
             x \<leftarrow> clients s c;
             let last = int (last_activity (conn x));
             let tmo = int (connection_timeout (conn x));
             Some (if tmo = 0 then deadline
                   else (case deadline of None \<Rightarrow> Some (last + tmo) | Some e \<Rightarrow> Some (if e - tmo > last then last + tmo else e)))
           });
        Some (case deadline of
           None \<Rightarrow> None
         | Some e \<Rightarrow>
             let now = int (monotonic_sec (config s)) in
             if e < now then Some 0
             else if e - now > (2 ^ 64 - 1) div 1000 then Some (- 1)
             else Some (1000 * word_of_int (e - now)))
      })"

section \<open>Suspending and resuming\<close>

definition internal_suspend_connection :: "'a server \<Rightarrow> cid \<Rightarrow> 'a server option" where
  "internal_suspend_connection s c = do {
     x \<leftarrow> clients s c;
     if resuming x then Some (modify_client s c (resuming_update (\<lambda>_. False)))
     else do {
       s \<leftarrow> timeout_remove s c (connection_timeout (conn x));
       s \<leftarrow> active_remove s c;
       if suspended (conn x) then None
       else do {
         s \<leftarrow> suspended_insert s c;
         Some (modify_conn s c (suspended_update (\<lambda>_. True)))
       }
     }
   }"

definition MHD_suspend_connection :: "'a server \<Rightarrow> cid \<Rightarrow> 'a server option" where
  "MHD_suspend_connection s c =
     (if options (config s) AND MHD_TEST_ALLOW_SUSPEND_RESUME = 0 then None
      else do {
        x \<leftarrow> clients s c;
        if urh x \<noteq> None then Some s else internal_suspend_connection s c
      })"

definition MHD_resume_connection :: "'a server \<Rightarrow> cid \<Rightarrow> 'a server option" where
  "MHD_resume_connection s c =
     (if options (config s) AND MHD_TEST_ALLOW_SUSPEND_RESUME = 0 then None
      else do {
        x \<leftarrow> clients s c;
        Some ((modify_client s c (resuming_update (\<lambda>_. True)))\<lparr>any_resuming := True\<rparr>)
      })"

text \<open>One round of the loop for a connection that is to be resumed. An upgraded one that the application has closed is freed instead.\<close>

definition resume_client :: "'a server \<Rightarrow> cid \<Rightarrow> 'a client \<Rightarrow> 'a server option" where
  "resume_client s c x =
     (if \<not> suspended (conn x) then None
      else do {
        s \<leftarrow> suspended_remove s c;
        let s = modify_conn s c (suspended_update (\<lambda>_. False));
        s \<leftarrow> (case urh x of
           None \<Rightarrow> do {
             s \<leftarrow> active_insert s c;
             let s = (if connection_timeout (conn x) \<noteq> 0
                      then modify_conn s c (last_activity_update (\<lambda>_. monotonic_sec (config s))) else s);
             timeout_insert s c (connection_timeout (conn x))
           }
         | Some _ \<Rightarrow>
             cleanup_insert (if notify_completed (config s) \<noteq> None
               then modify_conn s c (\<lambda>d. notify_end (config s) d MHD_REQUEST_TERMINATED_COMPLETED_OK) else s) c);
        Some (modify_client s c (resuming_update (\<lambda>_. False)))
      })"

definition stays_suspended :: "'a client \<Rightarrow> bool" where
  "stays_suspended x \<longleftrightarrow> \<not> resuming x \<or> (case urh x of None \<Rightarrow> False | Some u \<Rightarrow> \<not> was_closed u \<or> \<not> clean_ready u)"

partial_function (option) resume_loop :: "'a server \<Rightarrow> cid option \<Rightarrow> bool \<Rightarrow> (bool \<times> 'a server) option" where
  "resume_loop s at ret =
     (case at of
        None \<Rightarrow> Some (ret, s)
      | Some c \<Rightarrow> do {
          x \<leftarrow> clients s c;
          let prev = prevp (links s) c;
          if stays_suspended x then resume_loop s prev ret
          else do {
            s \<leftarrow> resume_client s c x;
            resume_loop s prev True
          }
        })"

definition resume_suspended_connections :: "'a server \<Rightarrow> (bool \<times> 'a server) option" where
  "resume_suspended_connections s =
     (let prev = (if any_resuming s then tail (suspended_list s) else None) in
      if any_resuming s \<and> prev = None \<and> \<not> shutdown (config s) then None
      else resume_loop (s\<lparr>any_resuming := False\<rparr>) prev False)"

text \<open>
  The upgrade of a connection: the handle is allocated, and the connection is suspended before the application gets the socket.
  The application closes it with an action.
\<close>

definition hand_over :: "'a server \<Rightarrow> cid \<Rightarrow> (bool \<times> 'a server) option" where
  "hand_over s c =
     (let s = modify_client s c (urh_update (\<lambda>_. Some \<lparr>was_closed = False, clean_ready = True\<rparr>))
      in map_option (Pair True) (internal_suspend_connection s c))"

definition MHD_response_execute_upgrade :: "bool \<Rightarrow> 'a server \<Rightarrow> cid \<Rightarrow> MHD_Response \<Rightarrow> (bool \<times> 'a server) option" where
  "MHD_response_execute_upgrade urh_mem s c r =
     (if options (config s) AND MHD_ALLOW_UPGRADE = 0 then Some (False, s)
      else if MHD_get_response_header r (Some ''Upgrade'') = None then Some (False, s)
      else if \<not> urh_mem then Some (False, s)
      else hand_over (modify_conn s c (read_buffer_update (\<lambda>_. []))) c)"

definition MHD_upgrade_action_close :: "'a server \<Rightarrow> cid \<Rightarrow> (bool \<times> 'a server) option" where
  "MHD_upgrade_action_close s c = do {
     x \<leftarrow> clients s c;
     u \<leftarrow> urh x;
     if was_closed u then Some (False, s)
     else if cstate (conn x) \<noteq> MHD_CONNECTION_UPGRADE then None
     else map_option (Pair True) (MHD_resume_connection (modify_client s c (urh_update (\<lambda>_. Some (u\<lparr>was_closed := True\<rparr>)))) c)
   }"

section \<open>Closing and freeing\<close>

definition cleanup_connection :: "'a server \<Rightarrow> cid \<Rightarrow> 'a server option" where
  "cleanup_connection s c = do {
     x \<leftarrow> clients s c;
     if in_cleanup x then Some s
     else do {
       let s = modify_client s c (\<lambda>x. x\<lparr>in_cleanup := True, conn := (conn x)\<lparr>response := None\<rparr>\<rparr>);
       s \<leftarrow> (if suspended (conn x)
             then map_option (\<lambda>s. modify_conn s c (suspended_update (\<lambda>_. False))) (suspended_remove s c)
             else do { s \<leftarrow> timeout_remove s c (connection_timeout (conn x)); active_remove s c });
       s \<leftarrow> cleanup_insert s c;
       Some (modify_client s c (resuming_update (\<lambda>_. False)))
     }
   }"

definition close_connection :: "'a server \<Rightarrow> cid \<Rightarrow> 'a server option" where
  "close_connection s c = do {
     x \<leftarrow> clients s c;
     let s = modify_conn s c (\<lambda>d. MHD_connection_close (config s) d MHD_REQUEST_TERMINATED_DAEMON_SHUTDOWN);
     if suspended (conn x) \<or> resuming x then None
     else do {
       s \<leftarrow> timeout_remove s c (connection_timeout (conn x));
       s \<leftarrow> active_remove s c;
       cleanup_insert s c
     }
   }"

text \<open>One round of freeing: the connection at the end of the list.\<close>

definition free_connection :: "'a server \<Rightarrow> cid \<Rightarrow> 'a server option" where
  "free_connection s c = do {
     s \<leftarrow> cleanup_remove s c;
     x \<leftarrow> clients s c;
     s \<leftarrow> ip_release (notify_connection s c MHD_CONNECTION_NOTIFY_CLOSED) (sockaddr x);
     let s = (if socket_fd x \<noteq> MHD_INVALID_SOCKET then MHD_socket_close s (socket_fd x) else s);
     Some (s\<lparr>clients := (clients s)(c := None), connections := connections s - 1, at_limit := False\<rparr>)
   }"

partial_function (option) MHD_cleanup_connections :: "'a server \<Rightarrow> 'a server option" where
  "MHD_cleanup_connections s =
     (case tail (cleanup_list s) of
        None \<Rightarrow> Some s
      | Some c \<Rightarrow> do { s \<leftarrow> free_connection s c; MHD_cleanup_connections s })"

text \<open>Shutting down: the upgraded connections are marked as closed, all others must not be suspended.\<close>

partial_function (option) shutdown_suspended :: "'a server \<Rightarrow> cid option \<Rightarrow> 'a server option" where
  "shutdown_suspended s susp =
     (case susp of
        None \<Rightarrow> Some s
      | Some c \<Rightarrow> do {
          x \<leftarrow> clients s c;
          u \<leftarrow> urh x;
          let prev = prevp (links s) c;
          shutdown_suspended
            ((modify_client s c (\<lambda>x. x\<lparr>urh := Some (u\<lparr>was_closed := True\<rparr>), resuming := True\<rparr>))\<lparr>any_resuming := True\<rparr>) prev
        })"

partial_function (option) close_active :: "'a server \<Rightarrow> 'a server option" where
  "close_active s =
     (case tail (active_list s) of
        None \<Rightarrow> Some s
      | Some c \<Rightarrow> do { s \<leftarrow> close_connection s c; close_active s })"

definition close_all_connections :: "'a server \<Rightarrow> 'a server option" where
  "close_all_connections s = do {
     let upg_allowed = (options (config s) AND MHD_ALLOW_UPGRADE \<noteq> 0);
     s \<leftarrow> (if options (config s) AND MHD_TEST_ALLOW_SUSPEND_RESUME \<noteq> 0
           then map_option snd (resume_suspended_connections (s\<lparr>any_resuming := True\<rparr>)) else Some s);
     s \<leftarrow> (if upg_allowed then shutdown_suspended s (tail (suspended_list s))
           else if head (suspended_list s) \<noteq> None then None else Some s);
     s \<leftarrow> (if upg_allowed then map_option snd (resume_suspended_connections (s\<lparr>any_resuming := True\<rparr>)) else Some s);
     s \<leftarrow> close_active s;
     MHD_cleanup_connections s
   }"

end
