(* ===== verification/Daemon_Inv.thy ===== *)
theory Daemon_Inv
  imports Daemon_Lists
begin

text \<open>
  The lists of a daemon stay well formed: each allocated connection is in exactly one of the three lists it can be in, the counters agree with the lists,
  and no operation runs into an assertion, uses a freed connection or panics.
\<close>

declare split_paired_Ex [simp del] split_paired_All [simp del]

section \<open>The pointers\<close>

definition lists_ok :: "'a server \<Rightarrow> cid list \<times> cid list \<times> cid list \<Rightarrow> cid list \<times> cid list \<Rightarrow> bool" where
  "lists_ok s L X \<longleftrightarrow> (case (L, X) of ((as, ss, zs), (ns, ms)) \<Rightarrow>
     dll.family (links s) [(active_list s, as), (suspended_list s, ss), (cleanup_list s, zs)]
     \<and> dll.family (xlinks s) [(normal_timeout s, ns), (manual_timeout s, ms)])"

lemma lists_ok_irrelevant [simp]:
  "lists_ok (s\<lparr>clients := v1\<rparr>) L X = lists_ok s L X"
  "lists_ok (s\<lparr>connections := v2\<rparr>) L X = lists_ok s L X"
  "lists_ok (s\<lparr>any_resuming := v3\<rparr>) L X = lists_ok s L X"
  "lists_ok (s\<lparr>at_limit := v4\<rparr>) L X = lists_ok s L X"
  "lists_ok (s\<lparr>ip_counts := v5\<rparr>) L X = lists_ok s L X"
  "lists_ok (s\<lparr>notifications := v6\<rparr>) L X = lists_ok s L X"
  "lists_ok (s\<lparr>closed_sockets := v7\<rparr>) L X = lists_ok s L X"
  "lists_ok (s\<lparr>config := v8\<rparr>) L X = lists_ok s L X"
  "lists_ok (modify_client s c f) L X = lists_ok s L X"
  "lists_ok (modify_conn s c g) L X = lists_ok s L X"
  by (simp_all add: lists_ok_def modify_client_def modify_conn_def)

text \<open>The operations on the lists change nothing else.\<close>

definition relinked :: "'a server \<Rightarrow> 'a server \<Rightarrow> bool" where
  "relinked s s' \<longleftrightarrow> config s' = config s \<and> clients s' = clients s \<and> connections s' = connections s \<and> connection_limit s' = connection_limit s
     \<and> default_timeout s' = default_timeout s \<and> any_resuming s' = any_resuming s \<and> at_limit s' = at_limit s
     \<and> data_already_pending s' = data_already_pending s \<and> was_quiesced s' = was_quiesced s \<and> listen_fd s' = listen_fd s \<and> apc s' = apc s
     \<and> ip_counts s' = ip_counts s \<and> notifications s' = notifications s \<and> closed_sockets s' = closed_sockets s"

lemma relinked_trans: "relinked s s' \<Longrightarrow> relinked s' s'' \<Longrightarrow> relinked s s''"
  by (simp add: relinked_def)

lemma active_insert_ok:
  assumes "lists_ok s (as, ss, zs) X" "c \<notin> set as \<union> set ss \<union> set zs"
  obtains s' where "active_insert s c = Some s'" "relinked s s'" "lists_ok s' (c # as, ss, zs) X"
  using dll.family_insert [of "links s" "[(active_list s, as), (suspended_list s, ss), (cleanup_list s, zs)]" 0 c] assms that
  by (cases X) (auto simp: lists_ok_def active_insert_def relinked_def)

lemma active_remove_ok:
  assumes "lists_ok s (as, ss, zs) X" "c \<in> set as"
  obtains s' where "active_remove s c = Some s'" "relinked s s'" "lists_ok s' (remove1 c as, ss, zs) X"
  using dll.family_remove [of "links s" "[(active_list s, as), (suspended_list s, ss), (cleanup_list s, zs)]" 0 c] assms that
  by (cases X) (auto simp: lists_ok_def active_remove_def relinked_def)

lemma suspended_insert_ok:
  assumes "lists_ok s (as, ss, zs) X" "c \<notin> set as \<union> set ss \<union> set zs"
  obtains s' where "suspended_insert s c = Some s'" "relinked s s'" "lists_ok s' (as, c # ss, zs) X"
  using dll.family_insert [of "links s" "[(active_list s, as), (suspended_list s, ss), (cleanup_list s, zs)]" 1 c] assms that
  by (cases X) (auto simp: lists_ok_def suspended_insert_def relinked_def)

lemma suspended_remove_ok:
  assumes "lists_ok s (as, ss, zs) X" "c \<in> set ss"
  obtains s' where "suspended_remove s c = Some s'" "relinked s s'" "lists_ok s' (as, remove1 c ss, zs) X"
  using dll.family_remove [of "links s" "[(active_list s, as), (suspended_list s, ss), (cleanup_list s, zs)]" 1 c] assms that
  by (cases X) (auto simp: lists_ok_def suspended_remove_def relinked_def)

lemma cleanup_insert_ok:
  assumes "lists_ok s (as, ss, zs) X" "c \<notin> set as \<union> set ss \<union> set zs"
  obtains s' where "cleanup_insert s c = Some s'" "relinked s s'" "lists_ok s' (as, ss, c # zs) X"
  using dll.family_insert [of "links s" "[(active_list s, as), (suspended_list s, ss), (cleanup_list s, zs)]" 2 c] assms that
  by (cases X) (auto simp: lists_ok_def cleanup_insert_def relinked_def)

lemma cleanup_remove_ok:
  assumes "lists_ok s (as, ss, zs) X" "c \<in> set zs"
  obtains s' where "cleanup_remove s c = Some s'" "relinked s s'" "lists_ok s' (as, ss, remove1 c zs) X"
  using dll.family_remove [of "links s" "[(active_list s, as), (suspended_list s, ss), (cleanup_list s, zs)]" 2 c] assms that
  by (cases X) (auto simp: lists_ok_def cleanup_remove_def relinked_def)

text \<open>Putting a connection into the list for its timeout, and taking it out.\<close>

definition with_timeout :: "'a server \<Rightarrow> cid \<Rightarrow> nat \<Rightarrow> cid list \<times> cid list \<Rightarrow> cid list \<times> cid list" where
  "with_timeout s c tmo X = (if tmo = default_timeout s then (c # fst X, snd X) else (fst X, c # snd X))"

definition without_timeout :: "'a server \<Rightarrow> cid \<Rightarrow> nat \<Rightarrow> cid list \<times> cid list \<Rightarrow> cid list \<times> cid list" where
  "without_timeout s c tmo X = (if tmo = default_timeout s then (remove1 c (fst X), snd X) else (fst X, remove1 c (snd X)))"

lemma timeout_insert_ok:
  assumes "lists_ok s L X" "c \<notin> set (fst X) \<union> set (snd X)"
  obtains s' where "timeout_insert s c tmo = Some s'" "relinked s s'" "lists_ok s' L (with_timeout s c tmo X)"
  using dll.family_insert [of "xlinks s" "[(normal_timeout s, fst X), (manual_timeout s, snd X)]" 0 c]
    dll.family_insert [of "xlinks s" "[(normal_timeout s, fst X), (manual_timeout s, snd X)]" 1 c] assms that
  by (cases X; cases L; cases "tmo = default_timeout s") (auto simp: lists_ok_def timeout_insert_def with_timeout_def relinked_def)

lemma timeout_remove_ok:
  assumes "lists_ok s L X" "c \<in> set (if tmo = default_timeout s then fst X else snd X)"
  obtains s' where "timeout_remove s c tmo = Some s'" "relinked s s'" "lists_ok s' L (without_timeout s c tmo X)"
  using dll.family_remove [of "xlinks s" "[(normal_timeout s, fst X), (manual_timeout s, snd X)]" 0 c]
    dll.family_remove [of "xlinks s" "[(normal_timeout s, fst X), (manual_timeout s, snd X)]" 1 c] assms that
  by (cases X; cases L; cases "tmo = default_timeout s") (auto simp: lists_ok_def timeout_remove_def without_timeout_def relinked_def)

section \<open>The data\<close>

definition handle_ok :: "'a client \<Rightarrow> bool" where
  "handle_ok x \<longleftrightarrow> (\<forall>u. urh x = Some u \<longrightarrow> clean_ready u \<and> cstate (conn x) = MHD_CONNECTION_UPGRADE)"

definition active_client :: "'a server \<Rightarrow> cid list \<times> cid list \<Rightarrow> cid \<Rightarrow> 'a client \<Rightarrow> bool" where
  "active_client s X c x \<longleftrightarrow> \<not> suspended (conn x) \<and> \<not> resuming x \<and> \<not> in_cleanup x \<and> handle_ok x
     \<and> c \<in> set (if connection_timeout (conn x) = default_timeout s then fst X else snd X)"

definition suspended_client :: "'a client \<Rightarrow> bool" where
  "suspended_client x \<longleftrightarrow> suspended (conn x) \<and> \<not> in_cleanup x \<and> handle_ok x"

text \<open>The addresses of the connections.\<close>

definition addresses :: "'a server \<Rightarrow> cid list \<Rightarrow> byte list multiset" where
  "addresses s cs = image_mset (\<lambda>c. case clients s c of None \<Rightarrow> [] | Some x \<Rightarrow> sockaddr x) (mset cs)"

definition data_ok :: "'a server \<Rightarrow> cid list \<times> cid list \<times> cid list \<Rightarrow> cid list \<times> cid list \<Rightarrow> bool" where
  "data_ok s L X \<longleftrightarrow> (case L of (as, ss, zs) \<Rightarrow>
     (\<forall>c. clients s c \<noteq> None \<longleftrightarrow> c \<in> set as \<union> set ss \<union> set zs)
     \<and> set (fst X) \<union> set (snd X) = set as
     \<and> (\<forall>c x. c \<in> set as \<longrightarrow> clients s c = Some x \<longrightarrow> active_client s X c x)
     \<and> (\<forall>c x. c \<in> set ss \<longrightarrow> clients s c = Some x \<longrightarrow> suspended_client x)
     \<and> unat (connections s) = length as + length ss + length zs \<and> connections s \<le> connection_limit s
     \<and> run_inv (per_ip_connection_limit (ip_counts s)) (ip_counts s) (addresses s (as @ ss @ zs))
     \<and> (any_resuming s \<longrightarrow> ss \<noteq> []))"

text \<open>The connections with the timeout of the daemon are ordered by their activity, the latest first.\<close>

definition activity :: "'a server \<Rightarrow> cid \<Rightarrow> nat" where
  "activity s c = (case clients s c of None \<Rightarrow> 0 | Some x \<Rightarrow> last_activity (conn x))"

definition ordered :: "'a server \<Rightarrow> cid list \<times> cid list \<Rightarrow> bool" where
  "ordered s X \<longleftrightarrow> default_timeout s \<noteq> 0 \<longrightarrow>
     sorted_wrt (\<lambda>c d. activity s d \<le> activity s c) (fst X) \<and> (\<forall>c \<in> set (fst X). activity s c \<le> monotonic_sec (config s))"

definition server_ok :: "bool \<Rightarrow> 'a server \<Rightarrow> cid list \<times> cid list \<times> cid list \<Rightarrow> cid list \<times> cid list \<Rightarrow> bool" where
  "server_ok strict s L X \<longleftrightarrow> lists_ok s L X \<and> data_ok s L X \<and> (strict \<longrightarrow> ordered s X)"

lemma data_cong:
  assumes "clients s' = clients s" "connections s' = connections s" "connection_limit s' = connection_limit s"
    "default_timeout s' = default_timeout s" "any_resuming s' = any_resuming s" "ip_counts s' = ip_counts s"
  shows "data_ok s' L X = data_ok s L X"
  using assms by (simp add: data_ok_def addresses_def active_client_def)

lemma ordered_cong:
  assumes "clients s' = clients s" "default_timeout s' = default_timeout s" "config s' = config s"
  shows "ordered s' X = ordered s X"
  using assms by (simp add: ordered_def activity_def)

lemma data_ok_relinked: "relinked s s' \<Longrightarrow> data_ok s' L X = data_ok s L X"
  by (rule data_cong) (simp_all add: relinked_def)

lemma ordered_relinked: "relinked s s' \<Longrightarrow> ordered s' X = ordered s X"
  by (rule ordered_cong) (simp_all add: relinked_def)

lemma data_resuming:
  "data_ok s L X \<Longrightarrow> (b \<Longrightarrow> fst (snd L) \<noteq> []) \<Longrightarrow> data_ok (s\<lparr>any_resuming := b\<rparr>) L X"
  by (cases L) (simp add: data_ok_def addresses_def active_client_def)

lemma data_okD:
  assumes "data_ok s (as, ss, zs) X"
  shows "c \<in> set as \<union> set ss \<union> set zs \<Longrightarrow> \<exists>x. clients s c = Some x"
    "clients s c = Some x \<Longrightarrow> c \<in> set as \<union> set ss \<union> set zs"
    "c \<in> set as \<Longrightarrow> clients s c = Some x \<Longrightarrow> active_client s X c x"
    "c \<in> set ss \<Longrightarrow> clients s c = Some x \<Longrightarrow> suspended_client x"
    "set (fst X) \<union> set (snd X) = set as"
  using assms by (auto simp: data_ok_def)

text \<open>The connection \<open>c\<close> changes and moves between lists.\<close>

lemma data_move:
  assumes "data_ok s (as, ss, zs) X" "clients s c = Some x" "sockaddr y = sockaddr x"
    "mset (as' @ ss' @ zs') = mset (as @ ss @ zs)" "set (fst X') \<union> set (snd X') = set as'"
    "\<And>d. d \<noteq> c \<Longrightarrow> d \<in> set as' \<Longrightarrow> d \<in> set as"
    "\<And>d. d \<noteq> c \<Longrightarrow> d \<in> set ss' \<Longrightarrow> d \<in> set ss"
    "\<And>d. d \<noteq> c \<Longrightarrow> d \<in> set (fst X) \<Longrightarrow> d \<in> set (fst X')" "\<And>d. d \<noteq> c \<Longrightarrow> d \<in> set (snd X) \<Longrightarrow> d \<in> set (snd X')"
    "c \<in> set as' \<Longrightarrow> active_client s X' c y" "c \<in> set ss' \<Longrightarrow> suspended_client y" "any_resuming s \<Longrightarrow> ss' \<noteq> []"
  shows "data_ok (s\<lparr>clients := (clients s)(c \<mapsto> y)\<rparr>) (as', ss', zs') X'"
proof -
  have set: "set as' \<union> set ss' \<union> set zs' = set as \<union> set ss \<union> set zs" using mset_eq_setD [OF assms(4)] by auto
  have len: "length as' + length ss' + length zs' = length as + length ss + length zs" using mset_eq_length [OF assms(4)] by simp
  have "addresses (s\<lparr>clients := (clients s)(c \<mapsto> y)\<rparr>) (as' @ ss' @ zs') = addresses s (as @ ss @ zs)"
    unfolding addresses_def assms(4) by (rule image_mset_cong) (use assms(2,3) in auto)
  moreover have "active_client s X' d z" if "d \<in> set as'" "d \<noteq> c" "clients s d = Some z" for d z
    using data_okD(3) [OF assms(1) assms(6) [OF that(2,1)] that(3)] assms(8,9) [OF that(2)]
    by (auto simp: active_client_def split: if_splits)
  moreover have "c \<in> set as \<union> set ss \<union> set zs" using assms(1,2) by (auto simp: data_ok_def)
  moreover have "suspended_client z" if "d \<in> set ss'" "d \<noteq> c" "clients s d = Some z" for d z
    using data_okD(4) [OF assms(1) assms(7) [OF that(2,1)] that(3)] .
  ultimately show ?thesis
    using assms(1,5,10-12) set len by (auto simp: data_ok_def active_client_def)
qed

section \<open>Operations on one connection\<close>

lemma sorted_wrt_remove1: "sorted_wrt P xs \<Longrightarrow> sorted_wrt P (remove1 x xs)"
  by (induction xs) (auto dest: notin_set_remove1)

lemma ordered_frame:
  assumes "ordered s X" "fst X' = fst X \<or> fst X' = remove1 c (fst X)" "config s' = config s" "default_timeout s' = default_timeout s"
    "\<And>d. d \<in> set (fst X') \<Longrightarrow> activity s' d = activity s d"
  shows "ordered s' X'"
proof -
  have sub: "set (fst X') \<subseteq> set (fst X)" using assms(2) set_remove1_subset [of c "fst X"] by auto
  have "sorted_wrt (\<lambda>c d. activity s d \<le> activity s c) (fst X')" if "default_timeout s \<noteq> 0"
    using assms(1,2) that sorted_wrt_remove1 by (auto simp: ordered_def)
  then have "sorted_wrt (\<lambda>c d. activity s' d \<le> activity s' c) (fst X')" if "default_timeout s \<noteq> 0"
    using that assms(5) sorted_wrt_mono_rel [of "fst X'"] by simp
  then show ?thesis using assms sub by (auto simp: ordered_def)
qed

lemma ordered_front:
  assumes "ordered s X" "fst X' = c # fst X" "activity s c = monotonic_sec (config s) \<or> default_timeout s = 0"
  shows "ordered s X'"
  using assms by (auto simp: ordered_def)

lemma modify_client_eq: "clients s c = Some x \<Longrightarrow> modify_client s c f = s\<lparr>clients := (clients s)(c \<mapsto> f x)\<rparr>"
  by (simp add: modify_client_def)

lemma modify_conn_eq: "clients s c = Some x \<Longrightarrow> modify_conn s c f = s\<lparr>clients := (clients s)(c \<mapsto> x\<lparr>conn := f (conn x)\<rparr>)\<rparr>"
  by (simp add: modify_conn_def modify_client_eq)

lemma server_okI:
  "lists_ok s L X \<Longrightarrow> data_ok s L X \<Longrightarrow> (strict \<Longrightarrow> ordered s X) \<Longrightarrow> server_ok strict s L X"
  by (simp add: server_ok_def)

lemma server_okD:
  assumes "server_ok strict s (as, ss, zs) X"
  shows "lists_ok s (as, ss, zs) X" "data_ok s (as, ss, zs) X" "strict \<Longrightarrow> ordered s X"
    "distinct as" "distinct ss" "distinct zs" "distinct (fst X)" "distinct (snd X)"
    "c \<in> set as \<Longrightarrow> c \<notin> set ss \<and> c \<notin> set zs" "c \<in> set ss \<Longrightarrow> c \<notin> set as \<and> c \<notin> set zs" "c \<in> set zs \<Longrightarrow> c \<notin> set as \<and> c \<notin> set ss"
    "c \<in> set (fst X) \<Longrightarrow> c \<notin> set (snd X)"
proof -
  show "lists_ok s (as, ss, zs) X" "data_ok s (as, ss, zs) X" "strict \<Longrightarrow> ordered s X"
    using assms by (simp_all add: server_ok_def)
  then have f: "dll.family (links s) [(active_list s, as), (suspended_list s, ss), (cleanup_list s, zs)]"
    "dll.family (xlinks s) [(normal_timeout s, fst X), (manual_timeout s, snd X)]"
    by (cases X, simp add: lists_ok_def)+
  show "distinct as" "distinct ss" "distinct zs" "distinct (fst X)" "distinct (snd X)"
    using dll.family_distinct [OF f(1), of 0] dll.family_distinct [OF f(1), of 1] dll.family_distinct [OF f(1), of 2]
      dll.family_distinct [OF f(2), of 0] dll.family_distinct [OF f(2), of 1] by simp_all
  show "c \<in> set as \<Longrightarrow> c \<notin> set ss \<and> c \<notin> set zs" "c \<in> set ss \<Longrightarrow> c \<notin> set as \<and> c \<notin> set zs" "c \<in> set zs \<Longrightarrow> c \<notin> set as \<and> c \<notin> set ss"
    using dll.family_disjoint [OF f(1), of 0 1 c] dll.family_disjoint [OF f(1), of 0 2 c] dll.family_disjoint [OF f(1), of 1 0 c]
      dll.family_disjoint [OF f(1), of 1 2 c] dll.family_disjoint [OF f(1), of 2 0 c] dll.family_disjoint [OF f(1), of 2 1 c] by auto
  show "c \<in> set (fst X) \<Longrightarrow> c \<notin> set (snd X)" using dll.family_disjoint [OF f(2), of 0 1 c] by simp
qed

text \<open>Taking an active connection out of its lists.\<close>

lemma leave_active:
  assumes "server_ok strict s (as, ss, zs) X" "c \<in> set as" "clients s c = Some x" "lists_ok s' (as, ss, zs) X"
    "default_timeout s' = default_timeout s"
  obtains s1 s2 where "timeout_remove s' c (connection_timeout (conn x)) = Some s1" "active_remove s1 c = Some s2" "relinked s' s2"
    "lists_ok s2 (remove1 c as, ss, zs) (without_timeout s c (connection_timeout (conn x)) X)"
proof -
  have "active_client s X c x" using data_okD(3) [OF server_okD(2) [OF assms(1)] assms(2,3)] .
  then have "c \<in> set (if connection_timeout (conn x) = default_timeout s' then fst X else snd X)"
    using assms(5) by (simp add: active_client_def)
  then obtain s1 where 1: "timeout_remove s' c (connection_timeout (conn x)) = Some s1" "relinked s' s1"
    "lists_ok s1 (as, ss, zs) (without_timeout s' c (connection_timeout (conn x)) X)"
    by (rule timeout_remove_ok [OF assms(4)])
  obtain s2 where 2: "active_remove s1 c = Some s2" "relinked s1 s2"
    "lists_ok s2 (remove1 c as, ss, zs) (without_timeout s' c (connection_timeout (conn x)) X)"
    by (rule active_remove_ok [OF 1(3) assms(2)])
  have "without_timeout s' c (connection_timeout (conn x)) X = without_timeout s c (connection_timeout (conn x)) X"
    using assms(5) by (simp add: without_timeout_def)
  then show ?thesis using that 1(1) 2(1,3) relinked_trans [OF 1(2) 2(2)] by simp
qed

lemma without_timeout_sets:
  assumes "server_ok strict s (as, ss, zs) X" "c \<in> set as" "clients s c = Some x"
  shows "set (fst (without_timeout s c (connection_timeout (conn x)) X)) = set (fst X) - {c}"
    "set (snd (without_timeout s c (connection_timeout (conn x)) X)) = set (snd X) - {c}"
proof -
  have "active_client s X c x" using data_okD(3) [OF server_okD(2) [OF assms(1)] assms(2,3)] .
  then show "set (fst (without_timeout s c (connection_timeout (conn x)) X)) = set (fst X) - {c}"
    "set (snd (without_timeout s c (connection_timeout (conn x)) X)) = set (snd X) - {c}"
    using server_okD(7,8) [OF assms(1)] server_okD(12) [OF assms(1), of c]
    by (auto simp: without_timeout_def active_client_def set_remove1_eq split: if_splits)
qed

lemma ordered_without:
  assumes "server_ok strict s (as, ss, zs) X" "c \<in> set as" "clients s c = Some x" strict
    "config s' = config s" "default_timeout s' = default_timeout s" "\<And>d. d \<noteq> c \<Longrightarrow> clients s' d = clients s d"
  shows "ordered s' (without_timeout s c (connection_timeout (conn x)) X)"
proof (rule ordered_frame [where c = c])
  show "ordered s X" using server_okD(3) [OF assms(1)] assms(4) .
  show "activity s' d = activity s d" if "d \<in> set (fst (without_timeout s c (connection_timeout (conn x)) X))" for d
    using that without_timeout_sets(1) [OF assms(1-3)] assms(7) [of d] by (auto simp: activity_def)
qed (use assms in \<open>auto simp: without_timeout_def\<close>)

text \<open>An active connection leaves its lists and is changed to \<open>y\<close>.\<close>

lemma data_leave:
  assumes "server_ok strict s (as, ss, zs) X" "c \<in> set as" "clients s c = Some x" "sockaddr y = sockaddr x"
    "mset (ss' @ zs') = mset (c # ss @ zs)" "set ss' \<subseteq> insert c (set ss)" "set ss \<subseteq> set ss'" "c \<in> set ss' \<Longrightarrow> suspended_client y"
  shows "data_ok (s\<lparr>clients := (clients s)(c \<mapsto> y)\<rparr>) (remove1 c as, ss', zs') (without_timeout s c (connection_timeout (conn x)) X)"
proof (rule data_move [OF server_okD(2) [OF assms(1)] assms(3,4)])
  show "mset (remove1 c as @ ss' @ zs') = mset (as @ ss @ zs)" using assms(2,5) by simp
  show "any_resuming s \<Longrightarrow> ss' \<noteq> []" using server_okD(2) [OF assms(1)] assms(7) by (auto simp: data_ok_def)
qed (use server_okD(4) [OF assms(1)] assms(6,8) data_okD(5) [OF server_okD(2) [OF assms(1)]] without_timeout_sets [OF assms(1-3)]
    in \<open>auto simp: set_remove1_eq\<close>)

lemma suspend_ok:
  assumes "server_ok strict s (as, ss, zs) X" "c \<in> set as"
  shows "\<exists>s' X'. internal_suspend_connection s c = Some s' \<and> server_ok strict s' (remove1 c as, c # ss, zs) X'"
proof -
  obtain x where x: "clients s c = Some x" using data_okD(1) [OF server_okD(2) [OF assms(1)], of c] assms(2) by auto
  have act: "active_client s X c x" using data_okD(3) [OF server_okD(2) [OF assms(1)] assms(2) x] .
  let ?X = "without_timeout s c (connection_timeout (conn x)) X" and ?y = "x\<lparr>conn := (conn x)\<lparr>suspended := True\<rparr>\<rparr>"
  obtain s1 s2 where 1: "timeout_remove s c (connection_timeout (conn x)) = Some s1" "active_remove s1 c = Some s2" "relinked s s2"
    "lists_ok s2 (remove1 c as, ss, zs) ?X"
    by (rule leave_active [OF assms x server_okD(1) [OF assms(1)] refl])
  have "c \<notin> set (remove1 c as) \<union> set ss \<union> set zs" using server_okD(4,9) [OF assms(1)] assms(2) by auto
  then obtain s3 where 2: "suspended_insert s2 c = Some s3" "relinked s2 s3" "lists_ok s3 (remove1 c as, c # ss, zs) ?X"
    by (rule suspended_insert_ok [OF 1(4)])
  have r: "relinked s s3" by (rule relinked_trans [OF 1(3) 2(2)])
  then have c3: "clients s3 = clients s" by (simp add: relinked_def)
  have "internal_suspend_connection s c = Some (s3\<lparr>clients := (clients s)(c \<mapsto> ?y)\<rparr>)"
    using x act 1(1,2) 2(1) c3 by (simp add: internal_suspend_connection_def active_client_def modify_conn_eq)
  moreover have "server_ok strict (s3\<lparr>clients := (clients s)(c \<mapsto> ?y)\<rparr>) (remove1 c as, c # ss, zs) ?X"
  proof (rule server_okI)
    have "data_ok (s\<lparr>clients := (clients s)(c \<mapsto> ?y)\<rparr>) (remove1 c as, c # ss, zs) ?X"
      by (rule data_leave [OF assms x]) (use act in \<open>auto simp: suspended_client_def active_client_def handle_ok_def\<close>)
    then show "data_ok (s3\<lparr>clients := (clients s)(c \<mapsto> ?y)\<rparr>) (remove1 c as, c # ss, zs) ?X"
      using r by (subst data_cong) (simp_all add: relinked_def)
    show "ordered (s3\<lparr>clients := (clients s)(c \<mapsto> ?y)\<rparr>) ?X" if strict
      using r by (intro ordered_without [OF assms x that]) (simp_all add: relinked_def)
  qed (simp add: 2(3))
  ultimately show ?thesis by blast
qed

lemma cleanup_ok:
  assumes "server_ok strict s (as, ss, zs) X" "c \<in> set as"
  shows "\<exists>s' X'. cleanup_connection s c = Some s' \<and> server_ok strict s' (remove1 c as, ss, c # zs) X'"
proof -
  obtain x where x: "clients s c = Some x" using data_okD(1) [OF server_okD(2) [OF assms(1)], of c] assms(2) by auto
  have act: "active_client s X c x" using data_okD(3) [OF server_okD(2) [OF assms(1)] assms(2) x] .
  let ?X = "without_timeout s c (connection_timeout (conn x)) X" and ?y = "x\<lparr>in_cleanup := True, conn := (conn x)\<lparr>response := None\<rparr>\<rparr>"
  let ?s0 = "s\<lparr>clients := (clients s)(c \<mapsto> ?y)\<rparr>" and ?z = "?y\<lparr>resuming := False\<rparr>"
  have "lists_ok ?s0 (as, ss, zs) X" "default_timeout ?s0 = default_timeout s" using server_okD(1) [OF assms(1)] by simp_all
  then obtain s1 s2 where 1: "timeout_remove ?s0 c (connection_timeout (conn x)) = Some s1" "active_remove s1 c = Some s2" "relinked ?s0 s2"
    "lists_ok s2 (remove1 c as, ss, zs) ?X"
    by (rule leave_active [OF assms x])
  have "c \<notin> set (remove1 c as) \<union> set ss \<union> set zs" using server_okD(4,9) [OF assms(1)] assms(2) by auto
  then obtain s3 where 2: "cleanup_insert s2 c = Some s3" "relinked s2 s3" "lists_ok s3 (remove1 c as, ss, c # zs) ?X"
    by (rule cleanup_insert_ok [OF 1(4)])
  have r: "relinked ?s0 s3" by (rule relinked_trans [OF 1(3) 2(2)])
  then have c3: "clients s3 = (clients s)(c \<mapsto> ?y)" by (simp add: relinked_def)
  have "cleanup_connection s c = Some (s3\<lparr>clients := (clients s)(c \<mapsto> ?z)\<rparr>)"
    using x act 1(1,2) 2(1) c3 by (simp add: cleanup_connection_def active_client_def modify_client_eq)
  moreover have "server_ok strict (s3\<lparr>clients := (clients s)(c \<mapsto> ?z)\<rparr>) (remove1 c as, ss, c # zs) ?X"
  proof (rule server_okI)
    have "data_ok (s\<lparr>clients := (clients s)(c \<mapsto> ?z)\<rparr>) (remove1 c as, ss, c # zs) ?X"
      by (rule data_leave [OF assms x]) (use server_okD(9) [OF assms(1,2)] in auto)
    then show "data_ok (s3\<lparr>clients := (clients s)(c \<mapsto> ?z)\<rparr>) (remove1 c as, ss, c # zs) ?X"
      using r by (subst data_cong) (simp_all add: relinked_def)
    show "ordered (s3\<lparr>clients := (clients s)(c \<mapsto> ?z)\<rparr>) ?X" if strict
      using r by (intro ordered_without [OF assms x that]) (simp_all add: relinked_def)
  qed (simp add: 2(3))
  ultimately show ?thesis by blast
qed

lemma close_client_ok:
  assumes "server_ok strict s (as, ss, zs) X" "c \<in> set as"
  shows "\<exists>s' X'. close_connection s c = Some s' \<and> server_ok strict s' (remove1 c as, ss, c # zs) X'"
proof -
  obtain x where x: "clients s c = Some x" using data_okD(1) [OF server_okD(2) [OF assms(1)], of c] assms(2) by auto
  have act: "active_client s X c x" using data_okD(3) [OF server_okD(2) [OF assms(1)] assms(2) x] .
  let ?X = "without_timeout s c (connection_timeout (conn x)) X"
  let ?y = "x\<lparr>conn := MHD_connection_close (config s) (conn x) MHD_REQUEST_TERMINATED_DAEMON_SHUTDOWN\<rparr>"
  let ?s0 = "s\<lparr>clients := (clients s)(c \<mapsto> ?y)\<rparr>"
  have "lists_ok ?s0 (as, ss, zs) X" "default_timeout ?s0 = default_timeout s" using server_okD(1) [OF assms(1)] by simp_all
  then obtain s1 s2 where 1: "timeout_remove ?s0 c (connection_timeout (conn x)) = Some s1" "active_remove s1 c = Some s2" "relinked ?s0 s2"
    "lists_ok s2 (remove1 c as, ss, zs) ?X"
    by (rule leave_active [OF assms x])
  have "c \<notin> set (remove1 c as) \<union> set ss \<union> set zs" using server_okD(4,9) [OF assms(1)] assms(2) by auto
  then obtain s3 where 2: "cleanup_insert s2 c = Some s3" "relinked s2 s3" "lists_ok s3 (remove1 c as, ss, c # zs) ?X"
    by (rule cleanup_insert_ok [OF 1(4)])
  have r: "relinked ?s0 s3" by (rule relinked_trans [OF 1(3) 2(2)])
  have "close_connection s c = Some s3"
    using x act 1(1,2) 2(1) by (simp add: close_connection_def active_client_def modify_conn_eq)
  moreover have "server_ok strict s3 (remove1 c as, ss, c # zs) ?X"
  proof (rule server_okI)
    have "data_ok ?s0 (remove1 c as, ss, c # zs) ?X"
      by (rule data_leave [OF assms x]) (use server_okD(9) [OF assms(1,2)] in auto)
    then show "data_ok s3 (remove1 c as, ss, c # zs) ?X" using data_ok_relinked [OF r] by simp
    show "ordered s3 ?X" if strict
      using r by (intro ordered_without [OF assms x that]) (simp_all add: relinked_def)
  qed (simp add: 2(3))
  ultimately show ?thesis by blast
qed

text \<open>A connection that changes and stays in its lists.\<close>

lemma data_change:
  assumes "server_ok strict s (as, ss, zs) X" "clients s c = Some x" "sockaddr y = sockaddr x"
    "c \<in> set as \<Longrightarrow> active_client s X c y" "c \<in> set ss \<Longrightarrow> suspended_client y"
  shows "data_ok (s\<lparr>clients := (clients s)(c \<mapsto> y)\<rparr>) (as, ss, zs) X"
  using data_move [OF server_okD(2) [OF assms(1)] assms(2,3) refl data_okD(5) [OF server_okD(2) [OF assms(1)]]] assms(4,5)
    server_okD(2) [OF assms(1)] by (auto simp: data_ok_def)

lemma change_ok:
  assumes "server_ok strict s (as, ss, zs) X" "clients s c = Some x" "sockaddr y = sockaddr x"
    "c \<in> set as \<Longrightarrow> active_client s X c y" "c \<in> set ss \<Longrightarrow> suspended_client y"
    "last_activity (conn y) = last_activity (conn x) \<or> c \<notin> set (fst X)"
  shows "server_ok strict (s\<lparr>clients := (clients s)(c \<mapsto> y)\<rparr>) (as, ss, zs) X"
proof (rule server_okI)
  show "lists_ok (s\<lparr>clients := (clients s)(c \<mapsto> y)\<rparr>) (as, ss, zs) X" using server_okD(1) [OF assms(1)] by simp
  show "data_ok (s\<lparr>clients := (clients s)(c \<mapsto> y)\<rparr>) (as, ss, zs) X" by (rule data_change [OF assms(1-5)])
  show "ordered (s\<lparr>clients := (clients s)(c \<mapsto> y)\<rparr>) X" if strict
    by (rule ordered_frame [OF server_okD(3) [OF assms(1) that]]) (use assms(2,6) in \<open>auto simp: activity_def\<close>)
qed

text \<open>The connection goes to the front of the list for the timeout \<open>tmo\<close>.\<close>

lemma retime_ok:
  assumes "server_ok strict s (as, ss, zs) X" "c \<in> set as" "clients s c = Some x" "sockaddr y = sockaddr x"
    "\<not> suspended (conn y) \<and> \<not> resuming y \<and> \<not> in_cleanup y \<and> handle_ok y" "connection_timeout (conn y) = tmo"
    "strict \<Longrightarrow> tmo = default_timeout s \<Longrightarrow> tmo \<noteq> 0 \<Longrightarrow> last_activity (conn y) = monotonic_sec (config s)"
    "relinked (s\<lparr>clients := v\<rparr>) s1" "lists_ok s1 (as, ss, zs) (without_timeout s c (connection_timeout (conn x)) X)"
  shows "\<exists>s' X'. timeout_insert (s1\<lparr>clients := (clients s)(c \<mapsto> y)\<rparr>) c tmo = Some s' \<and> server_ok strict s' (as, ss, zs) X'"
proof -
  let ?X = "without_timeout s c (connection_timeout (conn x)) X" and ?s1 = "s1\<lparr>clients := (clients s)(c \<mapsto> y)\<rparr>"
  have sets: "set (fst ?X) = set (fst X) - {c}" "set (snd ?X) = set (snd X) - {c}" using without_timeout_sets [OF assms(1-3)] .
  have "lists_ok ?s1 (as, ss, zs) ?X" "c \<notin> set (fst ?X) \<union> set (snd ?X)" using assms(9) sets by auto
  then obtain s' where s': "timeout_insert ?s1 c tmo = Some s'" "relinked ?s1 s'" "lists_ok s' (as, ss, zs) (with_timeout ?s1 c tmo ?X)"
    by (rule timeout_insert_ok)
  have X: "with_timeout ?s1 c tmo ?X = with_timeout s c tmo ?X" using assms(8) by (simp add: with_timeout_def relinked_def)
  have "server_ok strict s' (as, ss, zs) (with_timeout s c tmo ?X)"
  proof (rule server_okI)
    have "data_ok (s\<lparr>clients := (clients s)(c \<mapsto> y)\<rparr>) (as, ss, zs) (with_timeout s c tmo ?X)"
      by (rule data_move [OF server_okD(2) [OF assms(1)] assms(3,4)])
        (use sets assms(2,5,6) data_okD(5) [OF server_okD(2) [OF assms(1)]] server_okD(2) [OF assms(1)] server_okD(9) [OF assms(1,2)]
          in \<open>auto simp: with_timeout_def active_client_def data_ok_def\<close>)
    then show "data_ok s' (as, ss, zs) (with_timeout s c tmo ?X)"
      using s'(2) assms(8) by (subst data_cong) (simp_all add: relinked_def)
    show "ordered s' (with_timeout s c tmo ?X)" if strict
    proof -
      have o: "ordered s' ?X"
        by (rule ordered_without [OF assms(1-3) that]) (use s'(2) assms(8) in \<open>simp_all add: relinked_def\<close>)
      have "activity s' c = last_activity (conn y)" using s'(2) by (simp add: activity_def relinked_def)
      then show ?thesis using o assms(7) [OF that] s'(2) assms(8)
        by (cases "tmo = default_timeout s") (auto simp: with_timeout_def ordered_def relinked_def)
    qed
  qed (use s'(3) X in simp)
  then show ?thesis using s'(1) by blast
qed

lemma activity_ok:
  assumes "server_ok strict s (as, ss, zs) X" "c \<in> set as"
  shows "\<exists>s' X'. update_last_activity s c = Some s' \<and> server_ok strict s' (as, ss, zs) X'"
proof -
  obtain x where x: "clients s c = Some x" using data_okD(1) [OF server_okD(2) [OF assms(1)], of c] assms(2) by auto
  have act: "active_client s X c x" using data_okD(3) [OF server_okD(2) [OF assms(1)] assms(2) x] .
  let ?y = "x\<lparr>conn := MHD_update_last_activity (config s) (conn x)\<rparr>"
  have y: "MHD_update_last_activity (config s) (conn x) = (conn x)\<lparr>last_activity := monotonic_sec (config s)\<rparr>"
    if "connection_timeout (conn x) \<noteq> 0"
    using that act by (simp add: MHD_update_last_activity_def active_client_def)
  consider "connection_timeout (conn x) = 0" | "connection_timeout (conn x) \<noteq> 0" "connection_timeout (conn x) \<noteq> default_timeout s"
    | "connection_timeout (conn x) \<noteq> 0" "connection_timeout (conn x) = default_timeout s" by blast
  then show ?thesis
  proof cases
    case 1
    then have "update_last_activity s c = Some s" using x by (simp add: update_last_activity_def)
    then show ?thesis using assms(1) by blast
  next
    case 2
    have "server_ok strict (s\<lparr>clients := (clients s)(c \<mapsto> ?y)\<rparr>) (as, ss, zs) X"
      by (rule change_ok [OF assms(1) x])
        (use act 2 y server_okD(9) [OF assms(1,2)] server_okD(12) [OF assms(1), of c] in \<open>auto simp: active_client_def handle_ok_def\<close>)
    then show ?thesis using 2 x act by (auto simp: update_last_activity_def modify_conn_eq active_client_def)
  next
    case 3
    let ?s0 = "s\<lparr>clients := (clients s)(c \<mapsto> ?y)\<rparr>"
    have "lists_ok ?s0 (as, ss, zs) X" using server_okD(1) [OF assms(1)] by simp
    moreover have "c \<in> set (if connection_timeout (conn x) = default_timeout ?s0 then fst X else snd X)" using act by (simp add: active_client_def)
    ultimately obtain s1 where s1: "timeout_remove ?s0 c (connection_timeout (conn x)) = Some s1" "relinked ?s0 s1"
      "lists_ok s1 (as, ss, zs) (without_timeout ?s0 c (connection_timeout (conn x)) X)"
      by (rule timeout_remove_ok)
    have w: "lists_ok s1 (as, ss, zs) (without_timeout s c (connection_timeout (conn x)) X)" using s1(3) by (simp add: without_timeout_def)
    have e: "s1\<lparr>clients := (clients s)(c \<mapsto> ?y)\<rparr> = s1" using s1(2) by (cases s1) (simp add: relinked_def)
    obtain s' X' where "timeout_insert (s1\<lparr>clients := (clients s)(c \<mapsto> ?y)\<rparr>) c (default_timeout s) = Some s'" "server_ok strict s' (as, ss, zs) X'"
      using retime_ok [OF assms x, of ?y "default_timeout s", OF _ _ _ _ s1(2) w] y act 3 by (auto simp: active_client_def handle_ok_def)
    then show ?thesis using 3 x act s1(1) s1(2) e by (auto simp: update_last_activity_def modify_conn_eq active_client_def relinked_def)
  qed
qed

lemma set_timeout_active_ok:
  assumes "server_ok strict s (as, ss, zs) X" "c \<in> set as" "strict \<Longrightarrow> tmo \<noteq> default_timeout s"
  shows "\<exists>s' X'. set_connection_timeout s c tmo = Some s' \<and> server_ok strict s' (as, ss, zs) X'"
proof -
  obtain x where x: "clients s c = Some x" using data_okD(1) [OF server_okD(2) [OF assms(1)], of c] assms(2) by auto
  have act: "active_client s X c x" using data_okD(3) [OF server_okD(2) [OF assms(1)] assms(2) x] .
  let ?x1 = "if connection_timeout (conn x) = 0 then x\<lparr>conn := (conn x)\<lparr>last_activity := monotonic_sec (config s)\<rparr>\<rparr> else x"
  let ?y = "?x1\<lparr>conn := (conn ?x1)\<lparr>connection_timeout := tmo\<rparr>\<rparr>" and ?s0 = "s\<lparr>clients := (clients s)(c \<mapsto> ?x1)\<rparr>"
  have "lists_ok ?s0 (as, ss, zs) X" using server_okD(1) [OF assms(1)] by simp
  moreover have "c \<in> set (if connection_timeout (conn x) = default_timeout ?s0 then fst X else snd X)" using act by (simp add: active_client_def)
  ultimately obtain s1 where s1: "timeout_remove ?s0 c (connection_timeout (conn x)) = Some s1" "relinked ?s0 s1"
    "lists_ok s1 (as, ss, zs) (without_timeout ?s0 c (connection_timeout (conn x)) X)"
    by (rule timeout_remove_ok)
  have w: "lists_ok s1 (as, ss, zs) (without_timeout s c (connection_timeout (conn x)) X)" using s1(3) by (simp add: without_timeout_def)
  have "(if connection_timeout (conn x) = 0 then modify_conn s c (last_activity_update (\<lambda>_. monotonic_sec (config s))) else s) = ?s0"
    using x by (cases s) (auto simp: modify_conn_eq)
  moreover have "modify_conn s1 c (connection_timeout_update (\<lambda>_. tmo)) = s1\<lparr>clients := (clients s)(c \<mapsto> ?y)\<rparr>"
    using s1(2) by (simp add: modify_conn_def modify_client_def relinked_def)
  ultimately have "set_connection_timeout s c tmo = timeout_insert (s1\<lparr>clients := (clients s)(c \<mapsto> ?y)\<rparr>) c tmo"
    using x act s1(1) by (simp add: set_connection_timeout_def active_client_def Let_def)
  then show ?thesis
    using retime_ok [OF assms(1,2) x, of ?y tmo, OF _ _ _ _ s1(2) w] act assms(3) by (simp add: active_client_def handle_ok_def)
qed

lemma set_timeout_suspended_ok:
  assumes "server_ok strict s (as, ss, zs) X" "c \<in> set ss"
  shows "\<exists>s' X'. set_connection_timeout s c tmo = Some s' \<and> server_ok strict s' (as, ss, zs) X'"
proof -
  obtain x where x: "clients s c = Some x" using data_okD(1) [OF server_okD(2) [OF assms(1)], of c] assms(2) by auto
  have sus: "suspended_client x" using data_okD(4) [OF server_okD(2) [OF assms(1)] assms(2) x] .
  let ?x1 = "if connection_timeout (conn x) = 0 then x\<lparr>conn := (conn x)\<lparr>last_activity := monotonic_sec (config s)\<rparr>\<rparr> else x"
  let ?y = "?x1\<lparr>conn := (conn ?x1)\<lparr>connection_timeout := tmo\<rparr>\<rparr>"
  have "set_connection_timeout s c tmo = Some (s\<lparr>clients := (clients s)(c \<mapsto> ?y)\<rparr>)"
    using x sus by (simp add: set_connection_timeout_def suspended_client_def modify_conn_def modify_client_def)
  moreover have "server_ok strict (s\<lparr>clients := (clients s)(c \<mapsto> ?y)\<rparr>) (as, ss, zs) X"
    by (rule change_ok [OF assms(1) x])
      (use sus server_okD(10) [OF assms] data_okD(5) [OF server_okD(2) [OF assms(1)]] in \<open>auto simp: suspended_client_def handle_ok_def\<close>)
  ultimately show ?thesis by blast
qed

lemma resume_mark_ok:
  assumes "server_ok strict s (as, ss, zs) X" "c \<in> set ss" "options (config s) AND MHD_TEST_ALLOW_SUSPEND_RESUME \<noteq> 0"
  shows "\<exists>s'. MHD_resume_connection s c = Some s' \<and> server_ok strict s' (as, ss, zs) X"
proof -
  obtain x where x: "clients s c = Some x" using data_okD(1) [OF server_okD(2) [OF assms(1)], of c] assms(2) by auto
  have sus: "suspended_client x" using data_okD(4) [OF server_okD(2) [OF assms(1)] assms(2) x] .
  let ?s = "s\<lparr>clients := (clients s)(c \<mapsto> x\<lparr>resuming := True\<rparr>)\<rparr>"
  have "server_ok strict ?s (as, ss, zs) X"
    by (rule change_ok [OF assms(1) x])
      (use sus server_okD(10) [OF assms(1,2)] in \<open>auto simp: suspended_client_def handle_ok_def\<close>)
  moreover have "ss \<noteq> []" using assms(2) by auto
  ultimately have "server_ok strict (?s\<lparr>any_resuming := True\<rparr>) (as, ss, zs) X"
    using data_resuming [of ?s "(as, ss, zs)" X True] ordered_cong [of "?s\<lparr>any_resuming := True\<rparr>" ?s X]
    by (auto simp: server_ok_def)
  moreover have "MHD_resume_connection s c = Some (?s\<lparr>any_resuming := True\<rparr>)"
    using x assms(3) by (simp add: MHD_resume_connection_def modify_client_eq)
  ultimately show ?thesis by blast
qed

lemma suspend_again_ok:
  assumes "server_ok strict s (as, ss, zs) X" "c \<in> set ss" "clients s c = Some x" "resuming x"
  shows "\<exists>s'. internal_suspend_connection s c = Some s' \<and> server_ok strict s' (as, ss, zs) X"
proof -
  have sus: "suspended_client x" using data_okD(4) [OF server_okD(2) [OF assms(1)] assms(2,3)] .
  have "server_ok strict (s\<lparr>clients := (clients s)(c \<mapsto> x\<lparr>resuming := False\<rparr>)\<rparr>) (as, ss, zs) X"
    by (rule change_ok [OF assms(1,3)])
      (use sus server_okD(10) [OF assms(1,2)] in \<open>auto simp: suspended_client_def handle_ok_def\<close>)
  then show ?thesis using assms(3,4) by (simp add: internal_suspend_connection_def modify_client_eq)
qed

lemma upgrade_ok:
  assumes "server_ok strict s (as, ss, zs) X" "c \<in> set as" "clients s c = Some x" "cstate (conn x) = MHD_CONNECTION_UPGRADE"
  shows "\<exists>ok s' L' X'. MHD_response_execute_upgrade urh_mem s c r = Some (ok, s') \<and> server_ok strict s' L' X'"
proof (cases "options (config s) AND MHD_ALLOW_UPGRADE = 0 \<or> MHD_get_response_header r (Some ''Upgrade'') = None \<or> \<not> urh_mem")
  case True
  then show ?thesis using assms(1) by (auto simp: MHD_response_execute_upgrade_def hand_over_def intro!: exI)
next
  case False
  have act: "active_client s X c x" using data_okD(3) [OF server_okD(2) [OF assms(1)] assms(2,3)] .
  let ?y = "x\<lparr>conn := (conn x)\<lparr>read_buffer := []\<rparr>, urh := Some \<lparr>was_closed = False, clean_ready = True\<rparr>\<rparr>"
  have "server_ok strict (s\<lparr>clients := (clients s)(c \<mapsto> ?y)\<rparr>) (as, ss, zs) X"
    by (rule change_ok [OF assms(1,3)])
      (use act assms(4) server_okD(9) [OF assms(1,2)] in \<open>auto simp: active_client_def handle_ok_def\<close>)
  then obtain s' X' where "internal_suspend_connection (s\<lparr>clients := (clients s)(c \<mapsto> ?y)\<rparr>) c = Some s'"
    "server_ok strict s' (remove1 c as, c # ss, zs) X'"
    using suspend_ok [OF _ assms(2)] by metis
  then show ?thesis using False assms(3) by (auto simp: MHD_response_execute_upgrade_def hand_over_def modify_conn_def modify_client_def)
qed

lemma upgrade_close_ok:
  assumes "server_ok strict s (as, ss, zs) X" "c \<in> set ss" "clients s c = Some x" "urh x \<noteq> None"
    "options (config s) AND MHD_TEST_ALLOW_SUSPEND_RESUME \<noteq> 0"
  shows "\<exists>ok s'. MHD_upgrade_action_close s c = Some (ok, s') \<and> server_ok strict s' (as, ss, zs) X"
proof -
  have sus: "suspended_client x" using data_okD(4) [OF server_okD(2) [OF assms(1)] assms(2,3)] .
  obtain u where u: "urh x = Some u" using assms(4) by auto
  show ?thesis
  proof (cases "was_closed u")
    case True
    then show ?thesis using assms(1,3) u by (auto simp: MHD_upgrade_action_close_def)
  next
    case False
    let ?s = "s\<lparr>clients := (clients s)(c \<mapsto> x\<lparr>urh := Some (u\<lparr>was_closed := True\<rparr>)\<rparr>)\<rparr>"
    have "server_ok strict ?s (as, ss, zs) X"
      by (rule change_ok [OF assms(1,3)])
        (use sus u server_okD(10) [OF assms(1,2)] in \<open>auto simp: suspended_client_def handle_ok_def\<close>)
    then obtain s' where "MHD_resume_connection ?s c = Some s'" "server_ok strict s' (as, ss, zs) X"
      using resume_mark_ok [of strict ?s as ss zs X c] assms(2,5) by auto
    moreover have "cstate (conn x) = MHD_CONNECTION_UPGRADE" using sus u by (auto simp: suspended_client_def handle_ok_def)
    ultimately show ?thesis using False assms(3) u by (auto simp: MHD_upgrade_action_close_def modify_client_def)
  qed
qed

section \<open>Resuming\<close>

lemma lists_tail:
  assumes "lists_ok s (as, ss, zs) X"
  shows "tail (active_list s) = last_or None as" "tail (suspended_list s) = last_or None ss" "tail (cleanup_list s) = last_or None zs"
    "head (suspended_list s) = first_or None ss" "tail (normal_timeout s) = last_or None (fst X)" "tail (manual_timeout s) = last_or None (snd X)"
proof -
  have f: "dll.family (links s) [(active_list s, as), (suspended_list s, ss), (cleanup_list s, zs)]"
    "dll.family (xlinks s) [(normal_timeout s, fst X), (manual_timeout s, snd X)]"
    using assms by (cases X, simp add: lists_ok_def)+
  show "tail (active_list s) = last_or None as" "tail (suspended_list s) = last_or None ss" "tail (cleanup_list s) = last_or None zs"
    "head (suspended_list s) = first_or None ss" "tail (normal_timeout s) = last_or None (fst X)" "tail (manual_timeout s) = last_or None (snd X)"
    using dll.family_rep [OF f(1), of 0] dll.family_rep [OF f(1), of 1] dll.family_rep [OF f(1), of 2]
      dll.family_rep [OF f(2), of 0] dll.family_rep [OF f(2), of 1] by (simp_all add: dll_rep_def)
qed

lemma suspended_prev:
  assumes "lists_ok s (as, ps @ c # rs, zs) X"
  shows "prevp (links s) c = last_or None ps"
proof -
  have "dll.family (links s) [(active_list s, as), (suspended_list s, ps @ c # rs), (cleanup_list s, zs)]"
    using assms by (cases X) (simp add: lists_ok_def)
  from dll.family_rep [OF this, of 1] show ?thesis by (simp add: dll_rep_def)
qed

lemma remove1_middle: "distinct (ps @ c # rs) \<Longrightarrow> remove1 c (ps @ c # rs) = ps @ rs"
  by (simp add: remove1_append)

text \<open>A suspended connection leaves its list; it goes to the active or to the closed ones.\<close>

lemma resume_active_ok:
  assumes "server_ok strict s (as, ss, zs) X" "c \<in> set ss" "clients s c = Some x" "\<not> any_resuming s" "urh x = None"
  shows "\<exists>s' X'. resume_client s c x = Some s' \<and> server_ok strict s' (c # as, remove1 c ss, zs) X' \<and> \<not> any_resuming s' \<and> config s' = config s
     \<and> (\<forall>d. d \<noteq> c \<longrightarrow> clients s' d = clients s d)"
proof -
  have sus: "suspended_client x" using data_okD(4) [OF server_okD(2) [OF assms(1)] assms(2,3)] .
  let ?t = "connection_timeout (conn x)"
  let ?y = "x\<lparr>conn := (conn x)\<lparr>suspended := False, last_activity := (if ?t \<noteq> 0 then monotonic_sec (config s) else last_activity (conn x))\<rparr>\<rparr>"
  obtain s1 where 1: "suspended_remove s c = Some s1" "relinked s s1" "lists_ok s1 (as, remove1 c ss, zs) X"
    by (rule suspended_remove_ok [OF server_okD(1) [OF assms(1)] assms(2)])
  let ?s1 = "s1\<lparr>clients := (clients s)(c \<mapsto> x\<lparr>conn := (conn x)\<lparr>suspended := False\<rparr>\<rparr>)\<rparr>"
  have m1: "modify_conn s1 c (suspended_update (\<lambda>_. False)) = ?s1"
    using assms(3) 1(2) by (simp add: modify_conn_def modify_client_def relinked_def)
  have "lists_ok ?s1 (as, remove1 c ss, zs) X" "c \<notin> set as \<union> set (remove1 c ss) \<union> set zs"
    using 1(3) server_okD(5,10) [OF assms(1)] assms(2) by auto
  then obtain s2 where 2: "active_insert ?s1 c = Some s2" "relinked ?s1 s2" "lists_ok s2 (c # as, remove1 c ss, zs) X"
    by (rule active_insert_ok)
  let ?s3 = "s2\<lparr>clients := (clients s)(c \<mapsto> ?y)\<rparr>"
  have m3: "(if ?t \<noteq> 0 then modify_conn s2 c (last_activity_update (\<lambda>_. monotonic_sec (config s2))) else s2) = ?s3"
    using 1(2) 2(2) assms(3) by (cases s2) (auto simp: modify_conn_def modify_client_def relinked_def)
  have cX: "c \<notin> set (fst X) \<union> set (snd X)" using data_okD(5) [OF server_okD(2) [OF assms(1)]] server_okD(10) [OF assms(1,2)] by auto
  have "lists_ok ?s3 (c # as, remove1 c ss, zs) X" using 2(3) by simp
  then obtain s4 where 4: "timeout_insert ?s3 c ?t = Some s4" "relinked ?s3 s4" "lists_ok s4 (c # as, remove1 c ss, zs) (with_timeout ?s3 c ?t X)"
    by (rule timeout_insert_ok [OF _ cX])
  let ?z = "?y\<lparr>resuming := False\<rparr>"
  let ?s5 = "s4\<lparr>clients := (clients s)(c \<mapsto> ?z)\<rparr>" and ?X = "with_timeout s c ?t X"
  have fields: "config s4 = config s" "default_timeout s4 = default_timeout s" "any_resuming s4 = any_resuming s" "connections s4 = connections s"
    "connection_limit s4 = connection_limit s" "ip_counts s4 = ip_counts s" "clients s4 = (clients s)(c \<mapsto> ?y)"
    using 1(2) 2(2) 4(2) by (simp_all add: relinked_def)
  have X: "with_timeout ?s3 c ?t X = ?X" using 1(2) 2(2) by (simp add: with_timeout_def relinked_def)
  have "modify_client s4 c (resuming_update (\<lambda>_. False)) = ?s5" using fields(7) by (simp add: modify_client_def)
  then have "resume_client s c x = Some ?s5"
    using sus assms(5) 1(1) m1 2(1) m3 4(1) by (simp add: resume_client_def suspended_client_def Let_def)
  moreover have "server_ok strict ?s5 (c # as, remove1 c ss, zs) ?X"
  proof (rule server_okI)
    have "data_ok (s\<lparr>clients := (clients s)(c \<mapsto> ?z)\<rparr>) (c # as, remove1 c ss, zs) ?X"
      by (rule data_move [OF server_okD(2) [OF assms(1)] assms(3)])
        (use sus assms(2,4) cX data_okD(5) [OF server_okD(2) [OF assms(1)]] server_okD(5) [OF assms(1)]
          in \<open>auto simp: with_timeout_def active_client_def suspended_client_def handle_ok_def set_remove1_eq\<close>)
    then show "data_ok ?s5 (c # as, remove1 c ss, zs) ?X" using fields by (subst data_cong) simp_all
    show "ordered ?s5 ?X" if strict
    proof -
      have o: "ordered ?s5 X"
        by (rule ordered_frame [OF server_okD(3) [OF assms(1) that]]) (use fields cX in \<open>auto simp: activity_def\<close>)
      then show ?thesis using fields
        by (cases "?t = default_timeout s") (auto simp: with_timeout_def ordered_def activity_def)
    qed
    show "lists_ok ?s5 (c # as, remove1 c ss, zs) ?X" using 4(3) X by simp
  qed
  ultimately show ?thesis using fields assms(4) by auto
qed

lemma resume_closed_ok:
  assumes "server_ok strict s (as, ss, zs) X" "c \<in> set ss" "clients s c = Some x" "\<not> any_resuming s" "urh x \<noteq> None"
  shows "\<exists>s'. resume_client s c x = Some s' \<and> server_ok strict s' (as, remove1 c ss, c # zs) X \<and> \<not> any_resuming s' \<and> config s' = config s
     \<and> (\<forall>d. d \<noteq> c \<longrightarrow> clients s' d = clients s d)"
proof -
  have sus: "suspended_client x" using data_okD(4) [OF server_okD(2) [OF assms(1)] assms(2,3)] .
  obtain u where u: "urh x = Some u" using assms(5) by auto
  let ?y = "x\<lparr>conn := (conn x)\<lparr>suspended := False\<rparr>\<rparr>"
  let ?y' = "if notify_completed (config s) \<noteq> None then ?y\<lparr>conn := notify_end (config s) (conn ?y) MHD_REQUEST_TERMINATED_COMPLETED_OK\<rparr> else ?y"
  obtain s1 where 1: "suspended_remove s c = Some s1" "relinked s s1" "lists_ok s1 (as, remove1 c ss, zs) X"
    by (rule suspended_remove_ok [OF server_okD(1) [OF assms(1)] assms(2)])
  let ?s2 = "s1\<lparr>clients := (clients s)(c \<mapsto> ?y')\<rparr>"
  have step: "resume_client s c x = cleanup_insert ?s2 c \<bind> (\<lambda>s. Some (modify_client s c (resuming_update (\<lambda>_. False))))"
    using sus u 1(1,2) assms(3) by (cases "notify_completed (config s)")
      (simp_all add: resume_client_def suspended_client_def modify_conn_def modify_client_def relinked_def)
  have "lists_ok ?s2 (as, remove1 c ss, zs) X" "c \<notin> set as \<union> set (remove1 c ss) \<union> set zs"
    using 1(3) server_okD(5,10) [OF assms(1)] assms(2) by auto
  then obtain s3 where 3: "cleanup_insert ?s2 c = Some s3" "relinked ?s2 s3" "lists_ok s3 (as, remove1 c ss, c # zs) X"
    by (rule cleanup_insert_ok)
  let ?z = "?y'\<lparr>resuming := False\<rparr>"
  let ?s5 = "s3\<lparr>clients := (clients s)(c \<mapsto> ?z)\<rparr>"
  have fields: "config s3 = config s" "default_timeout s3 = default_timeout s" "any_resuming s3 = any_resuming s" "connections s3 = connections s"
    "connection_limit s3 = connection_limit s" "ip_counts s3 = ip_counts s" "clients s3 = (clients s)(c \<mapsto> ?y')"
    using 1(2) 3(2) by (simp_all add: relinked_def)
  have "modify_client s3 c (resuming_update (\<lambda>_. False)) = ?s5" using fields(7) by (simp add: modify_client_def)
  then have "resume_client s c x = Some ?s5"
    using step 3(1) by simp
  moreover have "server_ok strict ?s5 (as, remove1 c ss, c # zs) X"
  proof (rule server_okI)
    have "data_ok (s\<lparr>clients := (clients s)(c \<mapsto> ?z)\<rparr>) (as, remove1 c ss, c # zs) X"
      by (rule data_move [OF server_okD(2) [OF assms(1)] assms(3)])
        (use assms(2,4) data_okD(5) [OF server_okD(2) [OF assms(1)]] server_okD(5,10) [OF assms(1)] in \<open>auto simp: set_remove1_eq\<close>)
    then show "data_ok ?s5 (as, remove1 c ss, c # zs) X" using fields by (subst data_cong) simp_all
    have "c \<notin> set (fst X)" using data_okD(5) [OF server_okD(2) [OF assms(1)]] server_okD(10) [OF assms(1,2)] by auto
    then show "ordered ?s5 X" if strict
      by (intro ordered_frame [OF server_okD(3) [OF assms(1) that]]) (use fields in \<open>auto simp: activity_def\<close>)
    show "lists_ok ?s5 (as, remove1 c ss, c # zs) X" using 3(3) by simp
  qed
  ultimately show ?thesis using fields assms(4) by auto
qed

declare split_paired_Ex [simp] split_paired_All [simp]

end
