(* ===== verification/Daemon_Run.thy ===== *)
theory Daemon_Run
  imports Daemon_Inv
begin

text \<open>
  Runs of a daemon: the loops over its connections, accepting and freeing them, and what holds in every state that the operations lead to.
\<close>

declare split_paired_Ex [simp del] split_paired_All [simp del]

section \<open>The loops\<close>

lemma resume_loop_ok:
  assumes "server_ok strict s (as, ps @ rs, zs) X" "\<not> any_resuming s"
  shows "\<exists>ret' s' as' zs' X'. resume_loop s (last_or None ps) ret = Some (ret', s')
     \<and> server_ok strict s' (as', filter (\<lambda>c. stays_suspended (the (clients s c))) ps @ rs, zs') X' \<and> \<not> any_resuming s' \<and> config s' = config s
     \<and> (\<forall>d. d \<notin> set ps \<or> stays_suspended (the (clients s d)) \<longrightarrow> clients s' d = clients s d)"
  using assms
proof (induction ps arbitrary: s as rs zs X ret rule: rev_induct)
  case Nil
  then have "resume_loop s (last_or None []) ret = Some (ret, s)" by (subst resume_loop.simps) simp
  then show ?case using Nil by auto
next
  case (snoc c ps)
  have ok: "server_ok strict s (as, ps @ c # rs, zs) X" using snoc.prems(1) by simp
  then have c: "c \<notin> set ps" using server_okD(5) [OF ok] by simp
  have prev: "prevp (links s) c = last_or None ps" by (rule suspended_prev [OF server_okD(1) [OF ok]])
  obtain x where x: "clients s c = Some x" using data_okD(1) [OF server_okD(2) [OF ok], of c] by auto
  have rem: "remove1 c (ps @ c # rs) = ps @ rs" by (rule remove1_middle [OF server_okD(5) [OF ok]])
  have loop: "resume_loop s (last_or None (ps @ [c])) ret =
    (if stays_suspended x then resume_loop s (last_or None ps) ret
     else resume_client s c x \<bind> (\<lambda>s. resume_loop s (last_or None ps) True))"
    using x prev by (subst resume_loop.simps) simp
  show ?case
  proof (cases "stays_suspended x")
    case True
    obtain r t as2 zs2 X2 where t: "resume_loop s (last_or None ps) ret = Some (r, t)" "\<not> any_resuming t" "config t = config s"
      "server_ok strict t (as2, filter (\<lambda>c. stays_suspended (the (clients s c))) ps @ c # rs, zs2) X2"
      "\<forall>d. d \<notin> set ps \<or> stays_suspended (the (clients s d)) \<longrightarrow> clients t d = clients s d"
      using snoc.IH [OF ok snoc.prems(2), of ret] by blast
    then have "server_ok strict t (as2, filter (\<lambda>c. stays_suspended (the (clients s c))) (ps @ [c]) @ rs, zs2) X2" using x True by simp
    then show ?thesis using t(1-3,5) True loop by (metis UnCI set_append)
  next
    case False
    obtain s' as' zs' X' where s': "resume_client s c x = Some s'" "server_ok strict s' (as', ps @ rs, zs') X'" "\<not> any_resuming s'"
      "config s' = config s" "\<forall>d. d \<noteq> c \<longrightarrow> clients s' d = clients s d"
    proof (cases "urh x")
      case None
      then show ?thesis using resume_active_ok [OF ok _ x snoc.prems(2)] rem that by (metis in_set_conv_decomp)
    next
      case (Some u)
      then show ?thesis using resume_closed_ok [OF ok _ x snoc.prems(2)] rem that by (metis in_set_conv_decomp option.distinct(1))
    qed
    have flt: "filter (\<lambda>c. stays_suspended (the (clients s' c))) ps = filter (\<lambda>c. stays_suspended (the (clients s c))) ps"
      using s'(5) c by (intro filter_cong) auto
    obtain r t as2 zs2 X2 where t: "resume_loop s' (last_or None ps) True = Some (r, t)" "\<not> any_resuming t" "config t = config s'"
      "server_ok strict t (as2, filter (\<lambda>c. stays_suspended (the (clients s' c))) ps @ rs, zs2) X2"
      "\<forall>d. d \<notin> set ps \<or> stays_suspended (the (clients s' d)) \<longrightarrow> clients t d = clients s' d"
      using snoc.IH [OF s'(2,3), of True] by blast
    have "clients t d = clients s d" if "d \<notin> set (ps @ [c]) \<or> stays_suspended (the (clients s d))" for d
    proof -
      have "d \<noteq> c" using that False x by auto
      then show ?thesis using that t(5) s'(5) by auto
    qed
    moreover have "server_ok strict t (as2, filter (\<lambda>c. stays_suspended (the (clients s c))) (ps @ [c]) @ rs, zs2) X2" using x False flt t(4) by simp
    moreover have "resume_loop s (last_or None (ps @ [c])) ret = Some (r, t)" using loop False s'(1) t(1) by simp
    ultimately show ?thesis using t(2,3) s'(4) by metis
  qed
qed

lemma resuming_off:
  assumes "server_ok strict s L X"
  shows "server_ok strict (s\<lparr>any_resuming := False\<rparr>) L X"
  using assms data_resuming [of s L X False] ordered_cong [of "s\<lparr>any_resuming := False\<rparr>" s X] by (auto simp: server_ok_def)

lemma resume_all_ok:
  assumes "server_ok strict s (as, ss, zs) X"
  shows "\<exists>ret s' L' X'. resume_suspended_connections s = Some (ret, s') \<and> server_ok strict s' L' X' \<and> config s' = config s"
proof (cases "any_resuming s")
  case True
  then have "ss \<noteq> []" using server_okD(2) [OF assms] by (auto simp: data_ok_def)
  moreover have "tail (suspended_list s) = last_or None ss" using lists_tail(2) [OF server_okD(1) [OF assms]] .
  moreover have "server_ok strict (s\<lparr>any_resuming := False\<rparr>) (as, ss @ [], zs) X" using resuming_off [OF assms] by simp
  ultimately show ?thesis using True resume_loop_ok [of strict "s\<lparr>any_resuming := False\<rparr>" as ss "[]" zs X False]
    by (auto simp: resume_suspended_connections_def)
next
  case False
  then have "resume_suspended_connections s = Some (False, s\<lparr>any_resuming := False\<rparr>)"
    by (auto simp: resume_suspended_connections_def resume_loop.simps)
  then show ?thesis using resuming_off [OF assms] by auto
qed

section \<open>Freeing\<close>

lemma addresses_remove:
  assumes "clients s c = Some x" "c \<in> set zs"
  shows "addresses s (as @ ss @ zs) = add_mset (sockaddr x) (addresses s (as @ ss @ remove1 c zs))"
proof -
  have eq: "mset (as @ ss @ zs) = add_mset c (mset (as @ ss @ remove1 c zs))" using assms(2) by simp
  show ?thesis unfolding addresses_def eq using assms(1) by simp
qed

lemma addresses_other:
  assumes "c \<notin> set cs"
  shows "addresses (s\<lparr>clients := (clients s)(c := v)\<rparr>) cs = addresses s cs"
  unfolding addresses_def by (rule image_mset_cong) (use assms in auto)

lemma ip_release_ok:
  assumes "run_inv lim (ip_counts s) M" "sa \<in># M"
  shows "\<exists>ip. ip_release s sa = Some (s\<lparr>ip_counts := ip\<rparr>) \<and> run_inv lim ip (M - {#sa#})"
  using run_inv_del [OF assms] by (auto simp: ip_release_def)

lemma run_inv_limit: "run_inv lim d M \<Longrightarrow> per_ip_connection_limit d = lim"
  by (simp add: run_inv_def)

lemma free_ok:
  assumes "server_ok strict s (as, ss, zs) X" "c \<in> set zs"
  shows "\<exists>s'. free_connection s c = Some s' \<and> server_ok strict s' (as, ss, remove1 c zs) X \<and> config s' = config s"
proof -
  obtain x where x: "clients s c = Some x" using data_okD(1) [OF server_okD(2) [OF assms(1)], of c] assms(2) by auto
  obtain s1 where 1: "cleanup_remove s c = Some s1" "relinked s s1" "lists_ok s1 (as, ss, remove1 c zs) X"
    by (rule cleanup_remove_ok [OF server_okD(1) [OF assms(1)] assms(2)])
  let ?M = "addresses s (as @ ss @ remove1 c zs)" and ?lim = "per_ip_connection_limit (ip_counts s)"
  have inv: "run_inv ?lim (ip_counts s) (add_mset (sockaddr x) ?M)"
    using server_okD(2) [OF assms(1)] addresses_remove [OF x assms(2)] by (simp add: data_ok_def)
  let ?n = "notify_connection s1 c MHD_CONNECTION_NOTIFY_CLOSED"
  have "ip_counts ?n = ip_counts s" using 1(2) by (simp add: notify_connection_def relinked_def)
  then obtain ip where ip: "ip_release ?n (sockaddr x) = Some (?n\<lparr>ip_counts := ip\<rparr>)" "run_inv ?lim ip ?M"
    using ip_release_ok [of ?lim ?n "add_mset (sockaddr x) ?M" "sockaddr x"] inv by auto
  obtain s' where s': "free_connection s c = Some s'" "lists_ok s' (as, ss, remove1 c zs) X" "clients s' = (clients s)(c := None)"
    "connections s' = connections s - 1" "connection_limit s' = connection_limit s" "default_timeout s' = default_timeout s"
    "any_resuming s' = any_resuming s" "ip_counts s' = ip" "config s' = config s"
    using 1 x ip(1) by (simp add: free_connection_def notify_connection_def relinked_def MHD_socket_close_def Let_def)
  have zs: "set (remove1 c zs) = set zs - {c}" "length (remove1 c zs) = length zs - 1" "0 < length zs"
    using server_okD(6) [OF assms(1)] assms(2) by (auto simp: set_remove1_eq length_remove1)
  have out: "c \<notin> set as" "c \<notin> set ss" using server_okD(11) [OF assms] by auto
  have cn: "unat (connections s) = length as + length ss + length zs" "connections s \<le> connection_limit s"
    using server_okD(2) [OF assms(1)] by (auto simp: data_ok_def)
  then have n1: "unat (connections s - 1) = length as + length ss + length (remove1 c zs)"
    using zs(2,3) by (cases zs) (auto simp: unat_sub word_le_nat_alt)
  have n2: "connections s - 1 \<le> connection_limit s" using cn n1 zs(2) by (simp add: word_le_nat_alt)
  have "addresses s' (as @ ss @ remove1 c zs) = ?M"
    using addresses_other [of c "as @ ss @ remove1 c zs" s None] out zs(1) s'(3) by (simp add: addresses_def)
  then have "data_ok s' (as, ss, remove1 c zs) X"
    using server_okD(2) [OF assms(1)] s' n1 n2 zs(1) out ip(2) run_inv_limit [OF ip(2)]
    by (auto simp: data_ok_def active_client_def)
  moreover have "ordered s' X" if strict
  proof -
    have "c \<notin> set (fst X)" using data_okD(5) [OF server_okD(2) [OF assms(1)]] out by auto
    then show ?thesis
      by (intro ordered_frame [OF server_okD(3) [OF assms(1) that]]) (use s' in \<open>auto simp: activity_def\<close>)
  qed
  ultimately show ?thesis using s'(1,2,9) by (auto simp: server_ok_def)
qed

lemma cleanup_all_ok:
  assumes "server_ok strict s (as, ss, zs) X"
  shows "\<exists>s'. MHD_cleanup_connections s = Some s' \<and> server_ok strict s' (as, ss, []) X \<and> config s' = config s"
  using assms
proof (induction zs arbitrary: s rule: rev_induct)
  case Nil
  then show ?case using lists_tail(3) [OF server_okD(1) [OF Nil]] by (subst MHD_cleanup_connections.simps) simp
next
  case (snoc c zs)
  have "tail (cleanup_list s) = Some c" using lists_tail(3) [OF server_okD(1) [OF snoc.prems]] by simp
  moreover obtain s1 where s1: "free_connection s c = Some s1" "server_ok strict s1 (as, ss, zs) X" "config s1 = config s"
    using free_ok [OF snoc.prems, of c] server_okD(6) [OF snoc.prems] by (auto simp: remove1_append)
  ultimately show ?case using snoc.IH [OF s1(2)] by (subst MHD_cleanup_connections.simps) auto
qed

section \<open>Accepting\<close>

lemma data_add:
  assumes "data_ok s (as, ss, zs) X" "c \<notin> set as \<union> set ss \<union> set zs" "unat n = Suc (unat (connections s))" "n \<le> connection_limit s"
    "run_inv (per_ip_connection_limit ip) ip (add_mset (sockaddr x) (addresses s (as @ ss @ zs)))"
    "\<not> suspended (conn x) \<and> \<not> resuming x \<and> \<not> in_cleanup x \<and> urh x = None" "connection_timeout (conn x) = default_timeout s"
  shows "data_ok (s\<lparr>ip_counts := ip, clients := (clients s)(c \<mapsto> x), connections := n\<rparr>) (c # as, ss, zs) (c # fst X, snd X)"
    (is "data_ok ?s _ ?X")
proof -
  have "addresses ?s (as @ ss @ zs) = addresses s (as @ ss @ zs)"
    using addresses_other [of c "as @ ss @ zs" s "Some x"] assms(2) by (simp add: addresses_def)
  then have "addresses ?s ((c # as) @ ss @ zs) = add_mset (sockaddr x) (addresses s (as @ ss @ zs))" by (simp add: addresses_def)
  moreover have "active_client ?s ?X d z" if "d \<in> set (c # as)" "clients ?s d = Some z" for d z
    using that assms(6,7) data_okD(3) [OF assms(1), of d z]
    by (cases "d = c") (auto simp: active_client_def handle_ok_def split: if_splits)
  moreover have "suspended_client z" if "d \<in> set ss" "clients ?s d = Some z" for d z
    using that assms(2) data_okD(4) [OF assms(1), of d z] by (cases "d = c") auto
  moreover have "clients ?s d \<noteq> None \<longleftrightarrow> d \<in> set (c # as) \<union> set ss \<union> set zs" for d
    using assms(1) by (auto simp: data_ok_def)
  ultimately show ?thesis using assms(1,3-5) by (simp add: data_ok_def)
qed

lemma add_client_ok:
  assumes "server_ok strict s (as, ss, zs) X" "clients s c = None" "options (config s) AND MHD_USE_TLS = 0" "connections s \<noteq> connection_limit s"
    "run_inv (per_ip_connection_limit (ip_counts s)) ip (add_mset (sockaddr x) (addresses s (as @ ss @ zs)))"
    "\<not> suspended (conn x) \<and> \<not> resuming x \<and> \<not> in_cleanup x \<and> urh x = None"
    "connection_timeout (conn x) = default_timeout s" "last_activity (conn x) = monotonic_sec (config s)"
  shows "\<exists>s'. add_client (s\<lparr>ip_counts := ip\<rparr>) c x = Some (True, s') \<and> server_ok strict s' (c # as, ss, zs) (c # fst X, snd X)
     \<and> config s' = config s"
proof -
  let ?s1 = "s\<lparr>ip_counts := ip, clients := (clients s)(c \<mapsto> x), connections := connections s + 1\<rparr>"
  have out: "c \<notin> set as \<union> set ss \<union> set zs" using data_okD(1) [OF server_okD(2) [OF assms(1)], of c] assms(2) by auto
  then have cX: "c \<notin> set (fst X) \<union> set (snd X)" using data_okD(5) [OF server_okD(2) [OF assms(1)]] by auto
  have cn: "unat (connections s) = length as + length ss + length zs" "connections s < connection_limit s"
    using server_okD(2) [OF assms(1)] assms(4) by (auto simp: data_ok_def)
  have "Suc (unat (connections s)) < 2 ^ 32"
    using cn(2) unsigned_less [of "connection_limit s", where ?'a = nat] by (simp add: word_less_nat_alt)
  then have n1: "unat (connections s + 1) = Suc (unat (connections s))" "connections s + 1 \<le> connection_limit s"
    using cn(2) by (simp_all add: unat_word_ariths(1) word_less_nat_alt word_le_nat_alt)
  have "lists_ok ?s1 (as, ss, zs) X" using server_okD(1) [OF assms(1)] by simp
  then obtain s2 where 2: "timeout_insert ?s1 c (default_timeout s) = Some s2" "relinked ?s1 s2"
    "lists_ok s2 (as, ss, zs) (with_timeout ?s1 c (default_timeout s) X)"
    by (rule timeout_insert_ok [OF _ cX])
  then have "lists_ok s2 (as, ss, zs) (c # fst X, snd X)" by (simp add: with_timeout_def)
  then obtain s3 where 3: "active_insert s2 c = Some s3" "relinked s2 s3" "lists_ok s3 (c # as, ss, zs) (c # fst X, snd X)"
    by (rule active_insert_ok [OF _ out])
  have r: "relinked ?s1 s3" by (rule relinked_trans [OF 2(2) 3(2)])
  let ?s' = "notify_connection s3 c MHD_CONNECTION_NOTIFY_STARTED"
  have "add_client (s\<lparr>ip_counts := ip\<rparr>) c x = Some (True, ?s')"
    using assms(3) cn(2) not_le [of "connection_limit s" "connections s"] 2(1) 3(1) by (simp add: add_client_def Let_def)
  moreover have "server_ok strict ?s' (c # as, ss, zs) (c # fst X, snd X)"
  proof (rule server_okI)
    have "data_ok ?s1 (c # as, ss, zs) (c # fst X, snd X)"
      by (rule data_add [OF server_okD(2) [OF assms(1)] out n1 _ assms(6,7)]) (use assms(5) run_inv_limit [OF assms(5)] in simp)
    then show "data_ok ?s' (c # as, ss, zs) (c # fst X, snd X)"
      using r by (subst data_cong [of ?s' ?s1]) (simp_all add: relinked_def notify_connection_def)
    show "ordered ?s' (c # fst X, snd X)" if strict
    proof -
      have "ordered ?s' X"
        by (rule ordered_frame [OF server_okD(3) [OF assms(1) that]])
          (use r cX in \<open>auto simp: activity_def relinked_def notify_connection_def\<close>)
      then show ?thesis using r assms(8) by (auto simp: ordered_def activity_def relinked_def notify_connection_def)
    qed
    show "lists_ok ?s' (c # as, ss, zs) (c # fst X, snd X)" using 3(3) by (simp add: notify_connection_def)
  qed
  ultimately show ?thesis using r by (auto simp: relinked_def notify_connection_def)
qed

lemma server_ok_irrelevant [simp]:
  "server_ok strict (s\<lparr>closed_sockets := v\<rparr>) L X = server_ok strict s L X"
  "server_ok strict (s\<lparr>at_limit := w\<rparr>) L X = server_ok strict s L X"
  using data_cong [of "s\<lparr>closed_sockets := v\<rparr>" s] ordered_cong [of "s\<lparr>closed_sockets := v\<rparr>" s]
    data_cong [of "s\<lparr>at_limit := w\<rparr>" s] ordered_cong [of "s\<lparr>at_limit := w\<rparr>" s]
  by (simp_all add: server_ok_def)

lemma server_ok_ip:
  assumes "server_ok strict s (as, ss, zs) X" "run_inv (per_ip_connection_limit (ip_counts s)) ip (addresses s (as @ ss @ zs))"
  shows "server_ok strict (s\<lparr>ip_counts := ip\<rparr>) (as, ss, zs) X"
  using assms ordered_cong [of "s\<lparr>ip_counts := ip\<rparr>" s X] run_inv_limit [OF assms(2)]
  by (auto simp: server_ok_def data_ok_def active_client_def addresses_def)

definition result_ok :: "bool \<Rightarrow> 'a server \<Rightarrow> (bool \<times> 'a server) option \<Rightarrow> bool" where
  "result_ok strict s r \<longleftrightarrow> (\<exists>ok s' L' X'. r = Some (ok, s') \<and> server_ok strict s' L' X' \<and> config s' = config s)"

lemma result_okI: "r = Some (ok, s') \<Longrightarrow> server_ok strict s' L X \<Longrightarrow> config s' = config s \<Longrightarrow> result_ok strict s r"
  unfolding result_ok_def by blast

lemma add_connection_ok:
  assumes "server_ok strict s (as, ss, zs) X" "\<And>c. am_connection mem = Some c \<Longrightarrow> clients s c = None" "options (config s) AND MHD_USE_TLS = 0"
  shows "result_ok strict s (internal_add_connection mem s sock sa nonblocking)"
proof -
  let ?lim = "per_ip_connection_limit (ip_counts s)" and ?M = "addresses s (as @ ss @ zs)"
  obtain ok ip where ip: "ip_limit_add (am_key mem) (am_node mem) (ip_counts s) sa (length sa) = (ok, ip)" by fastforce
  have "run_inv ?lim (ip_counts s) ?M" using server_okD(2) [OF assms(1)] by (simp add: data_ok_def)
  then have inv: "run_inv ?lim ip (if ok then add_mset sa ?M else ?M)" using run_inv_add ip by blast
  let ?s1 = "s\<lparr>ip_counts := ip\<rparr>"
  have refuse: "result_ok strict s (map_option (Pair False) (ip_release (MHD_socket_close ?s1 sock) sa))" if ok
  proof -
    have inv: "run_inv ?lim ip (add_mset sa ?M)" using inv that by simp
    obtain ip' where ip': "ip_release (MHD_socket_close ?s1 sock) sa = Some (MHD_socket_close ?s1 sock\<lparr>ip_counts := ip'\<rparr>)" "run_inv ?lim ip' ?M"
      using ip_release_ok [of ?lim "MHD_socket_close ?s1 sock" "add_mset sa ?M" sa] inv by (auto simp: MHD_socket_close_def)
    have "server_ok strict (s\<lparr>ip_counts := ip'\<rparr>) (as, ss, zs) X" by (rule server_ok_ip [OF assms(1) ip'(2)])
    then have ok': "server_ok strict (s\<lparr>ip_counts := ip', closed_sockets := closed_sockets s @ [sock]\<rparr>) (as, ss, zs) X" by simp
    show ?thesis by (rule result_okI [where ok = False, OF _ ok']) (use ip'(1) in \<open>simp_all add: MHD_socket_close_def\<close>)
  qed
  have full: "result_ok strict s (add_client ?s1 c x)"
    if "am_connection mem = Some c" "connections s \<noteq> connection_limit s" ok
      "x = \<lparr>conn = (zero_connection p)\<lparr>connection_timeout := default_timeout s, last_activity := monotonic_sec (config s)\<rparr>,
        sockaddr = sa, socket_fd = sock, sk_nonblck = nonblocking, resuming = False, in_cleanup = False, urh = None\<rparr>" for c x p
  proof -
    have "run_inv ?lim ip (add_mset (sockaddr x) ?M)" using inv that by simp
    then show ?thesis using add_client_ok [OF assms(1) assms(2) [OF that(1)] assms(3) that(2), of ip x] that(4)
      by (auto simp: zero_connection_def result_ok_def)
  qed
  have "server_ok strict (MHD_socket_close s sock) (as, ss, zs) X" using assms(1) by (simp add: MHD_socket_close_def)
  then have closed: "result_ok strict s (Some (False, MHD_socket_close s sock))" 
    by (rule result_okI [OF refl]) (simp add: MHD_socket_close_def)
  have "server_ok strict (MHD_socket_close ?s1 sock) (as, ss, zs) X" if "\<not> ok"
    using server_ok_ip [OF assms(1)] inv that by (simp add: MHD_socket_close_def)
  then have limited: "result_ok strict s (Some (False, MHD_socket_close ?s1 sock))" if "\<not> ok"
    by (rule result_okI [OF refl]) (use that in \<open>simp_all add: MHD_socket_close_def\<close>)
  show ?thesis
    using ip refuse full closed limited
    by (cases ok) (simp_all add: internal_add_connection_def Let_def split: option.split prod.split)
qed

section \<open>Runs\<close>

text \<open>A connection is active when it is in the first list.\<close>

definition is_active :: "'a server \<Rightarrow> cid \<Rightarrow> bool" where
  "is_active s c \<longleftrightarrow> (\<exists>as. dll_rep (links s) (active_list s) as \<and> c \<in> set as)"

definition is_suspended :: "'a server \<Rightarrow> cid \<Rightarrow> bool" where
  "is_suspended s c \<longleftrightarrow> (\<exists>ss. dll_rep (links s) (suspended_list s) ss \<and> c \<in> set ss)"

text \<open>
  The operations and who calls them when: the event loop and the handlers work on active connections, the application may
  suspend an active connection, resume a suspended one and change timeouts. What the handlers do to the rest of a connection is arbitrary.
  A strict run does not set the timeout of an active connection to the one of the daemon.
\<close>

inductive server_run :: "bool \<Rightarrow> 'a server \<Rightarrow> bool" for strict where
  start: "\<lbrakk>clients s = (\<lambda>c. None); links s = \<lparr>nextp = \<lambda>c. None, prevp = \<lambda>c. None\<rparr>; xlinks s = \<lparr>nextp = \<lambda>c. None, prevp = \<lambda>c. None\<rparr>;
     active_list s = \<lparr>head = None, tail = None\<rparr>; suspended_list s = \<lparr>head = None, tail = None\<rparr>; cleanup_list s = \<lparr>head = None, tail = None\<rparr>;
     normal_timeout s = \<lparr>head = None, tail = None\<rparr>; manual_timeout s = \<lparr>head = None, tail = None\<rparr>; connections s = 0; \<not> any_resuming s;
     per_ip_connection_count (ip_counts s) = Null; options (config s) AND MHD_USE_TLS = 0;
     options (config s) AND MHD_TEST_ALLOW_SUSPEND_RESUME \<noteq> 0\<rbrakk> \<Longrightarrow> server_run strict s"
| add: "\<lbrakk>server_run strict s; \<And>c. am_connection mem = Some c \<Longrightarrow> clients s c = None;
     internal_add_connection mem s sock sa nonblocking = Some (ok, s')\<rbrakk> \<Longrightarrow> server_run strict s'"
| activity: "\<lbrakk>server_run strict s; is_active s c; update_last_activity s c = Some s'\<rbrakk> \<Longrightarrow> server_run strict s'"
| handled: "\<lbrakk>server_run strict s; is_active s c; clients s c = Some x; urh x = None; suspended d = suspended (conn x);
     connection_timeout d = connection_timeout (conn x); last_activity d = last_activity (conn x)\<rbrakk>
     \<Longrightarrow> server_run strict (modify_conn s c (\<lambda>_. d))"
| timeout: "\<lbrakk>server_run strict s; is_active s c \<or> is_suspended s c; strict \<Longrightarrow> is_active s c \<Longrightarrow> tmo \<noteq> default_timeout s;
     set_connection_timeout s c tmo = Some s'\<rbrakk> \<Longrightarrow> server_run strict s'"
| suspend: "\<lbrakk>server_run strict s; is_active s c; MHD_suspend_connection s c = Some s'\<rbrakk> \<Longrightarrow> server_run strict s'"
| resume: "\<lbrakk>server_run strict s; is_suspended s c; MHD_resume_connection s c = Some s'\<rbrakk> \<Longrightarrow> server_run strict s'"
| resumed: "\<lbrakk>server_run strict s; resume_suspended_connections s = Some (ret, s')\<rbrakk> \<Longrightarrow> server_run strict s'"
| upgrade: "\<lbrakk>server_run strict s; is_active s c; clients s c = Some x; cstate (conn x) = MHD_CONNECTION_UPGRADE;
     MHD_response_execute_upgrade urh_mem s c r = Some (ok, s')\<rbrakk> \<Longrightarrow> server_run strict s'"
| upgrade_close: "\<lbrakk>server_run strict s; is_suspended s c; MHD_upgrade_action_close s c = Some (ok, s')\<rbrakk> \<Longrightarrow> server_run strict s'"
| cleanup: "\<lbrakk>server_run strict s; is_active s c; cleanup_connection s c = Some s'\<rbrakk> \<Longrightarrow> server_run strict s'"
| freed: "\<lbrakk>server_run strict s; MHD_cleanup_connections s = Some s'\<rbrakk> \<Longrightarrow> server_run strict s'"
| time: "\<lbrakk>server_run strict s; monotonic_sec (config s) \<le> t\<rbrakk> \<Longrightarrow> server_run strict (s\<lparr>config := (config s)\<lparr>monotonic_sec := t\<rparr>\<rparr>)"

definition run_ok :: "bool \<Rightarrow> 'a server \<Rightarrow> bool" where
  "run_ok strict s \<longleftrightarrow> (\<exists>L X. server_ok strict s L X) \<and> options (config s) AND MHD_USE_TLS = 0
     \<and> options (config s) AND MHD_TEST_ALLOW_SUSPEND_RESUME \<noteq> 0"

lemma run_okI:
  "server_ok strict s' L X \<Longrightarrow> config s' = config s \<Longrightarrow> run_ok strict s \<Longrightarrow> run_ok strict s'"
  by (auto simp: run_ok_def)

text \<open>The pointers determine the lists.\<close>

lemma linked_unique:
  "linked s p xs None \<Longrightarrow> linked s p ys None \<Longrightarrow> first_or None xs = first_or None ys \<Longrightarrow> xs = ys"
proof (induction xs arbitrary: p ys)
  case (Cons x xs)
  then obtain zs where ys: "ys = x # zs" by (cases ys) auto
  then show ?case using Cons.IH [of "Some x" zs] Cons.prems by simp
qed (metis end_None(1))

lemma rep_unique: "dll_rep s l xs \<Longrightarrow> dll_rep s l ys \<Longrightarrow> xs = ys"
  unfolding dll_rep_def using linked_unique [of s None xs ys] by simp

lemma is_active_iff:
  assumes "server_ok strict s (as, ss, zs) X"
  shows "is_active s c \<longleftrightarrow> c \<in> set as" "is_suspended s c \<longleftrightarrow> c \<in> set ss"
proof -
  have f: "dll.family (links s) [(active_list s, as), (suspended_list s, ss), (cleanup_list s, zs)]"
    using server_okD(1) [OF assms] by (cases X) (simp add: lists_ok_def)
  have "dll_rep (links s) (active_list s) as" "dll_rep (links s) (suspended_list s) ss"
    using dll.family_rep [OF f, of 0] dll.family_rep [OF f, of 1] by simp_all
  then show "is_active s c \<longleftrightarrow> c \<in> set as" "is_suspended s c \<longleftrightarrow> c \<in> set ss"
    using rep_unique by (auto simp: is_active_def is_suspended_def)
qed

text \<open>The configuration stays.\<close>

lemma list_op_config:
  "active_insert s c = Some s' \<Longrightarrow> config s' = config s" "active_remove s c = Some s' \<Longrightarrow> config s' = config s"
  "suspended_insert s c = Some s' \<Longrightarrow> config s' = config s" "suspended_remove s c = Some s' \<Longrightarrow> config s' = config s"
  "cleanup_insert s c = Some s' \<Longrightarrow> config s' = config s" "cleanup_remove s c = Some s' \<Longrightarrow> config s' = config s"
  "timeout_insert s c tmo = Some s' \<Longrightarrow> config s' = config s" "timeout_remove s c tmo = Some s' \<Longrightarrow> config s' = config s"
  by (auto simp: active_insert_def active_remove_def suspended_insert_def suspended_remove_def cleanup_insert_def cleanup_remove_def
      timeout_insert_def timeout_remove_def split: if_splits)

lemma modify_config [simp]: "config (modify_client s c f) = config s" "config (modify_conn s c g) = config s"
  by (simp_all add: modify_client_def modify_conn_def)

lemma op_config:
  "update_last_activity s c = Some s' \<Longrightarrow> config s' = config s"
  "set_connection_timeout s c tmo = Some s' \<Longrightarrow> config s' = config s"
  "internal_suspend_connection s c = Some s' \<Longrightarrow> config s' = config s"
  "MHD_resume_connection s c = Some s' \<Longrightarrow> config s' = config s"
  "cleanup_connection s c = Some s' \<Longrightarrow> config s' = config s"
  by (auto simp: update_last_activity_def set_connection_timeout_def internal_suspend_connection_def MHD_resume_connection_def
      cleanup_connection_def bind_eq_Some_conv Let_def dest!: list_op_config split: if_splits)

lemma upgrade_config:
  "MHD_suspend_connection s c = Some s' \<Longrightarrow> config s' = config s"
  "MHD_response_execute_upgrade m s c r = Some (ok, s') \<Longrightarrow> config s' = config s"
  "MHD_upgrade_action_close s c = Some (ok, s') \<Longrightarrow> config s' = config s"
  by (auto simp: MHD_suspend_connection_def MHD_response_execute_upgrade_def hand_over_def MHD_upgrade_action_close_def bind_eq_Some_conv Let_def
      dest!: op_config split: if_splits)

text \<open>What each operation does to a daemon in which the invariant holds.\<close>

definition client_ops_ok :: "bool \<Rightarrow> 'a server \<Rightarrow> cid \<Rightarrow> bool" where
  "client_ops_ok strict s c \<longleftrightarrow>
     (is_active s c \<longrightarrow> (\<exists>s'. update_last_activity s c = Some s' \<and> run_ok strict s')
        \<and> (\<exists>s'. MHD_suspend_connection s c = Some s' \<and> run_ok strict s')
        \<and> (\<exists>s'. cleanup_connection s c = Some s' \<and> run_ok strict s'))
     \<and> (is_suspended s c \<longrightarrow> (\<exists>s'. MHD_resume_connection s c = Some s' \<and> run_ok strict s'))"

lemma client_ops:
  assumes "run_ok strict s"
  shows "client_ops_ok strict s c"
proof -
  obtain as ss zs X where ok: "server_ok strict s (as, ss, zs) X" using assms unfolding run_ok_def by (metis prod_cases3)
  have a: "\<exists>s'. update_last_activity s c = Some s' \<and> run_ok strict s'" if "c \<in> set as"
    using activity_ok [OF ok that] run_okI [OF _ _ assms] op_config(1) by metis
  have b: "\<exists>s'. MHD_suspend_connection s c = Some s' \<and> run_ok strict s'" if act: "c \<in> set as"
  proof -
    obtain x where x: "clients s c = Some x" using data_okD(1) [OF server_okD(2) [OF ok], of c] act by auto
    obtain s' X' where s': "internal_suspend_connection s c = Some s'" "server_ok strict s' (remove1 c as, c # ss, zs) X'"
      using suspend_ok [OF ok act] by blast
    then have "run_ok strict s'" using run_okI [OF s'(2) op_config(3) [OF s'(1)] assms] by simp
    then show ?thesis using assms x s'(1) by (auto simp: MHD_suspend_connection_def run_ok_def)
  qed
  have c: "\<exists>s'. cleanup_connection s c = Some s' \<and> run_ok strict s'" if "c \<in> set as"
    using cleanup_ok [OF ok that] run_okI [OF _ _ assms] op_config(5) by metis
  have d: "\<exists>s'. MHD_resume_connection s c = Some s' \<and> run_ok strict s'" if "c \<in> set ss"
    using resume_mark_ok [OF ok that] run_okI [OF _ _ assms] op_config(4) assms unfolding run_ok_def by metis
  show ?thesis using a b c d is_active_iff [OF ok, of c] by (simp add: client_ops_ok_def)
qed

lemma server_ops:
  assumes "run_ok strict s"
  shows "\<exists>ret s'. resume_suspended_connections s = Some (ret, s') \<and> run_ok strict s'"
    "\<exists>s'. MHD_cleanup_connections s = Some s' \<and> run_ok strict s'"
    "(\<And>c. am_connection mem = Some c \<Longrightarrow> clients s c = None) \<Longrightarrow>
       \<exists>ok s'. internal_add_connection mem s sock sa nonblocking = Some (ok, s') \<and> run_ok strict s'"
proof -
  obtain as ss zs X where ok: "server_ok strict s (as, ss, zs) X" using assms unfolding run_ok_def by (metis prod_cases3)
  show "\<exists>ret s'. resume_suspended_connections s = Some (ret, s') \<and> run_ok strict s'"
    using resume_all_ok [OF ok] run_okI [OF _ _ assms] by metis
  show "\<exists>s'. MHD_cleanup_connections s = Some s' \<and> run_ok strict s'"
    using cleanup_all_ok [OF ok] run_okI [OF _ _ assms] by metis
  show "\<exists>ok s'. internal_add_connection mem s sock sa nonblocking = Some (ok, s') \<and> run_ok strict s'"
    if "\<And>c. am_connection mem = Some c \<Longrightarrow> clients s c = None"
  proof -
    have "result_ok strict s (internal_add_connection mem s sock sa nonblocking)"
      by (rule add_connection_ok [OF ok that]) (use assms in \<open>simp_all add: run_ok_def\<close>)
    then show ?thesis using run_okI [OF _ _ assms] unfolding result_ok_def by metis
  qed
qed

lemma family_empty: "dll.family \<lparr>nextp = \<lambda>c. None, prevp = \<lambda>c. None\<rparr> (replicate n (\<lparr>head = None, tail = None\<rparr>, []))"
  by (simp add: dll.family_def dll_rep_def unlinked_def)

lemma start_ok:
  assumes "clients s = (\<lambda>c. None)" "links s = \<lparr>nextp = \<lambda>c. None, prevp = \<lambda>c. None\<rparr>" "xlinks s = \<lparr>nextp = \<lambda>c. None, prevp = \<lambda>c. None\<rparr>"
    "active_list s = \<lparr>head = None, tail = None\<rparr>" "suspended_list s = \<lparr>head = None, tail = None\<rparr>" "cleanup_list s = \<lparr>head = None, tail = None\<rparr>"
    "normal_timeout s = \<lparr>head = None, tail = None\<rparr>" "manual_timeout s = \<lparr>head = None, tail = None\<rparr>" "connections s = 0" "\<not> any_resuming s"
    "per_ip_connection_count (ip_counts s) = Null"
  shows "server_ok strict s ([], [], []) ([], [])"
proof (rule server_okI)
  show "lists_ok s ([], [], []) ([], [])"
    using assms family_empty [of 3] family_empty [of 2] by (simp add: lists_ok_def numeral_3_eq_3 numeral_2_eq_2)
  have "run_inv (per_ip_connection_limit (ip_counts s)) (ip_counts s) {#}"
    using assms(11) by (simp add: run_inv_def ip_inv_def counts_def tree_count_absent)
  then show "data_ok s ([], [], []) ([], [])" using assms by (simp add: data_ok_def addresses_def)
qed (simp add: ordered_def)

lemma server_run_ok: "server_run strict s \<Longrightarrow> run_ok strict s"
proof (induction rule: server_run.induct)
  case (start s)
  then show ?case using start_ok [of s strict] by (auto simp: run_ok_def)
next
  case (handled s c x d)
  obtain as ss zs X where ok: "server_ok strict s (as, ss, zs) X" using handled.IH unfolding run_ok_def by (metis prod_cases3)
  have c: "c \<in> set as" using handled(2) is_active_iff(1) [OF ok] by simp
  have "server_ok strict (s\<lparr>clients := (clients s)(c \<mapsto> x\<lparr>conn := d\<rparr>)\<rparr>) (as, ss, zs) X"
    by (rule change_ok [OF ok handled(3)])
      (use handled(4-7) c data_okD(3) [OF server_okD(2) [OF ok] c handled(3)] server_okD(9) [OF ok c] in \<open>auto simp: active_client_def handle_ok_def\<close>)
  then show ?case using run_okI [OF _ _ handled.IH] handled(3) by (simp add: modify_conn_eq)
next
  case (timeout s c tmo s')
  obtain as ss zs X where ok: "server_ok strict s (as, ss, zs) X" using timeout.IH unfolding run_ok_def by (metis prod_cases3)
  then have "\<exists>s' X'. set_connection_timeout s c tmo = Some s' \<and> server_ok strict s' (as, ss, zs) X'"
    using timeout(2,3) is_active_iff [OF ok, of c] set_timeout_active_ok [OF ok, of c tmo] set_timeout_suspended_ok [OF ok, of c tmo] by blast
  then show ?case using timeout(4) run_okI [OF _ op_config(2) [OF timeout(4)] timeout.IH] by auto
next
  case (upgrade s c x urh_mem r ok s')
  obtain as ss zs X where inv: "server_ok strict s (as, ss, zs) X" using upgrade.IH unfolding run_ok_def by (metis prod_cases3)
  have "c \<in> set as" using upgrade(2) is_active_iff(1) [OF inv] by simp
  then show ?case using upgrade_ok [OF inv _ upgrade(3,4), of urh_mem r] upgrade(5) run_okI [OF _ upgrade_config(2) [OF upgrade(5)] upgrade.IH] by auto
next
  case (upgrade_close s c ok s')
  obtain as ss zs X where inv: "server_ok strict s (as, ss, zs) X" using upgrade_close.IH unfolding run_ok_def by (metis prod_cases3)
  have c: "c \<in> set ss" using upgrade_close(2) is_active_iff(2) [OF inv] by simp
  obtain x where x: "clients s c = Some x" "urh x \<noteq> None"
    using upgrade_close(3) by (auto simp: MHD_upgrade_action_close_def bind_eq_Some_conv)
  then show ?case using upgrade_close_ok [OF inv c x] upgrade_close(3) run_okI [OF _ upgrade_config(3) [OF upgrade_close(3)] upgrade_close.IH] upgrade_close.IH
    by (auto simp: run_ok_def)
next
  case (time s t)
  obtain as ss zs X where ok: "server_ok strict s (as, ss, zs) X" using time.IH unfolding run_ok_def by (metis prod_cases3)
  let ?s = "s\<lparr>config := (config s)\<lparr>monotonic_sec := t\<rparr>\<rparr>"
  have "server_ok strict ?s (as, ss, zs) X"
    using ok time(2) data_cong [of ?s s] by (auto simp: server_ok_def ordered_def activity_def intro: le_trans)
  then show ?case using time.IH by (auto simp: run_ok_def)
next
  case (add s mem sock sa nonblocking ok s')
  then show ?case using server_ops(3) [OF add.IH, of mem sock sa nonblocking] by auto
qed (use client_ops server_ops in \<open>fastforce simp: client_ops_ok_def\<close>)+

declare split_paired_Ex [simp] split_paired_All [simp]

end
