(* ===== verification/Daemon_Timeout.thy ===== *)
theory Daemon_Timeout
  imports Daemon_Run
begin

text \<open>
  What the daemon promises to its event loop: its lists and counters, operations that do not fail, and the time until the first connection times out.
\<close>

declare split_paired_Ex [simp del] split_paired_All [simp del]

section \<open>The first deadline\<close>

definition timeout_of :: "'a server \<Rightarrow> cid \<Rightarrow> nat" where
  "timeout_of s c = (case clients s c of None \<Rightarrow> 0 | Some x \<Rightarrow> connection_timeout (conn x))"

definition deadline :: "'a server \<Rightarrow> cid \<Rightarrow> int" where
  "deadline s c = int (activity s c) + int (timeout_of s c)"

definition earliest :: "int set \<Rightarrow> int option" where
  "earliest D = (if D = {} then None else Some (Min D))"

definition deadlines :: "'a server \<Rightarrow> cid set \<Rightarrow> int set" where
  "deadlines s C = deadline s ` {c \<in> C. timeout_of s c \<noteq> 0}"

text \<open>The time for the event loop in milliseconds.\<close>

definition milliseconds :: "int \<Rightarrow> u64" where
  "milliseconds d = (if d < 0 then 0 else if d > (2 ^ 64 - 1) div 1000 then - 1 else 1000 * word_of_int d)"

lemma earliest_insert:
  assumes "finite D"
  shows "earliest (insert d D) = (case earliest D of None \<Rightarrow> Some d | Some e \<Rightarrow> Some (if e > d then d else e))"
proof (cases "D = {}")
  case False
  have "min d e = (if e > d then d else e)" for e :: int by simp
  then show ?thesis using assms False Min_insert [OF assms False, of d] by (simp del: Min_less_iff Min_gr_iff Min_ge_iff Min_le_iff add: earliest_def)
qed (simp add: earliest_def)

lemma deadlines_finite [simp]: "finite C \<Longrightarrow> finite (deadlines s C)"
  by (simp add: deadlines_def)

lemma deadlines_simps [simp]:
  "deadlines s {} = {}" "deadlines s (C \<union> C') = deadlines s C \<union> deadlines s C'"
  "deadlines s (insert c C) = (if timeout_of s c = 0 then deadlines s C else insert (deadline s c) (deadlines s C))"
  by (auto simp: deadlines_def)

lemma manual_prev:
  assumes "lists_ok s L (ns, ps @ c # rs)"
  shows "prevp (xlinks s) c = last_or None ps"
proof -
  have "dll.family (xlinks s) [(normal_timeout s, ns), (manual_timeout s, ps @ c # rs)]" using assms by (cases L) (simp add: lists_ok_def)
  from dll.family_rep [OF this, of 1] show ?thesis by (simp add: dll_rep_def)
qed

lemma manual_deadline_eq:
  assumes "lists_ok s L (ns, ps @ rs)" "\<And>c. c \<in> set ps \<Longrightarrow> clients s c \<noteq> None" "finite D"
  shows "manual_deadline s (last_or None ps) (earliest D) = Some (earliest (D \<union> deadlines s (set ps)))"
  using assms
proof (induction ps arbitrary: rs D rule: rev_induct)
  case Nil
  then show ?case by (subst manual_deadline.simps) simp
next
  case (snoc c ps)
  have prev: "prevp (xlinks s) c = last_or None ps" using snoc.prems(1) by (intro manual_prev [where rs = rs]) simp
  obtain x where x: "clients s c = Some x" using snoc.prems(2) [of c] by auto
  then have t: "timeout_of s c = connection_timeout (conn x)" "deadline s c = int (last_activity (conn x)) + int (connection_timeout (conn x))"
    by (simp_all add: timeout_of_def deadline_def activity_def)
  let ?D = "if timeout_of s c = 0 then D else insert (deadline s c) D"
  have "manual_deadline s (last_or None (ps @ [c])) (earliest D) = manual_deadline s (last_or None ps) (earliest ?D)"
    using x prev t earliest_insert [OF snoc.prems(3), of "deadline s c"]
    by (subst manual_deadline.simps) (auto simp: Let_def split: option.split)
  also have "\<dots> = Some (earliest (?D \<union> deadlines s (set ps)))"
    by (rule snoc.IH [where rs = "c # rs"]) (use snoc.prems in auto)
  finally show ?case by simp
qed

lemma earliest_Un:
  assumes "finite D" "finite E" "\<And>e. e \<in> E \<Longrightarrow> m \<le> e"
  shows "earliest (insert m D \<union> E) = earliest (insert m D)"
proof (cases "E = {}")
  case False
  have "Min (insert m D) \<le> m" using assms(1) by simp
  also have "m \<le> Min E" using assms(2,3) False by simp
  finally have "Min (insert m D \<union> E) = Min (insert m D)"
    using Min_Un [of "insert m D" E] assms(1,2) False by (simp add: min_def)
  then show ?thesis by (simp add: earliest_def)
qed simp

text \<open>The tail of the list of normal timeouts has the first deadline in it.\<close>

lemma normal_members:
  assumes "server_ok strict s (as, ss, zs) (ns, ms)" "c \<in> set ns"
  obtains x where "clients s c = Some x" "connection_timeout (conn x) = default_timeout s"
proof -
  have "c \<in> set as" using data_okD(5) [OF server_okD(2) [OF assms(1)]] assms(2) by auto
  then obtain x where x: "clients s c = Some x" "active_client s (ns, ms) c x"
    using data_okD(1,3) [OF server_okD(2) [OF assms(1)], of c] by blast
  then show ?thesis using that server_okD(12) [OF assms(1), of c] assms(2) by (auto simp: active_client_def split: if_splits)
qed

lemma normal_tail:
  assumes "server_ok True s (as, ss, zs) (ns @ [c], ms)" "default_timeout s \<noteq> 0" "finite D"
  shows "earliest (D \<union> deadlines s (set (ns @ [c]))) = earliest (insert (deadline s c) D)"
proof -
  have t: "timeout_of s d = default_timeout s" if "d \<in> set (ns @ [c])" for d
    by (rule normal_members [OF assms(1) that]) (simp add: timeout_of_def)
  have "activity s c \<le> activity s d" if "d \<in> set ns" for d
    using server_okD(3) [OF assms(1)] assms(2) that by (auto simp: ordered_def sorted_wrt_append)
  then have "deadline s c \<le> e" if "e \<in> deadlines s (set ns)" for e
    using that t by (auto simp: deadlines_def deadline_def)
  then have "earliest (insert (deadline s c) D \<union> deadlines s (set ns)) = earliest (insert (deadline s c) D)"
    using assms(3) by (intro earliest_Un) simp_all
  moreover have "D \<union> deadlines s (set (ns @ [c])) = insert (deadline s c) D \<union> deadlines s (set ns)"
    using t [of c] assms(2) by auto
  ultimately show ?thesis by simp
qed

lemma get_timeout_eq:
  assumes "server_ok True s (as, ss, zs) (ns, ms)" "\<not> data_already_pending s"
  shows "MHD_get_timeout s = Some (map_option (\<lambda>e. milliseconds (e - int (monotonic_sec (config s)))) (earliest (deadlines s (set as))))"
proof -
  have as: "set as = set ms \<union> set ns" using data_okD(5) [OF server_okD(2) [OF assms(1)]] by auto
  have cl: "clients s c \<noteq> None" if "c \<in> set as" for c using data_okD(1) [OF server_okD(2) [OF assms(1)], of c] that by auto
  have tails: "tail (normal_timeout s) = last_or None ns" "tail (manual_timeout s) = last_or None ms"
    using lists_tail(5,6) [OF server_okD(1) [OF assms(1)]] by simp_all
  have "manual_deadline s (last_or None ms) (earliest {}) = Some (earliest ({} \<union> deadlines s (set ms)))"
    by (rule manual_deadline_eq [where rs = "[]"]) (use server_okD(1) [OF assms(1)] as cl in auto)
  then have m: "manual_deadline s (last_or None ms) None = Some (earliest (deadlines s (set ms)))" by (simp add: earliest_def)
  have all: "earliest (deadlines s (set as)) = (case last_or None ns of None \<Rightarrow> earliest (deadlines s (set ms))
     | Some c \<Rightarrow> if timeout_of s c = 0 then earliest (deadlines s (set ms)) else earliest (insert (deadline s c) (deadlines s (set ms))))"
  proof (cases ns rule: rev_cases)
    case (snoc ns' c)
    have t: "timeout_of s d = default_timeout s" if "d \<in> set ns" for d
      by (rule normal_members [OF assms(1) that]) (simp add: timeout_of_def)
    show ?thesis
    proof (cases "default_timeout s = 0")
      case True
      then have "deadlines s (set ns) = {}" using t by (auto simp: deadlines_def)
      then show ?thesis using as snoc t [of c] True by simp
    next
      case False
      then show ?thesis using normal_tail [of s as ss zs ns' c ms "deadlines s (set ms)"] assms(1) snoc as t [of c] by simp
    qed
  qed (simp add: as)
  have nc: "clients s c \<noteq> None" if "last_or None ns = Some c" for c
    using that as cl last_or_in [OF that] by (cases "ns = []") auto
  show ?thesis
    using assms(2) m all nc tails earliest_insert [of "deadlines s (set ms)"]
    by (auto simp: MHD_get_timeout_def milliseconds_def Let_def timeout_of_def deadline_def activity_def split: option.split)
qed

section \<open>A daemon for examples\<close>

text \<open>At most two connections, a timeout of ten seconds.\<close>

definition example_server :: "unit server" where
  "example_server = \<lparr>config = quiet_daemon\<lparr>options := MHD_TEST_ALLOW_SUSPEND_RESUME\<rparr>, clients = (\<lambda>c. None),
     links = \<lparr>nextp = \<lambda>c. None, prevp = \<lambda>c. None\<rparr>, xlinks = \<lparr>nextp = \<lambda>c. None, prevp = \<lambda>c. None\<rparr>,
     active_list = \<lparr>head = None, tail = None\<rparr>, suspended_list = \<lparr>head = None, tail = None\<rparr>, cleanup_list = \<lparr>head = None, tail = None\<rparr>,
     normal_timeout = \<lparr>head = None, tail = None\<rparr>, manual_timeout = \<lparr>head = None, tail = None\<rparr>, connections = 0, connection_limit = 2,
     default_timeout = 10, any_resuming = False, at_limit = False, data_already_pending = False, was_quiesced = False, listen_fd = 3, apc = None,
     ip_counts = \<lparr>master = None, per_ip_connection_limit = 0, per_ip_connection_count = Null\<rparr>, notifications = [], closed_sockets = []\<rparr>"

definition example_memory :: "cid \<Rightarrow> accept_memory" where
  "example_memory c = \<lparr>am_key = True, am_node = True, am_connection = Some c, am_pool = (True, None, Some []), am_addr = True\<rparr>"

definition example_client :: "nat \<Rightarrow> int \<Rightarrow> unit client" where
  "example_client t sock = \<lparr>conn = (zero_connection \<lparr>memory = [], psize = 0, pos = 0, pend = 0, is_mmap = False\<rparr>)\<lparr>connection_timeout := 10, last_activity := t\<rparr>,
     sockaddr = [], socket_fd = sock, sk_nonblck = True, resuming = False, in_cleanup = False, urh = None\<rparr>"

lemmas example_defs = example_server_def example_memory_def example_client_def quiet_daemon_def MHD_TEST_ALLOW_SUSPEND_RESUME_def MHD_USE_TLS_def

lemma example_start: "server_run strict example_server"
  by (rule server_run.start) (simp_all add: example_defs)

definition one_client :: "unit server" where
  "one_client = example_server\<lparr>clients := [0 \<mapsto> example_client 0 5], active_list := \<lparr>head = Some 0, tail = Some 0\<rparr>,
     normal_timeout := \<lparr>head = Some 0, tail = Some 0\<rparr>, connections := 1, notifications := [(MHD_CONNECTION_NOTIFY_STARTED, 0)]\<rparr>"

lemma one_client_added: "internal_add_connection (example_memory 0) example_server 5 [] True = Some (True, one_client)"
  by (simp add: one_client_def example_defs internal_add_connection_def FD_SETSIZE_def ip_limit_add_def MHD_pool_create_def add_client_def
      timeout_insert_def active_insert_def DLL_insert_def notify_connection_def fun_eq_iff)

lemma one_client_run: "server_run strict one_client"
  by (rule server_run.add [OF example_start _ one_client_added]) (simp add: example_defs)

text \<open>A second connection at second 5.\<close>

definition two_clients :: "unit server" where
  "two_clients = example_server\<lparr>config := (config example_server)\<lparr>monotonic_sec := 5\<rparr>, clients := [0 \<mapsto> example_client 0 5, 1 \<mapsto> example_client 5 6],
     links := \<lparr>nextp = [1 \<mapsto> 0], prevp = [0 \<mapsto> 1]\<rparr>, xlinks := \<lparr>nextp = [1 \<mapsto> 0], prevp = [0 \<mapsto> 1]\<rparr>,
     active_list := \<lparr>head = Some 1, tail = Some 0\<rparr>, normal_timeout := \<lparr>head = Some 1, tail = Some 0\<rparr>, connections := 2,
     notifications := [(MHD_CONNECTION_NOTIFY_STARTED, 0), (MHD_CONNECTION_NOTIFY_STARTED, 1)]\<rparr>"

lemma two_clients_added:
  "internal_add_connection (example_memory 1) (one_client\<lparr>config := (config one_client)\<lparr>monotonic_sec := 5\<rparr>\<rparr>) 6 [] True = Some (True, two_clients)"
  by (simp add: two_clients_def one_client_def example_defs internal_add_connection_def FD_SETSIZE_def ip_limit_add_def MHD_pool_create_def
      add_client_def timeout_insert_def active_insert_def DLL_insert_def notify_connection_def Let_def fun_eq_iff word_le_nat_alt)

lemma two_clients_run: "server_run strict two_clients"
  by (rule server_run.add [OF server_run.time [OF one_client_run, of 5] _ two_clients_added]) (simp_all add: one_client_def example_defs)

section \<open>Properties\<close>

text \<open>
  C3. Whatever connections a daemon accepts, suspends, resumes, upgrades, closes and frees, in whatever order: its connections are in exactly one of the
  lists of active, suspended and closed ones, which are proper doubly linked lists, and the active ones in exactly one of the two lists by timeout.
  The number of connections is the counter, which does not exceed the limit.
\<close>

theorem daemon_lists_partition:
  assumes "server_run strict s"
  shows "\<exists>as ss zs ns ms. dll_rep (links s) (active_list s) as \<and> dll_rep (links s) (suspended_list s) ss \<and> dll_rep (links s) (cleanup_list s) zs
     \<and> dll_rep (xlinks s) (normal_timeout s) ns \<and> dll_rep (xlinks s) (manual_timeout s) ms
     \<and> distinct (as @ ss @ zs) \<and> (\<forall>c. clients s c \<noteq> None \<longleftrightarrow> c \<in> set (as @ ss @ zs)) \<and> distinct (ns @ ms) \<and> set (ns @ ms) = set as
     \<and> unat (connections s) = length (as @ ss @ zs) \<and> connections s \<le> connection_limit s"
proof -
  obtain as ss zs ns ms where ok: "server_ok strict s (as, ss, zs) (ns, ms)"
    using server_run_ok [OF assms] unfolding run_ok_def by (metis prod.collapse)
  have f: "dll.family (links s) [(active_list s, as), (suspended_list s, ss), (cleanup_list s, zs)]"
    "dll.family (xlinks s) [(normal_timeout s, ns), (manual_timeout s, ms)]"
    using server_okD(1) [OF ok] by (simp_all add: lists_ok_def)
  have "dll_rep (links s) (active_list s) as" "dll_rep (links s) (suspended_list s) ss" "dll_rep (links s) (cleanup_list s) zs"
    "dll_rep (xlinks s) (normal_timeout s) ns" "dll_rep (xlinks s) (manual_timeout s) ms"
    using dll.family_rep [OF f(1), of 0] dll.family_rep [OF f(1), of 1] dll.family_rep [OF f(1), of 2] dll.family_rep [OF f(2), of 0]
      dll.family_rep [OF f(2), of 1] by simp_all
  moreover have "distinct (as @ ss @ zs)" using server_okD(4-6,9,10) [OF ok] by auto
  moreover have "distinct (ns @ ms)" using server_okD(7,8,12) [OF ok] by auto
  moreover have "\<forall>c. clients s c \<noteq> None \<longleftrightarrow> c \<in> set (as @ ss @ zs)" "set (ns @ ms) = set as" "unat (connections s) = length (as @ ss @ zs)"
    "connections s \<le> connection_limit s"
    using server_okD(2) [OF ok] by (auto simp: data_ok_def)
  ultimately show ?thesis by blast
qed

theorem daemon_lists_partition_witness:
  "\<exists>as ss zs ns ms. dll_rep (links one_client) (active_list one_client) as \<and> dll_rep (links one_client) (suspended_list one_client) ss
     \<and> dll_rep (links one_client) (cleanup_list one_client) zs
     \<and> dll_rep (xlinks one_client) (normal_timeout one_client) ns \<and> dll_rep (xlinks one_client) (manual_timeout one_client) ms
     \<and> distinct (as @ ss @ zs) \<and> (\<forall>c. clients one_client c \<noteq> None \<longleftrightarrow> c \<in> set (as @ ss @ zs)) \<and> distinct (ns @ ms) \<and> set (ns @ ms) = set as
     \<and> unat (connections one_client) = length (as @ ss @ zs) \<and> connections one_client \<le> connection_limit one_client"
  by (rule daemon_lists_partition [OF one_client_run])

text \<open>
  C6. No operation on the connections of a daemon runs into an assertion, frees or uses a freed connection, or panics over the address counters: in
  every state of a run, accepting, freeing and resuming return, and so do noting activity, suspending and closing of an active
  connection and resuming of a suspended one. The loops over the lists end.
\<close>

theorem daemon_ops_return:
  assumes "server_run strict s"
  shows "(\<forall>c. is_active s c \<longrightarrow> update_last_activity s c \<noteq> None \<and> MHD_suspend_connection s c \<noteq> None \<and> cleanup_connection s c \<noteq> None)
     \<and> (\<forall>c. is_suspended s c \<longrightarrow> MHD_resume_connection s c \<noteq> None)
     \<and> resume_suspended_connections s \<noteq> None \<and> MHD_cleanup_connections s \<noteq> None
     \<and> (\<forall>mem sock sa nonblocking. (\<forall>c. am_connection mem = Some c \<longrightarrow> clients s c = None) \<longrightarrow> internal_add_connection mem s sock sa nonblocking \<noteq> None)"
proof -
  have ok: "run_ok strict s" by (rule server_run_ok [OF assms])
  have "internal_add_connection mem s sock sa nonblocking \<noteq> None" if "\<forall>c. am_connection mem = Some c \<longrightarrow> clients s c = None" for mem sock sa nonblocking
    using server_ops(3) [OF ok, of mem sock sa nonblocking] that by auto
  then show ?thesis using client_ops [OF ok] server_ops(1,2) [OF ok] unfolding client_ops_ok_def by blast
qed

theorem daemon_ops_return_witness:
  "MHD_suspend_connection one_client 0 \<noteq> None \<and> cleanup_connection one_client 0 \<noteq> None \<and> MHD_cleanup_connections one_client \<noteq> None
     \<and> internal_add_connection (example_memory 1) one_client 6 [] True \<noteq> None"
proof -
  have "is_active one_client 0"
    by (auto simp: is_active_def dll_rep_def one_client_def example_server_def first_or_def last_or_def intro!: exI [of _ "[0]"])
  moreover have "\<forall>c. am_connection (example_memory 1) = Some c \<longrightarrow> clients one_client c = None" by (simp add: one_client_def example_memory_def)
  ultimately show ?thesis using daemon_ops_return [OF one_client_run] by blast
qed

text \<open>
  C4. The time for which the event loop may wait is exactly the time until the first active connection times out, although only the oldest connection
  with the timeout of the daemon is looked at, as long as no active connection is set back to that timeout: none if no active connection has a
  timeout, and otherwise the milliseconds up to the earliest deadline, zero if it is over, capped at the largest value.
\<close>

theorem get_timeout_exact:
  assumes "server_run True s" "\<not> data_already_pending s"
  shows "MHD_get_timeout s = Some (map_option (\<lambda>e. milliseconds (e - int (monotonic_sec (config s)))) (earliest (deadlines s {c. is_active s c})))"
proof -
  obtain as ss zs ns ms where ok: "server_ok True s (as, ss, zs) (ns, ms)"
    using server_run_ok [OF assms(1)] unfolding run_ok_def by (metis prod.collapse)
  then have "{c. is_active s c} = set as" using is_active_iff(1) by blast
  then show ?thesis using get_timeout_eq [OF ok assms(2)] by simp
qed

theorem get_timeout_exact_witness:
  "MHD_get_timeout one_client = Some (Some 10000)"
proof -
  have "{c. is_active one_client c} = {0}"
  proof -
    have "dll_rep (links one_client) (active_list one_client) [0]"
      by (simp add: dll_rep_def one_client_def example_server_def)
    then show ?thesis unfolding is_active_def using rep_unique by fastforce
  qed
  moreover have "\<not> data_already_pending one_client" by (simp add: one_client_def example_server_def)
  ultimately show ?thesis using get_timeout_exact [OF one_client_run]
    by (simp add: one_client_def example_defs deadlines_def deadline_def timeout_of_def activity_def earliest_def milliseconds_def)
qed


declare split_paired_Ex [simp] split_paired_All [simp]

end
