(* ===== verification/Daemon_Stop.thy ===== *)
theory Daemon_Stop
  imports Daemon_Timeout
begin

text \<open>
  Stopping a daemon (\<^verbatim>\<open>close_all_connections\<close>): upgraded connections are closed, all others are closed and freed, and nothing is left.
\<close>

declare split_paired_Ex [simp del] split_paired_All [simp del]

section \<open>The steps\<close>

lemma forced_resume:
  assumes "server_ok strict s (as, ss, zs) X" "shutdown (config s)"
  shows "\<exists>ret s' as' zs' X'. resume_suspended_connections (s\<lparr>any_resuming := True\<rparr>) = Some (ret, s')
     \<and> server_ok strict s' (as', filter (\<lambda>c. stays_suspended (the (clients s c))) ss, zs') X' \<and> config s' = config s
     \<and> (\<forall>d. d \<notin> set ss \<or> stays_suspended (the (clients s d)) \<longrightarrow> clients s' d = clients s d)"
proof -
  let ?s = "s\<lparr>any_resuming := False\<rparr>"
  have "server_ok strict ?s (as, ss @ [], zs) X" using resuming_off [OF assms(1)] by simp
  from resume_loop_ok [OF this, of False]
  obtain ret s' as' zs' X' where "resume_loop ?s (last_or None ss) False = Some (ret, s')" "config s' = config ?s"
    "server_ok strict s' (as', filter (\<lambda>c. stays_suspended (the (clients ?s c))) ss @ [], zs') X'"
    "\<forall>d. d \<notin> set ss \<or> stays_suspended (the (clients ?s d)) \<longrightarrow> clients s' d = clients ?s d" by auto
  then show ?thesis using assms(2) lists_tail(2) [OF server_okD(1) [OF assms(1)]] by (auto simp: resume_suspended_connections_def)
qed

definition closed_upgrade :: "'a server \<Rightarrow> cid \<Rightarrow> bool" where
  "closed_upgrade s c \<longleftrightarrow> (\<exists>x u. clients s c = Some x \<and> resuming x \<and> urh x = Some u \<and> was_closed u \<and> clean_ready u)"

lemma shutdown_suspended_ok:
  assumes "server_ok strict s (as, ps @ rs, zs) X" "\<And>c. c \<in> set ps \<Longrightarrow> \<exists>x. clients s c = Some x \<and> urh x \<noteq> None"
    "\<And>c. c \<in> set rs \<Longrightarrow> closed_upgrade s c"
  shows "\<exists>s'. shutdown_suspended s (last_or None ps) = Some s' \<and> server_ok strict s' (as, ps @ rs, zs) X \<and> config s' = config s
     \<and> (\<forall>c \<in> set (ps @ rs). closed_upgrade s' c)"
  using assms
proof (induction ps arbitrary: s rs rule: rev_induct)
  case Nil
  then show ?case by (subst shutdown_suspended.simps) auto
next
  case (snoc c ps)
  have ok: "server_ok strict s (as, ps @ c # rs, zs) X" using snoc.prems(1) by simp
  have prev: "prevp (links s) c = last_or None ps" by (rule suspended_prev [OF server_okD(1) [OF ok]])
  have dis: "c \<notin> set ps" "c \<notin> set rs" using server_okD(5) [OF ok] by auto
  obtain x u where x: "clients s c = Some x" "urh x = Some u" using snoc.prems(2) [of c] by auto
  have sus: "suspended_client x" using data_okD(4) [OF server_okD(2) [OF ok] _ x(1)] by simp
  let ?y = "x\<lparr>urh := Some (u\<lparr>was_closed := True\<rparr>), resuming := True\<rparr>"
  let ?s = "s\<lparr>clients := (clients s)(c \<mapsto> ?y)\<rparr>" and ?s' = "s\<lparr>clients := (clients s)(c \<mapsto> ?y), any_resuming := True\<rparr>"
  have "server_ok strict ?s (as, ps @ c # rs, zs) X"
    by (rule change_ok [OF ok x(1)])
      (use sus x(2) server_okD(10) [OF ok, of c] in \<open>auto simp: suspended_client_def handle_ok_def\<close>)
  then have ok': "server_ok strict ?s' (as, ps @ c # rs, zs) X"
    using data_resuming [of ?s "(as, ps @ c # rs, zs)" X True] ordered_cong [of ?s' ?s X] by (auto simp: server_ok_def)
  have "closed_upgrade ?s' c" using sus x(2) by (auto simp: closed_upgrade_def suspended_client_def handle_ok_def)
  moreover have "closed_upgrade ?s' d" if "d \<in> set rs" for d using snoc.prems(3) [OF that] that dis by (auto simp: closed_upgrade_def)
  moreover have "\<exists>x. clients ?s' d = Some x \<and> urh x \<noteq> None" if "d \<in> set ps" for d using snoc.prems(2) [of d] that dis by auto
  ultimately have "\<exists>s'. shutdown_suspended ?s' (last_or None ps) = Some s' \<and> server_ok strict s' (as, ps @ c # rs, zs) X \<and> config s' = config ?s'
     \<and> (\<forall>c \<in> set (ps @ c # rs). closed_upgrade s' c)"
    by (intro snoc.IH [OF ok']) auto
  moreover have "shutdown_suspended s (last_or None (ps @ [c])) = shutdown_suspended ?s' (last_or None ps)"
    using x prev by (subst shutdown_suspended.simps) (simp add: modify_client_def)
  ultimately show ?case by auto
qed

lemma close_config: "close_connection s c = Some s' \<Longrightarrow> config s' = config s"
  by (auto simp: close_connection_def bind_eq_Some_conv Let_def dest!: list_op_config split: if_splits)

lemma close_active_ok:
  assumes "server_ok strict s (as, ss, zs) X"
  shows "\<exists>s' zs' X'. close_active s = Some s' \<and> server_ok strict s' ([], ss, zs') X' \<and> config s' = config s"
  using assms
proof (induction as arbitrary: s zs X rule: rev_induct)
  case Nil
  then have "close_active s = Some s" using lists_tail(1) [OF server_okD(1) [OF Nil]] by (subst close_active.simps) simp
  then show ?case using Nil by blast
next
  case (snoc c as)
  have "tail (active_list s) = Some c" using lists_tail(1) [OF server_okD(1) [OF snoc.prems]] by simp
  moreover obtain s1 X1 where s1: "close_connection s c = Some s1" "server_ok strict s1 (remove1 c (as @ [c]), ss, c # zs) X1"
    using close_client_ok [OF snoc.prems, of c] by auto
  moreover have "remove1 c (as @ [c]) = as" using server_okD(4) [OF snoc.prems] by (simp add: remove1_append)
  ultimately show ?case using snoc.IH [of s1 "c # zs" X1] close_config [OF s1(1)] by (subst close_active.simps) auto
qed

section \<open>Nothing is left\<close>

lemma close_all_ok:
  assumes "server_ok strict s (as, ss, zs) X" "shutdown (config s)" "options (config s) AND MHD_TEST_ALLOW_SUSPEND_RESUME \<noteq> 0"
    "\<And>c x. c \<in> set ss \<Longrightarrow> clients s c = Some x \<Longrightarrow> if urh x = None then resuming x else options (config s) AND MHD_ALLOW_UPGRADE \<noteq> 0"
  shows "\<exists>s' X'. close_all_connections s = Some s' \<and> server_ok strict s' ([], [], []) X'"
proof -
  let ?up = "options (config s) AND MHD_ALLOW_UPGRADE \<noteq> 0"
  obtain r1 s1 as1 zs1 X1 where 1: "resume_suspended_connections (s\<lparr>any_resuming := True\<rparr>) = Some (r1, s1)" "config s1 = config s"
    "server_ok strict s1 (as1, filter (\<lambda>c. stays_suspended (the (clients s c))) ss, zs1) X1" (is "server_ok strict s1 (as1, ?ss, zs1) X1")
    "\<forall>d. d \<notin> set ss \<or> stays_suspended (the (clients s d)) \<longrightarrow> clients s1 d = clients s d"
    using forced_resume [OF assms(1,2)] by blast
  have up: "?up \<and> (\<exists>x. clients s1 c = Some x \<and> urh x \<noteq> None)" if c: "c \<in> set ?ss" for c
  proof -
    obtain x where x: "clients s c = Some x" using data_okD(1) [OF server_okD(2) [OF assms(1)], of c] c by auto
    then have "urh x \<noteq> None" using c assms(4) [of c x] by (auto simp: stays_suspended_def split: if_splits)
    then show ?thesis using c x assms(4) [of c x] 1(4) by auto
  qed
  have tails: "tail (suspended_list s1) = last_or None ?ss" "head (suspended_list s1) = first_or None ?ss"
    using lists_tail(2,4) [OF server_okD(1) [OF 1(3)]] by auto
  obtain s2 s3 as3 zs3 X3 where 2: "(if ?up then shutdown_suspended s1 (tail (suspended_list s1))
      else if head (suspended_list s1) \<noteq> None then None else Some s1) = Some s2"
    "(if ?up then map_option snd (resume_suspended_connections (s2\<lparr>any_resuming := True\<rparr>)) else Some s2) = Some s3"
    "server_ok strict s3 (as3, [], zs3) X3"
  proof (cases ?up)
    case True
    obtain s2 where s2: "shutdown_suspended s1 (last_or None ?ss) = Some s2" "server_ok strict s2 (as1, ?ss, zs1) X1" "config s2 = config s1"
      "\<forall>c \<in> set ?ss. closed_upgrade s2 c"
      using shutdown_suspended_ok [of strict s1 as1 ?ss "[]" zs1 X1] 1(3) up by auto
    have gone: "filter (\<lambda>c. stays_suspended (the (clients s2 c))) ?ss = []"
      using s2(4) by (auto simp: filter_empty_conv closed_upgrade_def stays_suspended_def)
    have "\<exists>ret s' as' zs' X'. resume_suspended_connections (s2\<lparr>any_resuming := True\<rparr>) = Some (ret, s') \<and> server_ok strict s' (as', [], zs') X'"
      using forced_resume [OF s2(2)] s2(3) 1(2) assms(2) unfolding gone by metis
    then show ?thesis using that True tails s2(1) by (metis option.map(2) snd_conv)
  next
    case False
    then have "?ss = []" using up by (metis last_in_set)
    then show ?thesis using that [of s1 s1 as1 zs1 X1] False tails 1(3) by simp
  qed
  obtain s4 zs4 X4 where 4: "close_active s3 = Some s4" "server_ok strict s4 ([], [], zs4) X4" using close_active_ok [OF 2(3)] by blast
  obtain s5 where 5: "MHD_cleanup_connections s4 = Some s5" "server_ok strict s5 ([], [], []) X4" using cleanup_all_ok [OF 4(2)] by blast
  have "close_all_connections s = Some s5"
    using assms(3) 1(1) 2(1,2) 4(1) 5(1) by (simp add: close_all_connections_def)
  then show ?thesis using 5(2) by blast
qed

text \<open>
  C5. Stopping a daemon always ends and leaves nothing behind: whatever its connections are doing, they are all freed, the counter is zero and every
  list is empty, provided that no connection is suspended which the application has neither resumed nor upgraded.
\<close>

theorem stop_frees_all:
  assumes "server_run strict s" "\<And>c x. is_suspended s c \<Longrightarrow> clients s c = Some x \<Longrightarrow>
     if urh x = None then resuming x else options (config s) AND MHD_ALLOW_UPGRADE \<noteq> 0"
  shows "\<exists>s'. close_all_connections (s\<lparr>config := (config s)\<lparr>shutdown := True\<rparr>\<rparr>) = Some s' \<and> clients s' = (\<lambda>c. None) \<and> connections s' = 0
     \<and> tail (active_list s') = None \<and> tail (suspended_list s') = None \<and> tail (cleanup_list s') = None"
proof -
  obtain as ss zs X where ok: "server_ok strict s (as, ss, zs) X" and opt: "options (config s) AND MHD_TEST_ALLOW_SUSPEND_RESUME \<noteq> 0"
    using server_run_ok [OF assms(1)] unfolding run_ok_def by (metis prod_cases3)
  let ?s = "s\<lparr>config := (config s)\<lparr>shutdown := True\<rparr>\<rparr>"
  have ok': "server_ok strict ?s (as, ss, zs) X"
    using ok data_cong [of ?s s] by (auto simp: server_ok_def ordered_def activity_def)
  have "\<exists>s' X'. close_all_connections ?s = Some s' \<and> server_ok strict s' ([], [], []) X'"
    by (rule close_all_ok [OF ok']) (use opt assms(2) is_active_iff(2) [OF ok] in auto)
  then obtain s' X' where s': "close_all_connections ?s = Some s'" "server_ok strict s' ([], [], []) X'" by blast
  have "clients s' = (\<lambda>c. None)" "unat (connections s') = 0" using server_okD(2) [OF s'(2)] by (auto simp: data_ok_def)
  moreover have "connections s' = 0" using calculation(2) by (simp add: unat_eq_zero)
  moreover have "tail (active_list s') = None" "tail (suspended_list s') = None" "tail (cleanup_list s') = None"
    using lists_tail [OF server_okD(1) [OF s'(2)]] by auto
  ultimately show ?thesis using s'(1) by auto
qed

theorem stop_frees_all_witness:
  "\<exists>s'. close_all_connections (two_clients\<lparr>config := (config two_clients)\<lparr>shutdown := True\<rparr>\<rparr>) = Some s' \<and> clients s' = (\<lambda>c. None) \<and> connections s' = 0
     \<and> tail (active_list s') = None \<and> tail (suspended_list s') = None \<and> tail (cleanup_list s') = None"
proof (rule stop_frees_all [OF two_clients_run])
  fix c x
  assume "is_suspended two_clients c"
  moreover have "dll_rep (links two_clients) (suspended_list two_clients) []" by (simp add: dll_rep_def two_clients_def example_server_def)
  ultimately show "if urh x = None then resuming x else options (config two_clients) AND MHD_ALLOW_UPGRADE \<noteq> 0"
    using rep_unique by (fastforce simp: is_suspended_def)
qed

declare split_paired_Ex [simp] split_paired_All [simp]

end
