(* ===== verification/Daemon_Select.thy ===== *)
theory Daemon_Select
  imports Daemon_Timeout
begin

text \<open>
  What an application with an event loop of its own asks the daemon for: the sets of sockets for \<^verbatim>\<open>select\<close> (\<^verbatim>\<open>MHD_get_fdset\<close> of \<^verbatim>\<open>daemon.c\<close> and
  \<^verbatim>\<open>MHD_add_to_fd_set_\<close> of \<^verbatim>\<open>mhd_sockets.c\<close>), information about connections and the daemon, and to stop listening.

  A set of sockets is a set, a null pointer is \<open>None\<close>. The build has no epoll and no channel between threads.
\<close>

declare split_paired_Ex [simp del] split_paired_All [simp del]

section \<open>Sets of sockets\<close>

record fd_sets =
  read_fds :: "int set option"
  write_fds :: "int set option"
  except_fds :: "int set option"
  max_fd :: "int option"

definition MHD_add_to_fd_set :: "int \<Rightarrow> int set option \<Rightarrow> int option \<Rightarrow> u32 \<Rightarrow> bool \<times> int set option \<times> int option" where
  "MHD_add_to_fd_set sock fds mx fd_setsize =
     (case fds of
        None \<Rightarrow> (False, fds, mx)
      | Some S \<Rightarrow>
          if sock = MHD_INVALID_SOCKET \<or> \<not> sock < sint fd_setsize then (False, fds, mx)
          else (True, Some (insert sock S), map_option (\<lambda>m. if sock > m \<or> m = MHD_INVALID_SOCKET then sock else m) mx))"

definition add_read :: "int \<Rightarrow> u32 \<Rightarrow> fd_sets \<Rightarrow> bool \<times> fd_sets" where
  "add_read sock n f = (case MHD_add_to_fd_set sock (read_fds f) (max_fd f) n of (ok, S, m) \<Rightarrow> (ok, f\<lparr>read_fds := S, max_fd := m\<rparr>))"

definition add_write :: "int \<Rightarrow> u32 \<Rightarrow> fd_sets \<Rightarrow> bool \<times> fd_sets" where
  "add_write sock n f = (case MHD_add_to_fd_set sock (write_fds f) (max_fd f) n of (ok, S, m) \<Rightarrow> (ok, f\<lparr>write_fds := S, max_fd := m\<rparr>))"

definition add_except :: "int \<Rightarrow> u32 \<Rightarrow> fd_sets \<Rightarrow> bool \<times> fd_sets" where
  "add_except sock n f = (case MHD_add_to_fd_set sock (except_fds f) (max_fd f) n of (ok, S, m) \<Rightarrow> (ok, f\<lparr>except_fds := S, max_fd := m\<rparr>))"

text \<open>The socket of one connection.\<close>

definition fdset_client :: "u32 \<Rightarrow> 'a client \<Rightarrow> fd_sets \<Rightarrow> bool \<times> fd_sets" where
  "fdset_client n x f =
     (case event_loop_info (conn x) of
        MHD_EVENT_LOOP_INFO_READ \<Rightarrow> (case add_read (socket_fd x) n f of (ok, f) \<Rightarrow> (ok, snd (add_except (socket_fd x) n f)))
      | MHD_EVENT_LOOP_INFO_WRITE \<Rightarrow> (case add_write (socket_fd x) n f of (ok, f) \<Rightarrow> (ok, snd (add_except (socket_fd x) n f)))
      | MHD_EVENT_LOOP_INFO_BLOCK \<Rightarrow> if except_fds f = None then (False, f) else add_except (socket_fd x) n f
      | MHD_EVENT_LOOP_INFO_CLEANUP \<Rightarrow> (True, f))"

partial_function (option) fdset_loop :: "'a server \<Rightarrow> u32 \<Rightarrow> cid option \<Rightarrow> bool \<Rightarrow> fd_sets \<Rightarrow> (bool \<times> fd_sets) option" where
  "fdset_loop s n at result f =
     (case at of
        None \<Rightarrow> Some (result, f)
      | Some c \<Rightarrow> do {
          x \<leftarrow> clients s c;
          let (ok, f) = fdset_client n x f;
          fdset_loop s n (prevp (links s) c) (result \<and> ok) f
        })"

definition internal_get_fdset2 :: "'a server \<Rightarrow> fd_sets \<Rightarrow> u32 \<Rightarrow> (bool \<times> fd_sets) option" where
  "internal_get_fdset2 s f fd_setsize =
     (if shutdown (config s) then Some (False, f)
      else
        let (ok, f) = (if listen_fd s \<noteq> MHD_INVALID_SOCKET \<and> \<not> was_quiesced s then add_read (listen_fd s) fd_setsize f else (True, f)) in
        fdset_loop s fd_setsize (tail (active_list s)) ok f)"

definition MHD_get_fdset2 :: "'a server \<Rightarrow> fd_sets \<Rightarrow> u32 \<Rightarrow> (bool \<times> fd_sets) option" where
  "MHD_get_fdset2 s f fd_setsize =
     (if read_fds f = None \<or> write_fds f = None \<or> options (config s) AND MHD_USE_INTERNAL_POLLING_THREAD \<noteq> 0
         \<or> options (config s) AND MHD_USE_POLL \<noteq> 0
      then Some (False, f)
      else if except_fds f = None
      then map_option (\<lambda>(ok, g). (ok, g\<lparr>except_fds := None\<rparr>)) (internal_get_fdset2 s (f\<lparr>except_fds := Some {}\<rparr>) fd_setsize)
      else internal_get_fdset2 s f fd_setsize)"

definition MHD_get_fdset :: "'a server \<Rightarrow> fd_sets \<Rightarrow> (bool \<times> fd_sets) option" where
  "MHD_get_fdset s f = MHD_get_fdset2 s f (word_of_int FD_SETSIZE)"

section \<open>Information and the end of listening\<close>

text \<open>The states are numbered in the order of their declaration.\<close>

fun state_number :: "MHD_CONNECTION_STATE \<Rightarrow> nat" where
  "state_number MHD_CONNECTION_INIT = 0"
| "state_number MHD_CONNECTION_URL_RECEIVED = 1"
| "state_number MHD_CONNECTION_HEADER_PART_RECEIVED = 2"
| "state_number MHD_CONNECTION_HEADERS_RECEIVED = 3"
| "state_number MHD_CONNECTION_HEADERS_PROCESSED = 4"
| "state_number MHD_CONNECTION_CONTINUE_SENDING = 5"
| "state_number MHD_CONNECTION_CONTINUE_SENT = 6"
| "state_number MHD_CONNECTION_BODY_RECEIVED = 7"
| "state_number MHD_CONNECTION_FOOTER_PART_RECEIVED = 8"
| "state_number MHD_CONNECTION_FOOTERS_RECEIVED = 9"
| "state_number MHD_CONNECTION_HEADERS_SENDING = 10"
| "state_number MHD_CONNECTION_HEADERS_SENT = 11"
| "state_number MHD_CONNECTION_NORMAL_BODY_READY = 12"
| "state_number MHD_CONNECTION_NORMAL_BODY_UNREADY = 13"
| "state_number MHD_CONNECTION_CHUNKED_BODY_READY = 14"
| "state_number MHD_CONNECTION_CHUNKED_BODY_UNREADY = 15"
| "state_number MHD_CONNECTION_BODY_SENT = 16"
| "state_number MHD_CONNECTION_FOOTERS_SENDING = 17"
| "state_number MHD_CONNECTION_FOOTERS_SENT = 18"
| "state_number MHD_CONNECTION_CLOSED = 19"
| "state_number MHD_CONNECTION_UPGRADE = 20"

instantiation MHD_CONNECTION_STATE :: linorder
begin

definition less_eq_MHD_CONNECTION_STATE :: "MHD_CONNECTION_STATE \<Rightarrow> MHD_CONNECTION_STATE \<Rightarrow> bool" where
  "less_eq_MHD_CONNECTION_STATE a b \<longleftrightarrow> state_number a \<le> state_number b"

definition less_MHD_CONNECTION_STATE :: "MHD_CONNECTION_STATE \<Rightarrow> MHD_CONNECTION_STATE \<Rightarrow> bool" where
  "less_MHD_CONNECTION_STATE a b \<longleftrightarrow> state_number a < state_number b"

instance
proof
  show "a = b" if "a \<le> b" "b \<le> a" for a b :: MHD_CONNECTION_STATE
    using that unfolding less_eq_MHD_CONNECTION_STATE_def by (cases a; cases b) simp_all
qed (auto simp: less_eq_MHD_CONNECTION_STATE_def less_MHD_CONNECTION_STATE_def)

end

datatype MHD_ConnectionInfoType =
    MHD_CONNECTION_INFO_CIPHER_ALGO | MHD_CONNECTION_INFO_PROTOCOL | MHD_CONNECTION_INFO_CLIENT_ADDRESS | MHD_CONNECTION_INFO_GNUTLS_SESSION
  | MHD_CONNECTION_INFO_GNUTLS_CLIENT_CERT | MHD_CONNECTION_INFO_DAEMON | MHD_CONNECTION_INFO_CONNECTION_FD | MHD_CONNECTION_INFO_SOCKET_CONTEXT
  | MHD_CONNECTION_INFO_CONNECTION_SUSPENDED | MHD_CONNECTION_INFO_CONNECTION_TIMEOUT | MHD_CONNECTION_INFO_REQUEST_HEADER_SIZE

text \<open>The field that the result points to.\<close>

datatype connection_info =
  Info_addr "byte list" | Info_daemon | Info_fd int | Info_socket_context | Info_suspended bool | Info_timeout u32 | Info_header_size size_t

definition MHD_get_connection_info :: "'a client \<Rightarrow> MHD_ConnectionInfoType \<Rightarrow> connection_info option" where
  "MHD_get_connection_info x info_type =
     (case info_type of
        MHD_CONNECTION_INFO_CLIENT_ADDRESS \<Rightarrow> Some (Info_addr (sockaddr x))
      | MHD_CONNECTION_INFO_DAEMON \<Rightarrow> Some Info_daemon
      | MHD_CONNECTION_INFO_CONNECTION_FD \<Rightarrow> Some (Info_fd (socket_fd x))
      | MHD_CONNECTION_INFO_SOCKET_CONTEXT \<Rightarrow> Some Info_socket_context
      | MHD_CONNECTION_INFO_CONNECTION_SUSPENDED \<Rightarrow> Some (Info_suspended (suspended (conn x)))
      | MHD_CONNECTION_INFO_CONNECTION_TIMEOUT \<Rightarrow> Some (Info_timeout (word_of_nat (connection_timeout (conn x))))
      | MHD_CONNECTION_INFO_REQUEST_HEADER_SIZE \<Rightarrow>
          if MHD_CONNECTION_HEADERS_RECEIVED > cstate (conn x) \<or> cstate (conn x) = MHD_CONNECTION_CLOSED then None
          else Some (Info_header_size (header_size (conn x)))
      | _ \<Rightarrow> None)"

datatype MHD_DaemonInfoType =
    MHD_DAEMON_INFO_KEY_SIZE | MHD_DAEMON_INFO_MAC_KEY_SIZE | MHD_DAEMON_INFO_LISTEN_FD | MHD_DAEMON_INFO_EPOLL_FD
  | MHD_DAEMON_INFO_CURRENT_CONNECTIONS | MHD_DAEMON_INFO_FLAGS | MHD_DAEMON_INFO_BIND_PORT

datatype daemon_info = Info_listen_fd int | Info_connections u32 | Info_flags u32 | Info_port

definition MHD_get_daemon_info :: "'a server \<Rightarrow> MHD_DaemonInfoType \<Rightarrow> (daemon_info option \<times> 'a server) option" where
  "MHD_get_daemon_info s info_type =
     (case info_type of
        MHD_DAEMON_INFO_LISTEN_FD \<Rightarrow> Some (Some (Info_listen_fd (listen_fd s)), s)
      | MHD_DAEMON_INFO_CURRENT_CONNECTIONS \<Rightarrow>
          if options (config s) AND MHD_USE_INTERNAL_POLLING_THREAD = 0
          then map_option (\<lambda>s. (Some (Info_connections (connections s)), s)) (MHD_cleanup_connections s)
          else Some (Some (Info_connections (connections s)), s)
      | MHD_DAEMON_INFO_FLAGS \<Rightarrow> Some (Some (Info_flags (options (config s))), s)
      | MHD_DAEMON_INFO_BIND_PORT \<Rightarrow> Some (Some Info_port, s)
      | _ \<Rightarrow> Some (None, s))"

definition MHD_USE_ITC :: u32 where "MHD_USE_ITC = 1024"

definition MHD_quiesce_daemon :: "'a server \<Rightarrow> int \<times> 'a server" where
  "MHD_quiesce_daemon s =
     (if listen_fd s = MHD_INVALID_SOCKET then (MHD_INVALID_SOCKET, s)
      else if options (config s) AND MHD_USE_ITC = 0 \<and> options (config s) AND MHD_USE_INTERNAL_POLLING_THREAD \<noteq> 0
      then (MHD_INVALID_SOCKET, s)
      else (listen_fd s, s\<lparr>was_quiesced := True\<rparr>))"

section \<open>What the sets contain\<close>

definition usable :: "u32 \<Rightarrow> int \<Rightarrow> bool" where
  "usable n sock \<longleftrightarrow> sock \<noteq> MHD_INVALID_SOCKET \<and> sock < sint n"

text \<open>The sockets of connections in \<open>C\<close> that wait for something in \<open>I\<close>.\<close>

definition wanted :: "'a server \<Rightarrow> u32 \<Rightarrow> MHD_ConnectionEventLoopInfo set \<Rightarrow> cid set \<Rightarrow> int set" where
  "wanted s n I C = {socket_fd x |c x. c \<in> C \<and> clients s c = Some x \<and> event_loop_info (conn x) \<in> I \<and> usable n (socket_fd x)}"

abbreviation any_event :: "MHD_ConnectionEventLoopInfo set" where
  "any_event \<equiv> {MHD_EVENT_LOOP_INFO_READ, MHD_EVENT_LOOP_INFO_WRITE, MHD_EVENT_LOOP_INFO_BLOCK}"

definition all_fit :: "'a server \<Rightarrow> u32 \<Rightarrow> cid set \<Rightarrow> bool" where
  "all_fit s n C \<longleftrightarrow> (\<forall>c \<in> C. \<forall>x. clients s c = Some x \<longrightarrow> event_loop_info (conn x) \<in> any_event \<longrightarrow> usable n (socket_fd x))"

lemma wanted_finite [simp]: "finite C \<Longrightarrow> finite (wanted s n I C)"
proof -
  assume "finite C"
  have "wanted s n I C \<subseteq> (\<lambda>c. socket_fd (the (clients s c))) ` C" by (force simp: wanted_def)
  then show ?thesis using \<open>finite C\<close> finite_surj by blast
qed

lemma wanted_insert:
  assumes "clients s c = Some x"
  shows "wanted s n I (insert c C) = (if event_loop_info (conn x) \<in> I \<and> usable n (socket_fd x) then {socket_fd x} else {}) \<union> wanted s n I C"
  using assms by (auto simp: wanted_def)

lemma wanted_empty [simp]: "wanted s n I {} = {}"
  by (simp add: wanted_def)

lemma all_fit_simps: "all_fit s n {}"
  "clients s c = Some x \<Longrightarrow> all_fit s n (insert c C) \<longleftrightarrow> (event_loop_info (conn x) \<in> any_event \<longrightarrow> usable n (socket_fd x)) \<and> all_fit s n C"
  by (auto simp: all_fit_def)

text \<open>The sets after the sockets of \<open>C\<close> are added.\<close>

definition sets_with :: "'a server \<Rightarrow> u32 \<Rightarrow> cid set \<Rightarrow> int set \<Rightarrow> int set \<Rightarrow> int set \<Rightarrow> int \<Rightarrow> fd_sets" where
  "sets_with s n C R W E m = \<lparr>read_fds = Some (R \<union> wanted s n {MHD_EVENT_LOOP_INFO_READ} C),
     write_fds = Some (W \<union> wanted s n {MHD_EVENT_LOOP_INFO_WRITE} C), except_fds = Some (E \<union> wanted s n any_event C),
     max_fd = Some (Max (insert m (wanted s n any_event C)))\<rparr>"

lemma Max_insert_Max:
  assumes "finite A" "A \<noteq> {}" "finite B"
  shows "Max (insert (Max A) B) = Max (A \<union> B)"
  using assms by (cases "B = {}") (simp_all add: Max_Un)

lemma add_usable:
  assumes "-1 \<le> sock" "-1 \<le> m"
  shows "MHD_add_to_fd_set sock (Some S) (Some m) n =
     (usable n sock, Some (if usable n sock then insert sock S else S), Some (if usable n sock then max m sock else m))"
  using assms by (auto simp: MHD_add_to_fd_set_def usable_def MHD_INVALID_SOCKET_def)

lemma client_sets:
  assumes "clients s c = Some x" "-1 \<le> socket_fd x" "-1 \<le> m"
  shows "fdset_client n x \<lparr>read_fds = Some R, write_fds = Some W, except_fds = Some E, max_fd = Some m\<rparr> =
     (all_fit s n {c}, sets_with s n {c} R W E m)"
proof -
  have "-1 \<le> max m (socket_fd x)" using assms(3) by simp
  then show ?thesis
    using assms add_usable [of "socket_fd x" m] add_usable [of "socket_fd x" "max m (socket_fd x)"]
    by (cases "event_loop_info (conn x)"; cases "usable n (socket_fd x)")
      (simp_all add: fdset_client_def add_read_def add_write_def add_except_def sets_with_def wanted_insert all_fit_simps max.commute)
qed

lemma sets_with_more:
  assumes "finite C" "finite D" "sets_with s n D R W E m = \<lparr>read_fds = Some R', write_fds = Some W', except_fds = Some E', max_fd = Some m'\<rparr>"
  shows "sets_with s n C R' W' E' m' = sets_with s n (D \<union> C) R W E m"
proof -
  have un: "wanted s n I (D \<union> C) = wanted s n I D \<union> wanted s n I C" for I by (auto simp: wanted_def)
  have "m' = Max (insert m (wanted s n any_event D))" using assms(3) by (simp add: sets_with_def)
  then have "Max (insert m' (wanted s n any_event C)) = Max (insert m (wanted s n any_event (D \<union> C)))"
    using Max_insert_Max [of "insert m (wanted s n any_event D)" "wanted s n any_event C"] assms(1,2) by (simp add: un)
  then show ?thesis using assms(3) by (auto simp: sets_with_def un)
qed

lemma active_prev:
  assumes "lists_ok s (ps @ c # rs, ss, zs) X"
  shows "prevp (links s) c = last_or None ps"
proof -
  have "dll.family (links s) [(active_list s, ps @ c # rs), (suspended_list s, ss), (cleanup_list s, zs)]" using assms by (cases X) (simp add: lists_ok_def)
  from dll.family_rep [OF this, of 0] show ?thesis by (simp add: dll_rep_def)
qed

lemma fdset_loop_eq:
  assumes "lists_ok s (ps @ rs, ss, zs) X" "\<And>c. c \<in> set ps \<Longrightarrow> \<exists>x. clients s c = Some x \<and> -1 \<le> socket_fd x" "-1 \<le> m"
  shows "fdset_loop s n (last_or None ps) result \<lparr>read_fds = Some R, write_fds = Some W, except_fds = Some E, max_fd = Some m\<rparr> =
     Some (result \<and> all_fit s n (set ps), sets_with s n (set ps) R W E m)"
  using assms
proof (induction ps arbitrary: rs R W E m result rule: rev_induct)
  case Nil
  then show ?case by (subst fdset_loop.simps) (simp add: sets_with_def all_fit_simps)
next
  case (snoc c ps)
  have prev: "prevp (links s) c = last_or None ps" using snoc.prems(1) by (intro active_prev [where rs = rs]) simp
  obtain x where x: "clients s c = Some x" "-1 \<le> socket_fd x" using snoc.prems(2) [of c] by auto
  obtain R' W' E' m' where g: "sets_with s n {c} R W E m = \<lparr>read_fds = Some R', write_fds = Some W', except_fds = Some E', max_fd = Some m'\<rparr>"
    by (simp add: sets_with_def)
  have "m \<le> m'" using g by (auto simp: sets_with_def)
  then have m': "-1 \<le> m'" using snoc.prems(3) by simp
  have IH: "fdset_loop s n (last_or None ps) r \<lparr>read_fds = Some R', write_fds = Some W', except_fds = Some E', max_fd = Some m'\<rparr> =
     Some (r \<and> all_fit s n (set ps), sets_with s n (set ps) R' W' E' m')" for r
    by (rule snoc.IH [where rs = "c # rs"]) (use snoc.prems m' in auto)
  have "sets_with s n (set ps) R' W' E' m' = sets_with s n (set (ps @ [c])) R W E m" using sets_with_more [OF _ _ g, of "set ps"] by simp
  moreover have "all_fit s n {c} \<and> all_fit s n (set ps) \<longleftrightarrow> all_fit s n (set (ps @ [c]))" using x by (auto simp: all_fit_simps)
  ultimately show ?case
    using x client_sets [OF x(1,2) snoc.prems(3), of n R W E] g IH prev by (subst fdset_loop.simps) auto
qed

section \<open>Properties\<close>

text \<open>
  C7. The sets for \<^verbatim>\<open>select\<close> are exact: besides the listen socket, the read and the write set have the sockets of exactly those active connections that
  wait for the event, and the third set those of all active connections; the largest socket is reported. The call succeeds unless a socket does
  not fit into a set. Sockets are file descriptors, \<open>-1\<close> is none.
\<close>

theorem select_sets_exact:
  assumes "server_run strict s" "\<not> shutdown (config s)" "options (config s) AND MHD_USE_INTERNAL_POLLING_THREAD = 0" "options (config s) AND MHD_USE_POLL = 0"
    and "-1 \<le> listen_fd s" "\<forall>c x. clients s c = Some x \<longrightarrow> -1 \<le> socket_fd x" "-1 \<le> m"
  shows "let listening = listen_fd s \<noteq> MHD_INVALID_SOCKET \<and> \<not> was_quiesced s;
      L = (if listening \<and> usable n (listen_fd s) then {listen_fd s} else {});
      waiting = (\<lambda>I. {socket_fd x |c x. is_active s c \<and> clients s c = Some x \<and> event_loop_info (conn x) \<in> I \<and> usable n (socket_fd x)}) in
    MHD_get_fdset2 s \<lparr>read_fds = Some R, write_fds = Some W, except_fds = Some E, max_fd = Some m\<rparr> n =
      Some ((listening \<longrightarrow> usable n (listen_fd s)) \<and> (\<forall>c x. is_active s c \<longrightarrow> clients s c = Some x \<longrightarrow> event_loop_info (conn x) \<in> any_event \<longrightarrow> usable n (socket_fd x)),
        \<lparr>read_fds = Some (R \<union> L \<union> waiting {MHD_EVENT_LOOP_INFO_READ}), write_fds = Some (W \<union> waiting {MHD_EVENT_LOOP_INFO_WRITE}),
         except_fds = Some (E \<union> waiting any_event), max_fd = Some (Max (insert m (L \<union> waiting any_event)))\<rparr>)"
proof -
  obtain as ss zs X where ok: "server_ok strict s (as, ss, zs) X"
    using server_run_ok [OF assms(1)] unfolding run_ok_def by (metis prod_cases3)
  have act: "is_active s c \<longleftrightarrow> c \<in> set as" for c by (rule is_active_iff(1) [OF ok])
  have tl: "tail (active_list s) = last_or None as" using lists_tail(1) [OF server_okD(1) [OF ok]] .
  have cl: "\<exists>x. clients s c = Some x \<and> -1 \<le> socket_fd x" if "c \<in> set as" for c
    using data_okD(1) [OF server_okD(2) [OF ok], of c] that assms(6) by auto
  let ?listening = "listen_fd s \<noteq> MHD_INVALID_SOCKET \<and> \<not> was_quiesced s"
  let ?L = "if ?listening \<and> usable n (listen_fd s) then {listen_fd s} else {}"
  let ?m = "Max (insert m ?L)"
  have m: "-1 \<le> ?m" using assms(7) by auto
  have listen: "(if ?listening then add_read (listen_fd s) n \<lparr>read_fds = Some R, write_fds = Some W, except_fds = Some E, max_fd = Some m\<rparr>
      else (True, \<lparr>read_fds = Some R, write_fds = Some W, except_fds = Some E, max_fd = Some m\<rparr>)) =
      (?listening \<longrightarrow> usable n (listen_fd s), \<lparr>read_fds = Some (R \<union> ?L), write_fds = Some W, except_fds = Some E, max_fd = Some ?m\<rparr>)"
    using add_usable [OF assms(5,7)] by (auto simp: add_read_def max.commute)
  have "lists_ok s (as @ [], ss, zs) X" using server_okD(1) [OF ok] by simp
  from fdset_loop_eq [OF this cl m, of n "?listening \<longrightarrow> usable n (listen_fd s)" "R \<union> ?L" W E]
  have "MHD_get_fdset2 s \<lparr>read_fds = Some R, write_fds = Some W, except_fds = Some E, max_fd = Some m\<rparr> n =
      Some ((?listening \<longrightarrow> usable n (listen_fd s)) \<and> all_fit s n (set as), sets_with s n (set as) (R \<union> ?L) W E ?m)"
    using assms(2-4) by (simp only: MHD_get_fdset2_def internal_get_fdset2_def listen tl Let_def) simp
  moreover have "Max (insert ?m (wanted s n any_event (set as))) = Max (insert m (?L \<union> wanted s n any_event (set as)))"
    using Max_insert_Max [of "insert m ?L" "wanted s n any_event (set as)"] by auto
  ultimately show ?thesis by (auto simp: Let_def sets_with_def wanted_def all_fit_def act)
qed

lemma two_clients_active: "is_active two_clients c \<longleftrightarrow> c \<in> {0, 1}"
proof -
  have "dll_rep (links two_clients) (active_list two_clients) [1, 0]" by (simp add: dll_rep_def two_clients_def example_server_def)
  then show ?thesis using rep_unique by (fastforce simp: is_active_def)
qed

theorem select_sets_exact_witness:
  "MHD_get_fdset2 two_clients \<lparr>read_fds = Some {}, write_fds = Some {}, except_fds = Some {}, max_fd = Some (-1)\<rparr> 1024 =
     Some (True, \<lparr>read_fds = Some {3, 5, 6}, write_fds = Some {}, except_fds = Some {5, 6}, max_fd = Some 6\<rparr>)"
proof -
  have c: "clients two_clients c = Some x \<longleftrightarrow> c = 0 \<and> x = example_client 0 5 \<or> c = 1 \<and> x = example_client 5 6" for c x
    by (auto simp: two_clients_def example_server_def)
  have s: "\<not> shutdown (config two_clients)" "options (config two_clients) AND MHD_USE_INTERNAL_POLLING_THREAD = 0"
    "options (config two_clients) AND MHD_USE_POLL = 0" "listen_fd two_clients = 3" "\<not> was_quiesced two_clients"
    by (simp_all add: two_clients_def example_defs MHD_USE_INTERNAL_POLLING_THREAD_def MHD_USE_POLL_def)
  have x: "socket_fd (example_client t k) = k" "event_loop_info (conn (example_client t k)) = MHD_EVENT_LOOP_INFO_READ" for t k
    by (simp_all add: example_client_def zero_connection_def)
  have u: "usable 1024 k \<longleftrightarrow> k \<noteq> -1 \<and> k < 1024" for k by (simp add: usable_def MHD_INVALID_SOCKET_def)
  have "{socket_fd x |c x. is_active two_clients c \<and> clients two_clients c = Some x \<and> event_loop_info (conn x) \<in> I \<and> usable 1024 (socket_fd x)} =
      (if MHD_EVENT_LOOP_INFO_READ \<in> I then {5, 6} else {})" (is "?W = _") for I
  proof -
    have "5 \<in> ?W" if "MHD_EVENT_LOOP_INFO_READ \<in> I"
      using that unfolding mem_Collect_eq by (intro exI [of _ 0] exI [of _ "example_client 0 5"]) (simp add: two_clients_active c x u)
    moreover have "6 \<in> ?W" if "MHD_EVENT_LOOP_INFO_READ \<in> I"
      using that unfolding mem_Collect_eq by (intro exI [of _ 1] exI [of _ "example_client 5 6"]) (simp add: two_clients_active c x u)
    moreover have "?W \<subseteq> (if MHD_EVENT_LOOP_INFO_READ \<in> I then {5, 6} else {})" by (auto simp: two_clients_active c x u)
    moreover have "A = (if b then {5, 6} else {})" if "b \<Longrightarrow> 5 \<in> A" "b \<Longrightarrow> 6 \<in> A" "A \<subseteq> (if b then {5, 6} else {})" for A :: "int set" and b
      using that by auto
    ultimately show ?thesis by (simp only:)
  qed
  then show ?thesis
    using select_sets_exact [OF two_clients_run s(1-3), of "-1" 1024 "{}" "{}" "{}"] s(4,5)
    by (auto simp: c x u MHD_INVALID_SOCKET_def Let_def)
qed

text \<open>The size of the headers is known once the headers have been received.\<close>

lemma header_size_known:
  "MHD_get_connection_info x MHD_CONNECTION_INFO_REQUEST_HEADER_SIZE \<noteq> None \<longleftrightarrow>
     cstate (conn x) \<notin> {MHD_CONNECTION_INIT, MHD_CONNECTION_URL_RECEIVED, MHD_CONNECTION_HEADER_PART_RECEIVED, MHD_CONNECTION_CLOSED}"
  by (cases "cstate (conn x)") (simp_all add: MHD_get_connection_info_def less_MHD_CONNECTION_STATE_def)

text \<open>Asking for the number of connections frees those that are closed first: it is the number of active and suspended ones.\<close>

lemma current_connections:
  assumes "server_run strict s" "options (config s) AND MHD_USE_INTERNAL_POLLING_THREAD = 0"
  shows "\<exists>s' n. MHD_get_daemon_info s MHD_DAEMON_INFO_CURRENT_CONNECTIONS = Some (Some (Info_connections n), s')
     \<and> unat n = card {c. is_active s c \<or> is_suspended s c}"
proof -
  obtain as ss zs X where ok: "server_ok strict s (as, ss, zs) X"
    using server_run_ok [OF assms(1)] unfolding run_ok_def by (metis prod_cases3)
  obtain s' where s': "MHD_cleanup_connections s = Some s'" "server_ok strict s' (as, ss, []) X" using cleanup_all_ok [OF ok] by blast
  have "card {c. is_active s c \<or> is_suspended s c} = card (set (as @ ss))" by (rule arg_cong [of _ _ card]) (auto simp: is_active_iff [OF ok])
  also have "\<dots> = length (as @ ss)" using server_okD(4,5,9) [OF ok] by (intro distinct_card) auto
  also have "\<dots> = unat (connections s')" using server_okD(2) [OF s'(2)] by (simp add: data_ok_def)
  finally show ?thesis using s'(1) assms(2) by (simp add: MHD_get_daemon_info_def)
qed

text \<open>After the end of listening no connection is accepted.\<close>

lemma quiesced_accepts_none:
  assumes "fst (MHD_quiesce_daemon s) \<noteq> MHD_INVALID_SOCKET"
  shows "MHD_accept_connection mem (snd (MHD_quiesce_daemon s)) res = Some (False, snd (MHD_quiesce_daemon s))"
  using assms by (auto simp: MHD_quiesce_daemon_def MHD_accept_connection_def split: if_splits)

declare split_paired_Ex [simp] split_paired_All [simp]

end
