(* ===== verification/Spec2Isabelle.thy ===== *)
theory Spec2Isabelle
  imports Mhd_Token Memory_Pool Ip_Limit Basic_Auth Internal Md5 Sha256 Reason_Phrase Post_Value Auth_Reply Chunked_Body Connection_Notify Daemon_Stop Daemon_Select
begin

text \<open>
  Verification of libmicrohttpd, the embedded HTTP server that the USB maker links. The sources are in
  \<^verbatim>\<open>src/libmicrohttpd/src/microhttpd\<close>; file names below are relative to this directory. The C sources
  of the library are modelled function by function; a definition has the name of the function it translates where
  HOL allows it, and the inner part of a long function (the body of a loop, a case of a switch) is a definition of its own.

  \<^bold>\<open>The program.\<close> A daemon accepts connections, limits their number and the number per address, and gives an event to a connection
  when its socket is ready. A connection reads the request line, the headers and the body into a buffer of its memory pool, calls
  the application, and sends the response that the application has queued. The application uses helpers: the processor for POST
  bodies, authentication by password (basic) and by challenge (digest), and the functions on responses.

  \<^bold>\<open>Conventions.\<close> The build is for a machine with 64-bit pointers, little-endian and with signed characters; it has
  messages, upgrades and assertions, and no TLS, epoll, sendfile and threads. Machine integers are words of their width
  where they may wrap around. Strings are lists of characters without the terminating NUL, memory is a list of bytes or characters that
  includes it. A panic, a failed assertion, the use of a null pointer and an access out of bounds is \<open>None\<close>, and so is
  a loop that does not end; an error that the code reports is a value. What the code is not given by its own sources is an argument:
  the results of the allocator and of the sockets, the clock, and the functions of the application. Log messages and locks are left out.

  \<^bold>\<open>Base.\<close>
  \<^item> \<open>Prelude\<close>: types, strings, \<^verbatim>\<open>strchr\<close>, digits. Its locale \<open>digit_system\<close> is interpreted for decimal and hexadecimal digits.
  \<^item> \<open>Mhd_Str\<close>, \<open>Mhd_Token\<close> (\<^verbatim>\<open>mhd_str.c\<close>): caseless comparison, number parsers of both builds, the search for a token. The locale
    \<open>digit_loop\<close> has the proof for a parsing loop once, its interpretations are the eight loops. The token search is sound; it is complete
    except for a case that is shown to be missed.
  \<^item> \<open>Memory_Pool\<close> (\<^verbatim>\<open>memorypool.c\<close>): the pool with its memory. The blocks a client holds are disjoint and inside of the pool, and keep their
    contents (locale \<open>block_allocator\<close>, interpretation \<open>pool\<close>).
  \<^item> \<open>Tsearch\<close> (\<^verbatim>\<open>tsearch.c\<close>), \<open>Ip_Limit\<close> (\<^verbatim>\<open>daemon.c\<close>): search trees for a comparison (locale \<open>comparison\<close>, interpretation \<open>ipc\<close>), and the
    counters of connections per address, which refine a multiset of open connections.
  \<^item> \<open>Base64\<close>, \<open>Reason_Phrase\<close>, \<open>Internal\<close> (\<^verbatim>\<open>base64.c\<close>, \<^verbatim>\<open>reason_phrase.c\<close>, \<^verbatim>\<open>internal.c\<close>): decoders and tables. Unescaping in place
    is the textbook function, and an encoded query is parsed back to its pairs.
  \<^item> \<open>Hash_Blocks\<close>, \<open>Md5\<close>, \<open>Sha256\<close> (\<^verbatim>\<open>md5.c\<close>, \<^verbatim>\<open>sha256.c\<close>): the hash functions, with the unrolled rounds of the code shown equal to the
    ones of RFC 1321 and FIPS 180-4. The locale \<open>streaming_hash\<close> has the proof for data that comes in pieces; \<open>md5\<close> and \<open>sha256\<close> interpret it.

  \<^bold>\<open>Helpers of the application.\<close>
  \<^item> \<open>Conn_Values\<close> (\<^verbatim>\<open>connection.c\<close>), \<open>Response\<close> (\<^verbatim>\<open>response.c\<close>): values of a request, and responses; a response cannot be built with a header that
    splits it.
  \<^item> \<open>Postprocessor\<close>, \<open>Post_Url\<close>, \<open>Post_Multipart\<close>, \<open>Post_Value\<close> (\<^verbatim>\<open>postprocessor.c\<close>): the model of the parser and what it computes. In
    any split of the body into calls, a url-encoded body gives the entries of an automaton that reads one character at a time; an
    encoded form is read back. Both parsers end and stay in their buffers, and the value of a multipart field is delivered without loss.
  \<^item> \<open>Basic_Auth\<close> (\<^verbatim>\<open>basicauth.c\<close>), \<open>Nonce_Map\<close>, \<open>Digest_Auth\<close>, \<open>Digest_Sound\<close> (\<^verbatim>\<open>digestauth.c\<close>): credentials, the map of nonces, the check of a
    request. The locale \<open>digest_algorithm\<close> is the table of functions that the code selects an algorithm with;
    \<open>md5_alg\<close> and \<open>sha256_alg\<close> interpret it. A request that is accepted proves the knowledge of the password; a nonce counter is accepted at most twice.
  \<^item> \<open>Auth_Reply\<close> (both files): the replies with a challenge, and that a client which answers the challenge with the password is accepted.

  \<^bold>\<open>Connection.\<close>
  \<^item> \<open>Connection\<close>, \<open>Request_Parse\<close>, \<open>Request_Body\<close>, \<open>Reply_Header\<close>, \<open>Reply_Body\<close>, \<open>Connection_Idle\<close> (\<^verbatim>\<open>connection.c\<close>, \<^verbatim>\<open>call_handlers\<close> of \<^verbatim>\<open>daemon.c\<close>): the
    state of a connection, one definition per function, and per state of \<^verbatim>\<open>MHD_connection_handle_idle\<close>.
  \<^item> \<open>Chunked_Body\<close>: a chunked body reaches the application exactly, in any split into reads.
  \<^item> \<open>Connection_Safe\<close>, \<open>Connection_Run\<close>: every function of a connection returns and keeps an invariant, the idle loop ends, and so
    every event in every reachable state is handled.
  \<^item> \<open>Connection_Notify\<close>: the events that the application sees alternate between requests and their completion.

  \<^bold>\<open>Daemon.\<close>
  \<^item> \<open>Dll\<close> (the macros of \<^verbatim>\<open>internal.h\<close>): doubly linked lists on the pointers of their elements; the locale \<open>linked_lists\<close> has what holds for several
    lists over the same fields, its interpretation is \<open>dll\<close>.
  \<^item> \<open>Daemon_Lists\<close> (\<^verbatim>\<open>daemon.c\<close>, the upgrade of \<^verbatim>\<open>response.c\<close>): accepting, suspending, resuming, upgrading, closing and freeing connections, and
    the timeout for the event loop.
  \<^item> \<open>Daemon_Inv\<close>, \<open>Daemon_Run\<close>, \<open>Daemon_Timeout\<close>, \<open>Daemon_Stop\<close>: the invariant, that all operations keep it and return in every run
    (an inductive relation), that the timeout is the first deadline, and that stopping frees every connection.
  \<^item> \<open>Daemon_Select\<close> (\<^verbatim>\<open>daemon.c\<close>, \<^verbatim>\<open>MHD_add_to_fd_set_\<close> of \<^verbatim>\<open>mhd_sockets.c\<close>, \<^verbatim>\<open>MHD_get_connection_info\<close>): the sets for \<^verbatim>\<open>select\<close>, which have exactly the sockets that
    connections wait for, information about connections and the daemon, and the end of listening.

  \<^bold>\<open>Termination.\<close> Loops with a bound in their arguments are functions with a measure. The others (\<open>url_loop\<close>, \<open>multipart_loop\<close>, \<open>get_value_loop\<close>,
  \<open>scan_value\<close>, \<open>idle_loop\<close>, \<open>event_info_loop\<close>, \<open>fdset_loop\<close> and the other loops over the lists of a daemon) are partial, and the theorems about them state that they return a
  value, from the invariant of their component. There is no fuel.

  \<^bold>\<open>Not modelled.\<close> The threads and the loops around \<^verbatim>\<open>select\<close>, \<^verbatim>\<open>poll\<close> and \<^verbatim>\<open>epoll\<close>, and the options of a daemon: their effect is the events and
  parameters of the models. TLS (\<^verbatim>\<open>connection_https.c\<close>) only calls another library. The wrappers of the operating system (\<^verbatim>\<open>mhd_threads.c\<close>, \<^verbatim>\<open>mhd_itc.c\<close>,
  \<^verbatim>\<open>mhd_sockets.c\<close>, \<^verbatim>\<open>mhd_mono_clock.c\<close>) have no logic of their own. The second version of the library in \<^verbatim>\<open>src/lib\<close> is an unfinished copy. The
  application itself and its partition library are C++ programs around Qt and Windows devices.
\<close>

end
